(* ===== verification/Prelude.thy ===== *)
theory Prelude
  imports Main "HOL-Library.Word" "HOL-Library.Sublist"
begin

text \<open>
  Shared vocabulary of the development. Fallible Go functions \<open>(T, error)\<close> become values of the
  sum type \<open>'e + 'a\<close> (\<open>Inl\<close> the error); \<open>rbind\<close> is the \<open>if err != nil { return err }\<close> idiom,
  \<open>rfold\<close> a loop whose body may return early with an error, \<open>rmap\<close> a loop that appends one
  converted element per iteration. The positional number system (\<open>to_digits\<close>, \<open>from_digits\<close>)
  is what decimal and hexadecimal numbers, IP addresses and little-endian words share.
\<close>

named_theorems go_eval \<open>evaluation rules of the Go library functions on literal arguments\<close>
named_theorems step_simps \<open>equations of the step functions of the parsers\<close>
named_theorems wf_rules \<open>preservation of well-formedness\<close>

type_synonym byte = char
type_synonym bytes = "char list"
type_synonym u8 = "8 word"
type_synonym u16 = "16 word"
type_synonym u32 = "32 word"
type_synonym u64 = "64 word"

abbreviation ord :: "char \<Rightarrow> nat" where "ord c \<equiv> of_char c"

section \<open>Early return\<close>

definition rbind :: "'e + 'a \<Rightarrow> ('a \<Rightarrow> 'e + 'b) \<Rightarrow> 'e + 'b" where
  "rbind m f = (case m of Inl e \<Rightarrow> Inl e | Inr x \<Rightarrow> f x)"

lemma rbind_Inl [simp]: "rbind (Inl e) f = Inl e"
  by (simp add: rbind_def)

lemma rbind_Inr [simp]: "rbind (Inr x) f = f x"
  by (simp add: rbind_def)

lemma rbind_eq_Inr: "rbind m f = Inr y \<longleftrightarrow> (\<exists>x. m = Inr x \<and> f x = Inr y)"
  by (cases m) auto

lemma rbind_eq_Inl: "rbind m f = Inl e \<longleftrightarrow> m = Inl e \<or> (\<exists>x. m = Inr x \<and> f x = Inl e)"
  by (cases m) auto

lemma rbind_InrE:
  assumes "rbind m f = Inr y"
  obtains x where "m = Inr x" "f x = Inr y"
  using assms by (auto simp: rbind_eq_Inr)

lemma if_InrE:
  assumes "(if b then x else y) = Inr r"
  obtains "b" "x = Inr r" | "\<not> b" "y = Inr r"
  using assms by (auto split: if_splits)

lemma rbind_cong [fundef_cong]:
  "m = m' \<Longrightarrow> (\<And>x. m' = Inr x \<Longrightarrow> f x = f' x) \<Longrightarrow> rbind m f = rbind m' f'"
  by (cases m') auto

fun rfold :: "('s \<Rightarrow> 'a \<Rightarrow> 'e + 's) \<Rightarrow> 's \<Rightarrow> 'a list \<Rightarrow> 'e + 's" where
  "rfold f s [] = Inr s"
| "rfold f s (x # xs) = rbind (f s x) (\<lambda>s'. rfold f s' xs)"

lemma rfold_append: "rfold f s (xs @ ys) = rbind (rfold f s xs) (\<lambda>s'. rfold f s' ys)"
proof (induction xs arbitrary: s)
  case (Cons x xs)
  then show ?case by (cases "f s x") auto
qed simp

lemma rfold_inv:
  assumes "rfold f s xs = Inr t" and "P s"
    and "\<And>s x s'. x \<in> set xs \<Longrightarrow> P s \<Longrightarrow> f s x = Inr s' \<Longrightarrow> P s'"
  shows "P t"
  using assms
proof (induction xs arbitrary: s)
  case (Cons x xs)
  from Cons.prems(1) obtain s' where "f s x = Inr s'" and "rfold f s' xs = Inr t"
    by (auto simp: rbind_eq_Inr)
  with Cons.prems(2,3) show ?case by (intro Cons.IH [of s']) auto
qed simp

fun rmap :: "('a \<Rightarrow> 'e + 'b) \<Rightarrow> 'a list \<Rightarrow> 'e + 'b list" where
  "rmap f [] = Inr []"
| "rmap f (x # xs) = rbind (f x) (\<lambda>y. rbind (rmap f xs) (\<lambda>ys. Inr (y # ys)))"

lemma rmap_Inr_iff: "rmap f xs = Inr ys \<longleftrightarrow> list_all2 (\<lambda>x y. f x = Inr y) xs ys"
proof (induction xs arbitrary: ys)
  case (Cons x xs)
  then show ?case by (cases ys) (auto simp: rbind_eq_Inr)
qed auto

lemma rmap_InrD: "rmap f xs = Inr ys \<Longrightarrow> y \<in> set ys \<Longrightarrow> \<exists>x \<in> set xs. f x = Inr y"
  by (induction xs arbitrary: ys) (auto simp: rbind_eq_Inr)

lemma rmap_map_Inr: "(\<And>y. y \<in> set ys \<Longrightarrow> f (g y) = Inr y) \<Longrightarrow> rmap f (map g ys) = Inr ys"
  by (induction ys) auto

section \<open>Lists\<close>

lemma takeWhile_neq_append [simp]:
  "c \<notin> set xs \<Longrightarrow> takeWhile (\<lambda>x. x \<noteq> c) (xs @ c # ys) = xs"
  by (induction xs) auto

lemma dropWhile_neq_append [simp]:
  "c \<notin> set xs \<Longrightarrow> dropWhile (\<lambda>x. x \<noteq> c) (xs @ c # ys) = c # ys"
  by (induction xs) auto

lemma takeWhile_neq_id [simp]: "c \<notin> set xs \<Longrightarrow> takeWhile (\<lambda>x. x \<noteq> c) xs = xs"
  by (induction xs) auto

lemma dropWhile_neq_Nil [simp]: "c \<notin> set xs \<Longrightarrow> dropWhile (\<lambda>x. x \<noteq> c) xs = []"
  by (induction xs) auto

section \<open>Positional numbers\<close>

text \<open>
  \<open>to_digits b n x\<close>: the \<open>n\<close> least significant digits of \<open>x\<close> in base \<open>b\<close>, most significant
  first; \<open>from_digits b ds\<close>: the number the digits \<open>ds\<close> denote.
\<close>

fun to_digits :: "nat \<Rightarrow> nat \<Rightarrow> nat \<Rightarrow> nat list" where
  "to_digits b 0 x = []"
| "to_digits b (Suc n) x = to_digits b n (x div b) @ [x mod b]"

definition from_digits :: "nat \<Rightarrow> nat list \<Rightarrow> nat" where
  "from_digits b ds = foldl (\<lambda>acc d. acc * b + d) 0 ds"

lemma from_digits_Nil [simp]: "from_digits b [] = 0"
  by (simp add: from_digits_def)

lemma from_digits_snoc [simp]: "from_digits b (ds @ [d]) = from_digits b ds * b + d"
  by (simp add: from_digits_def)

lemma length_to_digits [simp]: "length (to_digits b n x) = n"
  by (induction n arbitrary: x) auto

lemma to_digits_less: "0 < b \<Longrightarrow> d \<in> set (to_digits b n x) \<Longrightarrow> d < b"
  by (induction n arbitrary: x) auto

lemma from_to_digits: "from_digits b (to_digits b n x) = x mod b ^ n"
proof (induction n arbitrary: x)
  case (Suc n)
  have "x mod (b * b ^ n) = b * (x div b mod b ^ n) + x mod b"
    by (rule mod_mult2_eq)
  with Suc show ?case by (simp add: algebra_simps)
qed simp

lemma from_digits_less: "(\<And>d. d \<in> set ds \<Longrightarrow> d < b) \<Longrightarrow> from_digits b ds < b ^ length ds"
proof (induction ds rule: rev_induct)
  case (snoc d ds)
  then have "from_digits b ds < b ^ length ds" and "d < b" by auto
  then have "from_digits b ds * b + d < (from_digits b ds + 1) * b" by simp
  also have "\<dots> \<le> b ^ length ds * b"
    using \<open>from_digits b ds < b ^ length ds\<close> by (intro mult_le_mono1) simp
  finally show ?case by (simp add: mult.commute)
qed simp

lemma to_from_digits: "(\<And>d. d \<in> set ds \<Longrightarrow> d < b) \<Longrightarrow> to_digits b (length ds) (from_digits b ds) = ds"
proof (induction ds rule: rev_induct)
  case (snoc d ds)
  then have "d < b" by simp
  then have "(from_digits b ds * b + d) div b = from_digits b ds" by simp
  with snoc \<open>d < b\<close> show ?case by simp
qed simp

lemma div_mod_digit: "d < b \<Longrightarrow> (x * b + d) div b = x" "d < b \<Longrightarrow> (x * b + d) mod b = d" for b d x :: nat
  by simp_all

lemma from_digits_append:
  "from_digits b (xs @ ys) = from_digits b xs * b ^ length ys + from_digits b ys"
proof (induction ys rule: rev_induct)
  case (snoc y ys)
  have "from_digits b (xs @ ys @ [y]) = from_digits b (xs @ ys) * b + y"
    by (metis append_assoc from_digits_snoc)
  with snoc show ?case by (simp add: algebra_simps)
qed simp

lemma from_digits_singleton [simp]: "from_digits b [d] = d"
  by (simp add: from_digits_def)

end
