(* ===== verification/GoStrings.thy ===== *)
theory GoStrings
  imports Prelude
begin

text \<open>
  The functions of Go's \<open>strings\<close>, \<open>bytes\<close> and \<open>unicode/utf8\<close> packages the program uses. A Go
  string is its bytes, a \<open>char list\<close>. Whitespace is Unicode's (\<open>unicode.IsSpace\<close>), recognised by
  its UTF-8 encodings; lower-casing decodes runes. Unicode's case table for runes beyond ASCII is
  the argument \<open>ul\<close> of \<open>strings_ToLower\<close>; the two runes beyond ASCII whose lower case is
  an ASCII letter, U+0130 and U+212A, are fixed by the definition.
\<close>

section \<open>Searching and splitting\<close>

fun strings_Cut :: "string \<Rightarrow> string \<Rightarrow> string \<times> string \<times> bool" where
  "strings_Cut s sep =
     (if prefix sep s then ([], drop (length sep) s, True)
      else case s of [] \<Rightarrow> ([], [], False)
        | c # cs \<Rightarrow> (case strings_Cut cs sep of (b, a, ok) \<Rightarrow> (c # b, a, ok)))"

declare strings_Cut.simps [simp del]

lemma strings_Cut_Nil [simp]: "strings_Cut [] [d] = ([], [], False)"
  by (subst strings_Cut.simps) simp

lemma strings_Cut_Cons [simp]:
  "strings_Cut (c # cs) [d] =
     (if c = d then ([], cs, True) else case strings_Cut cs [d] of (b, a, ok) \<Rightarrow> (c # b, a, ok))"
  by (subst strings_Cut.simps) auto

lemma strings_Cut_char:
  "strings_Cut s [c] = (takeWhile (\<lambda>x. x \<noteq> c) s, tl (dropWhile (\<lambda>x. x \<noteq> c) s), c \<in> set s)"
  by (induction s) auto

lemma strings_Cut_char_append [simp]: "c \<notin> set s \<Longrightarrow> strings_Cut (s @ c # t) [c] = (s, t, True)"
  by (simp add: strings_Cut_char)

lemma strings_Cut_char_none [simp]: "c \<notin> set s \<Longrightarrow> strings_Cut s [c] = (s, [], False)"
  by (simp add: strings_Cut_char)

definition strings_HasPrefix :: "string \<Rightarrow> string \<Rightarrow> bool" where
  "strings_HasPrefix s p = prefix p s"

definition strings_HasSuffix :: "string \<Rightarrow> string \<Rightarrow> bool" where
  "strings_HasSuffix s p = suffix p s"

definition strings_TrimPrefix :: "string \<Rightarrow> string \<Rightarrow> string" where
  "strings_TrimPrefix s p = (if prefix p s then drop (length p) s else s)"

definition strings_TrimSuffix :: "string \<Rightarrow> string \<Rightarrow> string" where
  "strings_TrimSuffix s p = (if suffix p s then take (length s - length p) s else s)"

lemma strings_TrimSuffix_append [simp]: "strings_TrimSuffix (s @ p) p = s"
  by (simp add: strings_TrimSuffix_def suffix_def)

text \<open>\<open>strings.IndexByte\<close> and \<open>strings.LastIndexByte\<close>; \<open>None\<close> is the result \<open>-1\<close>.\<close>

fun strings_IndexByte :: "string \<Rightarrow> char \<Rightarrow> nat option" where
  "strings_IndexByte [] c = None"
| "strings_IndexByte (x # xs) c = (if x = c then Some 0 else map_option Suc (strings_IndexByte xs c))"

fun strings_LastIndexByte :: "string \<Rightarrow> char \<Rightarrow> nat option" where
  "strings_LastIndexByte [] c = None"
| "strings_LastIndexByte (x # xs) c =
     (case strings_LastIndexByte xs c of Some i \<Rightarrow> Some (Suc i) | None \<Rightarrow> if x = c then Some 0 else None)"

lemma strings_IndexByte_None [simp]: "strings_IndexByte s c = None \<longleftrightarrow> c \<notin> set s"
  by (induction s) auto

lemma strings_LastIndexByte_None [simp]: "strings_LastIndexByte s c = None \<longleftrightarrow> c \<notin> set s"
  by (induction s) (auto split: option.splits)

lemma strings_IndexByte_notin [simp]: "c \<notin> set s \<Longrightarrow> strings_IndexByte s c = None"
  by simp

lemma strings_LastIndexByte_notin [simp]: "c \<notin> set s \<Longrightarrow> strings_LastIndexByte s c = None"
  by simp

lemma strings_IndexByte_append:
  "c \<notin> set s \<Longrightarrow> strings_IndexByte (s @ c # t) c = Some (length s)"
  by (induction s) auto

lemma strings_LastIndexByte_append:
  "c \<notin> set t \<Longrightarrow> strings_LastIndexByte (s @ c # t) c = Some (length s)"
  by (induction s) auto

lemma strings_LastIndexByte_SomeD:
  "strings_LastIndexByte s c = Some i \<Longrightarrow>
     s = take i s @ c # drop (Suc i) s \<and> c \<notin> set (drop (Suc i) s) \<and> i < length s"
  by (induction s arbitrary: i) (auto split: option.splits if_splits)

text \<open>\<open>strings.Split\<close> with a one-byte separator, and \<open>strings.Join\<close>.\<close>

fun strings_Split :: "string \<Rightarrow> char \<Rightarrow> string list" where
  "strings_Split [] c = [[]]"
| "strings_Split (x # xs) c =
     (if x = c then [] # strings_Split xs c
      else case strings_Split xs c of [] \<Rightarrow> [[x]] | t # ts \<Rightarrow> (x # t) # ts)"

lemma strings_Split_not_Nil [simp]: "strings_Split s c \<noteq> []"
  by (induction s) (auto split: list.splits)

lemma strings_Split_no_sep: "c \<notin> set s \<Longrightarrow> strings_Split s c = [s]"
  by (induction s) auto

lemma strings_Split_append: "c \<notin> set s \<Longrightarrow> strings_Split (s @ c # t) c = s # strings_Split t c"
  by (induction s) auto

lemma strings_Split_no_sepD: "t \<in> set (strings_Split s c) \<Longrightarrow> c \<notin> set t"
  by (induction s arbitrary: t) (auto split: list.splits if_splits)

lemma set_strings_Split: "t \<in> set (strings_Split s c) \<Longrightarrow> set t \<subseteq> set s"
proof (induction s arbitrary: t)
  case (Cons x xs)
  then show ?case by (cases "strings_Split xs c") (auto split: if_splits, force+)
qed simp

lemma strings_Split_lines:
  "(\<And>l. l \<in> set ls \<Longrightarrow> c \<notin> set l) \<Longrightarrow>
     strings_Split (concat (map (\<lambda>l. l @ [c]) ls)) c = ls @ [[]]"
  by (induction ls) (auto simp: strings_Split_append)

lemma length_strings_Split: "length (strings_Split s c) = Suc (count_list s c)"
proof (induction s)
  case (Cons x xs)
  then show ?case by (cases "strings_Split xs c") auto
qed simp

fun strings_Join :: "string list \<Rightarrow> string \<Rightarrow> string" where
  "strings_Join [] sep = []"
| "strings_Join [x] sep = x"
| "strings_Join (x # y # ys) sep = x @ sep @ strings_Join (y # ys) sep"

lemma strings_Join_Cons: "xs \<noteq> [] \<Longrightarrow> strings_Join (x # xs) sep = x @ sep @ strings_Join xs sep"
  by (cases xs) auto

lemma strings_Join_Split: "strings_Join (strings_Split s c) [c] = s"
proof (induction s)
  case (Cons x xs)
  note IH = Cons
  show ?case
  proof (cases "strings_Split xs c")
    case (Cons t ts)
    with IH show ?thesis by (cases ts) auto
  qed simp
qed simp

lemma set_strings_Join: "x \<in> set (strings_Join xs sep) \<Longrightarrow> (\<exists>y \<in> set xs. x \<in> set y) \<or> x \<in> set sep"
  by (induction xs sep rule: strings_Join.induct) auto

section \<open>Trimming\<close>

text \<open>The UTF-8 encodings of the runes for which \<open>unicode.IsSpace\<close> holds.\<close>

definition space_encs :: "string list" where
  "space_encs =
     [[CHR 0x20], [CHR 0x09], [CHR 0x0A], [CHR 0x0B], [CHR 0x0C], [CHR 0x0D],
      [CHR 0xC2, CHR 0x85], [CHR 0xC2, CHR 0xA0], [CHR 0xE1, CHR 0x9A, CHR 0x80],
      [CHR 0xE2, CHR 0x80, CHR 0x80], [CHR 0xE2, CHR 0x80, CHR 0x81], [CHR 0xE2, CHR 0x80, CHR 0x82],
      [CHR 0xE2, CHR 0x80, CHR 0x83], [CHR 0xE2, CHR 0x80, CHR 0x84], [CHR 0xE2, CHR 0x80, CHR 0x85],
      [CHR 0xE2, CHR 0x80, CHR 0x86], [CHR 0xE2, CHR 0x80, CHR 0x87], [CHR 0xE2, CHR 0x80, CHR 0x88],
      [CHR 0xE2, CHR 0x80, CHR 0x89], [CHR 0xE2, CHR 0x80, CHR 0x8A], [CHR 0xE2, CHR 0x80, CHR 0xA8],
      [CHR 0xE2, CHR 0x80, CHR 0xA9], [CHR 0xE2, CHR 0x80, CHR 0xAF], [CHR 0xE2, CHR 0x81, CHR 0x9F],
      [CHR 0xE3, CHR 0x80, CHR 0x80]]"

text \<open>\<open>strip es s\<close> removes the encodings \<open>es\<close> from the front of \<open>s\<close> while one is there.\<close>

function strip :: "string list \<Rightarrow> string \<Rightarrow> string" where
  "strip es s =
     (case find (\<lambda>e. e \<noteq> [] \<and> prefix e s) es of None \<Rightarrow> s | Some e \<Rightarrow> strip es (drop (length e) s))"
  by pat_completeness auto
termination
  by (relation "measure (\<lambda>(es, s). length s)")
    (auto simp: find_Some_iff prefix_def)

declare strip.simps [simp del]

definition strings_TrimLeftSpace :: "string \<Rightarrow> string" where
  "strings_TrimLeftSpace s = strip space_encs s"

definition strings_TrimRightSpace :: "string \<Rightarrow> string" where
  "strings_TrimRightSpace s = rev (strip (map rev space_encs) (rev s))"

definition strings_TrimSpace :: "string \<Rightarrow> string" where
  "strings_TrimSpace s = strings_TrimRightSpace (strings_TrimLeftSpace s)"

text \<open>\<open>strings.TrimRight\<close> and \<open>strings.Trim\<close> with an ASCII cutset.\<close>

definition strings_TrimRight :: "string \<Rightarrow> char list \<Rightarrow> string" where
  "strings_TrimRight s cutset = rev (dropWhile (\<lambda>c. c \<in> set cutset) (rev s))"

definition strings_Trim :: "string \<Rightarrow> char list \<Rightarrow> string" where
  "strings_Trim s cutset = strings_TrimRight (dropWhile (\<lambda>c. c \<in> set cutset) s) cutset"

definition no_space_front :: "string \<Rightarrow> bool" where
  "no_space_front s \<longleftrightarrow> (\<forall>e \<in> set space_encs. \<not> prefix e s)"

definition no_space_back :: "string \<Rightarrow> bool" where
  "no_space_back s \<longleftrightarrow> (\<forall>e \<in> set space_encs. \<not> suffix e s)"

definition trimmed :: "string \<Rightarrow> bool" where
  "trimmed s \<longleftrightarrow> no_space_front s \<and> no_space_back s"

lemma space_encs_not_Nil [simp]: "[] \<notin> set space_encs"
  by (simp add: space_encs_def)

lemma space_encs_all_ascii_or_high:
  "\<forall>e \<in> set space_encs. length e = 1 \<and> ord (hd e) < 128 \<or> (\<forall>c \<in> set e. 128 \<le> ord c)"
  by (simp add: space_encs_def)

lemma space_encs_ascii_or_high:
  "e \<in> set space_encs \<Longrightarrow> length e = 1 \<and> ord (hd e) < 128 \<or> (\<forall>c \<in> set e. 128 \<le> ord c)"
  using space_encs_all_ascii_or_high by blast

lemma strip_id: "(\<forall>e \<in> set es. \<not> prefix e s) \<Longrightarrow> strip es s = s"
  by (subst strip.simps) (auto simp: find_None_iff split: option.splits dest: find_Some_iff [THEN iffD1])

lemma strip_result: "[] \<notin> set es \<Longrightarrow> e \<in> set es \<Longrightarrow> \<not> prefix e (strip es s)"
proof (induction es s rule: strip.induct)
  case (1 es s)
  show ?case
  proof (cases "find (\<lambda>e. e \<noteq> [] \<and> prefix e s) es")
    case None
    then have "strip es s = s" by (subst strip.simps) simp
    moreover from None \<open>[] \<notin> set es\<close> \<open>e \<in> set es\<close> have "\<not> prefix e s"
      by (auto simp: find_None_iff)
    ultimately show ?thesis by simp
  next
    case (Some e')
    then have "strip es s = strip es (drop (length e') s)" by (subst strip.simps) simp
    with 1 Some show ?thesis by simp
  qed
qed

lemma strip_suffix: "suffix (strip es s) s"
proof (induction es s rule: strip.induct)
  case (1 es s)
  show ?case
  proof (cases "find (\<lambda>e. e \<noteq> [] \<and> prefix e s) es")
    case (Some e')
    then have "strip es s = strip es (drop (length e') s)" by (subst strip.simps) simp
    moreover have "suffix (drop (length e') s) s" by (rule suffix_drop)
    ultimately show ?thesis
      using "1.IH" [OF Some] by (auto intro: suffix_order.trans)
  qed (subst strip.simps, simp)
qed

lemma strip_one:
  assumes "[c] \<in> set es" and "\<And>e. e \<in> set es \<Longrightarrow> e \<noteq> [] \<and> (hd e = c \<longrightarrow> e = [c])"
  shows "strip es (c # s) = strip es s"
proof -
  have "find (\<lambda>e. e \<noteq> [] \<and> prefix e (c # s)) es = Some [c]"
  proof -
    have *: "e \<in> set es \<Longrightarrow> (e \<noteq> [] \<and> prefix e (c # s)) \<longleftrightarrow> e = [c]" for e
      using assms(2) [of e] by (cases e) auto
    have "find (\<lambda>e. e \<noteq> [] \<and> prefix e (c # s)) es = find (\<lambda>e. e = [c]) es"
      using * by (intro find_cong) auto
    also have "\<dots> = Some [c]"
      using assms(1) by (induction es) auto
    finally show ?thesis .
  qed
  then show ?thesis by (subst strip.simps) simp
qed

lemma strings_TrimLeftSpace_id: "no_space_front s \<Longrightarrow> strings_TrimLeftSpace s = s"
  by (simp add: strings_TrimLeftSpace_def no_space_front_def strip_id)

lemma strings_TrimRightSpace_id: "no_space_back s \<Longrightarrow> strings_TrimRightSpace s = s"
  by (simp add: strings_TrimRightSpace_def no_space_back_def strip_id flip: suffix_to_prefix)

lemma strings_TrimSpace_id: "trimmed s \<Longrightarrow> strings_TrimSpace s = s"
  by (simp add: strings_TrimSpace_def trimmed_def strings_TrimLeftSpace_id strings_TrimRightSpace_id)

lemma no_space_front_TrimLeftSpace: "no_space_front (strings_TrimLeftSpace s)"
  by (auto simp: strings_TrimLeftSpace_def no_space_front_def dest: strip_result [rotated])

lemma no_space_back_TrimRightSpace: "no_space_back (strings_TrimRightSpace s)"
proof -
  have "\<not> prefix (rev e) (strip (map rev space_encs) (rev s))" if "e \<in> set space_encs" for e
    using that by (intro strip_result) auto
  then show ?thesis
    by (simp add: no_space_back_def strings_TrimRightSpace_def suffix_to_prefix)
qed

lemma prefix_TrimRightSpace: "prefix (strings_TrimRightSpace s) s"
  using strip_suffix [of "map rev space_encs" "rev s"]
  by (simp add: strings_TrimRightSpace_def suffix_to_prefix)

lemma trimmed_TrimSpace [simp]: "trimmed (strings_TrimSpace s)"
proof -
  let ?t = "strings_TrimLeftSpace s"
  have "no_space_front (strings_TrimRightSpace ?t)"
    using no_space_front_TrimLeftSpace [of s] prefix_TrimRightSpace [of ?t]
    by (auto simp: no_space_front_def dest: prefix_order.trans)
  then show ?thesis
    by (simp add: trimmed_def strings_TrimSpace_def no_space_back_TrimRightSpace)
qed

lemma set_TrimSpace: "set (strings_TrimSpace s) \<subseteq> set s"
proof -
  have "set (strings_TrimRightSpace t) \<subseteq> set t" for t
    using prefix_TrimRightSpace by (rule set_mono_prefix)
  moreover have "set (strings_TrimLeftSpace s) \<subseteq> set s"
    unfolding strings_TrimLeftSpace_def using strip_suffix by (rule set_mono_suffix)
  ultimately show ?thesis by (auto simp: strings_TrimSpace_def)
qed

lemma space_encs_hd_blank: "\<forall>e \<in> set space_encs. hd e = CHR '' '' \<longrightarrow> e = '' ''"
  by (simp add: space_encs_def)

lemma space_encs_last_blank: "\<forall>e \<in> set space_encs. last e = CHR '' '' \<longrightarrow> e = '' ''"
  by (simp add: space_encs_def)

lemma strings_TrimLeftSpace_blank [simp]: "strings_TrimLeftSpace (CHR '' '' # s) = strings_TrimLeftSpace s"
  unfolding strings_TrimLeftSpace_def
proof (rule strip_one)
  show "'' '' \<in> set space_encs" by (simp add: space_encs_def)
  show "e \<noteq> [] \<and> (hd e = CHR '' '' \<longrightarrow> e = '' '')" if "e \<in> set space_encs" for e
    using that space_encs_not_Nil space_encs_hd_blank by metis
qed

lemma strings_TrimRightSpace_blank [simp]: "strings_TrimRightSpace (s @ '' '') = strings_TrimRightSpace s"
proof -
  have "strip (map rev space_encs) (CHR '' '' # rev s) = strip (map rev space_encs) (rev s)"
  proof (rule strip_one)
    show "'' '' \<in> set (map rev space_encs)" by (simp add: space_encs_def)
    show "e \<noteq> [] \<and> (hd e = CHR '' '' \<longrightarrow> e = '' '')" if "e \<in> set (map rev space_encs)" for e
      using that space_encs_last_blank space_encs_not_Nil by (auto simp: hd_rev)
  qed
  then show ?thesis by (simp add: strings_TrimRightSpace_def)
qed

lemma strings_TrimSpace_blank_front [simp]: "strings_TrimSpace (CHR '' '' # s) = strings_TrimSpace s"
  by (simp add: strings_TrimSpace_def)

lemma strings_TrimSpace_blank_back:
  "no_space_front (s @ '' '') \<Longrightarrow> no_space_front s \<Longrightarrow> strings_TrimSpace (s @ '' '') = strings_TrimSpace s"
  by (simp add: strings_TrimSpace_def strings_TrimLeftSpace_id)

text \<open>A string that starts with a letter or bracket has no whitespace in front.\<close>

definition printable :: "char \<Rightarrow> bool" where
  "printable c \<longleftrightarrow> 33 \<le> ord c \<and> ord c < 127"

lemma no_space_front_printable: "printable c \<Longrightarrow> no_space_front (c # s)"
  by (auto simp: no_space_front_def space_encs_def printable_def)

lemma no_space_back_printable: "printable c \<Longrightarrow> no_space_back (s @ [c])"
  by (auto simp: no_space_back_def space_encs_def printable_def suffix_to_prefix)

lemma no_space_back_append:
  assumes "no_space_back t" and "t \<noteq> []" and "ord c < 128"
  shows "no_space_back (s @ c # t)"
  unfolding no_space_back_def
proof
  fix e assume e: "e \<in> set space_encs"
  show "\<not> suffix e (s @ c # t)"
  proof
    assume suf: "suffix e (s @ c # t)"
    show False
    proof (cases "length e \<le> length t")
      case True
      with suf have "suffix e t"
        by (metis append_Cons append_Nil append_assoc suffixI suffix_length_suffix)
      with e assms(1) show False by (simp add: no_space_back_def)
    next
      case False
      then have "suffix (c # t) e"
        using suf by (metis Suc_leI length_Cons not_le suffixI suffix_length_suffix)
      then have "c \<in> set e" and "length e \<noteq> 1"
        using set_mono_suffix \<open>t \<noteq> []\<close> suffix_length_le by fastforce+
      with space_encs_ascii_or_high [OF e] assms(3) show False by fastforce
    qed
  qed
qed

text \<open>A printable character stops the trimming: what precedes it is kept.\<close>

lemma strip_append:
  assumes "\<And>e. e \<in> set es \<Longrightarrow> c \<notin> set e"
  shows "strip es (z @ c # w) = strip es z @ c # w"
  using assms
proof (induction es z rule: strip.induct)
  case (1 es z)
  have "prefix e (z @ c # w) \<longleftrightarrow> prefix e z" if "e \<in> set es" for e
    using "1.prems" [OF that] by (auto simp: prefix_append prefix_Cons)
  then have f: "find (\<lambda>e. e \<noteq> [] \<and> prefix e (z @ c # w)) es = find (\<lambda>e. e \<noteq> [] \<and> prefix e z) es"
    by (intro find_cong) auto
  show ?case
  proof (cases "find (\<lambda>e. e \<noteq> [] \<and> prefix e z) es")
    case None
    then show ?thesis using f by (subst (1 2) strip.simps) simp
  next
    case (Some e)
    then have "prefix e z" by (auto simp: find_Some_iff)
    then have "drop (length e) (z @ c # w) = drop (length e) z @ c # w"
      by (simp add: prefix_length_le)
    with Some f "1.IH" [OF Some] "1.prems" show ?thesis by (subst (1 2) strip.simps) simp
  qed
qed

lemma space_encs_not_printable: "\<forall>e \<in> set space_encs. \<forall>c \<in> set e. \<not> printable c"
  by (simp add: space_encs_def printable_def)

lemma strings_TrimRightSpace_keep:
  "printable c \<Longrightarrow> strings_TrimRightSpace (p @ c # y) = p @ c # strings_TrimRightSpace y"
  using space_encs_not_printable
  by (auto simp: strings_TrimRightSpace_def intro!: strip_append [THEN arg_cong [of _ _ rev], THEN trans])

lemma strings_TrimSpace_keep:
  "printable c \<Longrightarrow> no_space_front (p @ c # y) \<Longrightarrow> strings_TrimSpace (p @ c # y) = p @ c # strings_TrimRightSpace y"
  by (simp add: strings_TrimSpace_def strings_TrimLeftSpace_id strings_TrimRightSpace_keep)

section \<open>Runes\<close>

text \<open>
  \<open>decode_rune\<close> is \<open>utf8.DecodeRuneInString\<close>: the first rune and its width; an invalid or
  truncated sequence is \<open>RuneError\<close> (U+FFFD) of width 1. \<open>runes\<close> is \<open>for _, r := range s\<close>.
\<close>

definition RuneError :: nat where
  "RuneError = 0xFFFD"

definition utf8_cont :: "char \<Rightarrow> bool" where
  "utf8_cont c \<longleftrightarrow> 0x80 \<le> ord c \<and> ord c \<le> 0xBF"

definition decode_rune :: "string \<Rightarrow> nat \<times> nat" where
  "decode_rune s =
     (case s of [] \<Rightarrow> (RuneError, 0)
      | a # t \<Rightarrow>
        (let x = ord a in
         if x < 0x80 then (x, 1)
         else if 0xC2 \<le> x \<and> x \<le> 0xDF then
           (case t of b # _ \<Rightarrow>
              if utf8_cont b then ((x - 0xC0) * 64 + (ord b - 0x80), 2) else (RuneError, 1)
            | [] \<Rightarrow> (RuneError, 1))
         else if 0xE0 \<le> x \<and> x \<le> 0xEF then
           (case t of b # c # _ \<Rightarrow>
              if (if x = 0xE0 then 0xA0 else 0x80) \<le> ord b \<and> ord b \<le> (if x = 0xED then 0x9F else 0xBF)
                 \<and> utf8_cont c
              then ((x - 0xE0) * 4096 + (ord b - 0x80) * 64 + (ord c - 0x80), 3)
              else (RuneError, 1)
            | _ \<Rightarrow> (RuneError, 1))
         else if 0xF0 \<le> x \<and> x \<le> 0xF4 then
           (case t of b # c # d # _ \<Rightarrow>
              if (if x = 0xF0 then 0x90 else 0x80) \<le> ord b \<and> ord b \<le> (if x = 0xF4 then 0x8F else 0xBF)
                 \<and> utf8_cont c \<and> utf8_cont d
              then ((x - 0xF0) * 262144 + (ord b - 0x80) * 4096 + (ord c - 0x80) * 64 + (ord d - 0x80), 4)
              else (RuneError, 1)
            | _ \<Rightarrow> (RuneError, 1))
         else (RuneError, 1)))"

lemma decode_rune_width: "s \<noteq> [] \<Longrightarrow> 0 < snd (decode_rune s)"
  by (auto simp: decode_rune_def Let_def split: list.splits)

lemma decode_rune_pos: "(r, w) = decode_rune s \<Longrightarrow> s \<noteq> [] \<Longrightarrow> 0 < w"
  using decode_rune_width [of s] by (metis snd_conv)

lemma decode_rune_ascii [simp]: "ord c < 128 \<Longrightarrow> decode_rune (c # s) = (ord c, 1)"
  by (simp add: decode_rune_def)

function runes :: "string \<Rightarrow> nat list" where
  "runes s = (if s = [] then [] else case decode_rune s of (r, w) \<Rightarrow> r # runes (drop w s))"
  by pat_completeness auto
termination
  by (relation "measure length") (auto dest: decode_rune_pos)

declare runes.simps [simp del]

lemma runes_Nil [simp]: "runes [] = []"
  by (simp add: runes.simps)

lemma runes_ascii_Cons [simp]: "ord c < 128 \<Longrightarrow> runes (c # s) = ord c # runes s"
  by (subst runes.simps) simp

definition encode_rune :: "nat \<Rightarrow> string" where
  "encode_rune n =
     (if n < 0x80 then [char_of n]
      else if n < 0x800 then [char_of (0xC0 + n div 64), char_of (0x80 + n mod 64)]
      else if 0x10FFFF < n \<or> 0xD800 \<le> n \<and> n \<le> 0xDFFF then [CHR 0xEF, CHR 0xBF, CHR 0xBD]
      else if n < 0x10000 then
        [char_of (0xE0 + n div 4096), char_of (0x80 + n div 64 mod 64), char_of (0x80 + n mod 64)]
      else
        [char_of (0xF0 + n div 262144), char_of (0x80 + n div 4096 mod 64),
         char_of (0x80 + n div 64 mod 64), char_of (0x80 + n mod 64)])"

definition is_ascii :: "string \<Rightarrow> bool" where
  "is_ascii s \<longleftrightarrow> (\<forall>c \<in> set s. ord c < 128)"

definition lower_ascii :: "char \<Rightarrow> char" where
  "lower_ascii c = (if 65 \<le> ord c \<and> ord c \<le> 90 then char_of (ord c + 32) else c)"

definition lower_rune :: "(nat \<Rightarrow> nat) \<Rightarrow> nat \<Rightarrow> nat" where
  "lower_rune ul r =
     (if r < 128 then (if 65 \<le> r \<and> r \<le> 90 then r + 32 else r)
      else if r = 0x130 then 0x69
      else if r = 0x212A then 0x6B
      else if ul r < 128 then r else ul r)"

definition strings_ToLower :: "(nat \<Rightarrow> nat) \<Rightarrow> string \<Rightarrow> string" where
  "strings_ToLower ul s =
     (if is_ascii s then map lower_ascii s
      else concat (map (encode_rune \<circ> lower_rune ul) (runes s)))"

text \<open>
  \<open>strings.EqualFold s t\<close> for a \<open>t\<close> of ASCII letters and digits without \<open>K\<close> and \<open>S\<close>, the only
  letters with a case variant outside ASCII.
\<close>

definition strings_EqualFold :: "string \<Rightarrow> string \<Rightarrow> bool" where
  "strings_EqualFold s t \<longleftrightarrow> map lower_ascii s = map lower_ascii t"

lemma is_ascii_simps [simp]:
  "is_ascii []" "is_ascii (c # s) \<longleftrightarrow> ord c < 128 \<and> is_ascii s"
  "is_ascii (s @ t) \<longleftrightarrow> is_ascii s \<and> is_ascii t"
  by (auto simp: is_ascii_def)

lemma ord_lower_ascii: "ord (lower_ascii c) = (if 65 \<le> ord c \<and> ord c \<le> 90 then ord c + 32 else ord c)"
  by (simp add: lower_ascii_def)

lemma lower_ascii_idem [simp]: "lower_ascii (lower_ascii c) = lower_ascii c"
  by (simp add: lower_ascii_def)

lemma is_ascii_map_lower [simp]: "is_ascii (map lower_ascii s) = is_ascii s"
  by (auto simp: is_ascii_def ord_lower_ascii)

lemma strings_ToLower_ascii: "is_ascii s \<Longrightarrow> strings_ToLower ul s = map lower_ascii s"
  by (simp add: strings_ToLower_def)

lemma runes_is_ascii: "is_ascii s \<Longrightarrow> runes s = map ord s"
  by (induction s) auto

lemma encode_lower_rune_ascii: "r < 128 \<Longrightarrow> encode_rune (lower_rune ul r) = [lower_ascii (char_of r)]"
  by (auto simp: encode_rune_def lower_rune_def lower_ascii_def)

lemma strings_ToLower_Cons_ascii:
  "ord c < 128 \<Longrightarrow> strings_ToLower ul (c # s) = lower_ascii c # strings_ToLower ul s"
  by (simp add: strings_ToLower_def encode_lower_rune_ascii)

lemma strings_ToLower_append_ascii:
  "is_ascii s \<Longrightarrow> strings_ToLower ul (s @ t) = map lower_ascii s @ strings_ToLower ul t"
  by (induction s) (auto simp: strings_ToLower_Cons_ascii)

lemma lower_ascii_inj_lower: "lower_ascii c = d \<Longrightarrow> ord d < 65 \<or> 122 < ord d \<Longrightarrow> c = d"
  by (auto simp: lower_ascii_def split: if_splits)

text \<open>The first byte of \<open>encode_rune\<close>: what a lower-cased string can start with.\<close>

lemma encode_rune_Cons: "\<exists>c t. encode_rune n = c # t"
  by (simp add: encode_rune_def)

end
