(* ===== verification/GoNumbers.thy ===== *)
theory GoNumbers
  imports GoStrings
begin

text \<open>
  The errors of the program and Go's \<open>strconv\<close>: \<open>Atoi\<close>, \<open>ParseUint\<close> and decimal printing.
  \<open>ParseError\<close> is the program's own error (conf/parser.go); its first field is the untranslated
  message. \<open>int\<close> is 64 bits wide, as on the amd64 and arm64 builds.
\<close>

datatype num_err = ErrSyntax | ErrRange

datatype go_error =
    ParseError (why: string) (offender: string)
  | ParseErrorOf string go_error string
  | NumError string string num_err
  | CorruptInputError nat
  | InvalidByteError char
  | ErrLength
  | AddrError string string
  | ErrorString string
  | Wrapped string go_error
  | Errno nat
  | EOF
  | Panic string

section \<open>Digits\<close>

definition is_digit :: "char \<Rightarrow> bool" where
  "is_digit c \<longleftrightarrow> 48 \<le> ord c \<and> ord c \<le> 57"

definition digit_char :: "nat \<Rightarrow> char" where
  "digit_char n = char_of (48 + n)"

lemma ord_digit_char [simp]: "n < 10 \<Longrightarrow> ord (digit_char n) = 48 + n"
  by (simp add: digit_char_def)

lemma is_digit_digit_char [simp]: "n < 10 \<Longrightarrow> is_digit (digit_char n)"
  by (simp add: is_digit_def)

lemma digit_char_neq: "n < 10 \<Longrightarrow> \<not> is_digit c \<Longrightarrow> digit_char n \<noteq> c"
  using is_digit_digit_char by metis

fun nat_str :: "nat \<Rightarrow> string" where
  "nat_str n = (if n < 10 then [digit_char n] else nat_str (n div 10) @ [digit_char (n mod 10)])"

declare nat_str.simps [simp del]

lemma nat_str_not_Nil [simp]: "nat_str n \<noteq> []"
  by (subst nat_str.simps) simp

lemma nat_str_digits: "c \<in> set (nat_str n) \<Longrightarrow> is_digit c"
proof (induction n rule: nat_str.induct)
  case (1 n)
  then show ?case by (subst (asm) (2) nat_str.simps) (auto split: if_splits)
qed

lemma nat_str_notin [simp]: "\<not> is_digit c \<Longrightarrow> c \<notin> set (nat_str n)"
  using nat_str_digits by blast

lemma nat_str_hd_last: "is_digit (hd (nat_str n)) \<and> is_digit (last (nat_str n))"
  by (metis hd_in_set last_in_set nat_str_digits nat_str_not_Nil)

lemma is_digit_printable: "is_digit c \<Longrightarrow> printable c"
  by (simp add: is_digit_def printable_def)

lemma is_digit_ascii: "is_digit c \<Longrightarrow> ord c < 128"
  by (simp add: is_digit_def)

lemma is_ascii_nat_str [simp]: "is_ascii (nat_str n)"
  using nat_str_digits is_digit_ascii by (auto simp: is_ascii_def)

text \<open>No leading zero: a number of two digits or more starts with a non-zero digit.\<close>

lemma nat_str_hd_nonzero: "0 < n \<Longrightarrow> hd (nat_str n) \<noteq> CHR ''0''"
proof (induction n rule: nat_str.induct)
  case (1 n)
  show ?case
  proof (cases "n < 10")
    case True
    then have "nat_str n = [digit_char n]" by (subst nat_str.simps) simp
    moreover have "ord (digit_char n) = 48 + n" using True by simp
    ultimately show ?thesis using 1 by auto
  next
    case False
    then have "nat_str n = nat_str (n div 10) @ [digit_char (n mod 10)]" by (subst nat_str.simps) simp
    with 1 False show ?thesis by simp
  qed
qed

section \<open>strconv\<close>

text \<open>
  The digit loop of \<open>strconv.ParseUint\<close> in base 10: a byte that is no decimal digit is a syntax
  error, a value above \<open>mx\<close> a range error, whichever comes first from the left.
\<close>

fun parse_digits :: "nat \<Rightarrow> nat \<Rightarrow> string \<Rightarrow> num_err + nat" where
  "parse_digits mx n [] = Inr n"
| "parse_digits mx n (c # cs) =
     (if \<not> is_digit c then Inl ErrSyntax
      else let n' = n * 10 + (ord c - 48) in
        if mx < n' then Inl ErrRange else parse_digits mx n' cs)"

definition strconv_ParseUint :: "string \<Rightarrow> nat \<Rightarrow> go_error + nat" where
  "strconv_ParseUint s bitSize =
     (if s = [] then Inl (NumError ''ParseUint'' s ErrSyntax)
      else case parse_digits (2 ^ bitSize - 1) 0 s of
        Inl e \<Rightarrow> Inl (NumError ''ParseUint'' s e) | Inr n \<Rightarrow> Inr n)"

definition strconv_Atoi :: "string \<Rightarrow> go_error + int" where
  "strconv_Atoi s =
     (let (neg, t) = (case s of [] \<Rightarrow> (False, s)
        | c # cs \<Rightarrow> if c = CHR ''-'' then (True, cs) else if c = CHR ''+'' then (False, cs) else (False, s))
      in if t = [] then Inl (NumError ''Atoi'' s ErrSyntax)
      else case parse_digits (2 ^ 64 - 1) 0 t of
        Inl e \<Rightarrow> Inl (NumError ''Atoi'' s e)
      | Inr n \<Rightarrow>
          if \<not> neg \<and> 2 ^ 63 \<le> n \<or> neg \<and> 2 ^ 63 < n then Inl (NumError ''Atoi'' s ErrRange)
          else Inr (if neg then - int n else int n))"

lemma parse_digits_append:
  "parse_digits m n (xs @ ys) = rbind (parse_digits m n xs) (\<lambda>k. parse_digits m k ys)"
  by (induction xs arbitrary: n) (auto simp: Let_def)

lemma parse_digits_nat_str: "n \<le> m \<Longrightarrow> parse_digits m 0 (nat_str n) = Inr n"
proof (induction n rule: nat_str.induct)
  case (1 n)
  show ?case
  proof (cases "n < 10")
    case True
    then have "nat_str n = [digit_char n]" by (subst nat_str.simps) simp
    with True 1 show ?thesis by simp
  next
    case False
    then have "nat_str n = nat_str (n div 10) @ [digit_char (n mod 10)]"
      by (subst nat_str.simps) simp
    moreover have "parse_digits m 0 (nat_str (n div 10)) = Inr (n div 10)"
      using 1 False by (meson div_le_dividend le_trans)
    moreover have "n div 10 * 10 + n mod 10 = n" by simp
    ultimately show ?thesis using 1 by (simp add: parse_digits_append Let_def del: mod_less_divisor)
  qed
qed

lemma parse_digits_bound: "n \<le> m \<Longrightarrow> parse_digits m n s = Inr k \<Longrightarrow> k \<le> m"
  by (induction s arbitrary: n) (auto simp: Let_def not_less split: if_splits)

lemma ParseUint_nat_str: "n < 2 ^ b \<Longrightarrow> strconv_ParseUint (nat_str n) b = Inr n"
  by (simp add: strconv_ParseUint_def parse_digits_nat_str less_eq_iff_succ_less le_diff_conv2)

lemma ParseUint_bound: "strconv_ParseUint s b = Inr n \<Longrightarrow> n < 2 ^ b"
  by (auto simp: strconv_ParseUint_def less_eq_iff_succ_less split: if_splits sum.splits
      dest!: parse_digits_bound [rotated])

lemma nat_str_hd_no_sign: "nat_str n = c # cs \<Longrightarrow> c \<noteq> CHR ''-'' \<and> c \<noteq> CHR ''+''"
  using nat_str_hd_last [of n] by (auto simp: is_digit_def)

lemma Atoi_nat_str: "n < 2 ^ 63 \<Longrightarrow> strconv_Atoi (nat_str n) = Inr (int n)"
proof -
  assume n: "n < 2 ^ 63"
  then have "parse_digits (2 ^ 64 - 1) 0 (nat_str n) = Inr n"
    by (intro parse_digits_nat_str) simp
  with n nat_str_hd_no_sign [of n] show ?thesis
    by (cases "nat_str n") (auto simp: strconv_Atoi_def simp del: parse_digits.simps)
qed

lemma Atoi_digits: "strconv_Atoi s = Inr m \<Longrightarrow> s \<noteq> [] \<and> - (2 ^ 63) \<le> m \<and> m < 2 ^ 63"
  by (auto simp: strconv_Atoi_def Let_def split: list.splits if_splits sum.splits)

section \<open>Formatting\<close>

text \<open>\<open>fmt.Sprint\<close> of the value types the writers print.\<close>

abbreviation uint_str :: "'a::len word \<Rightarrow> string" where
  "uint_str w \<equiv> nat_str (unat w)"

definition bool_str :: "bool \<Rightarrow> string" where
  "bool_str b = (if b then ''true'' else ''false'')"

end
