(* ===== verification/GoCodec.thy ===== *)
theory GoCodec
  imports GoNumbers
begin

text \<open>
  Go's \<open>encoding/hex\<close> and \<open>encoding/base64\<close> (\<open>StdEncoding\<close>), as the program uses them for keys,
  signatures and file hashes, with the round trips that make a printed key readable again.
\<close>

section \<open>Hexadecimal\<close>

definition hex_char :: "nat \<Rightarrow> char" where
  "hex_char n = (if n < 10 then char_of (48 + n) else char_of (87 + n))"

definition hex_val :: "char \<Rightarrow> nat option" where
  "hex_val c =
     (let x = ord c in
      if 48 \<le> x \<and> x \<le> 57 then Some (x - 48)
      else if 97 \<le> x \<and> x \<le> 102 then Some (x - 87)
      else if 65 \<le> x \<and> x \<le> 70 then Some (x - 55)
      else None)"

lemma hex_val_char [simp]: "n < 16 \<Longrightarrow> hex_val (hex_char n) = Some n"
  by (auto simp: hex_val_def hex_char_def Let_def)

lemma hex_val_bound: "hex_val c = Some n \<Longrightarrow> n < 16"
  by (auto simp: hex_val_def Let_def split: if_splits)

fun hex_EncodeToString :: "bytes \<Rightarrow> string" where
  "hex_EncodeToString [] = []"
| "hex_EncodeToString (b # bs) =
     hex_char (ord b div 16) # hex_char (ord b mod 16) # hex_EncodeToString bs"

fun hex_DecodeString :: "string \<Rightarrow> go_error + bytes" where
  "hex_DecodeString [] = Inr []"
| "hex_DecodeString [p] = (if hex_val p = None then Inl (InvalidByteError p) else Inl ErrLength)"
| "hex_DecodeString (p # q # s) =
     (case hex_val p of None \<Rightarrow> Inl (InvalidByteError p)
      | Some a \<Rightarrow> (case hex_val q of None \<Rightarrow> Inl (InvalidByteError q)
        | Some b \<Rightarrow> rbind (hex_DecodeString s) (\<lambda>bs. Inr (char_of (a * 16 + b) # bs))))"

lemma ord_less_256 [simp]: "ord c < 256"
  by (rule nat_of_char_less_256)

lemma hex_roundtrip: "hex_DecodeString (hex_EncodeToString bs) = Inr bs"
proof (induction bs)
  case (Cons b bs)
  have "ord b div 16 < 16" using ord_less_256 [of b] by linarith
  moreover have "ord b div 16 * 16 + ord b mod 16 = ord b" by simp
  ultimately show ?case using Cons by simp
qed simp

lemma hex_DecodeString_length: "hex_DecodeString s = Inr bs \<Longrightarrow> length s = 2 * length bs"
  by (induction s arbitrary: bs rule: hex_DecodeString.induct)
    (auto simp: rbind_eq_Inr split: option.splits if_splits)

section \<open>Base64\<close>

definition b64_char :: "nat \<Rightarrow> char" where
  "b64_char n =
     (if n < 26 then char_of (65 + n) else if n < 52 then char_of (71 + n)
      else if n < 62 then char_of (n - 4) else if n = 62 then CHR ''+'' else CHR ''/'')"

definition b64_val :: "char \<Rightarrow> nat option" where
  "b64_val c =
     (let x = ord c in
      if 65 \<le> x \<and> x \<le> 90 then Some (x - 65)
      else if 97 \<le> x \<and> x \<le> 122 then Some (x - 71)
      else if 48 \<le> x \<and> x \<le> 57 then Some (x + 4)
      else if c = CHR ''+'' then Some 62 else if c = CHR ''/'' then Some 63 else None)"

lemma b64_val_char [simp]: "n < 64 \<Longrightarrow> b64_val (b64_char n) = Some n"
  by (auto simp: b64_val_def b64_char_def Let_def)

lemma b64_val_bound: "b64_val c = Some n \<Longrightarrow> n < 64"
  by (auto simp: b64_val_def Let_def split: if_splits)

fun base64_EncodeToString :: "bytes \<Rightarrow> string" where
  "base64_EncodeToString [] = []"
| "base64_EncodeToString [a] =
     (let v = ord a * 65536 in [b64_char (v div 262144), b64_char (v div 4096 mod 64), CHR ''='', CHR ''=''])"
| "base64_EncodeToString [a, b] =
     (let v = ord a * 65536 + ord b * 256 in
      [b64_char (v div 262144), b64_char (v div 4096 mod 64), b64_char (v div 64 mod 64), CHR ''=''])"
| "base64_EncodeToString (a # b # c # s) =
     (let v = ord a * 65536 + ord b * 256 + ord c in
      b64_char (v div 262144) # b64_char (v div 4096 mod 64) # b64_char (v div 64 mod 64)
        # b64_char (v mod 64) # base64_EncodeToString s)"

text \<open>
  \<open>decodeQuantum\<close>, run until the input ends: \<open>q\<close> holds the sextets of the current quantum, \<open>si\<close>
  the offset of the next byte. Line breaks are skipped; padding must complete the quantum and end
  the input.
\<close>

definition is_newline :: "char \<Rightarrow> bool" where
  "is_newline c \<longleftrightarrow> c = CHR 0x0A \<or> c = CHR 0x0D"

definition b64_end :: "bytes \<Rightarrow> nat \<Rightarrow> string \<Rightarrow> go_error + bytes" where
  "b64_end out si s =
     (let rest = dropWhile is_newline s in
      if rest = [] then Inr out else Inl (CorruptInputError (si + (length s - length rest))))"

definition quantum_bytes :: "nat list \<Rightarrow> bytes" where
  "quantum_bytes q =
     (let v = from_digits 64 (take 4 (q @ [0, 0, 0, 0])) in
      take (length q - 1) [char_of (v div 65536), char_of (v div 256 mod 256), char_of (v mod 256)])"

fun b64_decode :: "nat list \<Rightarrow> nat \<Rightarrow> string \<Rightarrow> go_error + bytes" where
  "b64_decode q si [] = (if q = [] then Inr [] else Inl (CorruptInputError (si - length q)))"
| "b64_decode q si (c # s) =
     (case b64_val c of
        Some v \<Rightarrow>
          if length q = 3
          then rbind (b64_decode [] (Suc si) s) (\<lambda>out. Inr (quantum_bytes (q @ [v]) @ out))
          else b64_decode (q @ [v]) (Suc si) s
      | None \<Rightarrow>
          if is_newline c then b64_decode q (Suc si) s
          else if c \<noteq> CHR ''='' \<or> length q < 2 then Inl (CorruptInputError si)
          else if length q = 2 then
            (let rest = dropWhile is_newline s; k = Suc si + (length s - length rest) in
             case rest of [] \<Rightarrow> Inl (CorruptInputError k)
             | d # ds \<Rightarrow> if d \<noteq> CHR ''='' then Inl (CorruptInputError (k - 1))
                 else b64_end (quantum_bytes q) (Suc k) ds)
          else b64_end (quantum_bytes q) (Suc si) s)"

definition base64_DecodeString :: "string \<Rightarrow> go_error + bytes" where
  "base64_DecodeString s = b64_decode [] 0 s"

lemma b64_val_pad [simp]: "b64_val CHR ''='' = None"
  by (simp add: b64_val_def)

lemma char_of_digits:
  assumes "v = ord a * 65536 + ord b * 256 + ord c"
  shows "char_of (v div 65536) = a" "char_of (v div 256 mod 256) = b" "char_of (v mod 256) = c"
proof -
  have v: "v = (ord a * 256 + ord b) * 256 + ord c" unfolding assms by simp
  have "v div 256 = ord a * 256 + ord b" unfolding v by (rule div_mod_digit) simp
  moreover have "v div 65536 = v div 256 div 256" by (simp flip: div_mult2_eq)
  moreover have "v mod 256 = ord c" unfolding v by (rule div_mod_digit) simp
  ultimately have "v div 65536 = ord a" "v div 256 mod 256 = ord b" "v mod 256 = ord c" by simp_all
  then show "char_of (v div 65536) = a" "char_of (v div 256 mod 256) = b" "char_of (v mod 256) = c"
    by (metis char_of_char)+
qed

lemma sextets:
  fixes v :: nat
  assumes "v < 16777216"
  shows "((v div 262144 * 64 + v div 4096 mod 64) * 64 + v div 64 mod 64) * 64 + v mod 64 = v"
    and "v div 262144 < 64"
proof -
  show small: "v div 262144 < 64" using assms by (simp add: less_mult_imp_div_less)
  let ?four = "Suc (Suc (Suc (Suc 0)))"
  have "to_digits 64 ?four v = [v div 262144, v div 4096 mod 64, v div 64 mod 64, v mod 64]"
    using small by (simp flip: div_mult2_eq)
  moreover have "from_digits 64 (to_digits 64 ?four v) = v"
    using assms by (subst from_to_digits) simp
  ultimately have "from_digits 64 [v div 262144, v div 4096 mod 64, v div 64 mod 64, v mod 64] = v"
    by simp
  then show "((v div 262144 * 64 + v div 4096 mod 64) * 64 + v div 64 mod 64) * 64 + v mod 64 = v"
    by (simp add: from_digits_def)
qed

lemma three_bytes_bound: "ord a * 65536 + ord b * 256 + ord c < 16777216"
  using ord_less_256 [of a] ord_less_256 [of b] ord_less_256 [of c] by linarith

lemma quantum_bytes_full:
  assumes "v = ord a * 65536 + ord b * 256 + ord c"
    and "from_digits 64 (take 4 (q @ [0, 0, 0, 0])) = v"
  shows "quantum_bytes q = take (length q - 1) [a, b, c]"
  using assms(2) char_of_digits [OF assms(1)] by (simp add: quantum_bytes_def)

lemma from_digits_sextets:
  "v < 16777216 \<Longrightarrow>
     from_digits 64 [v div 262144, v div 4096 mod 64, v div 64 mod 64, v mod 64] = v"
  using sextets(1) [of v] by (simp add: from_digits_def)

lemma base64_roundtrip_at: "b64_decode [] si (base64_EncodeToString bs) = Inr bs"
proof (induction bs arbitrary: si rule: base64_EncodeToString.induct)
  case (2 a)
  define v where "v = ord a * 65536"
  have v: "v = ord a * 65536 + ord CHR 0x00 * 256 + ord CHR 0x00" by (simp add: v_def)
  have less: "v < 16777216" unfolding v by (rule three_bytes_bound)
  have "v div 64 mod 64 = 0" "v mod 64 = 0"
    unfolding v_def by (simp_all add: mult.assoc [symmetric] mod_mult_left_eq div_mult_swap mod_eq_0_iff_dvd)
  then have "quantum_bytes [v div 262144, v div 4096 mod 64] = [a]"
    using from_digits_sextets [OF less] by (subst quantum_bytes_full [OF v]) simp_all
  with sextets(2) [OF less] show ?case
    unfolding base64_EncodeToString.simps Let_def v_def [symmetric]
    by (simp add: b64_end_def is_newline_def)
next
  case (3 a b)
  define v where "v = ord a * 65536 + ord b * 256"
  have v: "v = ord a * 65536 + ord b * 256 + ord CHR 0x00" by (simp add: v_def)
  have less: "v < 16777216" unfolding v by (rule three_bytes_bound)
  have "v mod 64 = 0" unfolding v_def by (simp add: mod_eq_0_iff_dvd)
  then have "quantum_bytes [v div 262144, v div 4096 mod 64, v div 64 mod 64] = [a, b]"
    using from_digits_sextets [OF less] by (subst quantum_bytes_full [OF v]) simp_all
  with sextets(2) [OF less] show ?case
    unfolding base64_EncodeToString.simps Let_def v_def [symmetric]
    by (simp add: b64_end_def is_newline_def)
next
  case (4 a b c s)
  define v where "v = ord a * 65536 + ord b * 256 + ord c"
  have less: "v < 16777216" unfolding v_def by (rule three_bytes_bound)
  have "quantum_bytes [v div 262144, v div 4096 mod 64, v div 64 mod 64, v mod 64] = [a, b, c]"
    using from_digits_sextets [OF less] by (subst quantum_bytes_full [OF v_def]) simp_all
  with sextets(2) [OF less] show ?case
    unfolding base64_EncodeToString.simps Let_def v_def [symmetric]
    using 4 by simp
qed simp

lemma base64_roundtrip: "base64_DecodeString (base64_EncodeToString bs) = Inr bs"
  by (simp add: base64_DecodeString_def base64_roundtrip_at)

text \<open>The characters of an encoded key: no whitespace, no comment sign.\<close>

definition b64_alphabet :: "char \<Rightarrow> bool" where
  "b64_alphabet c \<longleftrightarrow> c = CHR ''='' \<or> b64_val c \<noteq> None"

lemma b64_char_alphabet: "n < 64 \<Longrightarrow> b64_alphabet (b64_char n)"
  by (simp add: b64_alphabet_def)

lemma set_base64_Encode: "c \<in> set (base64_EncodeToString bs) \<Longrightarrow> b64_alphabet c"
proof (induction bs rule: base64_EncodeToString.induct)
  case (2 a)
  have "ord a * 65536 div 262144 < 64" using ord_less_256 [of a] by linarith
  with 2 show ?case by (auto simp: Let_def b64_char_alphabet) (simp add: b64_alphabet_def)
next
  case (3 a b)
  have "(ord a * 65536 + ord b * 256) div 262144 < 64"
    using ord_less_256 [of a] ord_less_256 [of b] by linarith
  with 3 show ?case by (auto simp: Let_def b64_char_alphabet) (simp add: b64_alphabet_def)
next
  case (4 a b c' s)
  have "(ord a * 65536 + ord b * 256 + ord c') div 262144 < 64"
    using ord_less_256 [of a] ord_less_256 [of b] ord_less_256 [of c'] by linarith
  with 4 show ?case by (auto simp: Let_def b64_char_alphabet)
qed simp

lemma b64_alphabet_printable: "b64_alphabet c \<Longrightarrow> printable c \<and> c \<noteq> CHR ''#'' \<and> c \<noteq> CHR '',''"
  by (auto simp: b64_alphabet_def b64_val_def printable_def Let_def split: if_splits)

lemma base64_Encode_not_Nil: "bs \<noteq> [] \<Longrightarrow> base64_EncodeToString bs \<noteq> []"
  by (cases bs rule: base64_EncodeToString.cases) (auto simp: Let_def)

end
