(* ===== verification/NetIP.thy ===== *)
theory NetIP
  imports GoCodec
begin

text \<open>
  Go's \<open>net/netip\<close>: addresses and prefixes, their parsers and printers, masking and comparison.
  The program never shows the error text of these parsers, so a parser returns an option.
  An IPv4 address is a 32-bit word, an IPv6 address a 128-bit word with a zone (empty: none).
  The main facts are that a printed address or prefix parses back to itself.
\<close>

datatype Addr = AddrInvalid | Addr4 u32 | Addr6 "128 word" string

datatype Prefix = Prefix (prefix_addr: Addr) (prefix_bits: int)

section \<open>Addresses\<close>

fun addr_Is4 :: "Addr \<Rightarrow> bool" where
  "addr_Is4 (Addr4 _) = True"
| "addr_Is4 _ = False"

fun addr_Is6 :: "Addr \<Rightarrow> bool" where
  "addr_Is6 (Addr6 _ _) = True"
| "addr_Is6 _ = False"

fun addr_BitLen :: "Addr \<Rightarrow> int" where
  "addr_BitLen AddrInvalid = 0"
| "addr_BitLen (Addr4 _) = 32"
| "addr_BitLen (Addr6 _ _) = 128"

fun addr_withoutZone :: "Addr \<Rightarrow> Addr" where
  "addr_withoutZone (Addr6 a _) = Addr6 a []"
| "addr_withoutZone x = x"

fun addr_Zone :: "Addr \<Rightarrow> string" where
  "addr_Zone (Addr6 _ z) = z"
| "addr_Zone _ = []"

definition is_4in6 :: "128 word \<Rightarrow> bool" where
  "is_4in6 a \<longleftrightarrow> unat a div 2 ^ 32 = 0xffff"

fun addr_Unmap :: "Addr \<Rightarrow> Addr" where
  "addr_Unmap (Addr6 a z) = (if is_4in6 a then Addr4 (ucast a) else Addr6 a z)"
| "addr_Unmap x = x"

text \<open>\<open>Addr.Compare\<close>: by bit length, then by value, then by zone; negative, zero or positive.\<close>

fun addr_value :: "Addr \<Rightarrow> nat" where
  "addr_value AddrInvalid = 0"
| "addr_value (Addr4 a) = unat a"
| "addr_value (Addr6 a _) = unat a"

fun bytes_less :: "string \<Rightarrow> string \<Rightarrow> bool" where
  "bytes_less s [] = False"
| "bytes_less [] (d # t) = True"
| "bytes_less (c # s) (d # t) = (ord c < ord d \<or> c = d \<and> bytes_less s t)"

definition addr_Less :: "Addr \<Rightarrow> Addr \<Rightarrow> bool" where
  "addr_Less x y \<longleftrightarrow>
     addr_BitLen x < addr_BitLen y \<or> addr_BitLen x = addr_BitLen y \<and>
       (addr_value x < addr_value y \<or> addr_value x = addr_value y \<and> bytes_less (addr_Zone x) (addr_Zone y))"

section \<open>Parsing addresses\<close>

text \<open>\<open>parseIPv4Fields\<close>: \<open>acc\<close> the fields read, \<open>val\<close> and \<open>dl\<close> value and digits of the current one.\<close>

fun v4_fields :: "nat list \<Rightarrow> nat \<Rightarrow> nat \<Rightarrow> string \<Rightarrow> nat list option" where
  "v4_fields acc val dl [] = (if length acc < 3 then None else Some (acc @ [val]))"
| "v4_fields acc val dl (c # cs) =
     (if is_digit c then
        (if dl = 1 \<and> val = 0 then None
         else let val' = val * 10 + (ord c - 48) in
           if 255 < val' then None else v4_fields acc val' (Suc dl) cs)
      else if c = CHR ''.'' then
        (if dl = 0 \<or> cs = [] then None
         else if length acc = 3 then None
         else v4_fields (acc @ [val]) 0 0 cs)
      else None)"

definition parseIPv4 :: "string \<Rightarrow> Addr option" where
  "parseIPv4 s = map_option (\<lambda>fs. Addr4 (of_nat (from_digits 256 fs))) (v4_fields [] 0 0 s)"

text \<open>One hexadecimal group: digits read, their value, and what follows.\<close>

fun v6_hex :: "nat \<Rightarrow> nat \<Rightarrow> string \<Rightarrow> (nat \<times> nat \<times> string) option" where
  "v6_hex off acc [] = Some (off, acc, [])"
| "v6_hex off acc (c # cs) =
     (case hex_val c of None \<Rightarrow> Some (off, acc, c # cs)
      | Some d \<Rightarrow>
          let acc' = acc * 16 + d in
          if 3 < off then None else if 65535 < acc' then None else v6_hex (Suc off) acc' cs)"

text \<open>
  The group loop of \<open>parseIPv6\<close>: at most \<open>n\<close> groups are left, \<open>ip\<close> holds the bytes read, \<open>e\<close> the
  position of the ellipsis.
\<close>

fun v6_loop :: "nat \<Rightarrow> nat list \<Rightarrow> nat option \<Rightarrow> string \<Rightarrow> (nat list \<times> nat option \<times> string) option" where
  "v6_loop 0 ip e s = Some (ip, e, s)"
| "v6_loop (Suc n) ip e s =
     (case v6_hex 0 0 s of None \<Rightarrow> None
      | Some (off, acc, t) \<Rightarrow>
          if off = 0 then None
          else if t \<noteq> [] \<and> hd t = CHR ''.'' then
            (if e = None \<and> length ip \<noteq> 12 then None
             else if 16 < length ip + 4 then None
             else case v4_fields [] 0 0 s of None \<Rightarrow> None | Some fs \<Rightarrow> Some (ip @ fs, e, []))
          else let ip' = ip @ [acc div 256, acc mod 256] in
            case t of [] \<Rightarrow> Some (ip', e, [])
            | c # t1 \<Rightarrow>
                if c \<noteq> CHR '':'' then None
                else if t1 = [] then None
                else if hd t1 = CHR '':'' then
                  (if e \<noteq> None then None
                   else if tl t1 = [] then Some (ip', Some (length ip'), [])
                   else v6_loop n ip' (Some (length ip')) (tl t1))
                else v6_loop n ip' e t1)"

definition v6_expand :: "nat list \<Rightarrow> nat option \<Rightarrow> nat list option" where
  "v6_expand ip e =
     (if length ip < 16 then
        (case e of None \<Rightarrow> None
         | Some k \<Rightarrow> Some (take k ip @ replicate (16 - length ip) 0 @ drop k ip))
      else if e \<noteq> None then None else Some ip)"

definition parseIPv6_bytes :: "string \<Rightarrow> nat list option" where
  "parseIPv6_bytes s =
     (let (e, t) = (case s of a # b # r \<Rightarrow> if a = CHR '':'' \<and> b = CHR '':'' then (Some 0, r) else (None, s)
        | _ \<Rightarrow> (None, s))
      in if e \<noteq> None \<and> t = [] then Some (replicate 16 0)
      else case v6_loop 8 [] e t of None \<Rightarrow> None
        | Some (ip, e', rest) \<Rightarrow> if rest \<noteq> [] then None else v6_expand ip e')"

definition parseIPv6 :: "string \<Rightarrow> Addr option" where
  "parseIPv6 s =
     (let (a, zone, hasZone) = strings_Cut s ''%'' in
      if hasZone \<and> zone = [] then None
      else map_option (\<lambda>ip. Addr6 (of_nat (from_digits 256 ip)) zone) (parseIPv6_bytes a))"

definition netip_ParseAddr :: "string \<Rightarrow> Addr option" where
  "netip_ParseAddr s =
     (case find (\<lambda>c. c = CHR ''.'' \<or> c = CHR '':'' \<or> c = CHR ''%'') s of
        Some c \<Rightarrow> if c = CHR ''.'' then parseIPv4 s else if c = CHR '':'' then parseIPv6 s else None
      | None \<Rightarrow> None)"

section \<open>Printing addresses\<close>

definition v4_str :: "u32 \<Rightarrow> string" where
  "v4_str w = strings_Join (map nat_str (to_digits 256 4 (unat w))) ''.''"

fun hex_digits :: "nat \<Rightarrow> nat list" where
  "hex_digits n = (if n < 16 then [n] else hex_digits (n div 16) @ [n mod 16])"

declare hex_digits.simps [simp del]

definition hex_str :: "nat \<Rightarrow> string" where
  "hex_str n = map hex_char (hex_digits n)"

definition v6_groups :: "128 word \<Rightarrow> nat list" where
  "v6_groups a = to_digits 65536 8 (unat a)"

definition zero_run :: "nat list \<Rightarrow> nat \<Rightarrow> nat" where
  "zero_run gs i = length (takeWhile (\<lambda>g. g = 0) (drop i gs))"

text \<open>The first longest run of at least two zero groups, \<open>(255, 255)\<close> if there is none.\<close>

definition longest_run :: "nat list \<Rightarrow> nat \<times> nat" where
  "longest_run gs =
     foldl (\<lambda>(zs, ze) i. let l = zero_run gs i in if 2 \<le> l \<and> ze - zs < l then (i, i + l) else (zs, ze))
       (255, 255) [0..<8]"

definition v6_str :: "128 word \<Rightarrow> string" where
  "v6_str a =
     (let gs = v6_groups a; (zs, ze) = longest_run gs; p = (\<lambda>xs. strings_Join (map hex_str xs) '':'') in
      if zs = 255 then p gs else p (take zs gs) @ ''::'' @ p (drop ze gs))"

definition zone_str :: "string \<Rightarrow> string" where
  "zone_str z = (if z = [] then [] else CHR ''%'' # z)"

fun addr_String :: "Addr \<Rightarrow> string" where
  "addr_String AddrInvalid = ''invalid IP''"
| "addr_String (Addr4 w) = v4_str w"
| "addr_String (Addr6 a z) =
     (if is_4in6 a then ''::ffff:'' @ v4_str (ucast a) else v6_str a) @ zone_str z"

section \<open>Prefixes\<close>

definition netip_PrefixFrom :: "Addr \<Rightarrow> int \<Rightarrow> Prefix" where
  "netip_PrefixFrom a bits =
     Prefix (addr_withoutZone a)
       (if a \<noteq> AddrInvalid \<and> 0 \<le> bits \<and> bits \<le> addr_BitLen a then bits else -1)"

definition prefix_IsValid :: "Prefix \<Rightarrow> bool" where
  "prefix_IsValid p \<longleftrightarrow> 0 \<le> prefix_bits p"

definition prefix_String :: "Prefix \<Rightarrow> string" where
  "prefix_String p =
     (if prefix_IsValid p then addr_String (prefix_addr p) @ ''/'' @ nat_str (nat (prefix_bits p))
      else ''invalid Prefix'')"

definition netip_ParsePrefix :: "string \<Rightarrow> Prefix option" where
  "netip_ParsePrefix s =
     (case strings_LastIndexByte s (CHR ''/'') of None \<Rightarrow> None
      | Some i \<Rightarrow>
        (case netip_ParseAddr (take i s) of None \<Rightarrow> None
         | Some ip \<Rightarrow>
           let bitsStr = drop (Suc i) s in
           if addr_Zone ip \<noteq> [] then None
           else if 1 < length bitsStr \<and> (ord (hd bitsStr) < 49 \<or> 57 < ord (hd bitsStr)) then None
           else (case strconv_Atoi bitsStr of Inl _ \<Rightarrow> None
             | Inr bits \<Rightarrow>
               if bits < 0 \<or> (if addr_Is6 ip then 128 else 32) < bits then None
               else Some (netip_PrefixFrom ip bits))))"

text \<open>\<open>mask_word n a\<close> keeps the \<open>n\<close> most significant bits of \<open>a\<close>, as \<open>and(mask6(n))\<close> does.\<close>

definition mask_word :: "nat \<Rightarrow> 'a::len word \<Rightarrow> 'a word" where
  "mask_word n a = push_bit (LENGTH('a) - n) (drop_bit (LENGTH('a) - n) a)"

fun addr_mask :: "nat \<Rightarrow> Addr \<Rightarrow> Addr" where
  "addr_mask n (Addr4 a) = Addr4 (mask_word n a)"
| "addr_mask n (Addr6 a z) = Addr6 (mask_word n a) z"
| "addr_mask n AddrInvalid = AddrInvalid"

definition prefix_Masked :: "Prefix \<Rightarrow> Prefix" where
  "prefix_Masked p =
     (if prefix_bits p < 0 \<or> prefix_addr p = AddrInvalid \<or> addr_BitLen (prefix_addr p) < prefix_bits p
      then Prefix AddrInvalid (-1)
      else netip_PrefixFrom (addr_mask (nat (prefix_bits p)) (prefix_addr p)) (prefix_bits p))"

text \<open>What every prefix the program handles satisfies: built by \<open>PrefixFrom\<close> with valid bits.\<close>

definition wf_prefix :: "Prefix \<Rightarrow> bool" where
  "wf_prefix p \<longleftrightarrow>
     prefix_addr p \<noteq> AddrInvalid \<and> addr_Zone (prefix_addr p) = [] \<and>
     0 \<le> prefix_bits p \<and> prefix_bits p \<le> addr_BitLen (prefix_addr p)"

section \<open>A printed IPv4 address parses back\<close>

lemma v4_fields_number:
  "n \<le> 255 \<Longrightarrow> v4_fields acc 0 0 (nat_str n @ t) = v4_fields acc n (length (nat_str n)) t"
proof (induction n arbitrary: t rule: nat_str.induct)
  case (1 n)
  show ?case
  proof (cases "n < 10")
    case True
    then have "nat_str n = [digit_char n]" by (subst nat_str.simps) simp
    with True show ?thesis by simp
  next
    case False
    then have n: "nat_str n = nat_str (n div 10) @ [digit_char (n mod 10)]"
      by (subst nat_str.simps) simp
    have "n div 10 * 10 + n mod 10 = n" by simp
    moreover have "n div 10 \<noteq> 0" using False by (simp add: div_eq_0_iff)
    moreover have "n div 10 \<le> 255" using "1.prems" by (meson div_le_dividend le_trans)
    ultimately show ?thesis
      using 1 False by (simp add: n Let_def)
  qed
qed

lemma length_nat_str_pos [simp]: "length (nat_str n) \<noteq> 0"
  by simp

lemma v4_fields_quad:
  assumes "a \<le> 255" "b \<le> 255" "c \<le> 255" "d \<le> 255"
  shows "v4_fields [] 0 0 (strings_Join (map nat_str [a, b, c, d]) ''.'') = Some [a, b, c, d]"
proof -
  have "v4_fields acc n (length (nat_str n)) (CHR ''.'' # t) = v4_fields (acc @ [n]) 0 0 t"
    if "length acc \<noteq> 3" "t \<noteq> []" for acc n t
    using that by (simp add: is_digit_def)
  moreover have "v4_fields [a, b, c] 0 0 (nat_str d) = Some [a, b, c, d]"
    using v4_fields_number [OF assms(4), of "[a, b, c]" "[]"] by simp
  ultimately show ?thesis using assms by (simp add: v4_fields_number)
qed

lemma from_to_digits_word4: "of_nat (from_digits 256 (to_digits 256 4 (unat (w :: u32)))) = w"
  using unsigned_less [of w, where ?'a = nat] by (simp add: from_to_digits)

lemma length4: "length xs = 4 \<Longrightarrow> \<exists>a b c d. xs = [a, b, c, d]"
  by (auto simp: eval_nat_numeral length_Suc_conv)

lemma v4_fields_str: "v4_fields [] 0 0 (v4_str w) = Some (to_digits 256 4 (unat w))"
proof -
  obtain a b c d where ds: "to_digits 256 4 (unat w) = [a, b, c, d]"
    using length4 length_to_digits by blast
  then have "x \<in> set [a, b, c, d] \<Longrightarrow> x \<le> 255" for x
    using to_digits_less [of 256 x 4 "unat w"] by simp
  then show ?thesis unfolding v4_str_def ds by (intro v4_fields_quad) auto
qed

lemma parseIPv4_str: "parseIPv4 (v4_str w) = Some (Addr4 w)"
  by (simp add: parseIPv4_def v4_fields_str from_to_digits_word4)

text \<open>A printed IPv4 address starts with a number of at most three digits, then a dot.\<close>

lemma v4_str_split:
  "\<exists>n t. v4_str w = nat_str n @ CHR ''.'' # t \<and> n \<le> 255 \<and> (\<forall>c \<in> set t. is_digit c \<or> c = CHR ''.'')"
proof -
  obtain a b c d where ds: "to_digits 256 4 (unat w) = [a, b, c, d]"
    using length4 length_to_digits by blast
  moreover have "a \<le> 255" using to_digits_less [of 256 a 4 "unat w"] ds by simp
  ultimately show ?thesis
    by (intro exI [of _ a] exI [of _ "strings_Join (map nat_str [b, c, d]) ''.''"])
      (auto simp: v4_str_def dest: nat_str_digits)
qed

lemma find_append_none: "find P xs = None \<Longrightarrow> find P (xs @ ys) = find P ys"
  by (induction xs) (auto split: if_splits)

lemma find_addr_sep_digits:
  "(\<And>c. c \<in> set s \<Longrightarrow> is_digit c) \<Longrightarrow>
     find (\<lambda>c. c = CHR ''.'' \<or> c = CHR '':'' \<or> c = CHR ''%'') (s @ t) =
     find (\<lambda>c. c = CHR ''.'' \<or> c = CHR '':'' \<or> c = CHR ''%'') t"
  by (rule find_append_none) (fastforce simp: find_None_iff is_digit_def)

lemma ParseAddr_v4: "netip_ParseAddr (v4_str w) = Some (Addr4 w)"
proof -
  obtain n t where s: "v4_str w = nat_str n @ CHR ''.'' # t" using v4_str_split by blast
  have "find (\<lambda>c. c = CHR ''.'' \<or> c = CHR '':'' \<or> c = CHR ''%'') (v4_str w) = Some (CHR ''.'')"
    unfolding s by (subst find_addr_sep_digits) (auto dest: nat_str_digits)
  then show ?thesis by (simp add: netip_ParseAddr_def parseIPv4_str)
qed

section \<open>A printed IPv6 address parses back\<close>

lemma hex_digits_not_Nil [simp]: "hex_digits n \<noteq> []"
  by (subst hex_digits.simps) simp

lemma hex_digits_less: "d \<in> set (hex_digits n) \<Longrightarrow> d < 16"
proof (induction n rule: hex_digits.induct)
  case (1 n)
  then show ?case by (subst (asm) (2) hex_digits.simps) (auto split: if_splits)
qed

lemma from_hex_digits: "from_digits 16 (hex_digits n) = n"
proof (induction n rule: hex_digits.induct)
  case (1 n)
  then show ?case by (subst hex_digits.simps) simp
qed

lemma length_hex_digits: "n < 16 ^ Suc k \<Longrightarrow> length (hex_digits n) \<le> Suc k"
proof (induction n arbitrary: k rule: hex_digits.induct)
  case (1 n)
  show ?case
  proof (cases "n < 16")
    case True
    then show ?thesis by (subst hex_digits.simps) simp
  next
    case False
    with 1 obtain j where j: "k = Suc j" by (cases k) auto
    with 1 have "n div 16 < 16 ^ Suc j" by (simp add: div_less_iff_less_mult mult.commute)
    with 1 False j show ?thesis by (subst hex_digits.simps) simp
  qed
qed

definition hex_stop :: "string \<Rightarrow> bool" where
  "hex_stop t \<longleftrightarrow> (case t of [] \<Rightarrow> True | c # _ \<Rightarrow> hex_val c = None)"

lemma hex_stop_simps [simp]: "hex_stop []" "hex_stop (CHR '':'' # t)" "hex_stop (CHR ''.'' # t)"
  by (simp_all add: hex_stop_def hex_val_def)

lemma v6_hex_digits:
  assumes "off + length ds \<le> 4" and "acc < 16 ^ off" and "\<And>d. d \<in> set ds \<Longrightarrow> d < 16" and "hex_stop t"
  shows "v6_hex off acc (map hex_char ds @ t) =
    Some (off + length ds, foldl (\<lambda>a d. a * 16 + d) acc ds, t)"
  using assms
proof (induction ds arbitrary: off acc)
  case Nil
  then show ?case by (cases t) (auto simp: hex_stop_def)
next
  case (Cons d ds)
  have "acc * 16 + d < 16 ^ Suc off" using Cons.prems(2) Cons.prems(3) [of d] by simp
  moreover have "(16 :: nat) ^ Suc off \<le> 16 ^ 4"
    using Cons.prems(1) by (intro power_increasing) auto
  ultimately show ?case using Cons by (simp add: Let_def)
qed

lemma v6_hex_str:
  assumes "g < 65536" and "hex_stop t"
  shows "v6_hex 0 0 (hex_str g @ t) = Some (length (hex_digits g), g, t)"
proof -
  have "length (hex_digits g) \<le> 4" using length_hex_digits [of g 3] assms(1) by simp
  then show ?thesis
    using v6_hex_digits [of 0 "hex_digits g" 0 t] assms(2) hex_digits_less from_hex_digits [of g]
    by (simp add: hex_str_def from_digits_def)
qed

definition group_bytes :: "nat list \<Rightarrow> nat list" where
  "group_bytes gs = concat (map (\<lambda>g. [g div 256, g mod 256]) gs)"

lemma group_bytes_simps [simp]:
  "group_bytes [] = []" "group_bytes (g # gs) = g div 256 # g mod 256 # group_bytes gs"
  "group_bytes (xs @ ys) = group_bytes xs @ group_bytes ys"
  by (simp_all add: group_bytes_def)

lemma length_group_bytes [simp]: "length (group_bytes gs) = 2 * length gs"
  by (induction gs) auto

lemma from_digits_group_bytes: "from_digits 256 (group_bytes gs) = from_digits 65536 gs"
proof (induction gs rule: rev_induct)
  case (snoc g gs)
  have "from_digits 256 (group_bytes gs @ [g div 256, g mod 256]) =
    from_digits 256 (group_bytes gs) * 65536 + g"
    by (subst from_digits_append) (simp add: from_digits_def)
  with snoc show ?case by simp
qed simp

abbreviation colon_join :: "nat list \<Rightarrow> string" where
  "colon_join gs \<equiv> strings_Join (map hex_str gs) '':''"

lemma v6_loop_step:
  assumes "g < 65536" and "t \<noteq> []" and "hd t \<noteq> CHR '':''"
  shows "v6_loop (Suc n) ip e (hex_str g @ CHR '':'' # t) = v6_loop n (ip @ [g div 256, g mod 256]) e t"
  using assms by (cases t) (simp_all add: v6_hex_str Let_def)

lemma v6_loop_last: "g < 65536 \<Longrightarrow> v6_loop (Suc n) ip e (hex_str g) = Some (ip @ [g div 256, g mod 256], e, [])"
  using v6_hex_str [of g "[]"] by (simp add: Let_def)

lemma hex_str_hd: "\<exists>c s. hex_str g = c # s \<and> c \<noteq> CHR '':'' \<and> c \<noteq> CHR ''.'' \<and> c \<noteq> CHR ''%''"
proof -
  obtain d ds where "hex_digits g = d # ds" by (cases "hex_digits g") auto
  moreover from this have "d < 16" using hex_digits_less [of d g] by simp
  ultimately have "hex_str g = hex_char d # map hex_char ds" and "hex_val (hex_char d) = Some d"
    by (simp_all add: hex_str_def)
  then show ?thesis by (fastforce simp: hex_val_def)
qed

lemma colon_join_hd:
  "gs \<noteq> [] \<Longrightarrow> \<exists>c s. colon_join gs @ t = c # s \<and> c \<noteq> CHR '':''"
  using hex_str_hd [of "hd gs"] by (cases gs rule: list.exhaust; cases "tl gs") auto

lemma v6_loop_join:
  assumes "gs \<noteq> []" and "length gs \<le> n" and "\<And>g. g \<in> set gs \<Longrightarrow> g < 65536"
  shows "v6_loop n ip e (colon_join gs) = Some (ip @ group_bytes gs, e, [])"
  using assms
proof (induction gs arbitrary: n ip)
  case (Cons g gs)
  then obtain m where m: "n = Suc m" by (cases n) auto
  show ?case
  proof (cases "gs = []")
    case True
    with Cons m show ?thesis by (simp add: v6_loop_last del: v6_loop.simps)
  next
    case False
    then obtain c s where "colon_join gs = c # s" "c \<noteq> CHR '':''"
      using colon_join_hd [of gs "[]"] by auto
    with Cons m False show ?thesis
      by (simp add: strings_Join_Cons v6_loop_step del: v6_loop.simps)
  qed
qed simp

lemma v6_loop_join_ellipsis:
  assumes "gs \<noteq> []" and "length gs \<le> n" and "\<And>g. g \<in> set gs \<Longrightarrow> g < 65536"
  shows "v6_loop n ip None (colon_join gs @ CHR '':'' # CHR '':'' # t) =
    (if t = [] then Some (ip @ group_bytes gs, Some (length ip + 2 * length gs), [])
     else v6_loop (n - length gs) (ip @ group_bytes gs) (Some (length ip + 2 * length gs)) t)"
  using assms
proof (induction gs arbitrary: n ip)
  case (Cons g gs)
  then obtain m where m: "n = Suc m" by (cases n) auto
  show ?case
  proof (cases "gs = []")
    case True
    with Cons m show ?thesis by (simp add: v6_hex_str Let_def)
  next
    case False
    let ?r = "colon_join gs @ CHR '':'' # CHR '':'' # t"
    obtain c s where "?r = c # s" "c \<noteq> CHR '':''"
      using colon_join_hd [OF False] by blast
    then have "?r \<noteq> []" "hd ?r \<noteq> CHR '':''" by auto
    then have "v6_loop n ip None (colon_join (g # gs) @ CHR '':'' # CHR '':'' # t) =
      v6_loop m (ip @ [g div 256, g mod 256]) None ?r"
      using Cons.prems False m by (simp add: strings_Join_Cons v6_loop_step del: v6_loop.simps)
    with Cons m False show ?thesis by simp
  qed
qed simp

text \<open>The run of zero groups the printer replaces by \<open>::\<close> really is a run of zeros.\<close>

definition good_run :: "nat list \<Rightarrow> nat \<times> nat \<Rightarrow> bool" where
  "good_run gs r \<longleftrightarrow>
     (case r of (zs, ze) \<Rightarrow> zs = 255 \<or>
        zs + 2 \<le> ze \<and> ze \<le> length gs \<and> take (ze - zs) (drop zs gs) = replicate (ze - zs) 0)"

lemma takeWhile_zero_replicate:
  "takeWhile (\<lambda>g. g = (0 :: nat)) xs = replicate (length (takeWhile (\<lambda>g. g = 0) xs)) 0"
  by (induction xs) auto

lemma zero_run_le: "i \<le> length gs \<Longrightarrow> i + zero_run gs i \<le> length gs"
  using length_takeWhile_le [of "\<lambda>g. g = 0" "drop i gs"] by (simp add: zero_run_def)

lemma good_run_zero_run:
  assumes "2 \<le> zero_run gs i" and "i \<le> length gs"
  shows "good_run gs (i, i + zero_run gs i)"
proof -
  have "take (zero_run gs i) (drop i gs) = takeWhile (\<lambda>g. g = 0) (drop i gs)"
    by (simp add: zero_run_def flip: takeWhile_eq_take)
  also have "\<dots> = replicate (zero_run gs i) 0"
    unfolding zero_run_def by (rule takeWhile_zero_replicate)
  finally show ?thesis using assms zero_run_le by (simp add: good_run_def)
qed

lemma good_run_foldl:
  assumes "\<And>i. i \<in> set is \<Longrightarrow> i \<le> length gs" and "good_run gs r"
  shows "good_run gs (foldl (\<lambda>(zs, ze) i. let l = zero_run gs i in
    if 2 \<le> l \<and> ze - zs < l then (i, i + l) else (zs, ze)) r is)"
  using assms
proof (induction "is" arbitrary: r)
  case (Cons i "is")
  then show ?case
    by (cases r) (auto simp: Let_def good_run_zero_run intro!: Cons.IH)
qed simp

lemma good_longest_run: "length gs = 8 \<Longrightarrow> good_run gs (longest_run gs)"
  unfolding longest_run_def by (rule good_run_foldl) (auto simp: good_run_def)

lemma length_v6_groups [simp]: "length (v6_groups a) = 8"
  by (simp add: v6_groups_def)

lemma v6_groups_not_Nil [simp]: "v6_groups a \<noteq> []"
  using length_v6_groups [of a] by (metis list.size(3) zero_neq_numeral)

lemma v6_groups_less: "g \<in> set (v6_groups a) \<Longrightarrow> g < 65536"
  unfolding v6_groups_def by (rule to_digits_less) simp_all

lemma from_groups: "of_nat (from_digits 256 (group_bytes (v6_groups a))) = a"
proof -
  have "unat a < 65536 ^ 8" using unsigned_less [of a, where ?'a = nat] by simp
  then show ?thesis by (simp add: from_digits_group_bytes v6_groups_def from_to_digits)
qed

lemma group_bytes_replicate: "group_bytes (replicate n 0) = replicate (2 * n) 0"
  by (induction n) auto

lemma v6_expand_gap:
  assumes "length xs + k + length ys = 8" and "0 < k"
  shows "v6_expand (group_bytes xs @ group_bytes ys) (Some (2 * length xs)) =
    Some (group_bytes (xs @ replicate k 0 @ ys))"
proof -
  have "16 - (2 * length xs + 2 * length ys) = 2 * k" using assms by simp
  moreover have "2 * length xs + 2 * length ys < 16" using assms by simp
  ultimately show ?thesis by (simp add: v6_expand_def group_bytes_replicate)
qed

lemma parseIPv6_bytes_no_ellipsis:
  assumes "s = c # s'" and "c \<noteq> CHR '':''" and "v6_loop 8 [] None s = Some (ip, e, [])"
  shows "parseIPv6_bytes s = v6_expand ip e"
  using assms by (cases s') (simp_all add: parseIPv6_bytes_def)

lemma parseIPv6_bytes_join:
  assumes "length gs = 8" and "\<And>g. g \<in> set gs \<Longrightarrow> g < 65536"
  shows "parseIPv6_bytes (colon_join gs) = Some (group_bytes gs)"
proof -
  have "gs \<noteq> []" using assms(1) by auto
  then obtain c s where "colon_join gs = c # s" "c \<noteq> CHR '':''"
    using colon_join_hd [of gs "[]"] by auto
  moreover have "v6_loop 8 [] None (colon_join gs) = Some (group_bytes gs, None, [])"
    using v6_loop_join [OF \<open>gs \<noteq> []\<close>, of 8 "[]" None] assms by simp
  ultimately show ?thesis
    using assms(1) by (simp add: parseIPv6_bytes_no_ellipsis v6_expand_def)
qed

lemma parseIPv6_bytes_gap:
  assumes "length xs + k + length ys = 8" and "0 < k"
    and "\<And>g. g \<in> set xs \<union> set ys \<Longrightarrow> g < 65536"
  shows "parseIPv6_bytes (colon_join xs @ ''::'' @ colon_join ys) =
    Some (group_bytes (xs @ replicate k 0 @ ys))"
proof (cases "xs = []")
  case True
  show ?thesis
  proof (cases "ys = []")
    case True
    with \<open>xs = []\<close> assms(1) show ?thesis
      by (simp add: parseIPv6_bytes_def group_bytes_replicate)
  next
    case False
    then obtain c s where "colon_join ys = c # s" using colon_join_hd [of ys "[]"] by auto
    moreover have "v6_loop 8 [] (Some 0) (colon_join ys) = Some (group_bytes ys, Some 0, [])"
      using v6_loop_join [OF False, of 8 "[]" "Some 0"] assms by simp
    ultimately show ?thesis
      using \<open>xs = []\<close> v6_expand_gap [of "[]" k ys] assms by (simp add: parseIPv6_bytes_def)
  qed
next
  case False
  let ?s = "colon_join xs @ CHR '':'' # CHR '':'' # colon_join ys"
  obtain c s where s: "?s = c # s" "c \<noteq> CHR '':''"
    using colon_join_hd [OF False] by blast
  have "v6_loop 8 [] None ?s = Some (group_bytes xs @ group_bytes ys, Some (2 * length xs), [])"
  proof (cases "ys = []")
    case True
    with False assms show ?thesis by (subst v6_loop_join_ellipsis) auto
  next
    case ys: False
    then have "colon_join ys \<noteq> []" using colon_join_hd [of ys "[]"] by auto
    moreover have "v6_loop (8 - length xs) (group_bytes xs) (Some (2 * length xs)) (colon_join ys) =
      Some (group_bytes xs @ group_bytes ys, Some (2 * length xs), [])"
      using ys assms by (intro v6_loop_join) auto
    ultimately show ?thesis
      using False assms by (subst v6_loop_join_ellipsis) auto
  qed
  with s have "parseIPv6_bytes ?s = v6_expand (group_bytes xs @ group_bytes ys) (Some (2 * length xs))"
    by (intro parseIPv6_bytes_no_ellipsis)
  with v6_expand_gap [of xs k ys] assms show ?thesis by simp
qed

lemma parseIPv6_bytes_v6_str: "parseIPv6_bytes (v6_str a) = Some (group_bytes (v6_groups a))"
proof -
  let ?gs = "v6_groups a"
  obtain zs ze where r: "longest_run ?gs = (zs, ze)" by fastforce
  have good: "good_run ?gs (zs, ze)" using good_longest_run [of ?gs] r by simp
  show ?thesis
  proof (cases "zs = 255")
    case True
    with r show ?thesis
      by (simp add: v6_str_def parseIPv6_bytes_join v6_groups_less)
  next
    case False
    with good have run: "zs + 2 \<le> ze" "ze \<le> 8" "take (ze - zs) (drop zs ?gs) = replicate (ze - zs) 0"
      by (auto simp: good_run_def)
    have "drop zs ?gs = take (ze - zs) (drop zs ?gs) @ drop (ze - zs) (drop zs ?gs)"
      by (rule append_take_drop_id [symmetric])
    also have "\<dots> = replicate (ze - zs) 0 @ drop ze ?gs" using run by simp
    finally have gs: "?gs = take zs ?gs @ replicate (ze - zs) 0 @ drop ze ?gs"
      by (metis append_take_drop_id)
    have "parseIPv6_bytes (colon_join (take zs ?gs) @ ''::'' @ colon_join (drop ze ?gs)) =
      Some (group_bytes (take zs ?gs @ replicate (ze - zs) 0 @ drop ze ?gs))"
      using run by (intro parseIPv6_bytes_gap)
        (auto dest!: in_set_takeD in_set_dropD simp: v6_groups_less)
    with False r gs show ?thesis by (simp add: v6_str_def Let_def)
  qed
qed

lemma v6_str_hd: "\<exists>c s. v6_str a = c # s \<and> c \<noteq> CHR ''.'' \<and> c \<noteq> CHR ''%''"
proof -
  have join: "\<exists>c s. colon_join gs @ t = c # s \<and> c \<noteq> CHR ''.'' \<and> c \<noteq> CHR ''%''" if "gs \<noteq> []" for gs t
    using that hex_str_hd [of "hd gs"] by (cases gs rule: list.exhaust; cases "tl gs") auto
  obtain zs ze where r: "longest_run (v6_groups a) = (zs, ze)" by fastforce
  show ?thesis
    using join [of "v6_groups a" "[]"] join [of "take zs (v6_groups a)" "''::'' @ colon_join (drop ze (v6_groups a))"]
    by (cases "take zs (v6_groups a) = []") (auto simp: v6_str_def r Let_def)
qed

definition v6_text_char :: "char \<Rightarrow> bool" where
  "v6_text_char c \<longleftrightarrow> hex_val c \<noteq> None \<or> c = CHR '':'' \<or> c = CHR ''.''"

lemma hex_str_chars: "c \<in> set (hex_str g) \<Longrightarrow> v6_text_char c"
  using hex_digits_less by (auto simp: hex_str_def v6_text_char_def)

lemma is_digit_v6_text_char: "is_digit c \<Longrightarrow> v6_text_char c"
  by (auto simp: is_digit_def v6_text_char_def hex_val_def)

lemma colon_join_chars: "c \<in> set (colon_join gs) \<Longrightarrow> v6_text_char c"
  by (auto dest!: set_strings_Join hex_str_chars) (simp add: v6_text_char_def)

lemma v6_str_chars: "c \<in> set (v6_str a) \<Longrightarrow> v6_text_char c"
  by (auto simp: v6_str_def Let_def split: prod.splits if_splits dest: colon_join_chars)
    (auto simp: v6_text_char_def)

lemma v4_str_chars: "c \<in> set (v4_str w) \<Longrightarrow> is_digit c \<or> c = CHR ''.''"
  using v4_str_split [of w] by (auto dest: nat_str_digits)

lemma v4_str_text_chars: "c \<in> set (v4_str w) \<Longrightarrow> v6_text_char c"
  by (auto dest!: v4_str_chars simp: is_digit_v6_text_char) (simp add: v6_text_char_def)

lemma v6_text_char_not_percent: "v6_text_char c \<Longrightarrow> c \<noteq> CHR ''%''"
  by (auto simp: v6_text_char_def hex_val_def)

text \<open>A string of such characters with a colon before any dot goes to the IPv6 parser.\<close>

lemma parseIPv6_zone:
  assumes "\<And>c. c \<in> set s \<Longrightarrow> v6_text_char c"
  shows "parseIPv6 (s @ zone_str z) =
    map_option (\<lambda>ip. Addr6 (of_nat (from_digits 256 ip)) z) (parseIPv6_bytes s)"
proof -
  have "CHR ''%'' \<notin> set s" using assms v6_text_char_not_percent by blast
  then show ?thesis by (simp add: parseIPv6_def zone_str_def)
qed

lemma hex_char_neq: "d < 16 \<Longrightarrow> hex_val c = None \<Longrightarrow> hex_char d \<noteq> c"
  using hex_val_char by fastforce

lemma find_colon:
  "find (\<lambda>c. c = CHR ''.'' \<or> c = CHR '':'' \<or> c = CHR ''%'') (hex_str g @ CHR '':'' # t) = Some (CHR '':'')"
proof -
  have "find (\<lambda>c. c = CHR ''.'' \<or> c = CHR '':'' \<or> c = CHR ''%'') (hex_str g) = None"
    using hex_digits_less [of _ g] by (auto simp: find_None_iff hex_str_def hex_char_neq hex_val_def)
  then show ?thesis by (simp add: find_append_none)
qed

lemma v6_str_find:
  "find (\<lambda>c. c = CHR ''.'' \<or> c = CHR '':'' \<or> c = CHR ''%'') (v6_str a @ t) = Some (CHR '':'')"
proof -
  have join: "find (\<lambda>c. c = CHR ''.'' \<or> c = CHR '':'' \<or> c = CHR ''%'') (colon_join gs @ u) = Some (CHR '':'')"
    if "gs \<noteq> []" and "length gs = 1 \<Longrightarrow> \<exists>v. u = CHR '':'' # v" for gs u
  proof (cases gs rule: list.exhaust)
    case (Cons g gs')
    with that show ?thesis
      by (cases "gs' = []") (auto simp: strings_Join_Cons find_colon)
  qed (use that in simp)
  obtain zs ze where r: "longest_run (v6_groups a) = (zs, ze)" by fastforce
  have len: "length (v6_groups a) = 8" "v6_groups a \<noteq> []" by simp_all
  show ?thesis
  proof (cases "zs = 255")
    case True
    with r len join [of "v6_groups a" t] show ?thesis by (simp add: v6_str_def)
  next
    case False
    with r len join [of "take zs (v6_groups a)" "''::'' @ colon_join (drop ze (v6_groups a)) @ t"]
    show ?thesis by (cases "take zs (v6_groups a) = []") (auto simp: v6_str_def Let_def)
  qed
qed

lemma ucast_4in6:
  assumes "is_4in6 a"
  shows "65535 * 4294967296 + unat (ucast a :: u32) = unat a"
proof -
  have "unat (ucast a :: u32) = unat a mod 4294967296"
    by (simp add: unsigned_ucast_eq take_bit_eq_mod)
  moreover have "unat a div 4294967296 = 65535" using assms by (simp add: is_4in6_def)
  ultimately show ?thesis using div_mult_mod_eq [of "unat a" 4294967296] by simp
qed

lemma v6_hex_dec:
  assumes "n \<le> 255"
  shows "\<exists>off acc. v6_hex 0 0 (nat_str n @ CHR ''.'' # t) = Some (off, acc, CHR ''.'' # t) \<and> off \<noteq> 0"
proof -
  have len: "length (nat_str n) \<le> 3"
  proof -
    have "nat_str n = (if n < 10 then [digit_char n] else if n < 100 then [digit_char (n div 10), digit_char (n mod 10)]
      else [digit_char (n div 100), digit_char (n div 10 mod 10), digit_char (n mod 10)])"
      using assms by (subst nat_str.simps, subst nat_str.simps, subst nat_str.simps)
        (auto simp: div_less_iff_less_mult simp flip: div_mult2_eq)
    then show ?thesis by simp
  qed
  define ds where "ds = map (\<lambda>c. ord c - 48) (nat_str n)"
  have "hex_char (ord c - 48) = c" if "c \<in> set (nat_str n)" for c
    using nat_str_digits [OF that] by (auto simp: hex_char_def is_digit_def)
  then have "map hex_char ds = nat_str n"
    unfolding ds_def by (simp add: map_idI)
  moreover have "\<And>d. d \<in> set ds \<Longrightarrow> d < 16"
    unfolding ds_def by (auto dest!: nat_str_digits simp: is_digit_def)
  ultimately have "v6_hex 0 0 (nat_str n @ CHR ''.'' # t) =
    Some (length ds, foldl (\<lambda>a d. a * 16 + d) 0 ds, CHR ''.'' # t)"
    using v6_hex_digits [of 0 ds 0 "CHR ''.'' # t"] len by (simp add: ds_def)
  then show ?thesis by (simp add: ds_def)
qed

lemma v6_loop_dotted:
  assumes "length ip + 4 \<le> 16" and "e \<noteq> None"
  shows "v6_loop (Suc n) ip e (v4_str w) = Some (ip @ to_digits 256 4 (unat w), e, [])"
proof -
  obtain k t where s: "v4_str w = nat_str k @ CHR ''.'' # t" and k: "k \<le> 255" using v4_str_split by blast
  obtain off acc where "v6_hex 0 0 (v4_str w) = Some (off, acc, CHR ''.'' # t)" "off \<noteq> 0"
    using v6_hex_dec [OF k] unfolding s by blast
  with assms show ?thesis by (simp add: v4_fields_str)
qed

lemma ffff_str: "hex_str 65535 = ''ffff''"
  by (simp add: hex_str_def hex_char_def hex_digits.simps char_of_eq_iff)

lemma v4_str_not_colon: "\<exists>c s. v4_str w = c # s \<and> c \<noteq> CHR '':''"
proof -
  obtain n t where s: "v4_str w = nat_str n @ CHR ''.'' # t" using v4_str_split by blast
  obtain c r where "nat_str n = c # r" by (cases "nat_str n") auto
  with s nat_str_digits [of c n] show ?thesis by (auto simp: is_digit_def)
qed

lemma parseIPv6_bytes_4in6:
  "parseIPv6_bytes (''::ffff:'' @ v4_str w) =
     Some (replicate 10 0 @ [255, 255] @ to_digits 256 4 (unat w))"
proof -
  obtain c s where v: "v4_str w = c # s" "c \<noteq> CHR '':''" using v4_str_not_colon by blast
  have "v6_loop 8 [] (Some 0) (hex_str 65535 @ CHR '':'' # v4_str w) =
    v6_loop 7 [255, 255] (Some 0) (v4_str w)"
    using v v6_loop_step [of 65535 "v4_str w" 7 "[]" "Some 0"] by simp
  also have "\<dots> = Some ([255, 255] @ to_digits 256 4 (unat w), Some 0, [])"
    using v6_loop_dotted [of "[255, 255]" "Some 0" 6 w] by simp
  finally show ?thesis
    unfolding ffff_str by (simp add: parseIPv6_bytes_def v6_expand_def del: to_digits.simps)
qed

theorem ParseAddr_String: "a \<noteq> AddrInvalid \<Longrightarrow> netip_ParseAddr (addr_String a) = Some a"
proof (cases a)
  case (Addr4 w)
  then show ?thesis by (simp add: ParseAddr_v4)
next
  case (Addr6 w z)
  show ?thesis
  proof (cases "is_4in6 w")
    case True
    have "of_nat (from_digits 256 (replicate 10 0 @ [255, 255] @ to_digits 256 4 (unat (ucast w :: u32)))) = w"
    proof -
      have small: "unat (ucast w :: u32) < 4294967296"
        using unsigned_less [of "ucast w :: u32", where ?'a = nat] by simp
      have z: "from_digits 256 (replicate n 0) = 0" for n
        by (induction n) (simp_all add: from_digits_def)
      have "from_digits 256 [255, 255] = 65535" by (simp add: from_digits_def)
      then have "from_digits 256 (replicate 10 0 @ [255, 255] @ to_digits 256 4 (unat (ucast w :: u32))) =
        65535 * 4294967296 + unat (ucast w :: u32)"
        using small by (simp only: from_digits_append from_to_digits z length_to_digits) simp
      with ucast_4in6 [OF True] show ?thesis by simp
    qed
    moreover have "c \<in> set (''::ffff:'' @ v4_str (ucast w)) \<Longrightarrow> v6_text_char c" for c
      by (auto dest: v4_str_text_chars simp: v6_text_char_def hex_val_def)
    ultimately have "parseIPv6 ((''::ffff:'' @ v4_str (ucast w)) @ zone_str z) = Some (Addr6 w z)"
      by (subst parseIPv6_zone) (auto simp only: parseIPv6_bytes_4in6 option.map)
    with Addr6 True show ?thesis by (simp add: netip_ParseAddr_def)
  next
    case False
    have "parseIPv6 (v6_str w @ zone_str z) = Some (Addr6 w z)"
      by (subst parseIPv6_zone) (auto simp: parseIPv6_bytes_v6_str from_groups dest: v6_str_chars)
    with Addr6 False show ?thesis by (simp add: netip_ParseAddr_def v6_str_find)
  qed
qed simp

section \<open>Prefixes\<close>

text \<open>Printed addresses have no slash, comma, comment sign or line break, and no surrounding blanks.\<close>

lemma v6_text_char_printable: "v6_text_char c \<Longrightarrow> printable c \<and> c \<notin> {CHR ''/'', CHR '','', CHR ''#'', CHR ''%'', CHR ''[''}"
  by (auto simp: v6_text_char_def hex_val_def printable_def Let_def split: if_splits)

lemma addr_String_chars:
  "a \<noteq> AddrInvalid \<Longrightarrow> addr_Zone a = [] \<Longrightarrow> c \<in> set (addr_String a) \<Longrightarrow> v6_text_char c"
  by (cases a) (auto simp: zone_str_def dest: v6_str_chars v4_str_text_chars split: if_splits,
    auto simp: v6_text_char_def hex_val_def)

lemma addr_String_not_Nil: "addr_String a \<noteq> []"
proof (cases a)
  case (Addr4 w)
  then show ?thesis using v4_str_split [of w] by auto
next
  case (Addr6 w z)
  then show ?thesis using v6_str_hd [of w] by auto
qed simp

lemma ParseAddr_zone: "netip_ParseAddr s = Some a \<Longrightarrow> a \<noteq> AddrInvalid"
  by (auto simp: netip_ParseAddr_def parseIPv4_def parseIPv6_def split: option.splits if_splits prod.splits)

lemma wf_prefix_PrefixFrom:
  "a \<noteq> AddrInvalid \<Longrightarrow> 0 \<le> b \<Longrightarrow> b \<le> addr_BitLen a \<Longrightarrow> wf_prefix (netip_PrefixFrom a b)"
  by (cases a) (auto simp: wf_prefix_def netip_PrefixFrom_def)

lemma ParsePrefix_wf: "netip_ParsePrefix s = Some p \<Longrightarrow> wf_prefix p"
proof -
  assume "netip_ParsePrefix s = Some p"
  then obtain i ip bits where "netip_ParseAddr (take i s) = Some ip" "0 \<le> bits"
    "bits \<le> (if addr_Is6 ip then 128 else 32)" "p = netip_PrefixFrom ip bits"
    by (auto simp: netip_ParsePrefix_def Let_def not_less split: option.splits if_splits sum.splits)
  moreover from this have "ip \<noteq> AddrInvalid" using ParseAddr_zone by blast
  ultimately show ?thesis by (cases ip) (auto intro: wf_prefix_PrefixFrom)
qed

lemma PrefixFrom_id: "wf_prefix p \<Longrightarrow> netip_PrefixFrom (prefix_addr p) (prefix_bits p) = p"
  by (cases p; cases "prefix_addr p") (auto simp: wf_prefix_def netip_PrefixFrom_def)

lemma single_digit: "length (nat_str n) = 1 \<or> hd (nat_str n) \<noteq> CHR ''0''"
  by (cases "n = 0") (simp_all add: nat_str_hd_nonzero, simp add: nat_str.simps)

theorem ParsePrefix_String:
  assumes "wf_prefix p"
  shows "netip_ParsePrefix (prefix_String p) = Some p"
proof -
  let ?b = "nat_str (nat (prefix_bits p))" and ?a = "addr_String (prefix_addr p)"
  from assms have wf: "prefix_addr p \<noteq> AddrInvalid" "addr_Zone (prefix_addr p) = []"
    "0 \<le> prefix_bits p" "prefix_bits p \<le> addr_BitLen (prefix_addr p)"
    by (auto simp: wf_prefix_def)
  have bits: "addr_BitLen (prefix_addr p) = (if addr_Is6 (prefix_addr p) then 128 else 32)"
    using wf(1) by (cases "prefix_addr p") auto
  have slash: "CHR ''/'' \<notin> set ?b" by (rule nat_str_notin) (simp add: is_digit_def)
  have str: "prefix_String p = ?a @ CHR ''/'' # ?b"
    using wf by (simp add: prefix_String_def prefix_IsValid_def)
  have "\<not> (1 < length ?b \<and> (ord (hd ?b) < 49 \<or> 57 < ord (hd ?b)))"
  proof -
    have "is_digit (hd ?b)" using nat_str_hd_last by blast
    moreover have "ord (hd ?b) = 48 \<Longrightarrow> hd ?b = CHR ''0''"
      using of_char_eq_iff [of "hd ?b" "CHR ''0''", where ?'a = nat] by simp
    ultimately show ?thesis using single_digit [of "nat (prefix_bits p)"] by (auto simp: is_digit_def)
  qed
  moreover have "strconv_Atoi ?b = Inr (prefix_bits p)"
    using Atoi_nat_str [of "nat (prefix_bits p)"] wf bits by (auto split: if_splits)
  ultimately show ?thesis
    unfolding netip_ParsePrefix_def str strings_LastIndexByte_append [OF slash]
    using wf bits ParseAddr_String [OF wf(1)] PrefixFrom_id [OF assms] by (simp add: Let_def)
qed

lemma prefix_String_chars:
  assumes "wf_prefix p" and "c \<in> set (prefix_String p)"
  shows "printable c \<and> c \<noteq> CHR '','' \<and> c \<noteq> CHR ''#''"
proof -
  have valid: "prefix_addr p \<noteq> AddrInvalid" "addr_Zone (prefix_addr p) = []" "prefix_IsValid p"
    using assms(1) by (auto simp: wf_prefix_def prefix_IsValid_def)
  then have "c \<in> set (addr_String (prefix_addr p)) \<or> c = CHR ''/'' \<or> c \<in> set (nat_str (nat (prefix_bits p)))"
    using assms(2) by (auto simp: prefix_String_def)
  then have "v6_text_char c \<or> c = CHR ''/'' \<or> is_digit c"
    using valid addr_String_chars nat_str_digits by blast
  then show ?thesis
    using v6_text_char_printable [of c] by (auto simp: printable_def is_digit_def)
qed

end
