(* ===== verification/Conf.thy ===== *)
theory Conf
  imports NetIP
begin

text \<open>
  The configuration data of conf/config.go and its operations. A \<open>Key\<close> is its 32 bytes; the
  \<open>Lines\<close> map of a section's comments is a HOL map whose empty value is the nil map; the TLS
  files a configuration carries are an association list from file name to content. Messages of
  package l18n appear untranslated.

  What the code takes from the Go distribution beyond the functions of \<open>GoStrings\<close>,
  \<open>GoNumbers\<close>, \<open>GoCodec\<close> and \<open>NetIP\<close> is one record \<open>golib\<close>, passed to the operations that use it:
  Unicode's lower-case table, \<open>url.Parse\<close> and the decoders of \<open>x/text/encoding/unicode\<close>.
\<close>

record parsedURL =
  Scheme :: string
  Opaque :: string
  HasUser :: bool
  Path :: string
  RawQuery :: string
  ForceQuery :: bool
  Fragment :: string
  Hostname :: string
  URLPort :: string

record golib =
  unicode_lower :: "nat \<Rightarrow> nat"
  url_Parse :: "string \<Rightarrow> parsedURL option"
  unicode_All :: "(string \<Rightarrow> string option) list"

section \<open>Data\<close>

type_synonym Key = bytes
type_synonym WSMode = string

definition KeyLength :: nat where
  "KeyLength = 32"

definition WSModeNone :: WSMode where
  "WSModeNone = ''''"

definition WSModeWebSocket :: WSMode where
  "WSModeWebSocket = ''websocket''"

definition WSModeWSTunnel :: WSMode where
  "WSModeWSTunnel = ''wstunnel''"

lemmas WSMode_defs = WSModeNone_def WSModeWebSocket_def WSModeWSTunnel_def

record Endpoint =
  Host :: string
  Port :: u16

record Comments =
  cBefore :: "string list"
  Suffix :: string

record SectionComments =
  Header :: Comments
  Lines :: "string \<rightharpoonup> Comments"

record Interface =
  PrivateKey :: Key
  Addresses :: "Prefix list"
  ListenPort :: u16
  MTU :: u16
  DNS :: "Addr list"
  DNSSearch :: "string list"
  PreUp :: string
  PostUp :: string
  PreDown :: string
  PostDown :: string
  TableOff :: bool
  iComments :: SectionComments

record Peer =
  PublicKey :: Key
  PresharedKey :: Key
  AllowedIPs :: "Prefix list"
  pEndpoint :: Endpoint
  PersistentKeepalive :: u16
  WSMode :: WSMode
  WSURL :: string
  WSTunnelTarget :: string
  WSBearer :: string
  WSMask :: bool
  WSTLSCA :: string
  WSTLSCert :: string
  WSTLSKey :: string
  WSTLSInsecure :: bool
  WSPingInterval :: u32
  WSBackoffMin :: u32
  WSBackoffMax :: u32
  RxBytes :: u64
  TxBytes :: u64
  LastHandshakeTime :: int
  pComments :: SectionComments

record Config =
  Name :: string
  cInterface :: Interface
  Peers :: "Peer list"
  WSTLSFiles :: "(string \<times> bytes) list"
  TrailingComments :: "string list"

text \<open>Go's zero values of these types.\<close>

definition zeroKey :: Key where
  "zeroKey = replicate KeyLength (CHR 0x00)"

definition zeroComments :: Comments where
  "zeroComments = \<lparr>cBefore = [], Suffix = []\<rparr>"

definition zeroSection :: SectionComments where
  "zeroSection = \<lparr>Header = zeroComments, Lines = Map.empty\<rparr>"

definition zeroInterface :: Interface where
  "zeroInterface = \<lparr>PrivateKey = zeroKey, Addresses = [], ListenPort = 0, MTU = 0, DNS = [],
     DNSSearch = [], PreUp = [], PostUp = [], PreDown = [], PostDown = [], TableOff = False,
     iComments = zeroSection\<rparr>"

definition zeroPeer :: Peer where
  "zeroPeer = \<lparr>PublicKey = zeroKey, PresharedKey = zeroKey, AllowedIPs = [],
     pEndpoint = \<lparr>Host = [], Port = 0\<rparr>, PersistentKeepalive = 0, WSMode = WSModeNone, WSURL = [],
     WSTunnelTarget = [], WSBearer = [], WSMask = False, WSTLSCA = [], WSTLSCert = [], WSTLSKey = [],
     WSTLSInsecure = False, WSPingInterval = 0, WSBackoffMin = 0, WSBackoffMax = 0, RxBytes = 0,
     TxBytes = 0, LastHandshakeTime = 0, pComments = zeroSection\<rparr>"

definition zeroConfig :: Config where
  "zeroConfig = \<lparr>Name = [], cInterface = zeroInterface, Peers = [], WSTLSFiles = [],
     TrailingComments = []\<rparr>"

section \<open>Operations\<close>

text \<open>The routes a configuration claims: the keys of the map \<open>allRoutes\<close>.\<close>

definition interface_routes :: "Config \<Rightarrow> Prefix list" where
  "interface_routes c =
     concat (map (\<lambda>a. [netip_PrefixFrom (prefix_addr a) (addr_BitLen (prefix_addr a)), prefix_Masked a])
       (Addresses (cInterface c)))"

definition peer_routes :: "Config \<Rightarrow> Prefix list" where
  "peer_routes c = concat (map (\<lambda>p. map prefix_Masked (AllowedIPs p)) (Peers c))"

definition IntersectsWith :: "Config \<Rightarrow> Config \<Rightarrow> bool" where
  "IntersectsWith conf other =
     (let allRoutes = set (interface_routes conf @ peer_routes conf) in
      list_ex (\<lambda>r. r \<in> allRoutes) (interface_routes other) \<or>
      list_ex (\<lambda>r. r \<in> allRoutes) (peer_routes other))"

definition HasWebSocketPeers :: "Config \<Rightarrow> bool" where
  "HasWebSocketPeers c = list_ex (\<lambda>p. WSMode p \<noteq> WSModeNone) (Peers c)"

definition endpoint_String :: "Endpoint \<Rightarrow> string" where
  "endpoint_String e =
     (if strings_IndexByte (Host e) (CHR '':'') \<noteq> None
      then ''['' @ Host e @ '']:'' @ uint_str (Port e)
      else Host e @ '':'' @ uint_str (Port e))"

definition endpoint_IsEmpty :: "Endpoint \<Rightarrow> bool" where
  "endpoint_IsEmpty e \<longleftrightarrow> Host e = []"

definition key_String :: "Key \<Rightarrow> string" where
  "key_String k = base64_EncodeToString k"

definition key_IsZero :: "Key \<Rightarrow> bool" where
  "key_IsZero k \<longleftrightarrow> k = zeroKey"

text \<open>
  \<open>crypto/rand\<close> fills a key with 32 random bytes, the argument \<open>rnd\<close>; \<open>NewPrivateKey\<close> clamps them
  to a Curve25519 scalar.
\<close>

definition byte_of :: "char \<Rightarrow> u8" where
  "byte_of c = of_nat (ord c)"

definition char_of_byte :: "u8 \<Rightarrow> char" where
  "char_of_byte b = char_of (unat b)"

definition NewPresharedKey :: "bytes \<Rightarrow> Key" where
  "NewPresharedKey rnd = rnd"

definition NewPrivateKey :: "bytes \<Rightarrow> Key" where
  "NewPrivateKey rnd =
     (let k = NewPresharedKey rnd;
          k = k[0 := char_of_byte (and (byte_of (k ! 0)) 248)]
      in k[31 := char_of_byte (or (and (byte_of (k ! 31)) 127) 64)])"

definition handshakeTime_IsEmpty :: "int \<Rightarrow> bool" where
  "handshakeTime_IsEmpty t \<longleftrightarrow> t = 0"

text \<open>
  \<open>HandshakeTime.String\<close>: \<open>n\<close> is the clock, \<open>time.Now().Unix()\<close>; a duration of \<open>t\<close> nanoseconds
  since 1970. \<open>Ago\<close> carries the counts with their units, in the order they are printed.
\<close>

datatype handshake_text = Now | ClockWoundBackward | Ago "(int \<times> string) list"

definition handshakeTime_String :: "int \<Rightarrow> int \<Rightarrow> handshake_text" where
  "handshakeTime_String n t =
     (let u = t div 1000000000 in
      if u = n then Now
      else if n < u then ClockWoundBackward
      else
        let left = n - u;
            years = left div (365 * 24 * 60 * 60);
            left = left mod (365 * 24 * 60 * 60);
            days = left div (24 * 60 * 60);
            left = left mod (24 * 60 * 60);
            hours = left div (60 * 60);
            left = left mod (60 * 60);
            minutes = left div 60;
            seconds = left mod 60
        in Ago (filter (\<lambda>(k, _). 0 < k)
             [(years, ''year(s)''), (days, ''day(s)''), (hours, ''hour(s)''),
              (minutes, ''minute(s)''), (seconds, ''second(s)'')]))"

text \<open>
  The loops of \<open>DeduplicateNetworkEntries\<close> compact a slice in place: \<open>xs\<close> is the slice, \<open>j\<close> the
  position the loop reads, \<open>i\<close> the position it writes, \<open>m\<close> the strings seen so far.
\<close>

function dedup_loop :: "('a \<Rightarrow> string) \<Rightarrow> 'a list \<Rightarrow> nat \<Rightarrow> nat \<Rightarrow> string set \<Rightarrow> 'a list" where
  "dedup_loop str xs j i m =
     (if length xs \<le> j then take i xs
      else let addr = xs ! j; s = str addr in
        if s \<in> m then dedup_loop str xs (Suc j) i m
        else dedup_loop str (xs[i := addr]) (Suc j) (Suc i) (insert s m))"
  by pat_completeness auto
termination
  by (relation "measure (\<lambda>(str, xs, j, i, m). length xs - j)") auto

declare dedup_loop.simps [simp del]

definition DeduplicateNetworkEntries :: "Config \<Rightarrow> Config" where
  "DeduplicateNetworkEntries c =
     c\<lparr>cInterface := (cInterface c)
         \<lparr>Addresses := dedup_loop prefix_String (Addresses (cInterface c)) 0 0 {},
          DNS := dedup_loop addr_String (DNS (cInterface c)) 0 0 {}\<rparr>,
       Peers := map (\<lambda>p. p\<lparr>AllowedIPs := dedup_loop prefix_String (AllowedIPs p) 0 0 {}\<rparr>) (Peers c)\<rparr>"

text \<open>\<open>binary.LittleEndian.PutUint64\<close> on the first eight bytes of a zero key.\<close>

definition le64_bytes :: "nat \<Rightarrow> bytes" where
  "le64_bytes n = map char_of (rev (to_digits 256 8 n))"

definition Redact :: "Config \<Rightarrow> Config" where
  "Redact c =
     c\<lparr>cInterface := (cInterface c)
         \<lparr>PrivateKey := zeroKey, PreUp := [], PostUp := [], PreDown := [], PostDown := [],
          iComments := zeroSection\<rparr>,
       Peers := map (\<lambda>(i, p). p\<lparr>PublicKey := le64_bytes i @ drop 8 zeroKey, PresharedKey := zeroKey,
           WSBearer := [], pComments := zeroSection\<rparr>) (enumerate 0 (Peers c)),
       TrailingComments := [], WSTLSFiles := []\<rparr>"

section \<open>Route conflicts\<close>

definition routes :: "Config \<Rightarrow> Prefix set" where
  "routes c = set (interface_routes c @ peer_routes c)"

lemma IntersectsWith_routes: "IntersectsWith conf other \<longleftrightarrow> routes conf \<inter> routes other \<noteq> {}"
  by (auto simp: IntersectsWith_def routes_def list_ex_iff Let_def)

lemma mem_routes:
  "r \<in> routes c \<longleftrightarrow>
     (\<exists>a \<in> set (Addresses (cInterface c)).
        r = netip_PrefixFrom (prefix_addr a) (addr_BitLen (prefix_addr a)) \<or> r = prefix_Masked a) \<or>
     (\<exists>p \<in> set (Peers c). \<exists>a \<in> set (AllowedIPs p). r = prefix_Masked a)"
  by (auto simp: routes_def interface_routes_def peer_routes_def)

section \<open>Deduplication\<close>

text \<open>The reference definition: keep an entry when its text has not been seen before.\<close>

fun dedup :: "('a \<Rightarrow> string) \<Rightarrow> string set \<Rightarrow> 'a list \<Rightarrow> 'a list" where
  "dedup str m [] = []"
| "dedup str m (x # xs) = (if str x \<in> m then dedup str m xs else x # dedup str (insert (str x) m) xs)"

lemma dedup_loop_eq:
  "i \<le> j \<Longrightarrow> j \<le> length xs \<Longrightarrow> dedup_loop str xs j i m = take i xs @ dedup str m (drop j xs)"
proof (induction str xs j i m rule: dedup_loop.induct)
  case (1 str xs j i m)
  show ?case
  proof (cases "length xs \<le> j")
    case True
    then show ?thesis using 1 by (subst dedup_loop.simps) simp
  next
    case False
    then have d: "drop j xs = xs ! j # drop (Suc j) xs" by (simp add: Cons_nth_drop_Suc)
    have u: "take (Suc i) (xs[i := xs ! j]) = take i xs @ [xs ! j]"
      using 1 False by (simp add: take_Suc_conv_app_nth)
    show ?thesis
      using 1 False d u by (subst dedup_loop.simps) (auto simp: Let_def)
  qed
qed

lemma dedup_loop_dedup: "dedup_loop str xs 0 0 {} = dedup str {} xs"
  by (simp add: dedup_loop_eq)

lemma dedup_strings: "str ` set (dedup str m xs) = str ` set xs - m"
  by (induction str m xs rule: dedup.induct) auto

lemma set_dedup_subset: "set (dedup str m xs) \<subseteq> set xs"
  by (induction str m xs rule: dedup.induct) auto

lemma distinct_dedup: "distinct (map str (dedup str m xs))"
proof (induction str m xs rule: dedup.induct)
  case (2 str m x xs)
  then show ?case using dedup_strings [of str "insert (str x) m" xs] by auto
qed simp

lemma dedup_id: "distinct (map str xs) \<Longrightarrow> str ` set xs \<inter> m = {} \<Longrightarrow> dedup str m xs = xs"
  by (induction str m xs rule: dedup.induct) auto

lemma subseq_dedup: "subseq (dedup str m xs) xs"
  by (induction str m xs rule: dedup.induct) auto

lemma set_dedup_inj: "inj_on str (set xs) \<Longrightarrow> set (dedup str {} xs) = set xs"
  using dedup_strings [of str "{}" xs] set_dedup_subset [of str "{}" xs]
  by (simp add: inj_on_image_eq_iff)

lemma inj_addr_String: "(\<forall>a \<in> A. a \<noteq> AddrInvalid) \<Longrightarrow> inj_on addr_String A"
  by (rule inj_onI) (metis ParseAddr_String option.inject)

lemma inj_prefix_String: "(\<forall>p \<in> A. wf_prefix p) \<Longrightarrow> inj_on prefix_String A"
  by (rule inj_onI) (metis ParsePrefix_String option.inject)

definition compacts :: "'a list \<Rightarrow> 'a list \<Rightarrow> bool" where
  "compacts xs ys \<longleftrightarrow> distinct ys \<and> set ys = set xs \<and> subseq ys xs"

lemma compacts_dedup: "inj_on str (set xs) \<Longrightarrow> compacts xs (dedup_loop str xs 0 0 {})"
  using distinct_dedup [of str "{}" xs] set_dedup_inj [of str xs]
  by (simp add: dedup_loop_dedup compacts_def distinct_map subseq_dedup)

lemma dedup_loop_idem: "dedup_loop str (dedup_loop str xs 0 0 {}) 0 0 {} = dedup_loop str xs 0 0 {}"
  by (simp add: dedup_loop_dedup dedup_id distinct_dedup)

section \<open>Keys\<close>

lemma length_zeroKey [simp]: "length zeroKey = 32"
  by (simp add: zeroKey_def KeyLength_def)

lemma ord_char_of_byte [simp]: "ord (char_of_byte b) = unat b"
  using unsigned_less [of b, where ?'a = nat] by (simp add: char_of_byte_def)

lemma length_le64_bytes [simp]: "length (le64_bytes n) = 8"
  by (simp add: le64_bytes_def)

lemma inj_le64_bytes:
  assumes "m < 2 ^ 64" "n < 2 ^ 64" "le64_bytes m = le64_bytes n"
  shows "m = n"
proof -
  have *: "map ord (le64_bytes k) = rev (to_digits 256 8 k)" for k
    using to_digits_less [of 256 _ 8 k]
    by (simp add: le64_bytes_def o_def) (rule map_idI, simp)
  from assms(3) have "to_digits 256 8 m = to_digits 256 8 n"
    using * [of m] * [of n] by simp
  then have "m mod 256 ^ 8 = n mod 256 ^ 8"
    using from_to_digits [of 256 8 m] from_to_digits [of 256 8 n] by simp
  with assms show ?thesis by simp
qed

lemma and_mod_8: "unat (and b 248 :: u8) mod 8 = 0"
proof -
  have "unat (and b 248 :: u8) mod 8 = take_bit 3 (unat (and b 248 :: u8))"
    by (simp add: take_bit_eq_mod)
  also have "\<dots> = 0" by (simp add: unsigned_and_eq)
  finally show ?thesis .
qed

lemma clamp_high: "64 \<le> unat (or (and b 127) 64 :: u8) \<and> unat (or (and b 127) 64 :: u8) < 128"
proof -
  have "and b 127 = take_bit 7 b" for b :: u8
    by (simp add: take_bit_eq_mask mask_eq_exp_minus_1)
  then have "take_bit 7 (or (and b 127) 64) = (or (and b 127) 64 :: u8)"
    by (simp add: take_bit_or)
  then have "unat (or (and b 127) 64 :: u8) = take_bit 7 (unat (or (and b 127) 64 :: u8))"
    by (metis unsigned_take_bit_eq)
  also have "\<dots> < 2 ^ 7" by (rule take_bit_nat_less_exp)
  finally have "unat (or (and b 127) 64 :: u8) < 128" by simp
  moreover have "(64 :: u8) \<le> or (and b 127) 64" by (rule le_word_or1)
  then have "unat (64 :: u8) \<le> unat (or (and b 127) 64)" by (simp only: word_le_nat_alt)
  ultimately show ?thesis by simp
qed

lemma redact_peers_secrets:
  assumes "length secrets = length ps"
  shows "map (\<lambda>(i, p). p\<lparr>PublicKey := f i, PresharedKey := z, WSBearer := [], pComments := pc0\<rparr>)
      (enumerate n (map2 (\<lambda>p (pub, psk, bearer, pc). p\<lparr>PublicKey := pub, PresharedKey := psk,
        WSBearer := bearer, pComments := pc\<rparr>) ps secrets)) =
    map (\<lambda>(i, p). p\<lparr>PublicKey := f i, PresharedKey := z, WSBearer := [], pComments := pc0\<rparr>) (enumerate n ps)"
  using assms
  by (induction secrets ps arbitrary: n rule: list_induct2) auto

definition unit_seconds :: "string \<Rightarrow> int" where
  "unit_seconds u = (if u = ''year(s)'' then 31536000 else if u = ''day(s)'' then 86400
     else if u = ''hour(s)'' then 3600 else if u = ''minute(s)'' then 60 else 1)"

lemma handshake_sum:
  fixes left :: int
  assumes "0 < left"
  shows "left div 31536000 * 31536000 + (left mod 31536000 div 86400 * 86400 +
    (left mod 31536000 mod 86400 div 3600 * 3600 + (left mod 31536000 mod 86400 mod 3600 div 60 * 60 +
      left mod 31536000 mod 86400 mod 3600 mod 60))) = left"
  by simp

definition unit_limit :: "string \<Rightarrow> int" where
  "unit_limit u = (if u = ''day(s)'' then 365 else if u = ''hour(s)'' then 24 else 60)"

lemma mod_div_less:
  fixes x b q m :: int
  assumes "m = q * b" and pos: "0 < b" "0 < q"
  shows "x mod m div b < q"
  unfolding \<open>m = q * b\<close>
proof (rule ccontr)
  assume "\<not> x mod (q * b) div b < q"
  with pos have "q * b \<le> x mod (q * b) div b * b" by (intro mult_right_mono) auto
  also have "\<dots> \<le> x mod (q * b)"
    using div_mult_mod_eq [of "x mod (q * b)" b] pos_mod_sign [of b "x mod (q * b)"] pos by linarith
  also have "\<dots> < q * b" using pos by simp
  finally show False by simp
qed

lemma handshake_parts:
  fixes y d h mi se left :: int
  assumes "0 \<le> y" "0 \<le> d" "0 \<le> h" "0 \<le> mi" "0 \<le> se" "d < 365" "h < 24" "mi < 60" "se < 60"
    and "y * 31536000 + (d * 86400 + (h * 3600 + (mi * 60 + se))) = left" "0 < left"
    and "parts = filter (\<lambda>(k, _). 0 < k)
      [(y, ''year(s)''), (d, ''day(s)''), (h, ''hour(s)''), (mi, ''minute(s)''), (se, ''second(s)'')]"
  shows "parts \<noteq> [] \<and> (\<Sum>(k, u) \<leftarrow> parts. k * unit_seconds u) = left \<and>
    (\<forall>(k, u) \<in> set parts. 0 < k \<and> (u \<noteq> ''year(s)'' \<longrightarrow> k < unit_limit u))"
  using assms by (auto simp: unit_seconds_def unit_limit_def)

section \<open>Properties\<close>

text \<open>Two configurations conflict exactly when they claim a common route, an interface address,
  its network or the network of an allowed IP; the test does not depend on which one is asked.\<close>

theorem IntersectsWith_symmetric:
  "(IntersectsWith conf other \<longleftrightarrow> (\<exists>r. r \<in> routes conf \<and> r \<in> routes other)) \<and>
   IntersectsWith conf other = IntersectsWith other conf"
  by (auto simp: IntersectsWith_routes)


definition sample_prefix :: "nat \<Rightarrow> Prefix" where
  "sample_prefix n = Prefix (Addr4 (of_nat (0x0a000000 + n))) 24"

definition sample_conf :: Config where
  "sample_conf = zeroConfig
     \<lparr>Name := ''home'',
      cInterface := zeroInterface\<lparr>Addresses := [sample_prefix 1, sample_prefix 2, sample_prefix 1],
        DNS := [Addr4 0x01010101, Addr4 0x01010101]\<rparr>,
      Peers := [zeroPeer\<lparr>AllowedIPs := [sample_prefix 0, sample_prefix 0]\<rparr>]\<rparr>"


text \<open>C36. \<open>Redact\<close> hides every secret: two configurations that differ only in the private key, the
  scripts, the comments, the stored TLS files and the keys, bearer tokens and comments of their
  peers have the same redacted form. The peers keep distinct stand-in public keys.\<close>

theorem Redact_hides_secrets:
  assumes "length secrets = length (Peers c)"
  shows "Redact (c\<lparr>cInterface := (cInterface c)\<lparr>PrivateKey := k, PreUp := s1, PostUp := s2, PreDown := s3,
        PostDown := s4, iComments := ic\<rparr>,
      Peers := map2 (\<lambda>p (pub, psk, bearer, pc). p\<lparr>PublicKey := pub, PresharedKey := psk, WSBearer := bearer,
        pComments := pc\<rparr>) (Peers c) secrets,
      TrailingComments := tc, WSTLSFiles := fs\<rparr>) = Redact c \<and>
    (length (Peers c) < 2 ^ 64 \<longrightarrow> distinct (map PublicKey (Peers (Redact c))))"
proof
  show "Redact (c\<lparr>cInterface := (cInterface c)\<lparr>PrivateKey := k, PreUp := s1, PostUp := s2, PreDown := s3,
        PostDown := s4, iComments := ic\<rparr>,
      Peers := map2 (\<lambda>p (pub, psk, bearer, pc). p\<lparr>PublicKey := pub, PresharedKey := psk, WSBearer := bearer,
        pComments := pc\<rparr>) (Peers c) secrets,
      TrailingComments := tc, WSTLSFiles := fs\<rparr>) = Redact c"
    by (simp add: Redact_def redact_peers_secrets [OF assms])
  have "inj_on (\<lambda>i. le64_bytes i @ drop 8 zeroKey) {..<2 ^ 64}"
    by (rule inj_onI) (auto intro: inj_le64_bytes)
  then show "length (Peers c) < 2 ^ 64 \<longrightarrow> distinct (map PublicKey (Peers (Redact c)))"
    by (auto simp: distinct_conv_nth Redact_def nth_enumerate_eq dest: inj_onD)
qed

theorem Redact_witness:
  "Redact (sample_conf\<lparr>cInterface := (cInterface sample_conf)\<lparr>PrivateKey := ''k'', PreUp := ''a'',
      PostUp := ''b'', PreDown := ''c'', PostDown := ''d'', iComments := zeroSection\<rparr>,
    Peers := map2 (\<lambda>p (pub, psk, bearer, pc). p\<lparr>PublicKey := pub, PresharedKey := psk, WSBearer := bearer,
      pComments := pc\<rparr>) (Peers sample_conf) [(''x'', ''y'', ''secret'', zeroSection)],
    TrailingComments := [''#t''], WSTLSFiles := [(''ca'', ''pem'')]\<rparr>) = Redact sample_conf"
  using Redact_hides_secrets [where secrets = "[(''x'', ''y'', ''secret'', zeroSection)]" and c = sample_conf
      and k = "''k''" and ?s1.0 = "''a''" and ?s2.0 = "''b''" and ?s3.0 = "''c''" and ?s4.0 = "''d''"
      and ic = zeroSection and tc = "[''#t'']" and fs = "[(''ca'', ''pem'')]"]
  by (simp add: sample_conf_def)

text \<open>A new private key is the random bytes clamped to a Curve25519 scalar: the three low bits
  of the first byte are clear, bit 255 is clear and bit 254 set, and no other byte changes.\<close>

theorem NewPrivateKey_clamped:
  assumes "length rnd = KeyLength"
  shows "length (NewPrivateKey rnd) = KeyLength \<and> ord (NewPrivateKey rnd ! 0) mod 8 = 0 \<and>
    64 \<le> ord (NewPrivateKey rnd ! 31) \<and> ord (NewPrivateKey rnd ! 31) < 128 \<and>
    (\<forall>i. 0 < i \<and> i < 31 \<longrightarrow> NewPrivateKey rnd ! i = rnd ! i)"
  using assms clamp_high
  by (simp add: NewPrivateKey_def NewPresharedKey_def KeyLength_def Let_def and_mod_8)

theorem NewPrivateKey_witness: "ord (NewPrivateKey (replicate 32 (CHR 0xFF)) ! 31) < 128"
  using NewPrivateKey_clamped [of "replicate 32 (CHR 0xFF)"] by (simp add: KeyLength_def)

text \<open>The age of a handshake is split into years, days, hours, minutes and seconds that add up
  to the elapsed seconds, with at least one unit shown and each unit below the next larger one.\<close>

theorem handshakeTime_adds_up:
  assumes "t div 1000000000 < n"
  shows "\<exists>parts. handshakeTime_String n t = Ago parts \<and> parts \<noteq> [] \<and>
    (\<Sum>(k, u) \<leftarrow> parts. k * unit_seconds u) = n - t div 1000000000 \<and>
    (\<forall>(k, u) \<in> set parts. 0 < k \<and> (u \<noteq> ''year(s)'' \<longrightarrow> k < unit_limit u))"
proof -
  define left where "left = n - t div 1000000000"
  then have pos: "0 < left" using assms by simp
  let ?parts = "filter (\<lambda>(k, _). 0 < k)
    [(left div 31536000, ''year(s)''), (left mod 31536000 div 86400, ''day(s)''),
     (left mod 31536000 mod 86400 div 3600, ''hour(s)''),
     (left mod 31536000 mod 86400 mod 3600 div 60, ''minute(s)''),
     (left mod 31536000 mod 86400 mod 3600 mod 60, ''second(s)'')]"
  have eq: "handshakeTime_String n t = Ago ?parts"
    using assms by (simp add: handshakeTime_String_def Let_def left_def)
  have lim: "left mod 31536000 div 86400 < 365" "left mod 31536000 mod 86400 div 3600 < 24"
    "left mod 31536000 mod 86400 mod 3600 div 60 < 60"
    by (rule mod_div_less; simp)+
  have nonneg: "0 \<le> left div 31536000" "0 \<le> left mod 31536000 div 86400"
    "0 \<le> left mod 31536000 mod 86400 div 3600" "0 \<le> left mod 31536000 mod 86400 mod 3600 div 60"
    using pos by (simp_all add: pos_imp_zdiv_nonneg_iff)
  have last: "0 \<le> left mod 31536000 mod 86400 mod 3600 mod 60"
    "left mod 31536000 mod 86400 mod 3600 mod 60 < 60"
    by (rule pos_mod_sign pos_mod_bound; simp)+
  note parts = handshake_parts [OF nonneg last(1) lim last(2) handshake_sum [OF pos] pos refl]
  show ?thesis
    unfolding left_def [symmetric] by (rule exI [of _ ?parts], rule conjI, rule eq, rule parts)
qed

theorem handshakeTime_witness: "\<exists>parts. handshakeTime_String 4000 0 = Ago parts \<and> parts \<noteq> []"
proof -
  have "(0 :: int) div 1000000000 < 4000" by simp
  from handshakeTime_adds_up [OF this] show ?thesis by blast
qed

end
