(* ===== verification/ConfParser.thy ===== *)
theory ConfParser
  imports ConfName
begin

text \<open>
  The wg-quick parser of conf/parser.go: the value parsers, the WebSocket peer rules, and
  \<open>FromWgQuick\<close> as a fold of the step \<open>parseLine\<close> over the lines of the text. The local variables
  of \<open>FromWgQuick\<close> are the record \<open>pstate\<close>; a nil \<open>peer\<close> is \<open>None\<close>, and dereferencing it would
  be the error \<open>Panic\<close>.
\<close>

section \<open>Values\<close>

definition parseIPCidr :: "string \<Rightarrow> go_error + Prefix" where
  "parseIPCidr s =
     (case netip_ParsePrefix s of Some ipcidr \<Rightarrow> Inr ipcidr
      | None \<Rightarrow>
        (case netip_ParseAddr s of None \<Rightarrow> Inl (ParseError ''Invalid IP address: '' s)
         | Some addr \<Rightarrow> Inr (netip_PrefixFrom addr (addr_BitLen addr))))"

definition parseMTU :: "string \<Rightarrow> go_error + u16" where
  "parseMTU s = rbind (strconv_Atoi s) (\<lambda>m.
     if m < 576 \<or> 65535 < m then Inl (ParseError ''Invalid MTU'' s) else Inr (of_int m))"

definition parsePort :: "string \<Rightarrow> go_error + u16" where
  "parsePort s = rbind (strconv_Atoi s) (\<lambda>m.
     if m < 0 \<or> 65535 < m then Inl (ParseError ''Invalid port'' s) else Inr (of_int m))"

definition parseEndpoint :: "string \<Rightarrow> go_error + Endpoint" where
  "parseEndpoint s =
     (case strings_LastIndexByte s (CHR '':'') of
        None \<Rightarrow> Inl (ParseError ''Missing port from endpoint'' s)
      | Some i \<Rightarrow>
        let host = take i s; portStr = drop (Suc i) s in
        if length host < 1 then Inl (ParseError ''Invalid endpoint host'' host)
        else rbind (parsePort portStr) (\<lambda>port.
          let hostColon = strings_IndexByte host (CHR '':'') in
          if host ! 0 = CHR ''['' \<or> host ! (length host - 1) = CHR '']'' \<or> hostColon \<noteq> None then
            (let err = ParseError ''Brackets must contain an IPv6 address'' host in
             if 3 < length host \<and> host ! 0 = CHR ''['' \<and> host ! (length host - 1) = CHR '']'' \<and>
                hostColon \<noteq> None \<and> hostColon \<noteq> Some 0 then
               (let end = (case strings_LastIndexByte host (CHR ''%'') of
                      Some i \<Rightarrow> if 1 < i then i else length host - 1 | None \<Rightarrow> length host - 1) in
                case netip_ParseAddr (drop 1 (take end host)) of
                  None \<Rightarrow> Inl err
                | Some maybeV6 \<Rightarrow>
                    if \<not> addr_Is6 maybeV6 then Inl err
                    else Inr \<lparr>Host = drop 1 (take (length host - 1) host), Port = port\<rparr>)
             else Inl err)
          else Inr \<lparr>Host = host, Port = port\<rparr>))"

definition isWSURL :: "golib \<Rightarrow> string \<Rightarrow> bool" where
  "isWSURL L s =
     (let lower = strings_ToLower (unicode_lower L) s in
      strings_HasPrefix lower ''ws://'' \<or> strings_HasPrefix lower ''wss://'')"

definition redactWSURL :: "string \<Rightarrow> string" where
  "redactWSURL s =
     (let (scheme, rest, ok) = strings_Cut s ''://'' in
      if \<not> ok then ''xxxxx''
      else let afterUserinfo = (case strings_LastIndexByte rest (CHR ''@'') of Some i \<Rightarrow> drop (i + 1) rest | None \<Rightarrow> rest)
        in case strings_IndexByte afterUserinfo (CHR ''/'') of
            Some slash \<Rightarrow> scheme @ ''://xxxxx'' @ drop slash afterUserinfo
          | None \<Rightarrow> scheme @ ''://xxxxx'')"

definition parseWSURL :: "golib \<Rightarrow> string \<Rightarrow> go_error + Endpoint" where
  "parseWSURL L s =
     (let invalid = ParseError ''Invalid WebSocket endpoint URL'' (redactWSURL s) in
      case url_Parse L s of None \<Rightarrow> Inl invalid
      | Some u \<Rightarrow>
        if Scheme u \<noteq> ''ws'' \<and> Scheme u \<noteq> ''wss'' \<or> Opaque u \<noteq> [] then Inl invalid
        else if HasUser u then
          Inl (ParseError ''WebSocket endpoint URL must not contain a user name or password'' (redactWSURL s))
        else if Path u = [] \<and> (RawQuery u \<noteq> [] \<or> ForceQuery u \<or> Fragment u \<noteq> []) then
          Inl (ParseError ''WebSocket endpoint URL query or fragment requires a path'' (redactWSURL s))
        else let host = Hostname u; port = URLPort u in
          if host = [] \<or> port = [] then Inl invalid
          else let host = (if strings_IndexByte host (CHR '':'') \<noteq> None then ''['' @ host @ '']'' else host) in
            case parseEndpoint (host @ '':'' @ port) of Inl _ \<Rightarrow> Inl invalid | Inr e \<Rightarrow> Inr e)"

definition parseWSMode :: "golib \<Rightarrow> string \<Rightarrow> go_error + WSMode" where
  "parseWSMode L s =
     (let mode = strings_ToLower (unicode_lower L) s in
      if mode = WSModeWebSocket \<or> mode = WSModeWSTunnel then Inr mode
      else Inl (ParseError ''Invalid WebSocket mode'' s))"

definition parseWSBool :: "string \<Rightarrow> go_error + bool" where
  "parseWSBool s =
     (if s = ''true'' then Inr True else if s = ''false'' then Inr False
      else Inl (ParseError ''Value must be true or false'' s))"

definition parseWSMillis :: "string \<Rightarrow> go_error + u32" where
  "parseWSMillis s =
     (case strconv_ParseUint s 32 of Inl _ \<Rightarrow> Inl (ParseError ''Invalid millisecond count'' s)
      | Inr m \<Rightarrow> Inr (of_nat m))"

definition validateWebSocketPeer :: "Peer \<Rightarrow> string list \<Rightarrow> go_error + unit" where
  "validateWebSocketPeer p wsKeys =
     (let isWSTunnel = (WSMode p = WSModeWSTunnel) in
      if WSURL p \<noteq> [] \<and> WSMode p = WSModeNone then
        Inl (ParseError ''A WebSocket endpoint requires WSMode'' (redactWSURL (WSURL p)))
      else if WSURL p = [] \<and> WSMode p \<noteq> WSModeNone \<and> \<not> endpoint_IsEmpty (pEndpoint p) then
        Inl (ParseError ''WSMode requires a ws:// or wss:// endpoint'' (endpoint_String (pEndpoint p)))
      else if isWSTunnel \<and> WSURL p = [] then
        Inl (ParseError ''WSMode = wstunnel requires a ws:// or wss:// endpoint'' (WSMode p))
      else if isWSTunnel \<and> WSTunnelTarget p = [] then
        Inl (ParseError ''WSMode = wstunnel requires WSTunnelTarget'' (WSMode p))
      else if WSTunnelTarget p \<noteq> [] \<and> \<not> isWSTunnel then
        Inl (ParseError ''WSTunnelTarget requires WSMode = wstunnel'' (WSTunnelTarget p))
      else if WSMode p = WSModeNone \<and> length wsKeys \<noteq> 0 then
        Inl (ParseError ''WebSocket settings require WSMode'' (wsKeys ! 0))
      else Inr ())"

definition parsePersistentKeepalive :: "string \<Rightarrow> go_error + u16" where
  "parsePersistentKeepalive s =
     (if s = ''off'' then Inr 0
      else rbind (strconv_Atoi s) (\<lambda>m.
        if m < 0 \<or> 65535 < m then Inl (ParseError ''Invalid persistent keepalive'' s) else Inr (of_int m)))"

definition parseTableOff :: "string \<Rightarrow> go_error + bool" where
  "parseTableOff s =
     (if s = ''off'' then Inr True
      else if s = ''auto'' \<or> s = ''main'' then Inr False
      else rbind (strconv_ParseUint s 32) (\<lambda>_. Inr False))"

definition parseKeyBase64 :: "string \<Rightarrow> go_error + Key" where
  "parseKeyBase64 s =
     (case base64_DecodeString s of Inl err \<Rightarrow> Inl (ParseErrorOf ''Invalid key: %v'' err s)
      | Inr k \<Rightarrow>
          if length k \<noteq> KeyLength then Inl (ParseError ''Keys must decode to exactly 32 bytes'' s) else Inr k)"

definition splitList :: "string \<Rightarrow> go_error + string list" where
  "splitList s =
     rmap (\<lambda>split. let trim = strings_TrimSpace split in
         if trim = [] then Inl (ParseError ''Two commas in a row'' s) else Inr trim)
       (strings_Split s (CHR '',''))"

section \<open>The parser\<close>

datatype parserState = inInterfaceSection | inPeerSection | notInASection

record pstate =
  ps_section :: parserState
  ps_conf :: Config
  sawPrivateKey :: bool
  ps_peer :: "Peer option"
  peerWSKeys :: "string list"
  pendingComments :: "string list"

definition maybeAddPeer :: "Peer option \<Rightarrow> Config \<Rightarrow> Config" where
  "maybeAddPeer p c = (case p of None \<Rightarrow> c | Some p \<Rightarrow> c\<lparr>Peers := Peers c @ [p]\<rparr>)"

definition finishPeer :: "pstate \<Rightarrow> go_error + pstate" where
  "finishPeer st =
     rbind (case ps_peer st of None \<Rightarrow> Inr () | Some p \<Rightarrow> validateWebSocketPeer p (peerWSKeys st)) (\<lambda>_.
       Inr (st\<lparr>ps_conf := maybeAddPeer (ps_peer st) (ps_conf st), ps_peer := None, peerWSKeys := []\<rparr>))"

definition addSuffix :: "string \<Rightarrow> string \<Rightarrow> string" where
  "addSuffix comment s = (if comment = [] then s else if s = [] then comment else s @ '' '' @ comment)"

definition addLineComments :: "string list \<Rightarrow> string \<Rightarrow> string \<Rightarrow> SectionComments \<Rightarrow> SectionComments" where
  "addLineComments pending comment key sec =
     (if pending \<noteq> [] \<or> comment \<noteq> [] then
        (let c = (case Lines sec key of Some c \<Rightarrow> c | None \<Rightarrow> zeroComments) in
         sec\<lparr>Lines := (Lines sec)(key \<mapsto>
           c\<lparr>cBefore := cBefore c @ pending, Suffix := addSuffix comment (Suffix c)\<rparr>)\<rparr>)
      else sec)"

definition addDNS :: "Interface \<Rightarrow> string \<Rightarrow> Interface" where
  "addDNS i address =
     (case netip_ParseAddr address of None \<Rightarrow> i\<lparr>DNSSearch := DNSSearch i @ [address]\<rparr>
      | Some a \<Rightarrow> i\<lparr>DNS := DNS i @ [a]\<rparr>)"

definition interfaceKey :: "string \<Rightarrow> string \<Rightarrow> Interface \<times> bool \<Rightarrow> go_error + Interface \<times> bool" where
  "interfaceKey key val st =
     (let (i, saw) = st in
      if key = ''privatekey'' then rbind (parseKeyBase64 val) (\<lambda>k. Inr (i\<lparr>PrivateKey := k\<rparr>, True))
      else if key = ''listenport'' then rbind (parsePort val) (\<lambda>p. Inr (i\<lparr>ListenPort := p\<rparr>, saw))
      else if key = ''mtu'' then rbind (parseMTU val) (\<lambda>m. Inr (i\<lparr>MTU := m\<rparr>, saw))
      else if key = ''address'' then
        rbind (splitList val) (\<lambda>addresses.
          rbind (rmap parseIPCidr addresses) (\<lambda>as. Inr (i\<lparr>Addresses := Addresses i @ as\<rparr>, saw)))
      else if key = ''dns'' then
        rbind (splitList val) (\<lambda>addresses. Inr (foldl addDNS i addresses, saw))
      else if key = ''preup'' then Inr (i\<lparr>PreUp := val\<rparr>, saw)
      else if key = ''postup'' then Inr (i\<lparr>PostUp := val\<rparr>, saw)
      else if key = ''predown'' then Inr (i\<lparr>PreDown := val\<rparr>, saw)
      else if key = ''postdown'' then Inr (i\<lparr>PostDown := val\<rparr>, saw)
      else if key = ''table'' then rbind (parseTableOff val) (\<lambda>b. Inr (i\<lparr>TableOff := b\<rparr>, saw))
      else Inl (ParseError ''Invalid key for [Interface] section'' key))"

definition parseEndpointKey :: "golib \<Rightarrow> string \<Rightarrow> Peer \<Rightarrow> go_error + Peer" where
  "parseEndpointKey L val p =
     (if isWSURL L val then rbind (parseWSURL L val) (\<lambda>e. Inr (p\<lparr>pEndpoint := e, WSURL := val\<rparr>))
      else rbind (parseEndpoint val) (\<lambda>e. Inr (p\<lparr>pEndpoint := e, WSURL := []\<rparr>)))"

definition peerKey :: "golib \<Rightarrow> string \<Rightarrow> string \<Rightarrow> Peer \<times> string list \<Rightarrow> go_error + Peer \<times> string list" where
  "peerKey L key val st =
     (let (p, ws) = st in
      if key = ''publickey'' then rbind (parseKeyBase64 val) (\<lambda>k. Inr (p\<lparr>PublicKey := k\<rparr>, ws))
      else if key = ''presharedkey'' then rbind (parseKeyBase64 val) (\<lambda>k. Inr (p\<lparr>PresharedKey := k\<rparr>, ws))
      else if key = ''allowedips'' then
        rbind (splitList val) (\<lambda>addresses.
          rbind (rmap parseIPCidr addresses) (\<lambda>as. Inr (p\<lparr>AllowedIPs := AllowedIPs p @ as\<rparr>, ws)))
      else if key = ''persistentkeepalive'' then
        rbind (parsePersistentKeepalive val) (\<lambda>k. Inr (p\<lparr>PersistentKeepalive := k\<rparr>, ws))
      else if key = ''endpoint'' then rbind (parseEndpointKey L val p) (\<lambda>p. Inr (p, ws))
      else if key = ''wsmode'' then rbind (parseWSMode L val) (\<lambda>m. Inr (p\<lparr>WSMode := m\<rparr>, ws))
      else if key = ''wstunneltarget'' then
        (case parseEndpoint val of Inl _ \<Rightarrow> Inl (ParseError ''Invalid WSTunnelTarget'' val)
         | Inr _ \<Rightarrow> Inr (p\<lparr>WSTunnelTarget := val\<rparr>, ws @ [''WSTunnelTarget'']))
      else if key = ''wsbearer'' then Inr (p\<lparr>WSBearer := val\<rparr>, ws @ [''WSBearer''])
      else if key = ''wsmask'' then rbind (parseWSBool val) (\<lambda>b. Inr (p\<lparr>WSMask := b\<rparr>, ws @ [''WSMask'']))
      else if key = ''wstlsca'' then Inr (p\<lparr>WSTLSCA := val\<rparr>, ws @ [''WSTLSCA''])
      else if key = ''wstlscert'' then Inr (p\<lparr>WSTLSCert := val\<rparr>, ws @ [''WSTLSCert''])
      else if key = ''wstlskey'' then Inr (p\<lparr>WSTLSKey := val\<rparr>, ws @ [''WSTLSKey''])
      else if key = ''wstlsinsecure'' then
        rbind (parseWSBool val) (\<lambda>b. Inr (p\<lparr>WSTLSInsecure := b\<rparr>, ws @ [''WSTLSInsecure'']))
      else if key = ''wspinginterval'' then
        rbind (parseWSMillis val) (\<lambda>m. Inr (p\<lparr>WSPingInterval := m\<rparr>, ws @ [''WSPingInterval'']))
      else if key = ''wsbackoffmin'' then
        rbind (parseWSMillis val) (\<lambda>m. Inr (p\<lparr>WSBackoffMin := m\<rparr>, ws @ [''WSBackoffMin'']))
      else if key = ''wsbackoffmax'' then
        rbind (parseWSMillis val) (\<lambda>m. Inr (p\<lparr>WSBackoffMax := m\<rparr>, ws @ [''WSBackoffMax'']))
      else Inl (ParseError ''Invalid key for [Peer] section'' key))"

definition parseField :: "golib \<Rightarrow> pstate \<Rightarrow> string \<Rightarrow> string \<Rightarrow> string \<Rightarrow> go_error + pstate" where
  "parseField L st key val comment =
     (case ps_section st of
        inInterfaceSection \<Rightarrow>
          let c = ps_conf st; i = cInterface c;
              i = i\<lparr>iComments := addLineComments (pendingComments st) comment key (iComments i)\<rparr> in
          rbind (interfaceKey key val (i, sawPrivateKey st)) (\<lambda>(i, saw).
            Inr (st\<lparr>ps_conf := c\<lparr>cInterface := i\<rparr>, sawPrivateKey := saw, pendingComments := []\<rparr>))
      | inPeerSection \<Rightarrow>
          (case ps_peer st of None \<Rightarrow> Inl (Panic ''nil pointer dereference'')
           | Some p \<Rightarrow>
             let p = p\<lparr>pComments := addLineComments (pendingComments st) comment key (pComments p)\<rparr> in
             rbind (peerKey L key val (p, peerWSKeys st)) (\<lambda>(p, ws).
               Inr (st\<lparr>ps_peer := Some p, peerWSKeys := ws, pendingComments := []\<rparr>)))
      | notInASection \<Rightarrow> Inr (st\<lparr>pendingComments := []\<rparr>))"

definition parseLine :: "golib \<Rightarrow> pstate \<Rightarrow> string \<Rightarrow> go_error + pstate" where
  "parseLine L st line =
     (let (code, after, hasComment) = strings_Cut line ''#'';
          comment = (if hasComment then CHR ''#'' # strings_TrimRight after [CHR '' '', CHR 0x09, CHR 0x0D] else []);
          stripped = strings_TrimSpace code
      in
      if stripped = [] then Inr (st\<lparr>pendingComments := pendingComments st @ [comment]\<rparr>)
      else
        let (key, val, hasValue) = strings_Cut stripped ''='';
            key = strings_ToLower (unicode_lower L) (strings_TrimSpace key)
        in
        if key = ''[interface]'' \<and> \<not> hasValue then
          rbind (finishPeer st) (\<lambda>st.
            let c = ps_conf st; i = cInterface c; sec = iComments i; h = Header sec;
                h = h\<lparr>cBefore := cBefore h @ pendingComments st, Suffix := addSuffix comment (Suffix h)\<rparr>
            in Inr (st\<lparr>ps_section := inInterfaceSection,
                 ps_conf := c\<lparr>cInterface := i\<lparr>iComments := sec\<lparr>Header := h\<rparr>\<rparr>\<rparr>, pendingComments := []\<rparr>))
        else if key = ''[peer]'' \<and> \<not> hasValue then
          rbind (finishPeer st) (\<lambda>st.
            let peer = zeroPeer\<lparr>pComments := zeroSection\<lparr>Header :=
                  \<lparr>cBefore = pendingComments st, Suffix = comment\<rparr>\<rparr>\<rparr>
            in Inr (st\<lparr>ps_peer := Some peer, pendingComments := [], ps_section := inPeerSection\<rparr>))
        else if ps_section st = notInASection then Inl (ParseError ''Line must occur in a section'' stripped)
        else if \<not> hasValue then Inl (ParseError ''Config key is missing an equals separator'' stripped)
        else
          let (val, comment) =
                (if key \<in> {''preup'', ''postup'', ''predown'', ''postdown''}
                 then (case strings_Cut line ''='' of (_, v, _) \<Rightarrow> (v, [])) else (val, comment));
              val = strings_TrimSpace val
          in if val = [] then Inl (ParseError ''Key must have a value'' stripped)
             else parseField L st key val comment)"

definition collapse_blank :: "string list \<Rightarrow> string list" where
  "collapse_blank run =
     foldl (\<lambda>out line. if line = [] \<and> out \<noteq> [] \<and> last out = [] then out else out @ [line]) [] run"

definition pruneComments :: "string list \<Rightarrow> bool \<Rightarrow> bool \<Rightarrow> string list" where
  "pruneComments run dropLeading dropTrailing =
     (let out = collapse_blank run;
          out = (if dropLeading \<and> out \<noteq> [] \<and> hd out = [] then tl out else out);
          out = (if dropTrailing \<and> out \<noteq> [] \<and> last out = [] then butlast out else out)
      in if out = [] \<or> length out = 1 \<and> hd out = [] then [] else out)"

definition pruneSectionComments :: "SectionComments \<Rightarrow> SectionComments" where
  "pruneSectionComments s =
     s\<lparr>Header := (Header s)\<lparr>cBefore := pruneComments (cBefore (Header s)) True False\<rparr>,
       Lines := (\<lambda>key. case Lines s key of None \<Rightarrow> None
         | Some c \<Rightarrow>
             let c = c\<lparr>cBefore := pruneComments (cBefore c) False False\<rparr> in
             if cBefore c = [] \<and> Suffix c = [] then None else Some c)\<rparr>"

definition pstate_init :: "string \<Rightarrow> pstate" where
  "pstate_init name = \<lparr>ps_section = notInASection, ps_conf = zeroConfig\<lparr>Name := name\<rparr>,
     sawPrivateKey = False, ps_peer = None, peerWSKeys = [], pendingComments = []\<rparr>"

definition pruneConfig :: "string list \<Rightarrow> Config \<Rightarrow> Config" where
  "pruneConfig pending c =
     c\<lparr>TrailingComments := pruneComments pending False True,
       cInterface := (cInterface c)\<lparr>iComments := pruneSectionComments (iComments (cInterface c))\<rparr>,
       Peers := map (\<lambda>p. p\<lparr>pComments := pruneSectionComments (pComments p)\<rparr>) (Peers c)\<rparr>"

definition FromWgQuick :: "golib \<Rightarrow> string \<Rightarrow> string \<Rightarrow> go_error + Config" where
  "FromWgQuick L s name =
     (if \<not> TunnelNameIsValid name then Inl (ParseError ''Tunnel name is not valid'' name)
      else
        rbind (rfold (parseLine L) (pstate_init name) (strings_Split s (CHR 0x0A))) (\<lambda>st.
          rbind (finishPeer st) (\<lambda>st.
            let conf = pruneConfig (pendingComments st) (ps_conf st) in
            if \<not> sawPrivateKey st then
              Inl (ParseError ''An interface must have a private key'' ''[none specified]'')
            else if list_ex (\<lambda>p. key_IsZero (PublicKey p)) (Peers conf) then
              Inl (ParseError ''All peers must have public keys'' ''[none specified]'')
            else Inr conf)))"

text \<open>The decoders of \<open>unicode.All\<close> are tried in order when the text does not parse as it is.\<close>

fun try_decoders :: "golib \<Rightarrow> (string \<Rightarrow> string option) list \<Rightarrow> string \<Rightarrow> string \<Rightarrow> Config option" where
  "try_decoders L [] s name = None"
| "try_decoders L (d # ds) s name =
     (case d s of None \<Rightarrow> try_decoders L ds s name
      | Some decoded \<Rightarrow>
          (case FromWgQuick L decoded name of Inr c \<Rightarrow> Some c | Inl _ \<Rightarrow> try_decoders L ds s name))"

definition FromWgQuickWithUnknownEncoding :: "golib \<Rightarrow> string \<Rightarrow> string \<Rightarrow> go_error + Config" where
  "FromWgQuickWithUnknownEncoding L s name =
     (case FromWgQuick L s name of Inr c \<Rightarrow> Inr c
      | Inl firstErr \<Rightarrow>
          (case try_decoders L (unicode_All L) s name of Some c \<Rightarrow> Inr c | None \<Rightarrow> Inl firstErr))"

section \<open>Textual keys\<close>

text \<open>
  Keys are written in base64 in files and in hexadecimal on the UAPI socket. Both parsers decode
  the text and insist on 32 bytes; what the callers need of them follows from the round trip of
  the encoding alone.
\<close>

locale key_text =
  fixes enc :: "bytes \<Rightarrow> string" and dec :: "string \<Rightarrow> go_error + bytes" and parse :: "string \<Rightarrow> go_error + Key"
  assumes dec_enc: "dec (enc bs) = Inr bs"
    and parse_dec: "parse s =
      (case dec s of Inl err \<Rightarrow> Inl (ParseErrorOf ''Invalid key: %v'' err s)
       | Inr k \<Rightarrow>
           if length k \<noteq> KeyLength then Inl (ParseError ''Keys must decode to exactly 32 bytes'' s) else Inr k)"
begin

lemma parse_enc: "length k = KeyLength \<Longrightarrow> parse (enc k) = Inr k"
  by (simp add: parse_dec dec_enc)

lemma parse_length: "parse s = Inr k \<Longrightarrow> length k = KeyLength"
  by (auto simp: parse_dec split: sum.splits if_splits)

lemma parse_no_panic: "parse s \<noteq> Inl (Panic m)"
  by (auto simp: parse_dec split: sum.splits)

lemma enc_inject: "enc a = enc b \<longleftrightarrow> a = b"
  by (metis dec_enc Inr_inject)

end

interpretation b64: key_text base64_EncodeToString base64_DecodeString parseKeyBase64
  by unfold_locales (simp_all add: base64_roundtrip parseKeyBase64_def)

end
