(* ===== verification/ConfWf.thy ===== *)
theory ConfWf
  imports ConfParser
begin

text \<open>
  The well-formedness invariant of a parsed configuration, and that the parser establishes it:
  what every value, comment and section \<open>FromWgQuick\<close> accepts satisfies. The first half states the
  invariant, the second carries it through \<open>interfaceKey\<close>, \<open>peerKey\<close>, \<open>parseField\<close> and \<open>parseLine\<close>.
\<close>

section \<open>The invariant\<close>

abbreviation newline :: char where "newline \<equiv> CHR 0x0A"

definition wf_text :: "string \<Rightarrow> bool" where
  "wf_text v \<longleftrightarrow> v \<noteq> [] \<and> trimmed v \<and> newline \<notin> set v"

definition wf_value :: "string \<Rightarrow> bool" where
  "wf_value v \<longleftrightarrow> wf_text v \<and> CHR ''#'' \<notin> set v"

definition wf_item :: "string \<Rightarrow> bool" where
  "wf_item v \<longleftrightarrow> wf_value v \<and> CHR '','' \<notin> set v"

definition wf_comment :: "string \<Rightarrow> bool" where
  "wf_comment l \<longleftrightarrow>
     (case l of [] \<Rightarrow> False
      | c # t \<Rightarrow> c = CHR ''#'' \<and> newline \<notin> set t \<and> strings_TrimRight t [CHR '' '', CHR 0x09, CHR 0x0D] = t)"

abbreviation comment_or_blank :: "string \<Rightarrow> bool" where
  "comment_or_blank l \<equiv> l = [] \<or> wf_comment l"

definition scriptKeys :: "string set" where
  "scriptKeys = {''preup'', ''postup'', ''predown'', ''postdown''}"

definition interfaceKeys :: "string set" where
  "interfaceKeys = {''privatekey'', ''listenport'', ''mtu'', ''address'', ''dns'', ''table''} \<union> scriptKeys"

definition wsOptionKeys :: "string set" where
  "wsOptionKeys = {''wstunneltarget'', ''wsbearer'', ''wsmask'', ''wstlsca'', ''wstlscert'', ''wstlskey'',
     ''wstlsinsecure'', ''wspinginterval'', ''wsbackoffmin'', ''wsbackoffmax''}"

definition peerKeys :: "string set" where
  "peerKeys = {''publickey'', ''presharedkey'', ''allowedips'', ''persistentkeepalive'', ''endpoint'', ''wsmode''} \<union>
     wsOptionKeys"

text \<open>Comments as they are read, before pruning.\<close>

definition raw_comments :: "Comments \<Rightarrow> bool" where
  "raw_comments c \<longleftrightarrow> list_all comment_or_blank (cBefore c) \<and> comment_or_blank (Suffix c)"

definition raw_section :: "SectionComments \<Rightarrow> bool" where
  "raw_section sec \<longleftrightarrow> raw_comments (Header sec) \<and>
     (\<forall>k c. Lines sec k = Some c \<longrightarrow> raw_comments c \<and> (k \<in> scriptKeys \<longrightarrow> Suffix c = []))"

text \<open>Comments after pruning: no two blank lines in a row, and never a single blank line alone.\<close>

fun no_double_blank :: "string list \<Rightarrow> bool" where
  "no_double_blank (a # b # r) \<longleftrightarrow> \<not> (a = [] \<and> b = []) \<and> no_double_blank (b # r)"
| "no_double_blank _ \<longleftrightarrow> True"

definition pruned :: "string list \<Rightarrow> bool" where
  "pruned run \<longleftrightarrow> list_all comment_or_blank run \<and> no_double_blank run \<and> run \<noteq> [[]]"

definition wf_comments :: "Comments \<Rightarrow> bool" where
  "wf_comments c \<longleftrightarrow> pruned (cBefore c) \<and> comment_or_blank (Suffix c)"

definition wf_section :: "SectionComments \<Rightarrow> bool" where
  "wf_section sec \<longleftrightarrow>
     wf_comments (Header sec) \<and> (cBefore (Header sec) \<noteq> [] \<longrightarrow> hd (cBefore (Header sec)) \<noteq> []) \<and>
     (\<forall>k c. Lines sec k = Some c \<longrightarrow>
        wf_comments c \<and> (cBefore c \<noteq> [] \<or> Suffix c \<noteq> []) \<and> (k \<in> scriptKeys \<longrightarrow> Suffix c = []))"

definition wf_trailing :: "string list \<Rightarrow> bool" where
  "wf_trailing run \<longleftrightarrow> pruned run \<and> (run \<noteq> [] \<longrightarrow> last run \<noteq> [])"

definition wf_dns :: "Addr \<Rightarrow> bool" where
  "wf_dns a \<longleftrightarrow> a \<noteq> AddrInvalid \<and> wf_item (addr_String a)"

definition wf_search :: "string \<Rightarrow> bool" where
  "wf_search s \<longleftrightarrow> wf_item s \<and> netip_ParseAddr s = None"

definition wf_script :: "string \<Rightarrow> string \<Rightarrow> SectionComments \<Rightarrow> bool" where
  "wf_script key v sec \<longleftrightarrow> (if v = [] then Lines sec key = None else wf_text v)"

definition interface_inv :: "Interface \<Rightarrow> bool" where
  "interface_inv i \<longleftrightarrow>
     length (PrivateKey i) = KeyLength \<and> list_all wf_prefix (Addresses i) \<and>
     (Lines (iComments i) ''address'' \<noteq> None \<longrightarrow> Addresses i \<noteq> []) \<and>
     (if MTU i = 0 then Lines (iComments i) ''mtu'' = None else 576 \<le> unat (MTU i)) \<and>
     list_all wf_dns (DNS i) \<and> list_all wf_search (DNSSearch i) \<and>
     (Lines (iComments i) ''dns'' \<noteq> None \<longrightarrow> DNS i \<noteq> [] \<or> DNSSearch i \<noteq> []) \<and>
     wf_script ''preup'' (PreUp i) (iComments i) \<and> wf_script ''postup'' (PostUp i) (iComments i) \<and>
     wf_script ''predown'' (PreDown i) (iComments i) \<and> wf_script ''postdown'' (PostDown i) (iComments i) \<and>
     dom (Lines (iComments i)) \<subseteq> interfaceKeys"

definition wf_endpoint :: "golib \<Rightarrow> Endpoint \<Rightarrow> bool" where
  "wf_endpoint L e \<longleftrightarrow>
     Host e \<noteq> [] \<and> wf_value (endpoint_String e) \<and> \<not> isWSURL L (endpoint_String e) \<and>
     parseEndpoint (endpoint_String e) = Inr e"

definition endpoint_inv :: "golib \<Rightarrow> Peer \<Rightarrow> bool" where
  "endpoint_inv L p \<longleftrightarrow>
     (if WSURL p \<noteq> [] then wf_value (WSURL p) \<and> isWSURL L (WSURL p) \<and> parseWSURL L (WSURL p) = Inr (pEndpoint p)
      else if Host (pEndpoint p) = [] then pEndpoint p = \<lparr>Host = [], Port = 0\<rparr> \<and> Lines (pComments p) ''endpoint'' = None
      else wf_endpoint L (pEndpoint p))"

definition wf_option :: "string \<Rightarrow> string \<Rightarrow> SectionComments \<Rightarrow> bool" where
  "wf_option key v sec \<longleftrightarrow> (if v = [] then Lines sec key = None else wf_value v)"

definition peer_inv :: "golib \<Rightarrow> Peer \<Rightarrow> bool" where
  "peer_inv L p \<longleftrightarrow>
     length (PublicKey p) = KeyLength \<and> length (PresharedKey p) = KeyLength \<and>
     list_all wf_prefix (AllowedIPs p) \<and> (Lines (pComments p) ''allowedips'' \<noteq> None \<longrightarrow> AllowedIPs p \<noteq> []) \<and>
     endpoint_inv L p \<and>
     (if WSMode p = WSModeNone then Lines (pComments p) ''wsmode'' = None
      else WSMode p = WSModeWebSocket \<or> WSMode p = WSModeWSTunnel) \<and>
     wf_option ''wstunneltarget'' (WSTunnelTarget p) (pComments p) \<and>
     (WSTunnelTarget p \<noteq> [] \<longrightarrow> (\<exists>e. parseEndpoint (WSTunnelTarget p) = Inr e)) \<and>
     wf_option ''wsbearer'' (WSBearer p) (pComments p) \<and> wf_option ''wstlsca'' (WSTLSCA p) (pComments p) \<and>
     wf_option ''wstlscert'' (WSTLSCert p) (pComments p) \<and> wf_option ''wstlskey'' (WSTLSKey p) (pComments p) \<and>
     RxBytes p = 0 \<and> TxBytes p = 0 \<and> LastHandshakeTime p = 0 \<and> dom (Lines (pComments p)) \<subseteq> peerKeys"

text \<open>A peer without any WebSocket option: all of them at their zero values, none commented.\<close>

definition no_ws_options :: "Peer \<Rightarrow> bool" where
  "no_ws_options p \<longleftrightarrow>
     WSTunnelTarget p = [] \<and> WSBearer p = [] \<and> \<not> WSMask p \<and> WSTLSCA p = [] \<and> WSTLSCert p = [] \<and>
     WSTLSKey p = [] \<and> \<not> WSTLSInsecure p \<and> WSPingInterval p = 0 \<and> WSBackoffMin p = 0 \<and> WSBackoffMax p = 0 \<and>
     dom (Lines (pComments p)) \<inter> wsOptionKeys = {}"

definition ws_valid :: "Peer \<Rightarrow> bool" where
  "ws_valid p \<longleftrightarrow> validateWebSocketPeer p [] = Inr () \<and> (WSMode p = WSModeNone \<longrightarrow> no_ws_options p)"

definition wf_config :: "golib \<Rightarrow> Config \<Rightarrow> bool" where
  "wf_config L c \<longleftrightarrow>
     TunnelNameIsValid (Name c) \<and> interface_inv (cInterface c) \<and> wf_section (iComments (cInterface c)) \<and>
     list_all (\<lambda>p. peer_inv L p \<and> ws_valid p \<and> wf_section (pComments p) \<and> \<not> key_IsZero (PublicKey p)) (Peers c) \<and>
     WSTLSFiles c = [] \<and> wf_trailing (TrailingComments c)"

section \<open>Values the parsers accept\<close>

lemma trimmed_append_front:
  assumes "no_space_front (h @ c # t)" and "ord c < 128" and "h \<noteq> []"
  shows "no_space_front (h @ c # t')"
  unfolding no_space_front_def
proof
  fix e assume e: "e \<in> set space_encs"
  show "\<not> prefix e (h @ c # t')"
  proof
    assume p: "prefix e (h @ c # t')"
    have "prefix e h"
    proof (cases "length e \<le> length h")
      case True
      with p show ?thesis by (metis prefixI prefix_length_prefix)
    next
      case False
      then have "length (h @ [c]) \<le> length e" by simp
      moreover have "prefix (h @ [c]) (h @ c # t')" by (simp add: prefix_def)
      ultimately have "prefix (h @ [c]) e" using p prefix_length_prefix by blast
      then have "c \<in> set e" "length e \<noteq> 1"
        using set_mono_prefix [of "h @ [c]" e] prefix_length_le [of "h @ [c]" e] \<open>h \<noteq> []\<close> by (auto simp: neq_Nil_conv)
      with space_encs_ascii_or_high [OF e] assms(2) show ?thesis by force
    qed
    then have "prefix e (h @ c # t)" by (rule prefix_prefix)
    with e assms(1) show False by (simp add: no_space_front_def)
  qed
qed

lemma wf_value_append:
  assumes "wf_value (h @ c # t)" and "ord c < 128" and "h \<noteq> []"
    and "t' \<noteq> []" "\<And>x. x \<in> set t' \<Longrightarrow> is_digit x"
  shows "wf_value (h @ c # t')"
proof -
  obtain u x where u: "t' = u @ [x]" using \<open>t' \<noteq> []\<close> rev_exhaust by blast
  have "no_space_back ((h @ c # u) @ [x])"
    using assms(5) u by (intro no_space_back_printable is_digit_printable) simp
  moreover have "no_space_front (h @ c # t')"
    by (rule trimmed_append_front [of h c t]) (use assms(1,2,3) in \<open>simp_all add: wf_value_def wf_text_def trimmed_def\<close>)
  moreover have "\<not> is_digit newline" "\<not> is_digit (CHR ''#'')" by (simp_all add: is_digit_def)
  then have "newline \<notin> set t'" "CHR ''#'' \<notin> set t'" using assms(5) by blast+
  ultimately show ?thesis
    using assms(1) u by (simp add: wf_value_def wf_text_def trimmed_def)
qed

lemma parseIPCidr_wf: "parseIPCidr s = Inr p \<Longrightarrow> wf_prefix p"
proof -
  assume "parseIPCidr s = Inr p"
  then consider "netip_ParsePrefix s = Some p"
    | a where "netip_ParseAddr s = Some a" "p = netip_PrefixFrom a (addr_BitLen a)"
    by (auto simp: parseIPCidr_def split: option.splits)
  then show ?thesis
  proof cases
    case 2
    moreover have "0 \<le> addr_BitLen a" by (cases a) auto
    ultimately show ?thesis using ParseAddr_zone by (auto intro: wf_prefix_PrefixFrom)
  qed (rule ParsePrefix_wf)
qed

lemma unat_of_int_u16: "0 \<le> z \<Longrightarrow> z \<le> 65535 \<Longrightarrow> unat (of_int z :: u16) = nat z"
  by (simp add: unat_eq_nat_uint uint_word_of_int_eq take_bit_int_eq_self)

lemma parseMTU_bound: "parseMTU s = Inr m \<Longrightarrow> 576 \<le> unat m"
proof -
  assume "parseMTU s = Inr m"
  then obtain z where "m = of_int z" "576 \<le> z" "z \<le> 65535"
    by (auto simp: parseMTU_def rbind_eq_Inr not_less split: if_splits)
  then show ?thesis by (simp add: unat_of_int_u16)
qed

lemma splitList_wf:
  assumes "splitList v = Inr xs" and "wf_value v"
  shows "xs \<noteq> []" and "x \<in> set xs \<Longrightarrow> wf_item x"
proof -
  let ?f = "\<lambda>split. let trim = strings_TrimSpace split in
    if trim = [] then Inl (ParseError ''Two commas in a row'' v) else Inr trim"
  from assms(1) have r: "rmap ?f (strings_Split v (CHR '','')) = Inr xs" by (simp add: splitList_def)
  then have "length xs = length (strings_Split v (CHR '',''))"
    by (auto simp: rmap_Inr_iff dest: list_all2_lengthD)
  then show "xs \<noteq> []" by auto
  assume "x \<in> set xs"
  then obtain y where y: "y \<in> set (strings_Split v (CHR '',''))" "?f y = Inr x"
    using rmap_InrD [OF r] by blast
  then have x: "x = strings_TrimSpace y" "x \<noteq> []" by (auto simp: Let_def split: if_splits)
  have "set y \<subseteq> set v" by (rule set_strings_Split [OF y(1)])
  then show "wf_item x"
    using x assms(2) set_TrimSpace [of y] strings_Split_no_sepD [OF y(1)]
    by (auto simp: wf_item_def wf_value_def wf_text_def)
qed

lemma ParseAddr_zone_suffix:
  assumes "netip_ParseAddr s = Some a" and "addr_Zone a \<noteq> []"
  shows "\<exists>pre. s = pre @ CHR ''%'' # addr_Zone a"
proof -
  have "s \<noteq> [] \<Longrightarrow> c \<in> set s \<Longrightarrow> s = takeWhile (\<lambda>x. x \<noteq> c) s @ c # tl (dropWhile (\<lambda>x. x \<noteq> c) s)" for c :: char
    by (metis (mono_tags, lifting) dropWhile_eq_Nil_conv hd_dropWhile list.collapse takeWhile_dropWhile_id)
  then show ?thesis
    using assms
    by (auto simp: netip_ParseAddr_def parseIPv4_def parseIPv6_def strings_Cut_char split: option.splits if_splits)
      (metis dropWhile_neq_Nil list.sel(2) empty_iff empty_set)+
qed

lemma wf_value_printable:
  assumes "v \<noteq> []" and "\<And>c. c \<in> set v \<Longrightarrow> printable c \<and> c \<noteq> CHR ''#''"
  shows "wf_value v"
proof -
  obtain a t where v: "v = a # t" using assms(1) by (cases v) auto
  obtain u z where v': "v = u @ [z]" using assms(1) rev_exhaust by blast
  have "no_space_front v" unfolding v by (rule no_space_front_printable) (simp add: assms v)
  moreover have "no_space_back v" unfolding v' by (rule no_space_back_printable) (simp add: assms v')
  moreover have "\<not> printable newline" by (simp add: printable_def)
  ultimately show ?thesis using assms by (auto simp: wf_value_def wf_text_def trimmed_def)
qed

lemma wf_dns_ParseAddr:
  assumes "netip_ParseAddr s = Some a" and "wf_item s"
  shows "wf_dns a"
proof -
  have a: "a \<noteq> AddrInvalid" using assms(1) by (rule ParseAddr_zone)
  define t where "t = addr_String (addr_withoutZone a)"
  have t: "printable c \<and> c \<noteq> CHR ''#'' \<and> c \<noteq> CHR '',''" if "c \<in> set t" for c
    using that a addr_String_chars [of "addr_withoutZone a" c] v6_text_char_printable [of c]
    unfolding t_def by (cases a) auto
  have str: "addr_String a = t @ zone_str (addr_Zone a)"
    unfolding t_def by (cases a) (auto simp: zone_str_def)
  have "t \<noteq> []" unfolding t_def by (rule addr_String_not_Nil)
  have "wf_item (addr_String a)"
  proof (cases "addr_Zone a = []")
    case True
    then show ?thesis
      using str t \<open>t \<noteq> []\<close> wf_value_printable [of t] by (auto simp: wf_item_def zone_str_def)
  next
    case False
    then obtain pre where s: "s = pre @ CHR ''%'' # addr_Zone a"
      using ParseAddr_zone_suffix assms(1) by blast
    have item: "no_space_back s" "newline \<notin> set s" "CHR ''#'' \<notin> set s" "CHR '','' \<notin> set s"
      using assms(2) by (simp_all add: wf_item_def wf_value_def wf_text_def trimmed_def)
    have "no_space_back (addr_Zone a)"
      using item(1) unfolding no_space_back_def s by (metis append_Cons append_assoc suffix_appendI suffix_ConsI)
    then have "no_space_back (addr_String a)"
      unfolding str using False by (simp add: zone_str_def no_space_back_append)
    moreover have "no_space_front (addr_String a)"
      using t \<open>t \<noteq> []\<close> unfolding str by (cases t) (simp_all add: no_space_front_printable)
    moreover have "newline \<notin> set t" "CHR ''#'' \<notin> set t" "CHR '','' \<notin> set t"
      using t by (auto simp: printable_def dest!: t)
    ultimately show ?thesis
      using str s item \<open>t \<noteq> []\<close> by (simp add: wf_item_def wf_value_def wf_text_def trimmed_def zone_str_def)
  qed
  with a show ?thesis by (simp add: wf_dns_def)
qed

section \<open>Endpoints\<close>

text \<open>What lower-cases to an ASCII letter other than \<open>i\<close> and \<open>k\<close> is that letter.\<close>

lemma decode_rune_small: "decode_rune s = (r, w) \<Longrightarrow> r < 128 \<Longrightarrow> \<exists>c t. s = c # t \<and> ord c = r"
  by (auto simp: decode_rune_def RuneError_def Let_def split: list.splits if_splits)

lemma encode_rune_hd_small: "encode_rune n = c # t \<Longrightarrow> ord c < 128 \<Longrightarrow> n < 128 \<and> c = char_of n"
proof -
  assume e: "encode_rune n = c # t" and c: "ord c < 128"
  have "ord (char_of (0xC0 + n div 64)) \<ge> 128" if "n < 0x800"
    using that by simp
  moreover have "ord (char_of (0xE0 + n div 4096)) \<ge> 128" if "n < 0x10000"
    using that by simp
  moreover have "ord (char_of (0xF0 + n div 262144)) \<ge> 128" if "n \<le> 0x10FFFF"
    using that by simp
  ultimately show ?thesis
    using e c by (auto simp: encode_rune_def split: if_splits)
qed

lemma ToLower_hd:
  assumes "strings_ToLower ul s = d # r" and "ord d < 128" and "d \<noteq> CHR ''i''" "d \<noteq> CHR ''k''"
  shows "\<exists>c t. s = c # t \<and> lower_ascii c = d \<and> strings_ToLower ul t = r"
proof -
  have "\<exists>c t. s = c # t \<and> ord c < 128"
  proof (cases "is_ascii s")
    case True
    with assms(1) show ?thesis by (cases s) (auto simp: strings_ToLower_def)
  next
    case False
    then have "s \<noteq> []" by auto
    obtain r0 w where dr: "decode_rune s = (r0, w)" by fastforce
    then have "runes s = r0 # runes (drop w s)" using \<open>s \<noteq> []\<close> by (subst runes.simps) simp
    then have "strings_ToLower ul s = encode_rune (lower_rune ul r0) @ concat (map (encode_rune \<circ> lower_rune ul) (runes (drop w s)))"
      using False by (simp add: strings_ToLower_def)
    then obtain t where "encode_rune (lower_rune ul r0) = d # t"
      using assms(1) encode_rune_Cons [of "lower_rune ul r0"] by auto
    with assms(2) have "lower_rune ul r0 < 128" "d = char_of (lower_rune ul r0)"
      using encode_rune_hd_small by blast+
    with assms(3,4) have "r0 < 128"
      by (auto simp: lower_rune_def char_of_eq_iff split: if_splits)
    with dr show ?thesis using decode_rune_small by blast
  qed
  then obtain c t where "s = c # t" "ord c < 128" by blast
  with assms(1) show ?thesis by (simp add: strings_ToLower_Cons_ascii)
qed

lemma ToLower_prefix:
  "prefix p (strings_ToLower ul s) \<Longrightarrow> set p \<subseteq> set ''ws:/'' \<Longrightarrow> \<exists>u t. s = u @ t \<and> map lower_ascii u = p"
proof (induction p arbitrary: s)
  case (Cons d p)
  then obtain r where r: "strings_ToLower ul s = d # r" "prefix p r"
    by (cases "strings_ToLower ul s") auto
  then obtain c t where c: "s = c # t" "lower_ascii c = d" "strings_ToLower ul t = r"
    using ToLower_hd [of ul s d r] Cons.prems(2) by auto
  with Cons.IH [of t] r Cons.prems(2) obtain u t' where "t = u @ t'" "map lower_ascii u = p" by auto
  with c show ?case by (intro exI [of _ "c # u"] exI [of _ t']) auto
qed simp

lemma ToLower_prefix2:
  "prefix p (strings_ToLower ul s) \<or> prefix q (strings_ToLower ul s) \<Longrightarrow>
     set p \<subseteq> set ''ws:/'' \<Longrightarrow> set q \<subseteq> set ''ws:/'' \<Longrightarrow>
     \<exists>u t. s = u @ t \<and> (map lower_ascii u = p \<or> map lower_ascii u = q)"
  using ToLower_prefix [of p ul s] ToLower_prefix [of q ul s] by metis

lemma isWSURL_D:
  assumes "isWSURL L s"
  shows "\<exists>pre t. s = pre @ CHR '':'' # CHR ''/'' # t \<and> CHR '':'' \<notin> set pre \<and> pre \<noteq> [] \<and> hd pre \<noteq> CHR ''[''"
proof -
  have "\<exists>u t. s = u @ t \<and> (map lower_ascii u = ''ws://'' \<or> map lower_ascii u = ''wss://'')"
    by (rule ToLower_prefix2 [of _ "unicode_lower L"])
      (use assms in \<open>simp_all add: isWSURL_def strings_HasPrefix_def Let_def\<close>)
  then obtain u t where s: "s = u @ t" and u: "map lower_ascii u = ''ws://'' \<or> map lower_ascii u = ''wss://''"
    by (elim exE conjE)
  have c: "lower_ascii x = CHR '':'' \<Longrightarrow> x = CHR '':''" "lower_ascii x = CHR ''/'' \<Longrightarrow> x = CHR ''/''" for x
    by (auto dest!: lower_ascii_inj_lower)
  have w: "lower_ascii x = CHR ''w'' \<Longrightarrow> x \<noteq> CHR '':'' \<and> x \<noteq> CHR ''[''" "lower_ascii x = CHR ''s'' \<Longrightarrow> x \<noteq> CHR '':''" for x
    by (auto simp: lower_ascii_def split: if_splits)
  from u show ?thesis
  proof
    assume "map lower_ascii u = ''ws://''"
    then obtain a b x y z where "u = [a, b, x, y, z]" "lower_ascii a = CHR ''w''" "lower_ascii b = CHR ''s''"
      "lower_ascii x = CHR '':''" "lower_ascii y = CHR ''/''" by (auto simp: map_eq_Cons_conv)
    with s c w show ?thesis by (intro exI [of _ "[a, b]"] exI [of _ "z # t"]) auto
  next
    assume "map lower_ascii u = ''wss://''"
    then obtain a b b' x y z where "u = [a, b, b', x, y, z]" "lower_ascii a = CHR ''w''" "lower_ascii b = CHR ''s''"
      "lower_ascii b' = CHR ''s''" "lower_ascii x = CHR '':''" "lower_ascii y = CHR ''/''"
      by (auto simp: map_eq_Cons_conv)
    with s c w show ?thesis by (intro exI [of _ "[a, b, b']"] exI [of _ "z # t"]) auto
  qed
qed

lemma parsePort_uint_str: "parsePort (uint_str p) = Inr p"
proof -
  have "unat p < 65536" "uint p < 65536"
    using unsigned_less [of p, where ?'a = nat] unsigned_less [of p, where ?'a = int] by simp_all
  then show ?thesis by (simp add: parsePort_def Atoi_nat_str)
qed

lemma uint_str_no_colon [simp]: "CHR '':'' \<notin> set (nat_str n)"
  by (rule nat_str_notin) (simp add: is_digit_def)

lemma hd_nat_str_not_slash: "hd (nat_str n) \<noteq> CHR ''/''"
  using nat_str_hd_last [of n] by (auto simp: is_digit_def)

lemma bracketed:
  assumes "3 < length host" "host ! 0 = CHR ''[''" "host ! (length host - 1) = CHR '']''"
  shows "host = ''['' @ drop 1 (take (length host - 1) host) @ '']''"
proof -
  obtain h where h: "host = CHR ''['' # h" using assms by (cases host) auto
  with assms(1) obtain m z where "h = m @ [z]" using rev_exhaust [of h] by fastforce
  with h assms show ?thesis by simp
qed

text \<open>The host text an endpoint is printed with, and that it is all the parser looks at.\<close>

lemma parseEndpoint_reprint:
  assumes "parseEndpoint s = Inr e"
  shows "\<exists>h t. s = h @ CHR '':'' # t \<and> h \<noteq> [] \<and> Host e \<noteq> [] \<and>
    endpoint_String e = h @ CHR '':'' # uint_str (Port e) \<and>
    (CHR '':'' \<notin> set h \<or> hd h = CHR ''['') \<and>
    parseEndpoint (h @ CHR '':'' # uint_str (Port e)) = Inr e"
proof -
  from assms obtain i where i: "strings_LastIndexByte s (CHR '':'') = Some i"
    by (auto simp: parseEndpoint_def split: option.splits)
  define h t where "h = take i s" and "t = drop (Suc i) s"
  have s: "s = h @ CHR '':'' # t" and "CHR '':'' \<notin> set t"
    using strings_LastIndexByte_SomeD [OF i] by (auto simp: h_def t_def)
  define rest where "rest port =
    (let hostColon = strings_IndexByte h (CHR '':'') in
     if h ! 0 = CHR ''['' \<or> h ! (length h - 1) = CHR '']'' \<or> hostColon \<noteq> None then
       (let err = ParseError ''Brackets must contain an IPv6 address'' h in
        if 3 < length h \<and> h ! 0 = CHR ''['' \<and> h ! (length h - 1) = CHR '']'' \<and>
           hostColon \<noteq> None \<and> hostColon \<noteq> Some 0 then
          (let end = (case strings_LastIndexByte h (CHR ''%'') of
                 Some i \<Rightarrow> if 1 < i then i else length h - 1 | None \<Rightarrow> length h - 1) in
           case netip_ParseAddr (drop 1 (take end h)) of
             None \<Rightarrow> Inl err
           | Some maybeV6 \<Rightarrow>
               if \<not> addr_Is6 maybeV6 then Inl err
               else Inr \<lparr>Host = drop 1 (take (length h - 1) h), Port = port\<rparr>)
        else Inl err)
     else Inr \<lparr>Host = h, Port = port\<rparr>)" for port :: u16
  have pe: "parseEndpoint (h @ CHR '':'' # u) =
      (if h = [] then Inl (ParseError ''Invalid endpoint host'' h) else rbind (parsePort u) rest)"
    if "CHR '':'' \<notin> set u" for u
    using that unfolding parseEndpoint_def rest_def
    by (simp add: strings_LastIndexByte_append Let_def less_Suc_eq_0_disj flip: length_0_conv)
  from assms s \<open>CHR '':'' \<notin> set t\<close> have h: "h \<noteq> []" and r: "\<exists>port. rest port = Inr e"
    by (auto simp: pe rbind_eq_Inr split: if_splits)
  then obtain port where port: "rest port = Inr e" by blast
  then have p: "Port e = port"
    by (auto simp: rest_def Let_def split: if_splits option.splits)
  consider "CHR '':'' \<notin> set h" "e = \<lparr>Host = h, Port = port\<rparr>"
    | "3 < length h" "h ! 0 = CHR ''[''" "h ! (length h - 1) = CHR '']''" "CHR '':'' \<in> set h"
      "e = \<lparr>Host = drop 1 (take (length h - 1) h), Port = port\<rparr>"
    using port by (auto simp: rest_def Let_def split: if_splits option.splits)
  then have "endpoint_String e = h @ CHR '':'' # uint_str port \<and> Host e \<noteq> [] \<and> (CHR '':'' \<notin> set h \<or> hd h = CHR ''['')"
  proof cases
    case 1
    then show ?thesis using h by (simp add: endpoint_String_def)
  next
    case 2
    define m where "m = drop 1 (take (length h - 1) h)"
    have hm: "h = ''['' @ m @ '']''" unfolding m_def by (rule bracketed) (use 2 in auto)
    then have "CHR '':'' \<in> set m" using 2(4) by auto
    with hm 2(5) show ?thesis by (auto simp: endpoint_String_def m_def [symmetric])
  qed
  moreover have "parseEndpoint (h @ CHR '':'' # uint_str port) = Inr e"
    using h port by (simp add: pe parsePort_uint_str)
  ultimately show ?thesis using s h p by blast
qed

lemma wf_endpoint_parse:
  assumes "parseEndpoint s = Inr e" and "wf_value s"
  shows "wf_endpoint L e"
proof -
  obtain h t where s: "s = h @ CHR '':'' # t" "h \<noteq> []" "Host e \<noteq> []"
    and es: "endpoint_String e = h @ CHR '':'' # uint_str (Port e)"
    and br: "CHR '':'' \<notin> set h \<or> hd h = CHR ''[''"
    and pe: "parseEndpoint (h @ CHR '':'' # uint_str (Port e)) = Inr e"
    using parseEndpoint_reprint [OF assms(1)] by blast
  have "wf_value (endpoint_String e)"
    unfolding es by (rule wf_value_append [of h _ t]) (use s assms(2) nat_str_digits in auto)
  moreover have "\<not> isWSURL L (endpoint_String e)"
  proof
    assume "isWSURL L (endpoint_String e)"
    then obtain pre u where u: "h @ CHR '':'' # uint_str (Port e) = pre @ CHR '':'' # CHR ''/'' # u"
      "CHR '':'' \<notin> set pre" "pre \<noteq> []" "hd pre \<noteq> CHR ''[''"
      using isWSURL_D unfolding es by blast
    then have "hd h \<noteq> CHR ''[''" using \<open>h \<noteq> []\<close> by (metis hd_append2)
    with br have "CHR '':'' \<notin> set h" by simp
    with u(1,2) have "h = pre" by (metis takeWhile_neq_append)
    with u(1) have "uint_str (Port e) = CHR ''/'' # u" by simp
    then show False using hd_nat_str_not_slash by (metis list.sel(1))
  qed
  ultimately show ?thesis using s es pe by (simp add: wf_endpoint_def)
qed

end
