(* ===== verification/ConfSound.thy ===== *)
theory ConfSound
  imports ConfWf
begin

text \<open>
  The parser establishes the invariant of \<open>ConfWf\<close>: case rules for the key switches of
  \<open>FromWgQuick\<close>, preservation by every key, line and section, and the effect of pruning.
\<close>

section \<open>The keys of the [Interface] section\<close>

lemma interfaceKey_cases:
  assumes "interfaceKey key val (i, saw) = Inr (i', saw')"
  obtains
    (privatekey) k where "key = ''privatekey''" "parseKeyBase64 val = Inr k" "i' = i\<lparr>PrivateKey := k\<rparr>" "saw'"
  | (listenport) p where "key = ''listenport''" "parsePort val = Inr p" "i' = i\<lparr>ListenPort := p\<rparr>" "saw' = saw"
  | (mtu) m where "key = ''mtu''" "parseMTU val = Inr m" "i' = i\<lparr>MTU := m\<rparr>" "saw' = saw"
  | (address) xs as where "key = ''address''" "splitList val = Inr xs" "rmap parseIPCidr xs = Inr as"
      "i' = i\<lparr>Addresses := Addresses i @ as\<rparr>" "saw' = saw"
  | (dns) xs where "key = ''dns''" "splitList val = Inr xs" "i' = foldl addDNS i xs" "saw' = saw"
  | (preup) "key = ''preup''" "i' = i\<lparr>PreUp := val\<rparr>" "saw' = saw"
  | (postup) "key = ''postup''" "i' = i\<lparr>PostUp := val\<rparr>" "saw' = saw"
  | (predown) "key = ''predown''" "i' = i\<lparr>PreDown := val\<rparr>" "saw' = saw"
  | (postdown) "key = ''postdown''" "i' = i\<lparr>PostDown := val\<rparr>" "saw' = saw"
  | (table) b where "key = ''table''" "parseTableOff val = Inr b" "i' = i\<lparr>TableOff := b\<rparr>" "saw' = saw"
proof -
  show thesis
    using assms unfolding interfaceKey_def Let_def prod.case
    apply -
    apply (elim if_InrE rbind_InrE)
    subgoal by (rule privatekey, assumption, assumption, simp, simp)
    subgoal by (rule listenport, assumption, assumption, simp, simp)
    subgoal by (rule mtu, assumption, assumption, simp, simp)
    subgoal by (rule address, assumption, assumption, assumption, simp, simp)
    subgoal by (rule dns, assumption, assumption, simp, simp)
    subgoal by (rule preup) simp_all
    subgoal by (rule postup) simp_all
    subgoal by (rule predown) simp_all
    subgoal by (rule postdown) simp_all
    subgoal by (rule table, assumption, assumption, simp, simp)
    subgoal by simp
    done
qed

lemma addDNS_fields:
  "PrivateKey (addDNS i x) = PrivateKey i" "Addresses (addDNS i x) = Addresses i"
  "ListenPort (addDNS i x) = ListenPort i" "MTU (addDNS i x) = MTU i" "PreUp (addDNS i x) = PreUp i"
  "PostUp (addDNS i x) = PostUp i" "PreDown (addDNS i x) = PreDown i" "PostDown (addDNS i x) = PostDown i"
  "TableOff (addDNS i x) = TableOff i" "iComments (addDNS i x) = iComments i"
  by (simp_all add: addDNS_def split: option.splits)

lemma addDNS_wf:
  "wf_item x \<Longrightarrow> list_all wf_dns (DNS i) \<Longrightarrow> list_all wf_search (DNSSearch i) \<Longrightarrow>
     list_all wf_dns (DNS (addDNS i x)) \<and> list_all wf_search (DNSSearch (addDNS i x)) \<and>
     (DNS (addDNS i x) \<noteq> [] \<or> DNSSearch (addDNS i x) \<noteq> [])"
  by (auto simp: addDNS_def wf_search_def wf_dns_ParseAddr split: option.splits)

lemma foldl_addDNS:
  assumes "\<And>x. x \<in> set xs \<Longrightarrow> wf_item x" and "list_all wf_dns (DNS i)" "list_all wf_search (DNSSearch i)"
  shows "PrivateKey (foldl addDNS i xs) = PrivateKey i \<and> Addresses (foldl addDNS i xs) = Addresses i \<and>
    ListenPort (foldl addDNS i xs) = ListenPort i \<and> MTU (foldl addDNS i xs) = MTU i \<and>
    PreUp (foldl addDNS i xs) = PreUp i \<and> PostUp (foldl addDNS i xs) = PostUp i \<and>
    PreDown (foldl addDNS i xs) = PreDown i \<and> PostDown (foldl addDNS i xs) = PostDown i \<and>
    iComments (foldl addDNS i xs) = iComments i \<and>
    list_all wf_dns (DNS (foldl addDNS i xs)) \<and> list_all wf_search (DNSSearch (foldl addDNS i xs)) \<and>
    (xs \<noteq> [] \<longrightarrow> DNS (foldl addDNS i xs) \<noteq> [] \<or> DNSSearch (foldl addDNS i xs) \<noteq> [])"
  using assms
proof (induction xs rule: rev_induct)
  case (snoc x xs)
  then show ?case using addDNS_wf [of x "foldl addDNS i xs"] by (simp add: addDNS_fields)
qed simp

text \<open>
  A key is read after the comments in front of it were filed under it: \<open>sec\<close> is the section's
  comments, changed at most at \<open>key\<close>.
\<close>

definition line_value :: "string \<Rightarrow> string \<Rightarrow> bool" where
  "line_value key v \<longleftrightarrow> (if key \<in> scriptKeys then wf_text v else wf_value v)"

lemma rmap_parseIPCidr_wf: "rmap parseIPCidr xs = Inr as \<Longrightarrow> list_all wf_prefix as"
  by (auto simp: list_all_iff dest!: rmap_InrD parseIPCidr_wf)

lemma rmap_length: "rmap f xs = Inr ys \<Longrightarrow> length ys = length xs"
  by (auto simp: rmap_Inr_iff dest: list_all2_lengthD)

lemma interfaceKey_inv:
  assumes "interfaceKey key val (i\<lparr>iComments := sec\<rparr>, saw) = Inr (i', saw')"
    and inv: "interface_inv i" and sec: "\<And>k. k \<noteq> key \<Longrightarrow> Lines sec k = Lines (iComments i) k"
    and val: "line_value key val"
  shows "interface_inv i' \<and> iComments i' = sec"
proof -
  have d: "dom (Lines sec) \<subseteq> interfaceKeys" if "key \<in> interfaceKeys"
  proof
    fix k assume k: "k \<in> dom (Lines sec)"
    have "dom (Lines (iComments i)) \<subseteq> interfaceKeys" using inv by (simp add: interface_inv_def)
    then show "k \<in> interfaceKeys" using k that sec [of k] by (cases "k = key") (auto simp: subset_iff domIff)
  qed
  note inv' = inv [unfolded interface_inv_def]
  note defs = interface_inv_def wf_script_def interfaceKeys_def scriptKeys_def
  show ?thesis
    using assms(1)
  proof (cases rule: interfaceKey_cases)
    case (privatekey k)
    with inv' d show ?thesis by (simp add: defs sec b64.parse_length)
  next
    case (listenport p)
    with inv' d show ?thesis by (simp add: defs sec)
  next
    case (mtu m)
    from parseMTU_bound [OF mtu(2)] have "576 \<le> unat m" "m \<noteq> 0" by auto
    with mtu inv' d show ?thesis by (simp add: defs sec)
  next
    case (address xs as)
    have "wf_value val" using val address(1) by (simp add: line_value_def scriptKeys_def)
    with address(2,3) have "as \<noteq> []" "list_all wf_prefix as"
      using splitList_wf(1) rmap_length rmap_parseIPCidr_wf by fastforce+
    with address inv' d show ?thesis by (simp add: defs sec)
  next
    case (dns xs)
    have "wf_value val" using val dns(1) by (simp add: line_value_def scriptKeys_def)
    then have "xs \<noteq> []" "\<And>x. x \<in> set xs \<Longrightarrow> wf_item x" using splitList_wf [OF dns(2)] by blast+
    with foldl_addDNS [of xs "i\<lparr>iComments := sec\<rparr>"] dns inv' d show ?thesis by (simp add: defs sec)
  next
    case preup
    with val inv' d show ?thesis by (simp add: defs sec line_value_def) (simp add: wf_text_def)
  next
    case postup
    with val inv' d show ?thesis by (simp add: defs sec line_value_def) (simp add: wf_text_def)
  next
    case predown
    with val inv' d show ?thesis by (simp add: defs sec line_value_def) (simp add: wf_text_def)
  next
    case postdown
    with val inv' d show ?thesis by (simp add: defs sec line_value_def) (simp add: wf_text_def)
  next
    case (table b)
    with inv' d show ?thesis by (simp add: defs sec)
  qed
qed

section \<open>The keys of a [Peer] section\<close>

lemma peerKey_cases:
  assumes "peerKey L key val (p, ws) = Inr (p', ws')"
  obtains
    (publickey) k where "key = ''publickey''" "parseKeyBase64 val = Inr k" "p' = p\<lparr>PublicKey := k\<rparr>" "ws' = ws"
  | (presharedkey) k where "key = ''presharedkey''" "parseKeyBase64 val = Inr k" "p' = p\<lparr>PresharedKey := k\<rparr>" "ws' = ws"
  | (allowedips) xs as where "key = ''allowedips''" "splitList val = Inr xs" "rmap parseIPCidr xs = Inr as"
      "p' = p\<lparr>AllowedIPs := AllowedIPs p @ as\<rparr>" "ws' = ws"
  | (keepalive) k where "key = ''persistentkeepalive''" "parsePersistentKeepalive val = Inr k"
      "p' = p\<lparr>PersistentKeepalive := k\<rparr>" "ws' = ws"
  | (endpoint) q where "key = ''endpoint''" "parseEndpointKey L val p = Inr q" "p' = q" "ws' = ws"
  | (wsmode) m where "key = ''wsmode''" "parseWSMode L val = Inr m" "p' = p\<lparr>WSMode := m\<rparr>" "ws' = ws"
  | (wstunneltarget) e where "key = ''wstunneltarget''" "parseEndpoint val = Inr e"
      "p' = p\<lparr>WSTunnelTarget := val\<rparr>" "ws' \<noteq> []"
  | (wsbearer) "key = ''wsbearer''" "p' = p\<lparr>WSBearer := val\<rparr>" "ws' \<noteq> []"
  | (wsmask) b where "key = ''wsmask''" "parseWSBool val = Inr b" "p' = p\<lparr>WSMask := b\<rparr>" "ws' \<noteq> []"
  | (wstlsca) "key = ''wstlsca''" "p' = p\<lparr>WSTLSCA := val\<rparr>" "ws' \<noteq> []"
  | (wstlscert) "key = ''wstlscert''" "p' = p\<lparr>WSTLSCert := val\<rparr>" "ws' \<noteq> []"
  | (wstlskey) "key = ''wstlskey''" "p' = p\<lparr>WSTLSKey := val\<rparr>" "ws' \<noteq> []"
  | (wstlsinsecure) b where "key = ''wstlsinsecure''" "parseWSBool val = Inr b" "p' = p\<lparr>WSTLSInsecure := b\<rparr>" "ws' \<noteq> []"
  | (wspinginterval) m where "key = ''wspinginterval''" "parseWSMillis val = Inr m" "p' = p\<lparr>WSPingInterval := m\<rparr>" "ws' \<noteq> []"
  | (wsbackoffmin) m where "key = ''wsbackoffmin''" "parseWSMillis val = Inr m" "p' = p\<lparr>WSBackoffMin := m\<rparr>" "ws' \<noteq> []"
  | (wsbackoffmax) m where "key = ''wsbackoffmax''" "parseWSMillis val = Inr m" "p' = p\<lparr>WSBackoffMax := m\<rparr>" "ws' \<noteq> []"
proof -
  show thesis
    using assms unfolding peerKey_def Let_def prod.case
    apply -
    apply (elim if_InrE rbind_InrE)
    subgoal by (rule publickey, assumption, assumption, simp, simp)
    subgoal by (rule presharedkey, assumption, assumption, simp, simp)
    subgoal by (rule allowedips, assumption, assumption, assumption, simp, simp)
    subgoal by (rule keepalive, assumption, assumption, simp, simp)
    subgoal by (rule endpoint, assumption, assumption, simp, simp)
    subgoal by (rule wsmode, assumption, assumption, simp, simp)
    subgoal by (cases "parseEndpoint val", simp) (rule wstunneltarget, assumption, assumption, auto)
    subgoal by (rule wsbearer, assumption, simp, auto)
    subgoal by (rule wsmask, assumption, assumption, simp, auto)
    subgoal by (rule wstlsca, assumption, simp, auto)
    subgoal by (rule wstlscert, assumption, simp, auto)
    subgoal by (rule wstlskey, assumption, simp, auto)
    subgoal by (rule wstlsinsecure, assumption, assumption, simp, auto)
    subgoal by (rule wspinginterval, assumption, assumption, simp, auto)
    subgoal by (rule wsbackoffmin, assumption, assumption, simp, auto)
    subgoal by (rule wsbackoffmax, assumption, assumption, simp, auto)
    subgoal by simp
    done
qed

lemma parseEndpointKey_inv:
  assumes "parseEndpointKey L val p = Inr q" and "wf_value val"
  shows "\<exists>e u. q = p\<lparr>pEndpoint := e, WSURL := u\<rparr> \<and> (u \<noteq> [] \<or> Host e \<noteq> []) \<and> endpoint_inv L (p\<lparr>pEndpoint := e, WSURL := u\<rparr>)"
proof (cases "isWSURL L val")
  case True
  with assms obtain e where "parseWSURL L val = Inr e" "q = p\<lparr>pEndpoint := e, WSURL := val\<rparr>"
    by (auto simp: parseEndpointKey_def rbind_eq_Inr)
  with True assms(2) show ?thesis
    by (intro exI [of _ e] exI [of _ val]) (simp add: endpoint_inv_def wf_value_def wf_text_def)
next
  case False
  with assms obtain e where "parseEndpoint val = Inr e" "q = p\<lparr>pEndpoint := e, WSURL := []\<rparr>"
    by (auto simp: parseEndpointKey_def rbind_eq_Inr)
  moreover from this have "wf_endpoint L e" using wf_endpoint_parse assms(2) by blast
  ultimately show ?thesis
    by (intro exI [of _ e] exI [of _ "[]"]) (simp add: endpoint_inv_def wf_endpoint_def)
qed

lemma wf_value_not_Nil: "wf_value v \<Longrightarrow> v \<noteq> []"
  by (simp add: wf_value_def wf_text_def)

lemma no_ws_optionsI:
  assumes "no_ws_options p" and "\<And>k. k \<noteq> key \<Longrightarrow> Lines sec k = Lines (pComments p) k" and "key \<notin> wsOptionKeys"
  shows "dom (Lines sec) \<inter> wsOptionKeys = {}"
proof -
  have "dom (Lines (pComments p)) \<inter> wsOptionKeys = {}" using assms(1) by (simp add: no_ws_options_def)
  moreover have "Lines sec k = Lines (pComments p) k" if "k \<in> wsOptionKeys" for k
    using that assms(3) by (intro assms(2)) auto
  ultimately have "k \<notin> dom (Lines sec)" if "k \<in> wsOptionKeys" for k
    using that by (auto simp: disjoint_iff domIff)
  then show ?thesis by blast
qed

lemma endpoint_inv_sec:
  "endpoint_inv L p \<Longrightarrow> Lines sec ''endpoint'' = Lines (pComments p) ''endpoint'' \<Longrightarrow> endpoint_inv L (p\<lparr>pComments := sec\<rparr>)"
  by (simp add: endpoint_inv_def)

lemma endpoint_inv_upd [simp]:
  "endpoint_inv L (p\<lparr>PublicKey := k\<rparr>) = endpoint_inv L p" "endpoint_inv L (p\<lparr>PresharedKey := k\<rparr>) = endpoint_inv L p"
  "endpoint_inv L (p\<lparr>AllowedIPs := as\<rparr>) = endpoint_inv L p" "endpoint_inv L (p\<lparr>PersistentKeepalive := n\<rparr>) = endpoint_inv L p"
  "endpoint_inv L (p\<lparr>WSMode := s\<rparr>) = endpoint_inv L p" "endpoint_inv L (p\<lparr>WSTunnelTarget := s\<rparr>) = endpoint_inv L p"
  "endpoint_inv L (p\<lparr>WSBearer := s\<rparr>) = endpoint_inv L p" "endpoint_inv L (p\<lparr>WSMask := b\<rparr>) = endpoint_inv L p"
  "endpoint_inv L (p\<lparr>WSTLSCA := s\<rparr>) = endpoint_inv L p" "endpoint_inv L (p\<lparr>WSTLSCert := s\<rparr>) = endpoint_inv L p"
  "endpoint_inv L (p\<lparr>WSTLSKey := s\<rparr>) = endpoint_inv L p" "endpoint_inv L (p\<lparr>WSTLSInsecure := b\<rparr>) = endpoint_inv L p"
  "endpoint_inv L (p\<lparr>WSPingInterval := m\<rparr>) = endpoint_inv L p" "endpoint_inv L (p\<lparr>WSBackoffMin := m\<rparr>) = endpoint_inv L p"
  "endpoint_inv L (p\<lparr>WSBackoffMax := m\<rparr>) = endpoint_inv L p"
  by (simp_all add: endpoint_inv_def)

lemma peerKey_inv:
  assumes "peerKey L key val (p\<lparr>pComments := sec\<rparr>, ws) = Inr (p', ws')"
    and inv: "peer_inv L p" and sec: "\<And>k. k \<noteq> key \<Longrightarrow> Lines sec k = Lines (pComments p) k"
    and val: "line_value key val" and ws: "ws = [] \<longrightarrow> no_ws_options p"
  shows "peer_inv L p' \<and> pComments p' = sec \<and> (ws' = [] \<longrightarrow> no_ws_options p')"
proof -
  have d: "dom (Lines sec) \<subseteq> peerKeys" if "key \<in> peerKeys"
  proof
    fix k assume k: "k \<in> dom (Lines sec)"
    have "dom (Lines (pComments p)) \<subseteq> peerKeys" using inv by (simp add: peer_inv_def)
    then show "k \<in> peerKeys" using k that sec [of k] by (cases "k = key") (auto simp: subset_iff domIff)
  qed
  have v: "wf_value val" if "key \<notin> scriptKeys" using val that by (simp add: line_value_def)
  have n: "no_ws_options p" "dom (Lines sec) \<inter> wsOptionKeys = {}" if "ws = []" "key \<notin> wsOptionKeys"
    using ws that no_ws_optionsI [OF _ sec] by auto
  have e: "endpoint_inv L (p\<lparr>pComments := sec\<rparr>)" if "key \<noteq> ''endpoint''"
    using inv that sec [of "''endpoint''"] by (simp add: peer_inv_def endpoint_inv_sec)
  note inv' = inv [unfolded peer_inv_def]
  note keys = peerKeys_def scriptKeys_def wsOptionKeys_def
  show ?thesis
    using assms(1)
  proof (cases rule: peerKey_cases)
    case (publickey k)
    then have k: "key \<in> peerKeys" "key \<notin> scriptKeys" "key \<noteq> ''endpoint''" "key \<notin> wsOptionKeys" by (simp_all add: keys)
    with publickey inv' d [OF k(1)] e [OF k(3)] n [OF _ k(4)] v [OF k(2)] show ?thesis
      by (simp add: peer_inv_def sec wf_option_def no_ws_options_def b64.parse_length)
  next
    case (presharedkey k)
    then have k: "key \<in> peerKeys" "key \<notin> scriptKeys" "key \<noteq> ''endpoint''" "key \<notin> wsOptionKeys" by (simp_all add: keys)
    with presharedkey inv' d [OF k(1)] e [OF k(3)] n [OF _ k(4)] v [OF k(2)] show ?thesis
      by (simp add: peer_inv_def sec wf_option_def no_ws_options_def b64.parse_length)
  next
    case (allowedips xs as)
    then have k: "key \<in> peerKeys" "key \<notin> scriptKeys" "key \<noteq> ''endpoint''" "key \<notin> wsOptionKeys" by (simp_all add: keys)
    have "as \<noteq> []" "list_all wf_prefix as"
      using splitList_wf(1) [OF allowedips(2) v [OF k(2)]] rmap_length [OF allowedips(3)] rmap_parseIPCidr_wf [OF allowedips(3)]
      by auto
    with allowedips inv' d [OF k(1)] e [OF k(3)] n [OF _ k(4)] v [OF k(2)] show ?thesis
      by (simp add: peer_inv_def sec wf_option_def no_ws_options_def)
  next
    case (keepalive k)
    then have k: "key \<in> peerKeys" "key \<notin> scriptKeys" "key \<noteq> ''endpoint''" "key \<notin> wsOptionKeys" by (simp_all add: keys)
    with keepalive inv' d [OF k(1)] e [OF k(3)] n [OF _ k(4)] v [OF k(2)] show ?thesis
      by (simp add: peer_inv_def sec wf_option_def no_ws_options_def)
  next
    case (endpoint q)
    then have k: "key \<in> peerKeys" "key \<notin> scriptKeys" "key \<notin> wsOptionKeys" by (simp_all add: keys)
    obtain e u where q: "q = p\<lparr>pComments := sec, pEndpoint := e, WSURL := u\<rparr>" "endpoint_inv L q"
      using parseEndpointKey_inv [OF endpoint(2) v [OF k(2)]] by auto
    with endpoint inv' d [OF k(1)] n [OF _ k(3)] show ?thesis
      by (simp add: peer_inv_def sec wf_option_def no_ws_options_def)
  next
    case (wsmode m)
    then have k: "key \<in> peerKeys" "key \<notin> scriptKeys" "key \<noteq> ''endpoint''" "key \<notin> wsOptionKeys" by (simp_all add: keys)
    have "m = WSModeWebSocket \<or> m = WSModeWSTunnel" "m \<noteq> WSModeNone"
      using wsmode(2) by (auto simp: parseWSMode_def Let_def WSMode_defs split: if_splits)
    with wsmode inv' d [OF k(1)] e [OF k(3)] n [OF _ k(4)] v [OF k(2)] show ?thesis
      by (simp add: peer_inv_def sec wf_option_def no_ws_options_def)
  next
    case (wstunneltarget en)
    then have k: "key \<in> peerKeys" "key \<notin> scriptKeys" "key \<noteq> ''endpoint''" by (simp_all add: keys)
    with wstunneltarget inv' d [OF k(1)] e [OF k(3)] v [OF k(2)] wf_value_not_Nil [OF v [OF k(2)]] show ?thesis
      by (simp add: peer_inv_def sec wf_option_def no_ws_options_def)
  next
    case wsbearer
    then have k: "key \<in> peerKeys" "key \<notin> scriptKeys" "key \<noteq> ''endpoint''" by (simp_all add: keys)
    with wsbearer inv' d [OF k(1)] e [OF k(3)] v [OF k(2)] wf_value_not_Nil [OF v [OF k(2)]] show ?thesis
      by (simp add: peer_inv_def sec wf_option_def no_ws_options_def)
  next
    case (wsmask b)
    then have k: "key \<in> peerKeys" "key \<notin> scriptKeys" "key \<noteq> ''endpoint''" by (simp_all add: keys)
    with wsmask inv' d [OF k(1)] e [OF k(3)] v [OF k(2)] show ?thesis
      by (simp add: peer_inv_def sec wf_option_def no_ws_options_def)
  next
    case wstlsca
    then have k: "key \<in> peerKeys" "key \<notin> scriptKeys" "key \<noteq> ''endpoint''" by (simp_all add: keys)
    with wstlsca inv' d [OF k(1)] e [OF k(3)] v [OF k(2)] wf_value_not_Nil [OF v [OF k(2)]] show ?thesis
      by (simp add: peer_inv_def sec wf_option_def no_ws_options_def)
  next
    case wstlscert
    then have k: "key \<in> peerKeys" "key \<notin> scriptKeys" "key \<noteq> ''endpoint''" by (simp_all add: keys)
    with wstlscert inv' d [OF k(1)] e [OF k(3)] v [OF k(2)] wf_value_not_Nil [OF v [OF k(2)]] show ?thesis
      by (simp add: peer_inv_def sec wf_option_def no_ws_options_def)
  next
    case wstlskey
    then have k: "key \<in> peerKeys" "key \<notin> scriptKeys" "key \<noteq> ''endpoint''" by (simp_all add: keys)
    with wstlskey inv' d [OF k(1)] e [OF k(3)] v [OF k(2)] wf_value_not_Nil [OF v [OF k(2)]] show ?thesis
      by (simp add: peer_inv_def sec wf_option_def no_ws_options_def)
  next
    case (wstlsinsecure b)
    then have k: "key \<in> peerKeys" "key \<notin> scriptKeys" "key \<noteq> ''endpoint''" by (simp_all add: keys)
    with wstlsinsecure inv' d [OF k(1)] e [OF k(3)] v [OF k(2)] show ?thesis
      by (simp add: peer_inv_def sec wf_option_def no_ws_options_def)
  next
    case (wspinginterval m)
    then have k: "key \<in> peerKeys" "key \<notin> scriptKeys" "key \<noteq> ''endpoint''" by (simp_all add: keys)
    with wspinginterval inv' d [OF k(1)] e [OF k(3)] v [OF k(2)] show ?thesis
      by (simp add: peer_inv_def sec wf_option_def no_ws_options_def)
  next
    case (wsbackoffmin m)
    then have k: "key \<in> peerKeys" "key \<notin> scriptKeys" "key \<noteq> ''endpoint''" by (simp_all add: keys)
    with wsbackoffmin inv' d [OF k(1)] e [OF k(3)] v [OF k(2)] show ?thesis
      by (simp add: peer_inv_def sec wf_option_def no_ws_options_def)
  next
    case (wsbackoffmax m)
    then have k: "key \<in> peerKeys" "key \<notin> scriptKeys" "key \<noteq> ''endpoint''" by (simp_all add: keys)
    with wsbackoffmax inv' d [OF k(1)] e [OF k(3)] v [OF k(2)] show ?thesis
      by (simp add: peer_inv_def sec wf_option_def no_ws_options_def)
  qed
qed

section \<open>Lines\<close>

lemma TrimRight_idem [simp]: "strings_TrimRight (strings_TrimRight s cs) cs = strings_TrimRight s cs"
  by (simp add: strings_TrimRight_def)

lemma set_TrimRight: "set (strings_TrimRight s cs) \<subseteq> set s"
  by (auto simp: strings_TrimRight_def dest: set_dropWhileD)

lemma raw_comments_zero [simp]: "raw_comments zeroComments"
  by (simp add: raw_comments_def zeroComments_def)

lemma raw_section_zero [simp]: "raw_section zeroSection"
  by (simp add: raw_section_def zeroSection_def)

lemma dropWhile_append_stop: "\<not> P y \<Longrightarrow> dropWhile P (xs @ y # ys) = dropWhile P xs @ y # ys"
  by (induction xs) auto

lemma TrimRight_keep: "c \<notin> set cs \<Longrightarrow> strings_TrimRight (a @ c # u) cs = a @ c # strings_TrimRight u cs"
  by (simp add: strings_TrimRight_def dropWhile_append_stop)

lemma addSuffix_wf:
  assumes "comment_or_blank comment" and "comment_or_blank s"
  shows "comment_or_blank (addSuffix comment s)"
proof (cases "comment = [] \<or> s = []")
  case True
  with assms show ?thesis by (auto simp: addSuffix_def)
next
  case False
  with assms have c: "wf_comment comment" and "wf_comment s" by auto
  then obtain t where s: "s = CHR ''#'' # t" "newline \<notin> set t" by (cases s) (auto simp: wf_comment_def)
  obtain u where u: "comment = CHR ''#'' # u" "newline \<notin> set u"
    "strings_TrimRight u [CHR '' '', CHR 0x09, CHR 0x0D] = u"
    using c by (cases comment) (auto simp: wf_comment_def)
  have "strings_TrimRight ((t @ '' '') @ CHR ''#'' # u) [CHR '' '', CHR 0x09, CHR 0x0D] = (t @ '' '') @ CHR ''#'' # u"
    by (subst TrimRight_keep) (simp_all add: u(3))
  with s u False show ?thesis by (simp add: addSuffix_def wf_comment_def)
qed

lemma addLineComments_raw:
  assumes "raw_section sec" and "list_all comment_or_blank pending" and "comment_or_blank comment"
    and "key \<in> scriptKeys \<longrightarrow> comment = []"
  shows "raw_section (addLineComments pending comment key sec)"
proof (cases "pending \<noteq> [] \<or> comment \<noteq> []")
  case True
  define c where "c = (case Lines sec key of Some c \<Rightarrow> c | None \<Rightarrow> zeroComments)"
  have c: "raw_comments c" "key \<in> scriptKeys \<longrightarrow> Suffix c = []"
    using assms(1) by (auto simp: c_def raw_section_def zeroComments_def raw_comments_def split: option.splits)
  have "addLineComments pending comment key sec = sec\<lparr>Lines := (Lines sec)(key \<mapsto>
      c\<lparr>cBefore := cBefore c @ pending, Suffix := addSuffix comment (Suffix c)\<rparr>)\<rparr>"
    using True by (simp add: addLineComments_def c_def Let_def)
  moreover have "raw_comments (c\<lparr>cBefore := cBefore c @ pending, Suffix := addSuffix comment (Suffix c)\<rparr>)"
    using c(1) assms(2,3) addSuffix_wf by (simp add: raw_comments_def)
  moreover have "key \<in> scriptKeys \<longrightarrow> addSuffix comment (Suffix c) = []"
    using assms(4) c(2) by (simp add: addSuffix_def)
  ultimately show ?thesis using assms(1) by (simp add: raw_section_def)
next
  case False
  with assms(1) show ?thesis by (simp add: addLineComments_def)
qed

lemma addLineComments_Lines:
  "k \<noteq> key \<Longrightarrow> Lines (addLineComments pending comment key sec) k = Lines sec k"
  by (simp add: addLineComments_def Let_def)

definition pinv :: "golib \<Rightarrow> string \<Rightarrow> pstate \<Rightarrow> bool" where
  "pinv L name st \<longleftrightarrow>
     Name (ps_conf st) = name \<and> WSTLSFiles (ps_conf st) = [] \<and>
     interface_inv (cInterface (ps_conf st)) \<and> raw_section (iComments (cInterface (ps_conf st))) \<and>
     list_all (\<lambda>p. peer_inv L p \<and> ws_valid p \<and> raw_section (pComments p)) (Peers (ps_conf st)) \<and>
     (case ps_peer st of None \<Rightarrow> True
      | Some p \<Rightarrow> peer_inv L p \<and> raw_section (pComments p) \<and> (peerWSKeys st = [] \<longrightarrow> no_ws_options p)) \<and>
     list_all comment_or_blank (pendingComments st)"

definition in_peer :: "pstate \<Rightarrow> bool" where
  "in_peer st \<longleftrightarrow> (ps_section st = inPeerSection \<longrightarrow> ps_peer st \<noteq> None)"

lemma parseField_inv:
  assumes "parseField L st key val comment = Inr st'" and "pinv L name st"
    and "line_value key val" "comment_or_blank comment" "key \<in> scriptKeys \<longrightarrow> comment = []"
  shows "pinv L name st' \<and> ps_section st' = ps_section st \<and> (ps_peer st' = None \<longleftrightarrow> ps_peer st = None)"
proof (cases "ps_section st")
  case inInterfaceSection
  let ?i = "cInterface (ps_conf st)"
  let ?sec = "addLineComments (pendingComments st) comment key (iComments ?i)"
  from assms(1) inInterfaceSection obtain i' saw' where k: "interfaceKey key val (?i\<lparr>iComments := ?sec\<rparr>, sawPrivateKey st) = Inr (i', saw')"
    and st': "st' = st\<lparr>ps_conf := (ps_conf st)\<lparr>cInterface := i'\<rparr>, sawPrivateKey := saw', pendingComments := []\<rparr>"
    by (auto simp: parseField_def Let_def rbind_eq_Inr)
  have "interface_inv i' \<and> iComments i' = ?sec"
    using assms(2,3) addLineComments_Lines by (intro interfaceKey_inv [OF k]) (auto simp: pinv_def)
  moreover have "raw_section ?sec"
    using assms by (intro addLineComments_raw) (auto simp: pinv_def)
  ultimately show ?thesis using assms(2) st' by (simp add: pinv_def cong: option.case_cong)
next
  case inPeerSection
  with assms(1) obtain p where p: "ps_peer st = Some p"
    by (auto simp: parseField_def split: option.splits)
  let ?sec = "addLineComments (pendingComments st) comment key (pComments p)"
  from assms(1) inPeerSection p obtain p' ws' where k: "peerKey L key val (p\<lparr>pComments := ?sec\<rparr>, peerWSKeys st) = Inr (p', ws')"
    and st': "st' = st\<lparr>ps_peer := Some p', peerWSKeys := ws', pendingComments := []\<rparr>"
    by (auto simp: parseField_def Let_def rbind_eq_Inr)
  have "peer_inv L p' \<and> pComments p' = ?sec \<and> (ws' = [] \<longrightarrow> no_ws_options p')"
    using assms(2,3) p addLineComments_Lines by (intro peerKey_inv [OF k]) (auto simp: pinv_def)
  moreover have "raw_section ?sec"
    using assms p by (intro addLineComments_raw) (auto simp: pinv_def)
  ultimately show ?thesis using assms(2) st' p by (simp add: pinv_def)
next
  case notInASection
  with assms(1,2) show ?thesis by (auto simp: parseField_def pinv_def cong: option.case_cong)
qed

lemma finishPeer_inv:
  assumes "finishPeer st = Inr st'" and "pinv L name st"
  shows "pinv L name st' \<and> ps_peer st' = None \<and> peerWSKeys st' = [] \<and>
    pendingComments st' = pendingComments st \<and> sawPrivateKey st' = sawPrivateKey st"
proof (cases "ps_peer st")
  case None
  with assms show ?thesis by (auto simp: finishPeer_def maybeAddPeer_def pinv_def)
next
  case (Some p)
  with assms(1) have v: "validateWebSocketPeer p (peerWSKeys st) = Inr ()"
    and st': "st' = st\<lparr>ps_conf := (ps_conf st)\<lparr>Peers := Peers (ps_conf st) @ [p]\<rparr>, ps_peer := None, peerWSKeys := []\<rparr>"
    by (auto simp: finishPeer_def maybeAddPeer_def rbind_eq_Inr)
  from v have "validateWebSocketPeer p [] = Inr ()" "WSMode p = WSModeNone \<longrightarrow> peerWSKeys st = []"
    by (auto simp: validateWebSocketPeer_def Let_def split: if_splits)
  with assms(2) Some have "peer_inv L p \<and> ws_valid p \<and> raw_section (pComments p)"
    by (auto simp: pinv_def ws_valid_def)
  with assms(2) st' show ?thesis by (auto simp: pinv_def)
qed

lemma peer_inv_zero: "peer_inv L (zeroPeer\<lparr>pComments := zeroSection\<lparr>Header := h\<rparr>\<rparr>)"
  by (simp add: peer_inv_def zeroPeer_def zeroSection_def endpoint_inv_def wf_option_def zeroKey_def KeyLength_def)

lemma no_ws_options_zero: "no_ws_options (zeroPeer\<lparr>pComments := zeroSection\<lparr>Header := h\<rparr>\<rparr>)"
  by (simp add: no_ws_options_def zeroPeer_def zeroSection_def)

lemma raw_section_header: "raw_section sec \<Longrightarrow> raw_comments h \<Longrightarrow> raw_section (sec\<lparr>Header := h\<rparr>)"
  by (simp add: raw_section_def)

text \<open>The pieces \<open>parseLine\<close> cuts a line into.\<close>

definition line_comment :: "string \<Rightarrow> string" where
  "line_comment line = (case strings_Cut line ''#'' of (code, after, hasComment) \<Rightarrow>
     if hasComment then CHR ''#'' # strings_TrimRight after [CHR '' '', CHR 0x09, CHR 0x0D] else [])"

definition line_code :: "string \<Rightarrow> string" where
  "line_code line = strings_TrimSpace (fst (strings_Cut line ''#''))"

lemma set_tl_dropWhile: "set (tl (dropWhile P s)) \<subseteq> set s"
  by (induction s) auto

lemma line_comment_wf: "newline \<notin> set line \<Longrightarrow> comment_or_blank (line_comment line)"
proof -
  assume n: "newline \<notin> set line"
  let ?after = "tl (dropWhile (\<lambda>x. x \<noteq> CHR ''#'') line)"
  have "set (strings_TrimRight ?after cs) \<subseteq> set line" for cs
    by (rule order_trans [OF set_TrimRight set_tl_dropWhile])
  with n show ?thesis by (auto simp: line_comment_def strings_Cut_char wf_comment_def)
qed

lemma line_code_wf:
  assumes "newline \<notin> set line" and "strings_Cut (line_code line) ''='' = (key, val, hasValue)"
    and "strings_TrimSpace val \<noteq> []"
  shows "wf_value (strings_TrimSpace val)"
proof -
  have "set val \<subseteq> set (line_code line)"
    using assms(2) set_tl_dropWhile [of "\<lambda>x. x \<noteq> CHR ''=''" "line_code line"] by (simp add: strings_Cut_char)
  moreover have "set (line_code line) \<subseteq> set line - {CHR ''#''}"
    using set_TrimSpace by (fastforce simp: line_code_def strings_Cut_char dest: set_takeWhileD)
  ultimately show ?thesis
    using assms(1,3) set_TrimSpace [of val] by (auto simp: wf_value_def wf_text_def)
qed

lemma line_script_wf:
  assumes "newline \<notin> set line" and "strings_Cut line ''='' = (k, val, h)" and "strings_TrimSpace val \<noteq> []"
  shows "wf_text (strings_TrimSpace val)"
proof -
  have "set val \<subseteq> set line"
    using assms(2) set_tl_dropWhile [of "\<lambda>x. x \<noteq> CHR ''=''" line] by (simp add: strings_Cut_char)
  with assms(1,3) set_TrimSpace [of val] show ?thesis by (auto simp: wf_text_def)
qed

lemma parseLine_alt:
  "parseLine L st line =
     (if line_code line = [] then Inr (st\<lparr>pendingComments := pendingComments st @ [line_comment line]\<rparr>)
      else
        let (key, val, hasValue) = strings_Cut (line_code line) ''='';
            key = strings_ToLower (unicode_lower L) (strings_TrimSpace key)
        in
        if key = ''[interface]'' \<and> \<not> hasValue then
          rbind (finishPeer st) (\<lambda>st.
            let c = ps_conf st; i = cInterface c; sec = iComments i; h = Header sec;
                h = h\<lparr>cBefore := cBefore h @ pendingComments st, Suffix := addSuffix (line_comment line) (Suffix h)\<rparr>
            in Inr (st\<lparr>ps_section := inInterfaceSection,
                 ps_conf := c\<lparr>cInterface := i\<lparr>iComments := sec\<lparr>Header := h\<rparr>\<rparr>\<rparr>, pendingComments := []\<rparr>))
        else if key = ''[peer]'' \<and> \<not> hasValue then
          rbind (finishPeer st) (\<lambda>st.
            let peer = zeroPeer\<lparr>pComments := zeroSection\<lparr>Header :=
                  \<lparr>cBefore = pendingComments st, Suffix = line_comment line\<rparr>\<rparr>\<rparr>
            in Inr (st\<lparr>ps_peer := Some peer, pendingComments := [], ps_section := inPeerSection\<rparr>))
        else if ps_section st = notInASection then Inl (ParseError ''Line must occur in a section'' (line_code line))
        else if \<not> hasValue then Inl (ParseError ''Config key is missing an equals separator'' (line_code line))
        else if key \<in> scriptKeys then
          (let val = strings_TrimSpace (fst (snd (strings_Cut line ''=''))) in
           if val = [] then Inl (ParseError ''Key must have a value'' (line_code line))
           else parseField L st key val [])
        else let val = strings_TrimSpace val in
          if val = [] then Inl (ParseError ''Key must have a value'' (line_code line))
          else parseField L st key val (line_comment line))"
proof -
  obtain code after hc where c1: "strings_Cut line ''#'' = (code, after, hc)" by (metis prod_cases3)
  obtain k2 v2 h2 where c2: "strings_Cut line ''='' = (k2, v2, h2)" by (metis prod_cases3)
  obtain key val hv where c3: "strings_Cut (strings_TrimSpace code) ''='' = (key, val, hv)" by (metis prod_cases3)
  have s: "{''preup'', ''postup'', ''predown'', ''postdown''} = scriptKeys" by (simp add: scriptKeys_def)
  show ?thesis
    unfolding parseLine_def line_code_def line_comment_def s c1 c2 prod.case fst_conv snd_conv Let_def c3
    by (cases "strings_ToLower (unicode_lower L) (strings_TrimSpace key) \<in> scriptKeys") simp_all
qed

lemma parseLine_cases:
  assumes "parseLine L st line = Inr st'"
  obtains
    (blank) "line_code line = []" "st' = st\<lparr>pendingComments := pendingComments st @ [line_comment line]\<rparr>"
  | (interface) st1 h where "finishPeer st = Inr st1" "h = Header (iComments (cInterface (ps_conf st1)))"
      "st' = st1\<lparr>ps_section := inInterfaceSection, ps_conf := (ps_conf st1)\<lparr>cInterface := (cInterface (ps_conf st1))
         \<lparr>iComments := (iComments (cInterface (ps_conf st1)))\<lparr>Header := h\<lparr>cBefore := cBefore h @ pendingComments st1,
            Suffix := addSuffix (line_comment line) (Suffix h)\<rparr>\<rparr>\<rparr>\<rparr>, pendingComments := []\<rparr>"
  | (peer) st1 where "finishPeer st = Inr st1"
      "st' = st1\<lparr>ps_peer := Some (zeroPeer\<lparr>pComments := zeroSection\<lparr>Header :=
         \<lparr>cBefore = pendingComments st1, Suffix = line_comment line\<rparr>\<rparr>\<rparr>), pendingComments := [], ps_section := inPeerSection\<rparr>"
  | (script) key k v h where "key \<in> scriptKeys" "strings_Cut line ''='' = (k, v, h)" "strings_TrimSpace v \<noteq> []"
      "ps_section st \<noteq> notInASection" "parseField L st key (strings_TrimSpace v) [] = Inr st'"
  | (field) key k v h where "key \<notin> scriptKeys" "strings_Cut (line_code line) ''='' = (k, v, h)"
      "strings_TrimSpace v \<noteq> []" "ps_section st \<noteq> notInASection"
      "parseField L st key (strings_TrimSpace v) (line_comment line) = Inr st'"
proof -
  obtain k2 v2 h2 where c2: "strings_Cut line ''='' = (k2, v2, h2)" by (metis prod_cases3)
  obtain k0 v0 h0 where c3: "strings_Cut (line_code line) ''='' = (k0, v0, h0)" by (metis prod_cases3)
  show thesis
    using assms unfolding parseLine_alt c2 c3 Let_def prod.case fst_conv snd_conv
    apply -
    apply (elim if_InrE rbind_InrE)
    subgoal by (rule blank, assumption, simp)
    subgoal by (rule interface, assumption, rule refl, simp)
    subgoal by (rule peer, assumption, simp)
    subgoal by simp
    subgoal by simp
    subgoal by simp
    subgoal by (rule script [OF _ c2])
    subgoal by simp
    subgoal by (rule field [OF _ c3])
    done
qed

lemma parseLine_inv:
  assumes "parseLine L st line = Inr st'" and inv: "pinv L name st" and ip: "in_peer st" and n: "newline \<notin> set line"
  shows "pinv L name st' \<and> in_peer st'"
  using assms(1)
proof (cases rule: parseLine_cases)
  case blank
  then show ?thesis
    using inv ip line_comment_wf [OF n] by (simp add: pinv_def in_peer_def cong: option.case_cong)
next
  case (interface st1 h)
  note f = finishPeer_inv [OF interface(1) inv]
  then have "raw_comments h" "list_all comment_or_blank (pendingComments st1)"
    unfolding interface(2) pinv_def raw_section_def by blast+
  then have "raw_comments (h\<lparr>cBefore := cBefore h @ pendingComments st1, Suffix := addSuffix (line_comment line) (Suffix h)\<rparr>)"
    using addSuffix_wf [OF line_comment_wf [OF n]] by (simp add: raw_comments_def)
  with f interface(3) show ?thesis
    by (simp add: pinv_def in_peer_def raw_section_header interface_inv_def wf_script_def)
next
  case (peer st1)
  note f = finishPeer_inv [OF peer(1) inv]
  then have "list_all comment_or_blank (pendingComments st1)" unfolding pinv_def by blast
  then have "raw_comments \<lparr>cBefore = pendingComments st1, Suffix = line_comment line\<rparr>"
    using line_comment_wf [OF n] by (simp add: raw_comments_def)
  with f peer(2) show ?thesis
    by (simp add: pinv_def in_peer_def raw_section_header peer_inv_zero no_ws_options_zero)
next
  case (script key k v h)
  have "line_value key (strings_TrimSpace v)"
    using line_script_wf [OF n script(2,3)] script(1) by (simp add: line_value_def)
  from parseField_inv [OF script(5) inv this] ip show ?thesis by (simp add: in_peer_def)
next
  case (field key k v h)
  have "line_value key (strings_TrimSpace v)"
    using line_code_wf [OF n field(2,3)] field(1) by (simp add: line_value_def)
  from parseField_inv [OF field(5) inv this line_comment_wf [OF n]] field(1) ip show ?thesis
    by (simp add: in_peer_def)
qed

section \<open>Pruning\<close>

lemma no_double_blank_snoc:
  "no_double_blank (xs @ [x]) \<longleftrightarrow> no_double_blank xs \<and> \<not> (x = [] \<and> xs \<noteq> [] \<and> last xs = [])"
  by (induction xs rule: no_double_blank.induct) auto

lemma no_double_blank_tl: "no_double_blank xs \<Longrightarrow> no_double_blank (tl xs)"
  by (induction xs rule: no_double_blank.induct) auto

lemma no_double_blank_butlast: "no_double_blank xs \<Longrightarrow> no_double_blank (butlast xs)"
  by (cases xs rule: rev_cases) (auto simp: no_double_blank_snoc)

lemma collapse_blank_snoc:
  "collapse_blank (xs @ [x]) =
     (if x = [] \<and> collapse_blank xs \<noteq> [] \<and> last (collapse_blank xs) = [] then collapse_blank xs
      else collapse_blank xs @ [x])"
  by (simp add: collapse_blank_def)

lemma collapse_blank_Nil [simp]: "collapse_blank [] = []"
  by (simp add: collapse_blank_def)

lemma no_double_blank_collapse: "no_double_blank (collapse_blank xs)"
  by (induction xs rule: rev_induct) (auto simp: collapse_blank_snoc no_double_blank_snoc)

lemma collapse_blank_id: "no_double_blank xs \<Longrightarrow> collapse_blank xs = xs"
  by (induction xs rule: rev_induct) (auto simp: collapse_blank_snoc no_double_blank_snoc)

lemma list_all_collapse: "list_all P xs \<Longrightarrow> list_all P (collapse_blank xs)"
  by (induction xs rule: rev_induct) (auto simp: collapse_blank_snoc)

lemma list_all_tl: "list_all P xs \<Longrightarrow> list_all P (tl xs)"
  by (cases xs) auto

lemma list_all_butlast: "list_all P xs \<Longrightarrow> list_all P (butlast xs)"
  by (auto simp: list_all_iff dest: in_set_butlastD)

lemma length_1_hd: "length out = 1 \<and> hd out = x \<longleftrightarrow> out = [x]"
  by (cases out) auto

lemma pruned_pruneComments:
  assumes "list_all comment_or_blank run"
  shows "pruned (pruneComments run a b)"
  using assms
  by (simp add: pruneComments_def pruned_def Let_def length_1_hd [simplified] list_all_collapse list_all_tl list_all_butlast
      no_double_blank_collapse no_double_blank_tl no_double_blank_butlast)

lemma hd_tl_nonblank: "no_double_blank xs \<Longrightarrow> hd xs = [] \<Longrightarrow> tl xs \<noteq> [] \<Longrightarrow> hd (tl xs) \<noteq> []"
  by (cases xs rule: no_double_blank.cases) auto

lemma last_butlast_nonblank: "no_double_blank xs \<Longrightarrow> last xs = [] \<Longrightarrow> butlast xs \<noteq> [] \<Longrightarrow> last (butlast xs) \<noteq> []"
  by (cases xs rule: rev_cases) (auto simp: no_double_blank_snoc)

lemma pruneComments_hd: "pruneComments run True False \<noteq> [] \<Longrightarrow> hd (pruneComments run True False) \<noteq> []"
  using hd_tl_nonblank [OF no_double_blank_collapse [of run]]
  by (auto simp: pruneComments_def Let_def split: if_splits)

lemma pruneComments_last: "pruneComments run False True \<noteq> [] \<Longrightarrow> last (pruneComments run False True) \<noteq> []"
  using last_butlast_nonblank [OF no_double_blank_collapse [of run]]
  by (auto simp: pruneComments_def Let_def split: if_splits)

text \<open>What is pruned already stays; the blank line the writer puts before a section is dropped.\<close>

lemma pruneComments_id: "pruned run \<Longrightarrow> pruneComments run False False = run"
  by (auto simp: pruneComments_def pruned_def Let_def collapse_blank_id length_1_hd [simplified])

lemma pruneComments_header:
  assumes "pruned run" "run \<noteq> [] \<longrightarrow> hd run \<noteq> []"
  shows "pruneComments run True False = run" "pruneComments ([] # run) True False = run"
proof -
  show "pruneComments run True False = run"
    using assms by (auto simp: pruneComments_def pruned_def Let_def collapse_blank_id length_1_hd [simplified])
  have "no_double_blank ([] # run)" using assms by (cases run) (auto simp: pruned_def)
  then show "pruneComments ([] # run) True False = run"
    using assms by (auto simp: pruneComments_def pruned_def Let_def collapse_blank_id length_1_hd [simplified])
qed

lemma pruneComments_trailing:
  assumes "wf_trailing run"
  shows "pruneComments (run @ [[]]) False True = run"
proof -
  have "no_double_blank (run @ [[]])" using assms by (auto simp: wf_trailing_def pruned_def no_double_blank_snoc)
  then show ?thesis
    using assms by (auto simp: pruneComments_def wf_trailing_def pruned_def Let_def collapse_blank_id length_1_hd [simplified])
qed

section \<open>The parser establishes the invariant\<close>

lemma prune_Lines: "Lines sec k = None \<Longrightarrow> Lines (pruneSectionComments sec) k = None"
  by (simp add: pruneSectionComments_def)

lemma wf_section_prune:
  assumes "raw_section sec"
  shows "wf_section (pruneSectionComments sec)"
proof -
  have h: "wf_comments (Header (pruneSectionComments sec))"
    using assms pruned_pruneComments
    by (simp add: pruneSectionComments_def raw_section_def raw_comments_def wf_comments_def)
  have hd: "cBefore (Header (pruneSectionComments sec)) \<noteq> [] \<longrightarrow> hd (cBefore (Header (pruneSectionComments sec))) \<noteq> []"
    using pruneComments_hd by (simp add: pruneSectionComments_def)
  have "wf_comments c \<and> (cBefore c \<noteq> [] \<or> Suffix c \<noteq> []) \<and> (k \<in> scriptKeys \<longrightarrow> Suffix c = [])"
    if c: "Lines (pruneSectionComments sec) k = Some c" for k c
  proof -
    from c obtain c0 where "Lines sec k = Some c0" "c = c0\<lparr>cBefore := pruneComments (cBefore c0) False False\<rparr>"
      and "cBefore c \<noteq> [] \<or> Suffix c \<noteq> []"
      by (auto simp: pruneSectionComments_def Let_def split: option.splits if_splits)
    moreover from this have "raw_comments c0" "k \<in> scriptKeys \<longrightarrow> Suffix c0 = []"
      using assms by (auto simp: raw_section_def)
    ultimately show ?thesis using pruned_pruneComments by (auto simp: raw_comments_def wf_comments_def)
  qed
  with h hd show ?thesis by (simp add: wf_section_def)
qed

lemma dom_mono: "(\<And>k. m k = None \<Longrightarrow> m' k = None) \<Longrightarrow> dom m' \<subseteq> dom m"
  by (meson domIff subsetI)

lemma wf_script_sec: "wf_script key v s \<Longrightarrow> (Lines s key = None \<Longrightarrow> Lines sec key = None) \<Longrightarrow> wf_script key v sec"
  by (simp add: wf_script_def split: if_splits)

lemma wf_option_sec: "wf_option key v s \<Longrightarrow> (Lines s key = None \<Longrightarrow> Lines sec key = None) \<Longrightarrow> wf_option key v sec"
  by (simp add: wf_option_def split: if_splits)

lemma endpoint_inv_sec_mono:
  "endpoint_inv L p \<Longrightarrow> (Lines (pComments p) ''endpoint'' = None \<Longrightarrow> Lines sec ''endpoint'' = None) \<Longrightarrow>
     endpoint_inv L (p\<lparr>pComments := sec\<rparr>)"
  by (simp add: endpoint_inv_def split: if_splits)

lemma interface_inv_sec:
  assumes "interface_inv i" and sec: "\<And>k. Lines (iComments i) k = None \<Longrightarrow> Lines sec k = None"
  shows "interface_inv (i\<lparr>iComments := sec\<rparr>)"
proof -
  have "dom (Lines sec) \<subseteq> dom (Lines (iComments i))" using sec by (rule dom_mono)
  moreover note inv = assms(1) [unfolded interface_inv_def]
  ultimately have "dom (Lines sec) \<subseteq> interfaceKeys" by blast
  moreover have "Lines sec ''address'' \<noteq> None \<longrightarrow> Addresses i \<noteq> []" "Lines sec ''dns'' \<noteq> None \<longrightarrow> DNS i \<noteq> [] \<or> DNSSearch i \<noteq> []"
    by (intro impI; use inv sec [of "''address''"] sec [of "''dns''"] in \<open>simp del: not_None_eq\<close>; blast)+
  moreover have "if MTU i = 0 then Lines sec ''mtu'' = None else 576 \<le> unat (MTU i)"
    using inv sec [of "''mtu''"] by (simp split: if_splits)
  moreover have "wf_script ''preup'' (PreUp i) sec" "wf_script ''postup'' (PostUp i) sec"
    "wf_script ''predown'' (PreDown i) sec" "wf_script ''postdown'' (PostDown i) sec"
    by (rule wf_script_sec [of _ _ "iComments i"]; use inv sec in simp)+
  ultimately show ?thesis using inv by (simp add: interface_inv_def)
qed

lemma peer_inv_sec:
  assumes "peer_inv L p" and sec: "\<And>k. Lines (pComments p) k = None \<Longrightarrow> Lines sec k = None"
  shows "peer_inv L (p\<lparr>pComments := sec\<rparr>)"
proof -
  have "dom (Lines sec) \<subseteq> dom (Lines (pComments p))" using sec by (rule dom_mono)
  moreover note inv = assms(1) [unfolded peer_inv_def]
  ultimately have "dom (Lines sec) \<subseteq> peerKeys" by blast
  moreover have "Lines sec ''allowedips'' \<noteq> None \<longrightarrow> AllowedIPs p \<noteq> []"
    by (intro impI; use inv sec [of "''allowedips''"] in \<open>simp del: not_None_eq\<close>; blast)
  moreover have "if WSMode p = WSModeNone then Lines sec ''wsmode'' = None
      else WSMode p = WSModeWebSocket \<or> WSMode p = WSModeWSTunnel"
    using inv sec [of "''wsmode''"] by (simp split: if_splits)
  moreover have "endpoint_inv L (p\<lparr>pComments := sec\<rparr>)" by (rule endpoint_inv_sec_mono) (use inv sec in simp_all)
  moreover have "wf_option ''wstunneltarget'' (WSTunnelTarget p) sec" "wf_option ''wsbearer'' (WSBearer p) sec"
    "wf_option ''wstlsca'' (WSTLSCA p) sec" "wf_option ''wstlscert'' (WSTLSCert p) sec" "wf_option ''wstlskey'' (WSTLSKey p) sec"
    by (rule wf_option_sec [of _ _ "pComments p"]; use inv sec in simp)+
  ultimately show ?thesis using inv by (simp add: peer_inv_def)
qed

lemma validate_sec [simp]: "validateWebSocketPeer (p\<lparr>pComments := sec\<rparr>) ws = validateWebSocketPeer p ws"
  by (simp add: validateWebSocketPeer_def Let_def)

lemma ws_valid_sec:
  assumes "ws_valid p" and "\<And>k. Lines (pComments p) k = None \<Longrightarrow> Lines sec k = None"
  shows "ws_valid (p\<lparr>pComments := sec\<rparr>)"
proof -
  have "dom (Lines sec) \<subseteq> dom (Lines (pComments p))" using assms(2) by (rule dom_mono)
  then show ?thesis using assms(1) by (auto simp: ws_valid_def no_ws_options_def)
qed

lemma pinv_init: "pinv L name (pstate_init name) \<and> in_peer (pstate_init name)"
  by (simp add: pinv_def in_peer_def pstate_init_def zeroConfig_def zeroInterface_def interface_inv_def wf_script_def
      raw_section_def raw_comments_def zeroSection_def zeroComments_def KeyLength_def zeroKey_def)

lemma parseLines_inv:
  assumes "rfold (parseLine L) (pstate_init name) (strings_Split s newline) = Inr st"
  shows "pinv L name st \<and> in_peer st"
  using assms(1) pinv_init
  by (rule rfold_inv) (use parseLine_inv strings_Split_no_sepD in blast)

lemma FromWgQuick_wf_config:
  assumes "FromWgQuick L s name = Inr c"
  shows "wf_config L c \<and> Name c = name"
proof -
  from assms obtain st0 st where valid: "TunnelNameIsValid name"
    and r: "rfold (parseLine L) (pstate_init name) (strings_Split s newline) = Inr st0" "finishPeer st0 = Inr st"
    and c: "c = pruneConfig (pendingComments st) (ps_conf st)"
    and z: "\<not> list_ex (\<lambda>p. key_IsZero (PublicKey p)) (Peers c)"
    by (auto simp: FromWgQuick_def Let_def rbind_eq_Inr split: if_splits)
  have "pinv L name st" using finishPeer_inv [OF r(2)] parseLines_inv [OF r(1)] by blast
  then have inv: "Name (ps_conf st) = name" "WSTLSFiles (ps_conf st) = []" "interface_inv (cInterface (ps_conf st))"
    "raw_section (iComments (cInterface (ps_conf st)))"
    "list_all (\<lambda>p. peer_inv L p \<and> ws_valid p \<and> raw_section (pComments p)) (Peers (ps_conf st))"
    "list_all comment_or_blank (pendingComments st)" unfolding pinv_def by blast+
  have "wf_trailing (TrailingComments c)"
    using pruned_pruneComments [OF inv(6)] pruneComments_last by (simp add: c pruneConfig_def wf_trailing_def)
  moreover have "peer_inv L p \<and> ws_valid p \<and> wf_section (pComments p) \<and> \<not> key_IsZero (PublicKey p)"
    if p: "p \<in> set (Peers c)" for p
  proof -
    from p c obtain q where q: "q \<in> set (Peers (ps_conf st))" "p = q\<lparr>pComments := pruneSectionComments (pComments q)\<rparr>"
      by (auto simp: pruneConfig_def)
    with inv(5) have "peer_inv L q" "ws_valid q" "raw_section (pComments q)" by (auto simp: list_all_iff)
    with q(2) have "peer_inv L p" "ws_valid p" "wf_section (pComments p)"
      using peer_inv_sec ws_valid_sec prune_Lines wf_section_prune by auto
    with z p show ?thesis by (auto simp: list_ex_iff)
  qed
  moreover have "interface_inv (cInterface c)" "wf_section (iComments (cInterface c))"
    using inv interface_inv_sec prune_Lines wf_section_prune by (auto simp: c pruneConfig_def)
  ultimately show ?thesis using inv valid by (simp add: wf_config_def c pruneConfig_def list_all_iff)
qed

section \<open>No nil dereference\<close>

lemma rbind_InlE:
  assumes "rbind m f = Inl e"
  obtains "m = Inl e" | x where "m = Inr x" "f x = Inl e"
  using assms by (auto simp: rbind_eq_Inl)

lemma if_InlE:
  assumes "(if b then x else y) = Inl r"
  obtains "b" "x = Inl r" | "\<not> b" "y = Inl r"
  using assms by (auto split: if_splits)

lemma option_InlE:
  assumes "(case z of None \<Rightarrow> x | Some v \<Rightarrow> f v) = Inl e"
  obtains "z = None" "x = Inl e" | v where "z = Some v" "f v = Inl e"
  using assms by (cases z) auto

lemma rmap_InlD: "rmap f xs = Inl e \<Longrightarrow> \<exists>x \<in> set xs. f x = Inl e"
  by (induction xs) (auto simp: rbind_eq_Inl)

lemma numbers_no_panic: "strconv_Atoi s \<noteq> Inl (Panic m)" "strconv_ParseUint s b \<noteq> Inl (Panic m)"
  by (auto simp: strconv_Atoi_def strconv_ParseUint_def Let_def split: sum.splits list.splits if_splits)

lemma values_no_panic:
  "parsePort s \<noteq> Inl (Panic m)" "parseMTU s \<noteq> Inl (Panic m)" "parsePersistentKeepalive s \<noteq> Inl (Panic m)"
  "parseTableOff s \<noteq> Inl (Panic m)" "parseKeyBase64 s \<noteq> Inl (Panic m)" "parseWSMode L s \<noteq> Inl (Panic m)"
  "parseWSBool s \<noteq> Inl (Panic m)" "parseWSMillis s \<noteq> Inl (Panic m)" "parseIPCidr s \<noteq> Inl (Panic m)"
  by (auto simp: parsePort_def parseMTU_def parsePersistentKeepalive_def parseTableOff_def parseKeyBase64_def
      parseWSMode_def parseWSBool_def parseWSMillis_def parseIPCidr_def Let_def rbind_eq_Inl numbers_no_panic
      split: if_splits sum.splits option.splits)

lemma parseEndpoint_no_panic: "parseEndpoint s \<noteq> Inl (Panic m)"
proof (cases "strings_LastIndexByte s (CHR '':'')")
  case (Some i)
  show ?thesis
  proof
    assume "parseEndpoint s = Inl (Panic m)"
    then show False
      unfolding parseEndpoint_def Some option.case Let_def
      by (elim if_InlE rbind_InlE option_InlE values_no_panic [THEN notE]; simp only: sum.inject go_error.distinct sum.distinct)
  qed
qed (simp add: parseEndpoint_def)

lemma parseWSURL_no_panic: "parseWSURL L s \<noteq> Inl (Panic m)"
  by (simp add: parseWSURL_def Let_def split: option.splits sum.splits)

lemma splitList_no_panic: "splitList s \<noteq> Inl (Panic m)" "rmap parseIPCidr xs \<noteq> Inl (Panic m)"
  by (auto simp: splitList_def Let_def values_no_panic split: if_splits dest!: rmap_InlD)

lemma interfaceKey_no_panic: "interfaceKey key val st \<noteq> Inl (Panic m)"
proof
  obtain i saw where st: "st = (i, saw)" by fastforce
  assume "interfaceKey key val st = Inl (Panic m)"
  then show False
    unfolding interfaceKey_def st Let_def prod.case
    by (elim if_InlE rbind_InlE) (simp_all add: values_no_panic splitList_no_panic)
qed

lemma parseEndpointKey_no_panic: "parseEndpointKey L val p \<noteq> Inl (Panic m)"
  by (simp add: parseEndpointKey_def rbind_eq_Inl parseEndpoint_no_panic parseWSURL_no_panic)

lemma target_no_panic: "(case parseEndpoint val of Inl _ \<Rightarrow> Inl (ParseError w val) | Inr _ \<Rightarrow> Inr x) \<noteq> Inl (Panic m)"
  by (simp split: sum.split)

lemmas no_panic = values_no_panic [THEN notE] splitList_no_panic [THEN notE] parseEndpointKey_no_panic [THEN notE]
  target_no_panic [THEN notE]

lemma peerKey_no_panic: "peerKey L key val st \<noteq> Inl (Panic m)"
proof
  obtain p ws where st: "st = (p, ws)" by fastforce
  assume "peerKey L key val st = Inl (Panic m)"
  then show False
    unfolding peerKey_def st Let_def prod.case
    by (elim if_InlE rbind_InlE no_panic) simp_all
qed

lemma finishPeer_no_panic: "finishPeer st \<noteq> Inl (Panic m)"
  by (simp add: finishPeer_def rbind_eq_Inl validateWebSocketPeer_def Let_def split: option.splits)

lemma parseField_no_panic: "in_peer st \<Longrightarrow> parseField L st key val comment \<noteq> Inl (Panic m)"
  by (auto simp: parseField_def in_peer_def Let_def rbind_eq_Inl interfaceKey_no_panic peerKey_no_panic
      split: parserState.splits option.splits)

lemma parseLine_no_panic: "in_peer st \<Longrightarrow> parseLine L st line \<noteq> Inl (Panic m)"
proof
  obtain k0 v0 h0 where c3: "strings_Cut (line_code line) ''='' = (k0, v0, h0)" by (metis prod_cases3)
  assume "in_peer st" "parseLine L st line = Inl (Panic m)"
  then show False
    unfolding parseLine_alt c3 Let_def prod.case fst_conv snd_conv
    by - (elim if_InlE rbind_InlE; simp add: finishPeer_no_panic parseField_no_panic)
qed

lemma parseLines_no_panic:
  assumes "pinv L name st" "in_peer st" "\<And>l. l \<in> set ls \<Longrightarrow> newline \<notin> set l"
  shows "rfold (parseLine L) st ls \<noteq> Inl (Panic m)"
  using assms
proof (induction ls arbitrary: st)
  case (Cons l ls)
  show ?case
  proof (cases "parseLine L st l")
    case (Inl e)
    then show ?thesis using parseLine_no_panic [OF Cons.prems(2)] by auto
  next
    case (Inr st')
    then show ?thesis using parseLine_inv [OF Inr Cons.prems(1,2)] Cons by auto
  qed
qed simp

section \<open>Properties\<close>

text \<open>C28. \<open>FromWgQuick\<close> never dereferences a nil peer: on every text it returns a configuration or an error.\<close>

theorem FromWgQuick_no_panic: "FromWgQuick L s name \<noteq> Inl (Panic m)"
  using parseLines_no_panic [OF conjunct1 [OF pinv_init] conjunct2 [OF pinv_init], of "strings_Split s newline" L name m]
    strings_Split_no_sepD
  by (auto simp: FromWgQuick_def rbind_eq_Inl Let_def finishPeer_no_panic split: if_splits)

end
