(* ===== verification/ConfWriter.thy ===== *)
theory ConfWriter
  imports ConfSound
begin

text \<open>
  The wg-quick writer of conf/writer.go and the round trip: the text \<open>ToWgQuick\<close> prints for a
  well-formed configuration parses back to that configuration, comments included. The proof
  reads the printed lines one field at a time with the parser's step function.
\<close>

section \<open>The writer\<close>

definition writeLine :: "Comments \<Rightarrow> string \<Rightarrow> string" where
  "writeLine c line =
     concat (map (\<lambda>before. before @ [newline]) (cBefore c)) @ line @
     (if Suffix c \<noteq> [] then '' '' @ Suffix c else []) @ [newline]"

text \<open>The keys written are ASCII, so the lower-case table does not matter.\<close>

definition writeField :: "SectionComments \<Rightarrow> string \<Rightarrow> bool \<Rightarrow> string \<Rightarrow> string" where
  "writeField comments key present val =
     (let c = (case Lines comments (strings_ToLower id key) of Some c \<Rightarrow> c | None \<Rightarrow> zeroComments) in
      if \<not> present \<and> cBefore c = [] \<and> Suffix c = [] then []
      else writeLine c (key @ '' = '' @ val))"

definition writeInterface :: "Interface \<Rightarrow> string" where
  "writeInterface i =
     (let cm = iComments i in
      writeLine (Header cm) ''[Interface]'' @
      writeField cm ''PrivateKey'' True (key_String (PrivateKey i)) @
      writeField cm ''ListenPort'' (0 < ListenPort i) (uint_str (ListenPort i)) @
      (if Addresses i \<noteq> [] then writeField cm ''Address'' True (strings_Join (map prefix_String (Addresses i)) '', '') else []) @
      (if 0 < length (DNS i) + length (DNSSearch i)
       then writeField cm ''DNS'' True (strings_Join (map addr_String (DNS i) @ DNSSearch i) '', '') else []) @
      writeField cm ''MTU'' (0 < MTU i) (uint_str (MTU i)) @
      writeField cm ''PreUp'' (PreUp i \<noteq> []) (PreUp i) @
      writeField cm ''PostUp'' (PostUp i \<noteq> []) (PostUp i) @
      writeField cm ''PreDown'' (PreDown i \<noteq> []) (PreDown i) @
      writeField cm ''PostDown'' (PostDown i \<noteq> []) (PostDown i) @
      writeField cm ''Table'' (TableOff i) (if TableOff i then ''off'' else ''auto''))"

definition writePeer :: "Peer \<Rightarrow> string" where
  "writePeer p =
     (let cm = pComments p in
      [newline] @ writeLine (Header cm) ''[Peer]'' @
      writeField cm ''PublicKey'' True (key_String (PublicKey p)) @
      writeField cm ''PresharedKey'' (\<not> key_IsZero (PresharedKey p)) (key_String (PresharedKey p)) @
      (if AllowedIPs p \<noteq> [] then writeField cm ''AllowedIPs'' True (strings_Join (map prefix_String (AllowedIPs p)) '', '') else []) @
      (if WSURL p \<noteq> [] then writeField cm ''Endpoint'' True (WSURL p)
       else writeField cm ''Endpoint'' (\<not> endpoint_IsEmpty (pEndpoint p)) (endpoint_String (pEndpoint p))) @
      writeField cm ''PersistentKeepalive'' (0 < PersistentKeepalive p) (uint_str (PersistentKeepalive p)) @
      writeField cm ''WSMode'' (WSMode p \<noteq> WSModeNone) (WSMode p) @
      writeField cm ''WSTunnelTarget'' (WSTunnelTarget p \<noteq> []) (WSTunnelTarget p) @
      writeField cm ''WSMask'' (WSMask p) (bool_str (WSMask p)) @
      writeField cm ''WSTLSCA'' (WSTLSCA p \<noteq> []) (WSTLSCA p) @
      writeField cm ''WSTLSCert'' (WSTLSCert p \<noteq> []) (WSTLSCert p) @
      writeField cm ''WSTLSKey'' (WSTLSKey p \<noteq> []) (WSTLSKey p) @
      writeField cm ''WSTLSInsecure'' (WSTLSInsecure p) (bool_str (WSTLSInsecure p)) @
      writeField cm ''WSPingInterval'' (0 < WSPingInterval p) (uint_str (WSPingInterval p)) @
      writeField cm ''WSBackoffMin'' (0 < WSBackoffMin p) (uint_str (WSBackoffMin p)) @
      writeField cm ''WSBackoffMax'' (0 < WSBackoffMax p) (uint_str (WSBackoffMax p)) @
      writeField cm ''WSBearer'' (WSBearer p \<noteq> []) (WSBearer p))"

definition ToWgQuick :: "Config \<Rightarrow> string" where
  "ToWgQuick c =
     writeInterface (cInterface c) @ concat (map writePeer (Peers c)) @
     concat (map (\<lambda>comment. comment @ [newline]) (TrailingComments c))"

section \<open>Lines\<close>

definition unlines :: "string list \<Rightarrow> string" where
  "unlines ls = concat (map (\<lambda>l. l @ [newline]) ls)"

lemma unlines_simps [simp]: "unlines [] = []" "unlines (a @ b) = unlines a @ unlines b"
  by (simp_all add: unlines_def)

lemma unlines_one: "unlines [l] = l @ [newline]"
  by (simp add: unlines_def)

definition with_suffix :: "string \<Rightarrow> string \<Rightarrow> string" where
  "with_suffix line sfx = (if sfx = [] then line else line @ '' '' @ sfx)"

definition comment_lines :: "Comments \<Rightarrow> string \<Rightarrow> string list" where
  "comment_lines c line = cBefore c @ [with_suffix line (Suffix c)]"

lemma writeLine_lines: "writeLine c line = unlines (comment_lines c line)"
  by (simp add: writeLine_def comment_lines_def unlines_def with_suffix_def)

text \<open>A field is written when it is present or when its line has comments.\<close>

definition field_comments :: "SectionComments \<Rightarrow> string \<Rightarrow> Comments" where
  "field_comments sec key = (case Lines sec key of Some c \<Rightarrow> c | None \<Rightarrow> zeroComments)"

definition field_lines :: "SectionComments \<Rightarrow> string \<Rightarrow> bool \<Rightarrow> string \<Rightarrow> string list" where
  "field_lines sec key present val =
     (let c = field_comments sec (strings_ToLower id key) in
      if \<not> present \<and> cBefore c = [] \<and> Suffix c = [] then [] else comment_lines c (key @ '' = '' @ val))"

lemma writeField_lines: "writeField sec key present val = unlines (field_lines sec key present val)"
  by (simp add: writeField_def field_lines_def writeLine_lines Let_def field_comments_def)

section \<open>Reading one line\<close>

definition key_name :: "string \<Rightarrow> bool" where
  "key_name k \<longleftrightarrow> k \<noteq> [] \<and> list_all (\<lambda>c. printable c \<and> c \<noteq> CHR ''='' \<and> c \<noteq> CHR ''#'') k"

lemma key_nameD:
  assumes "key_name k"
  shows "k \<noteq> []" "CHR ''='' \<notin> set k" "CHR ''#'' \<notin> set k" "newline \<notin> set k" "is_ascii k"
    "no_space_front (k @ t)" "trimmed k"
proof -
  have p: "\<forall>c \<in> set k. printable c \<and> c \<noteq> CHR ''='' \<and> c \<noteq> CHR ''#''" and n: "k \<noteq> []"
    using assms by (simp_all add: key_name_def list_all_iff)
  have "\<not> printable newline" by (simp add: printable_def)
  with p n show "k \<noteq> []" "CHR ''='' \<notin> set k" "CHR ''#'' \<notin> set k" "newline \<notin> set k" by auto
  have "ord c < 128" if "c \<in> set k" for c
  proof -
    have "printable c" using p that by blast
    then show ?thesis by (simp add: printable_def)
  qed
  then show "is_ascii k" by (simp add: is_ascii_def)
  show front: "no_space_front (k @ t)" for t
    using p n by (cases k) (simp_all add: no_space_front_printable)
  obtain u z where "k = u @ [z]" using n rev_exhaust by blast
  then have "no_space_back k" using p by (simp add: no_space_back_printable)
  with front [of "[]"] show "trimmed k" by (simp add: trimmed_def)
qed

lemma TrimSpace_trailing_blank: "trimmed s \<Longrightarrow> no_space_front (s @ '' '') \<Longrightarrow> strings_TrimSpace (s @ '' '') = s"
  by (simp add: strings_TrimSpace_blank_back trimmed_def strings_TrimSpace_id)

lemma line_code_comment:
  assumes "trimmed s" "no_space_front (s @ '' '')" "CHR ''#'' \<notin> set s" "comment_or_blank sfx"
  shows "line_code (with_suffix s sfx) = s" "line_comment (with_suffix s sfx) = sfx"
proof -
  have *: "line_code (with_suffix s sfx) = s \<and> line_comment (with_suffix s sfx) = sfx"
  proof (cases sfx)
    case Nil
    with assms show ?thesis by (simp add: line_code_def line_comment_def with_suffix_def strings_TrimSpace_id)
  next
    case (Cons c t)
    with assms(4) have c: "c = CHR ''#''" "strings_TrimRight t [CHR '' '', CHR 0x09, CHR 0x0D] = t"
      by (auto simp: wf_comment_def)
    have "strings_Cut ((s @ '' '') @ CHR ''#'' # t) ''#'' = (s @ '' '', t, True)"
      by (rule strings_Cut_char_append) (use assms(3) in simp)
    with assms Cons c show ?thesis
      by (simp add: line_code_def line_comment_def with_suffix_def TrimSpace_trailing_blank)
  qed
  then show "line_code (with_suffix s sfx) = s" "line_comment (with_suffix s sfx) = sfx" by blast+
qed

lemma line_code_blank: "comment_or_blank l \<Longrightarrow> line_code l = [] \<and> line_comment l = l"
proof -
  have t: "strings_TrimSpace [] = []" by (rule strings_TrimSpace_id) (simp add: trimmed_def no_space_front_def no_space_back_def space_encs_def)
  assume "comment_or_blank l"
  with t show ?thesis
    by (cases l) (auto simp: line_code_def line_comment_def wf_comment_def)
qed

lemma parseLine_blank:
  "comment_or_blank l \<Longrightarrow> parseLine L st l = Inr (st\<lparr>pendingComments := pendingComments st @ [l]\<rparr>)"
  by (simp add: parseLine_alt line_code_blank)

lemma rfold_blank:
  "list_all comment_or_blank ls \<Longrightarrow>
     rfold (parseLine L) st ls = Inr (st\<lparr>pendingComments := pendingComments st @ ls\<rparr>)"
proof (induction ls arbitrary: st)
  case (Cons l ls)
  then show ?case by (simp add: parseLine_blank)
qed simp

lemma key_line_parts:
  assumes "key_name k" and "v \<noteq> []" "no_space_back v"
  shows "trimmed (k @ '' = '' @ v)"
    and "strings_Cut (k @ '' = '' @ v) ''='' = (k @ '' '', '' '' @ v, True)"
    and "strings_ToLower ul (strings_TrimSpace (k @ '' '')) = map lower_ascii k"
proof -
  note k = key_nameD [OF assms(1)]
  have "no_space_back ((k @ '' ='') @ CHR '' '' # v)"
    using assms(2,3) by (intro no_space_back_append) simp_all
  then show "trimmed (k @ '' = '' @ v)" using k(6) by (simp add: trimmed_def)
  have "strings_Cut ((k @ '' '') @ CHR ''='' # ('' '' @ v)) ''='' = (k @ '' '', '' '' @ v, True)"
    by (rule strings_Cut_char_append) (use k in simp)
  then show "strings_Cut (k @ '' = '' @ v) ''='' = (k @ '' '', '' '' @ v, True)" by simp
  show "strings_ToLower ul (strings_TrimSpace (k @ '' '')) = map lower_ascii k"
    using TrimSpace_trailing_blank [OF k(7,6)] k(5) by (simp add: strings_ToLower_ascii)
qed

lemma parseLine_field:
  assumes "key_name k" "wf_value v" "comment_or_blank sfx" "ps_section st \<noteq> notInASection"
    and "map lower_ascii k \<notin> scriptKeys"
  shows "parseLine L st (with_suffix (k @ '' = '' @ v) sfx) = parseField L st (map lower_ascii k) v sfx"
proof -
  note k = key_nameD [OF assms(1)]
  have v: "v \<noteq> []" "trimmed v" "CHR ''#'' \<notin> set v" using assms(2) by (simp_all add: wf_value_def wf_text_def)
  have "no_space_back v" using v(2) by (simp add: trimmed_def)
  note parts = key_line_parts [OF assms(1) v(1) this]
  have code: "line_code (with_suffix (k @ '' = '' @ v) sfx) = k @ '' = '' @ v"
    "line_comment (with_suffix (k @ '' = '' @ v) sfx) = sfx"
    using parts(1) v k assms(3) by (intro line_code_comment; simp add: trimmed_def)+
  have t: "strings_TrimSpace ('' '' @ v) = v" using v by (simp add: strings_TrimSpace_id)
  show ?thesis
    using v k(1) assms(4,5) unfolding parseLine_alt code parts(2) Let_def prod.case parts(3) t by simp
qed

lemma parseLine_script:
  assumes "key_name k" "wf_text v" "ps_section st \<noteq> notInASection" and "map lower_ascii k \<in> scriptKeys"
  shows "parseLine L st (k @ '' = '' @ v) = parseField L st (map lower_ascii k) v []"
proof -
  note k = key_nameD [OF assms(1)]
  let ?w = "takeWhile (\<lambda>x. x \<noteq> CHR ''#'') v"
  have v: "v \<noteq> []" "trimmed v" using assms(2) by (simp_all add: wf_text_def)
  note parts = key_line_parts [OF assms(1) v(1)]
  have "takeWhile (\<lambda>x. x \<noteq> CHR ''#'') (k @ '' = '' @ v) = k @ '' = '' @ ?w"
    using k(3) by (induction k) auto
  then have "line_code (k @ '' = '' @ v) = strings_TrimSpace ((k @ '' '') @ CHR ''='' # ('' '' @ ?w))"
    by (simp add: line_code_def strings_Cut_char)
  also have "\<dots> = (k @ '' '') @ CHR ''='' # strings_TrimRightSpace ('' '' @ ?w)"
    by (rule strings_TrimSpace_keep) (use k(6) in \<open>simp_all add: printable_def\<close>)
  finally have code: "line_code (k @ '' = '' @ v) = (k @ '' '') @ CHR ''='' # strings_TrimRightSpace ('' '' @ ?w)" .
  have cut: "strings_Cut ((k @ '' '') @ CHR ''='' # strings_TrimRightSpace ('' '' @ ?w)) ''='' =
      (k @ '' '', strings_TrimRightSpace ('' '' @ ?w), True)"
    by (rule strings_Cut_char_append) (use k in simp)
  have t: "strings_TrimSpace ('' '' @ v) = v" using v by (simp add: strings_TrimSpace_id)
  have b: "no_space_back v" using v(2) by (simp add: trimmed_def)
  show ?thesis
    using v assms(3,4) unfolding parseLine_alt code cut Let_def prod.case parts(2) [OF b] parts(3) [OF b] fst_conv snd_conv t
    by simp
qed

lemma header_key: "key_name ''[Interface]''" "key_name ''[Peer]''"
  by (simp_all add: key_name_def printable_def)

lemma parseLine_header:
  assumes "key_name k" "comment_or_blank sfx"
  shows "line_code (with_suffix k sfx) = k" "line_comment (with_suffix k sfx) = sfx"
    "strings_Cut k ''='' = (k, [], False)" "strings_ToLower ul (strings_TrimSpace k) = map lower_ascii k"
proof -
  note k = key_nameD [OF assms(1)]
  show "line_code (with_suffix k sfx) = k" "line_comment (with_suffix k sfx) = sfx"
    using k assms(2) by (intro line_code_comment; simp)+
  show "strings_Cut k ''='' = (k, [], False)" using k by simp
  show "strings_ToLower ul (strings_TrimSpace k) = map lower_ascii k"
    using k by (simp add: strings_TrimSpace_id strings_ToLower_ascii)
qed

end
