(* ===== verification/ConfRoundtrip.thy ===== *)
theory ConfRoundtrip
  imports ConfWriter
begin

text \<open>
  Save and reload: parsing what the writer prints gives the configuration back. Printed values
  parse to what they print, each written field sets its field of the configuration and files its
  comments, and the sections compose.
\<close>

section \<open>Printed values\<close>

lemma no_space_front_append:
  assumes "no_space_front h" and "h \<noteq> []" and "ord c < 128"
  shows "no_space_front (h @ c # t)"
  unfolding no_space_front_def
proof
  fix e assume e: "e \<in> set space_encs"
  show "\<not> prefix e (h @ c # t)"
  proof
    assume p: "prefix e (h @ c # t)"
    show False
    proof (cases "length e \<le> length h")
      case True
      then have "prefix e h" using p by (metis prefixI prefix_length_prefix)
      with e assms(1) show False by (simp add: no_space_front_def)
    next
      case False
      then have "length (h @ [c]) \<le> length e" by simp
      moreover have "prefix (h @ [c]) (h @ c # t)" by (simp add: prefix_def)
      ultimately have "prefix (h @ [c]) e" using p prefix_length_prefix by blast
      then have "c \<in> set e" "length e \<noteq> 1"
        using set_mono_prefix [of "h @ [c]" e] prefix_length_le [of "h @ [c]" e] \<open>h \<noteq> []\<close> by (auto simp: neq_Nil_conv)
      with space_encs_ascii_or_high [OF e] assms(3) show False by force
    qed
  qed
qed

lemma wf_value_Join: "xs \<noteq> [] \<Longrightarrow> list_all wf_item xs \<Longrightarrow> wf_value (strings_Join xs '', '')"
proof (induction xs "'', ''" rule: strings_Join.induct)
  case (2 x)
  then show ?case by (simp add: wf_item_def)
next
  case (3 x y ys)
  define r where "r = strings_Join (y # ys) '', ''"
  have r: "r \<noteq> []" "no_space_back r" "newline \<notin> set r" "CHR ''#'' \<notin> set r"
    using 3 by (simp_all add: wf_value_def wf_text_def trimmed_def r_def)
  have x: "x \<noteq> []" "no_space_front x" "newline \<notin> set x" "CHR ''#'' \<notin> set x"
    using 3(3) by (simp_all add: wf_item_def wf_value_def wf_text_def trimmed_def)
  have "no_space_front (x @ CHR '','' # ('' '' @ r))" by (rule no_space_front_append) (use x in simp_all)
  moreover have "no_space_back ((x @ '','') @ CHR '' '' # r)" by (rule no_space_back_append) (use r in simp_all)
  ultimately have "wf_value (x @ '', '' @ r)"
    using x r by (simp add: wf_value_def wf_text_def trimmed_def)
  then show ?case by (simp add: r_def)
qed simp

lemma Split_Join:
  "xs \<noteq> [] \<Longrightarrow> list_all (\<lambda>x. CHR '','' \<notin> set x) xs \<Longrightarrow>
     strings_Split (strings_Join xs '', '') (CHR '','') = hd xs # map (\<lambda>x. '' '' @ x) (tl xs)"
proof (induction xs "'', ''" rule: strings_Join.induct)
  case (3 x y ys)
  have "strings_Split (x @ CHR '','' # ('' '' @ strings_Join (y # ys) '', '')) (CHR '','') =
      x # strings_Split ('' '' @ strings_Join (y # ys) '', '') (CHR '','')"
    using 3(3) by (intro strings_Split_append) simp
  then show ?case using 3 by simp
qed (simp_all add: strings_Split_no_sep)

lemma splitList_Join:
  assumes "xs \<noteq> []" "list_all wf_item xs"
  shows "splitList (strings_Join xs '', '') = Inr xs"
proof -
  obtain y ys where xs: "xs = y # ys" using assms(1) by (cases xs) auto
  have t: "strings_TrimSpace x = x" "strings_TrimSpace ('' '' @ x) = x" "x \<noteq> []" if "x \<in> set xs" for x
    using that assms(2) by (simp_all add: list_all_iff wf_item_def wf_value_def wf_text_def strings_TrimSpace_id)
  have "list_all (\<lambda>x. CHR '','' \<notin> set x) xs" using assms(2) by (simp add: list_all_iff wf_item_def)
  then have split: "strings_Split (strings_Join xs '', '') (CHR '','') = y # map (\<lambda>x. '' '' @ x) ys"
    using Split_Join [OF assms(1)] xs by simp
  have r: "rmap (\<lambda>split. let trim = strings_TrimSpace split in
      if trim = [] then Inl (ParseError ''Two commas in a row'' w) else Inr trim) (map (\<lambda>x. '' '' @ x) ys) = Inr ys" for w
    using t xs by (intro rmap_map_Inr) (simp add: Let_def)
  show ?thesis unfolding splitList_def split rmap.simps r using t xs by (simp add: Let_def)
qed

lemma wf_item_prefix: "wf_prefix p \<Longrightarrow> wf_item (prefix_String p)"
proof -
  assume p: "wf_prefix p"
  then have "prefix_String p \<noteq> []" by (simp add: prefix_String_def wf_prefix_def prefix_IsValid_def)
  with p prefix_String_chars show ?thesis
    using wf_value_printable [of "prefix_String p"] by (auto simp: wf_item_def)
qed

lemma parseIPCidr_String: "wf_prefix p \<Longrightarrow> parseIPCidr (prefix_String p) = Inr p"
  by (simp add: parseIPCidr_def ParsePrefix_String)

lemma prefix_list:
  assumes "ps \<noteq> []" "list_all wf_prefix ps"
  shows "wf_value (strings_Join (map prefix_String ps) '', '')"
    "rbind (splitList (strings_Join (map prefix_String ps) '', '')) (\<lambda>xs. rbind (rmap parseIPCidr xs) f) = f ps"
proof -
  have "list_all wf_item (map prefix_String ps)" using assms(2) by (simp add: list_all_iff wf_item_prefix)
  then show "wf_value (strings_Join (map prefix_String ps) '', '')" using assms(1) by (simp add: wf_value_Join)
  have "rmap parseIPCidr (map prefix_String ps) = Inr ps"
    using assms(2) by (intro rmap_map_Inr) (simp add: list_all_iff parseIPCidr_String)
  then show "rbind (splitList (strings_Join (map prefix_String ps) '', '')) (\<lambda>xs. rbind (rmap parseIPCidr xs) f) = f ps"
    using assms(1) \<open>list_all wf_item (map prefix_String ps)\<close> by (simp add: splitList_Join)
qed

lemma key_value:
  assumes "length k = KeyLength"
  shows "wf_value (key_String k)" "parseKeyBase64 (key_String k) = Inr k"
proof -
  have "k \<noteq> []" using assms by (auto simp: KeyLength_def)
  then show "wf_value (key_String k)"
    unfolding key_String_def using base64_Encode_not_Nil set_base64_Encode b64_alphabet_printable
    by (intro wf_value_printable) blast+
  show "parseKeyBase64 (key_String k) = Inr k"
    unfolding key_String_def using assms by (rule b64.parse_enc)
qed

lemma wf_value_nat_str: "wf_value (nat_str n)"
proof -
  have "\<not> is_digit (CHR ''#'')" by (simp add: is_digit_def)
  then show ?thesis
    using nat_str_digits is_digit_printable by (intro wf_value_printable) auto
qed

lemma word_values:
  "parseMTU (uint_str m) = Inr m" if "576 \<le> unat m" for m :: u16
proof -
  have "unat m < 65536" "uint m < 65536"
    using unsigned_less [of m, where ?'a = nat] unsigned_less [of m, where ?'a = int] by simp_all
  moreover have "576 \<le> int (unat m)" using that by linarith
  then have "576 \<le> uint m" by simp
  ultimately show ?thesis by (simp add: parseMTU_def Atoi_nat_str)
qed

lemma nat_str_not_literal: "\<not> is_digit c \<Longrightarrow> nat_str n \<noteq> c # s"
  by (metis list.set_intros(1) nat_str_digits)

lemma parsePersistentKeepalive_uint_str: "parsePersistentKeepalive (uint_str p) = Inr p"
proof -
  have "unat p < 65536" "uint p < 65536"
    using unsigned_less [of p, where ?'a = nat] unsigned_less [of p, where ?'a = int] by simp_all
  moreover have "nat_str (unat p) \<noteq> ''off''" by (rule nat_str_not_literal) (simp add: is_digit_def)
  ultimately show ?thesis by (simp add: parsePersistentKeepalive_def Atoi_nat_str)
qed

lemma parseWSMillis_uint_str: "parseWSMillis (uint_str m) = Inr m"
proof -
  have "unat m < 2 ^ 32" using unsigned_less [of m, where ?'a = nat] by simp
  then show ?thesis by (simp add: parseWSMillis_def ParseUint_nat_str)
qed

lemma bool_values: "wf_value (bool_str b)" "parseWSBool (bool_str b) = Inr b"
  by (auto simp: bool_str_def parseWSBool_def printable_def intro!: wf_value_printable)

lemma table_values: "wf_value (if b then ''off'' else ''auto'')" "parseTableOff (if b then ''off'' else ''auto'') = Inr b"
  by (auto simp: parseTableOff_def printable_def intro!: wf_value_printable)

lemma mode_values:
  assumes "m = WSModeWebSocket \<or> m = WSModeWSTunnel"
  shows "wf_value m" "parseWSMode L m = Inr m"
proof -
  from assms show "wf_value m" by (auto simp: WSMode_defs printable_def intro!: wf_value_printable)
  from assms show "parseWSMode L m = Inr m"
    by (auto simp: parseWSMode_def WSMode_defs strings_ToLower_def lower_ascii_def)
qed

text \<open>The DNS servers and search domains of one line, in the order they are written.\<close>

lemma foldl_addDNS_addrs:
  "list_all wf_dns as \<Longrightarrow> foldl addDNS i (map addr_String as) = i\<lparr>DNS := DNS i @ as\<rparr>"
proof (induction as arbitrary: i)
  case (Cons a as)
  then show ?case by (simp add: addDNS_def wf_dns_def ParseAddr_String)
qed simp

lemma foldl_addDNS_search:
  "list_all wf_search ss \<Longrightarrow> foldl addDNS i ss = i\<lparr>DNSSearch := DNSSearch i @ ss\<rparr>"
proof (induction ss arbitrary: i)
  case (Cons s ss)
  then show ?case by (simp add: addDNS_def wf_search_def)
qed simp

lemma dns_list:
  assumes "as \<noteq> [] \<or> ss \<noteq> []" "list_all wf_dns as" "list_all wf_search ss"
  shows "wf_value (strings_Join (map addr_String as @ ss) '', '')"
    "splitList (strings_Join (map addr_String as @ ss) '', '') = Inr (map addr_String as @ ss)"
    "foldl addDNS i (map addr_String as @ ss) = i\<lparr>DNS := DNS i @ as, DNSSearch := DNSSearch i @ ss\<rparr>"
proof -
  have "list_all wf_item (map addr_String as @ ss)"
    using assms(2,3) by (auto simp: list_all_iff wf_dns_def wf_search_def)
  then show "wf_value (strings_Join (map addr_String as @ ss) '', '')"
    "splitList (strings_Join (map addr_String as @ ss) '', '') = Inr (map addr_String as @ ss)"
    using assms(1) by (auto simp: wf_value_Join splitList_Join)
  show "foldl addDNS i (map addr_String as @ ss) = i\<lparr>DNS := DNS i @ as, DNSSearch := DNSSearch i @ ss\<rparr>"
    using assms(2,3) by (simp add: foldl_addDNS_addrs foldl_addDNS_search)
qed

section \<open>Reading one field\<close>

definition file_comments :: "SectionComments \<Rightarrow> string \<Rightarrow> SectionComments \<Rightarrow> SectionComments" where
  "file_comments sec key s = s\<lparr>Lines := (Lines s)(key := Lines sec key)\<rparr>"

lemma file_comments_simps [simp]:
  "Header (file_comments sec key s) = Header s"
  "Lines (file_comments sec key s) = (Lines s)(key := Lines sec key)"
  by (simp_all add: file_comments_def)

lemma file_comments_absent: "Lines s key = None \<Longrightarrow> Lines sec key = None \<Longrightarrow> file_comments sec key s = s"
  by (simp add: file_comments_def fun_upd_idem)

lemma addLineComments_field:
  assumes "wf_section sec" "Lines s key = None"
  shows "addLineComments (cBefore (field_comments sec key)) (Suffix (field_comments sec key)) key s = file_comments sec key s"
proof (cases "Lines sec key")
  case None
  with assms show ?thesis
    by (simp add: field_comments_def addLineComments_def zeroComments_def file_comments_absent)
next
  case (Some c)
  then have "cBefore c \<noteq> [] \<or> Suffix c \<noteq> []" using assms(1) by (auto simp: wf_section_def)
  moreover have "zeroComments\<lparr>cBefore := cBefore c, Suffix := addSuffix (Suffix c) []\<rparr> = c"
    by (cases c) (simp add: zeroComments_def addSuffix_def)
  ultimately show ?thesis
    using Some assms(2) by (simp add: field_comments_def addLineComments_def file_comments_def Let_def zeroComments_def)
qed

lemma field_comments_wf:
  assumes "wf_section sec"
  shows "list_all comment_or_blank (cBefore (field_comments sec key))" "comment_or_blank (Suffix (field_comments sec key))"
    "key \<in> scriptKeys \<Longrightarrow> Suffix (field_comments sec key) = []"
  using assms
  by (auto simp: field_comments_def wf_section_def wf_comments_def pruned_def zeroComments_def split: option.splits)

lemma written_field:
  assumes "key_name k" "wf_section sec" "line_value (map lower_ascii k) v"
    and "ps_section st \<noteq> notInASection" "pendingComments st = []"
  defines "c \<equiv> field_comments sec (map lower_ascii k)"
  shows "rfold (parseLine L) st (comment_lines c (k @ '' = '' @ v)) =
    parseField L (st\<lparr>pendingComments := cBefore c\<rparr>) (map lower_ascii k) v (Suffix c)"
proof -
  note c = field_comments_wf [OF assms(2), of "map lower_ascii k", folded c_def]
  have "parseLine L st' (with_suffix (k @ '' = '' @ v) (Suffix c)) = parseField L st' (map lower_ascii k) v (Suffix c)"
    if "ps_section st' \<noteq> notInASection" for st'
  proof (cases "map lower_ascii k \<in> scriptKeys")
    case True
    with parseLine_script [OF assms(1) _ that True] c assms(3) show ?thesis by (simp add: line_value_def with_suffix_def)
  next
    case False
    with parseLine_field [OF assms(1) _ c(2) that False] assms(3) show ?thesis by (simp add: line_value_def)
  qed
  with c(1) assms(4,5) show ?thesis by (simp add: comment_lines_def rfold_append rfold_blank rbind_def split: sum.split)
qed

lemma field_lines_skip:
  "wf_section sec \<Longrightarrow> is_ascii k \<Longrightarrow>
     (field_lines sec k present v = [] \<and> \<not> present \<and> Lines sec (map lower_ascii k) = None) \<or>
     (field_lines sec k present v = comment_lines (field_comments sec (map lower_ascii k)) (k @ '' = '' @ v) \<and>
      (present \<or> Lines sec (map lower_ascii k) \<noteq> None))"
  by (cases "Lines sec (map lower_ascii k)")
    (auto simp: field_lines_def field_comments_def strings_ToLower_ascii Let_def zeroComments_def wf_section_def)

section \<open>The interface section\<close>

definition ist :: "string \<Rightarrow> Interface \<Rightarrow> bool \<Rightarrow> pstate" where
  "ist name i saw = \<lparr>ps_section = inInterfaceSection, ps_conf = zeroConfig\<lparr>Name := name, cInterface := i\<rparr>,
     sawPrivateKey = saw, ps_peer = None, peerWSKeys = [], pendingComments = []\<rparr>"

lemma iface_field:
  assumes "key_name k" "map lower_ascii k = key" "wf_section sec" "Lines (iComments i) key = None"
    and "present \<or> Lines sec key \<noteq> None \<Longrightarrow> line_value key v \<and>
      interfaceKey key v (i\<lparr>iComments := file_comments sec key (iComments i)\<rparr>, saw) = Inr (i', saw')"
    and "\<not> present \<Longrightarrow> Lines sec key = None \<Longrightarrow> i' = i \<and> saw' = saw"
  shows "rfold (parseLine L) (ist name i saw) (field_lines sec k present v) = Inr (ist name i' saw')"
  using field_lines_skip [OF assms(3) key_nameD(5) [OF assms(1)], of present v, unfolded assms(2)]
proof
  assume w: "field_lines sec k present v = comment_lines (field_comments sec key) (k @ '' = '' @ v) \<and>
      (present \<or> Lines sec key \<noteq> None)"
  let ?c = "field_comments sec key"
  have "rfold (parseLine L) (ist name i saw) (comment_lines ?c (k @ '' = '' @ v)) =
      parseField L ((ist name i saw)\<lparr>pendingComments := cBefore ?c\<rparr>) key v (Suffix ?c)"
    using written_field [OF assms(1,3), of v "ist name i saw" L] assms(2) assms(5) w by (simp add: ist_def)
  also have "\<dots> = Inr (ist name i' saw')"
    using assms(5) w addLineComments_field [OF assms(3,4)] by (simp add: parseField_def ist_def Let_def)
  finally show ?thesis using w by simp
next
  assume w: "field_lines sec k present v = [] \<and> \<not> present \<and> Lines sec key = None"
  then have "field_lines sec k present v = []" "i' = i" "saw' = saw" using assms(6) by blast+
  then show ?thesis by (simp only: rfold.simps)
qed

abbreviation filed :: "SectionComments \<Rightarrow> string \<Rightarrow> Interface \<Rightarrow> Interface" where
  "filed sec key i \<equiv> i\<lparr>iComments := file_comments sec key (iComments i)\<rparr>"

lemma key_names:
  "key_name ''PrivateKey''" "key_name ''ListenPort''" "key_name ''Address''" "key_name ''DNS''" "key_name ''MTU''"
  "key_name ''PreUp''" "key_name ''PostUp''" "key_name ''PreDown''" "key_name ''PostDown''" "key_name ''Table''"
  by (simp_all add: key_name_def printable_def)

lemma lower_keys:
  "map lower_ascii ''PrivateKey'' = ''privatekey''" "map lower_ascii ''ListenPort'' = ''listenport''"
  "map lower_ascii ''Address'' = ''address''" "map lower_ascii ''DNS'' = ''dns''" "map lower_ascii ''MTU'' = ''mtu''"
  "map lower_ascii ''PreUp'' = ''preup''" "map lower_ascii ''PostUp'' = ''postup''"
  "map lower_ascii ''PreDown'' = ''predown''" "map lower_ascii ''PostDown'' = ''postdown''"
  "map lower_ascii ''Table'' = ''table''"
  by (simp_all add: lower_ascii_def char_of_def bit_0)

lemma iface_absent: "Lines (iComments i) key = None \<Longrightarrow> Lines sec key = None \<Longrightarrow> filed sec key i = i"
  by (simp add: file_comments_absent)

lemma read_privatekey:
  assumes "wf_section sec" "Lines (iComments i) ''privatekey'' = None" "length k = KeyLength"
  shows "rfold (parseLine L) (ist name i saw) (field_lines sec ''PrivateKey'' True (key_String k)) =
    Inr (ist name ((filed sec ''privatekey'' i)\<lparr>PrivateKey := k\<rparr>) True)"
  by (rule iface_field [OF key_names(1) lower_keys(1) assms(1,2)])
    (simp_all add: key_value [OF assms(3)] interfaceKey_def line_value_def scriptKeys_def)

lemma read_listenport:
  assumes "wf_section sec" "Lines (iComments i) ''listenport'' = None" "ListenPort i = 0"
  shows "rfold (parseLine L) (ist name i saw) (field_lines sec ''ListenPort'' (0 < p) (uint_str p)) =
    Inr (ist name ((filed sec ''listenport'' i)\<lparr>ListenPort := p\<rparr>) saw)"
proof (rule iface_field [OF key_names(2) lower_keys(2) assms(1,2)])
  show "(filed sec ''listenport'' i)\<lparr>ListenPort := p\<rparr> = i \<and> saw = saw" if "\<not> 0 < p" "Lines sec ''listenport'' = None"
    using that assms iface_absent by (simp add: word_neq_0_conv [symmetric])
qed (simp_all add: wf_value_nat_str parsePort_uint_str interfaceKey_def line_value_def scriptKeys_def)

lemma read_address:
  assumes "wf_section sec" "Lines (iComments i) ''address'' = None" "Addresses i = []"
    "list_all wf_prefix as" "as \<noteq> []"
  shows "rfold (parseLine L) (ist name i saw) (field_lines sec ''Address'' True (strings_Join (map prefix_String as) '', '')) =
    Inr (ist name ((filed sec ''address'' i)\<lparr>Addresses := as\<rparr>) saw)"
  by (rule iface_field [OF key_names(3) lower_keys(3) assms(1,2)])
    (simp_all add: prefix_list [OF assms(5,4)] assms(3) interfaceKey_def line_value_def scriptKeys_def)

lemma read_dns:
  assumes "wf_section sec" "Lines (iComments i) ''dns'' = None" "DNS i = []" "DNSSearch i = []"
    "as \<noteq> [] \<or> ss \<noteq> []" "list_all wf_dns as" "list_all wf_search ss"
  shows "rfold (parseLine L) (ist name i saw)
      (field_lines sec ''DNS'' True (strings_Join (map addr_String as @ ss) '', '')) =
    Inr (ist name ((filed sec ''dns'' i)\<lparr>DNS := as, DNSSearch := ss\<rparr>) saw)"
  by (rule iface_field [OF key_names(4) lower_keys(4) assms(1,2)])
    (simp_all add: dns_list(1,2) [OF assms(5,6,7)] foldl_addDNS_addrs [OF assms(6)] foldl_addDNS_search [OF assms(7)]
      assms(3,4) interfaceKey_def line_value_def scriptKeys_def)

lemma read_mtu:
  assumes "wf_section sec" "Lines (iComments i) ''mtu'' = None" "MTU i = 0"
    "if m = 0 then Lines sec ''mtu'' = None else 576 \<le> unat m"
  shows "rfold (parseLine L) (ist name i saw) (field_lines sec ''MTU'' (0 < m) (uint_str m)) =
    Inr (ist name ((filed sec ''mtu'' i)\<lparr>MTU := m\<rparr>) saw)"
proof (rule iface_field [OF key_names(5) lower_keys(5) assms(1,2)])
  show "(filed sec ''mtu'' i)\<lparr>MTU := m\<rparr> = i \<and> saw = saw" if "\<not> 0 < m" "Lines sec ''mtu'' = None"
    using that assms iface_absent by (simp add: word_neq_0_conv [symmetric])
  assume "0 < m \<or> Lines sec ''mtu'' \<noteq> None"
  then have "576 \<le> unat m" using assms(4) by (simp split: if_splits)
  then show "line_value ''mtu'' (uint_str m) \<and>
      interfaceKey ''mtu'' (uint_str m) (filed sec ''mtu'' i, saw) = Inr ((filed sec ''mtu'' i)\<lparr>MTU := m\<rparr>, saw)"
    by (simp add: wf_value_nat_str word_values interfaceKey_def line_value_def scriptKeys_def)
qed

lemma read_script:
  assumes "key_name k" "map lower_ascii k = key" "key \<in> scriptKeys"
    and "wf_section sec" "Lines (iComments i) key = None" "wf_script key v sec"
    and "\<And>i. interfaceKey key v (i, saw) = Inr (f i, saw)" and "v = [] \<Longrightarrow> f i = i"
  shows "rfold (parseLine L) (ist name i saw) (field_lines sec k (v \<noteq> []) v) = Inr (ist name (f (filed sec key i)) saw)"
proof (rule iface_field [OF assms(1,2,4,5)])
  show "f (filed sec key i) = i \<and> saw = saw" if "\<not> v \<noteq> []" "Lines sec key = None"
  proof -
    have "f i = i" using that(1) by (intro assms(8)) blast
    then show ?thesis by (simp only: iface_absent [OF assms(5) that(2)])
  qed
  assume "v \<noteq> [] \<or> Lines sec key \<noteq> None"
  then have "wf_text v" using assms(6) by (simp add: wf_script_def split: if_splits)
  then show "line_value key v \<and> interfaceKey key v (filed sec key i, saw) = Inr (f (filed sec key i), saw)"
    using assms(3,7) by (simp add: line_value_def)
qed

lemma read_table:
  assumes "wf_section sec" "Lines (iComments i) ''table'' = None" "\<not> TableOff i"
  shows "rfold (parseLine L) (ist name i saw) (field_lines sec ''Table'' b (if b then ''off'' else ''auto'')) =
    Inr (ist name ((filed sec ''table'' i)\<lparr>TableOff := b\<rparr>) saw)"
proof (rule iface_field [OF key_names(10) lower_keys(10) assms(1,2)])
  show "(filed sec ''table'' i)\<lparr>TableOff := b\<rparr> = i \<and> saw = saw" if "\<not> b" "Lines sec ''table'' = None"
    using that assms iface_absent by simp
  show "line_value ''table'' (if b then ''off'' else ''auto'') \<and>
      interfaceKey ''table'' (if b then ''off'' else ''auto'') (filed sec ''table'' i, saw) =
      Inr ((filed sec ''table'' i)\<lparr>TableOff := b\<rparr>, saw)"
    unfolding interfaceKey_def by (simp add: table_values line_value_def scriptKeys_def del: if_split)
qed


definition interface_lines :: "Interface \<Rightarrow> string list" where
  "interface_lines i =
     (let cm = iComments i in
      comment_lines (Header cm) ''[Interface]'' @
      field_lines cm ''PrivateKey'' True (key_String (PrivateKey i)) @
      field_lines cm ''ListenPort'' (0 < ListenPort i) (uint_str (ListenPort i)) @
      (if Addresses i \<noteq> [] then field_lines cm ''Address'' True (strings_Join (map prefix_String (Addresses i)) '', '') else []) @
      (if 0 < length (DNS i) + length (DNSSearch i)
       then field_lines cm ''DNS'' True (strings_Join (map addr_String (DNS i) @ DNSSearch i) '', '') else []) @
      field_lines cm ''MTU'' (0 < MTU i) (uint_str (MTU i)) @
      field_lines cm ''PreUp'' (PreUp i \<noteq> []) (PreUp i) @
      field_lines cm ''PostUp'' (PostUp i \<noteq> []) (PostUp i) @
      field_lines cm ''PreDown'' (PreDown i \<noteq> []) (PreDown i) @
      field_lines cm ''PostDown'' (PostDown i \<noteq> []) (PostDown i) @
      field_lines cm ''Table'' (TableOff i) (if TableOff i then ''off'' else ''auto''))"

lemma writeInterface_lines: "writeInterface i = unlines (interface_lines i)"
  by (simp add: writeInterface_def interface_lines_def writeLine_lines writeField_lines Let_def)

lemma read_addresses:
  assumes "wf_section sec" "Lines (iComments i) ''address'' = None" "Addresses i = []"
    "list_all wf_prefix as" "Lines sec ''address'' \<noteq> None \<longrightarrow> as \<noteq> []"
  shows "rfold (parseLine L) (ist name i saw)
      (if as \<noteq> [] then field_lines sec ''Address'' True (strings_Join (map prefix_String as) '', '') else []) =
    Inr (ist name ((filed sec ''address'' i)\<lparr>Addresses := as\<rparr>) saw)"
proof (cases "as = []")
  case True
  then have "filed sec ''address'' i = i" using assms(2,5) iface_absent by blast
  moreover have "i\<lparr>Addresses := []\<rparr> = i" using assms(3) by (cases i) simp
  ultimately show ?thesis using True by simp
qed (simp add: read_address [OF assms(1,2,3,4)])

lemma read_dns_servers:
  assumes "wf_section sec" "Lines (iComments i) ''dns'' = None" "DNS i = []" "DNSSearch i = []"
    "list_all wf_dns as" "list_all wf_search ss" "Lines sec ''dns'' \<noteq> None \<longrightarrow> as \<noteq> [] \<or> ss \<noteq> []"
  shows "rfold (parseLine L) (ist name i saw)
      (if 0 < length as + length ss then field_lines sec ''DNS'' True (strings_Join (map addr_String as @ ss) '', '') else []) =
    Inr (ist name ((filed sec ''dns'' i)\<lparr>DNS := as, DNSSearch := ss\<rparr>) saw)"
proof (cases "as = [] \<and> ss = []")
  case True
  then have "filed sec ''dns'' i = i" using assms(2,7) iface_absent by blast
  moreover have "i\<lparr>DNS := [], DNSSearch := []\<rparr> = i" using assms(3,4) by (cases i) simp
  ultimately show ?thesis using True by simp
next
  case False
  then have "as \<noteq> [] \<or> ss \<noteq> []" "0 < length as + length ss" by auto
  with read_dns [OF assms(1,2,3,4) this(1) assms(5,6)] show ?thesis by simp
qed

lemma read_interface_header:
  assumes "wf_section sec"
  shows "rfold (parseLine L) (pstate_init name) (comment_lines (Header sec) ''[Interface]'') =
    Inr (ist name (zeroInterface\<lparr>iComments := zeroSection\<lparr>Header := Header sec\<rparr>\<rparr>) False)"
proof -
  have h: "list_all comment_or_blank (cBefore (Header sec))" "comment_or_blank (Suffix (Header sec))"
    using assms by (simp_all add: wf_section_def wf_comments_def pruned_def)
  note line = parseLine_header [OF header_key(1) h(2)]
  have low: "map lower_ascii ''[Interface]'' = ''[interface]''" by (simp add: lower_ascii_def char_of_def bit_0)
  have step: "parseLine L ((pstate_init name)\<lparr>pendingComments := cBefore (Header sec)\<rparr>) (with_suffix ''[Interface]'' (Suffix (Header sec))) =
      Inr (ist name (zeroInterface\<lparr>iComments := zeroSection\<lparr>Header := Header sec\<rparr>\<rparr>) False)"
    unfolding parseLine_alt line(1,2,3) Let_def prod.case line(4) low
    by (cases "Header sec") (simp add: finishPeer_def pstate_init_def maybeAddPeer_def ist_def zeroConfig_def zeroInterface_def
        zeroSection_def zeroComments_def addSuffix_def)
  have "pendingComments (pstate_init name) = []" by (simp add: pstate_init_def)
  then show ?thesis
    by (simp add: comment_lines_def rfold_append rfold_blank [OF h(1)] step)
qed

lemma read_scripts:
  assumes "wf_section sec"
  shows "Lines (iComments i) ''preup'' = None \<Longrightarrow> wf_script ''preup'' v sec \<Longrightarrow> PreUp i = [] \<Longrightarrow>
      rfold (parseLine L) (ist name i saw) (field_lines sec ''PreUp'' (v \<noteq> []) v) =
      Inr (ist name ((filed sec ''preup'' i)\<lparr>PreUp := v\<rparr>) saw)"
    and "Lines (iComments i) ''postup'' = None \<Longrightarrow> wf_script ''postup'' v sec \<Longrightarrow> PostUp i = [] \<Longrightarrow>
      rfold (parseLine L) (ist name i saw) (field_lines sec ''PostUp'' (v \<noteq> []) v) =
      Inr (ist name ((filed sec ''postup'' i)\<lparr>PostUp := v\<rparr>) saw)"
    and "Lines (iComments i) ''predown'' = None \<Longrightarrow> wf_script ''predown'' v sec \<Longrightarrow> PreDown i = [] \<Longrightarrow>
      rfold (parseLine L) (ist name i saw) (field_lines sec ''PreDown'' (v \<noteq> []) v) =
      Inr (ist name ((filed sec ''predown'' i)\<lparr>PreDown := v\<rparr>) saw)"
    and "Lines (iComments i) ''postdown'' = None \<Longrightarrow> wf_script ''postdown'' v sec \<Longrightarrow> PostDown i = [] \<Longrightarrow>
      rfold (parseLine L) (ist name i saw) (field_lines sec ''PostDown'' (v \<noteq> []) v) =
      Inr (ist name ((filed sec ''postdown'' i)\<lparr>PostDown := v\<rparr>) saw)"
  by (rule read_script [OF key_names(6) lower_keys(6) _ assms]
        read_script [OF key_names(7) lower_keys(7) _ assms]
        read_script [OF key_names(8) lower_keys(8) _ assms]
        read_script [OF key_names(9) lower_keys(9) _ assms];
      simp add: scriptKeys_def interfaceKey_def)+


lemma Lines_filed_all:
  assumes "dom m \<subseteq> interfaceKeys"
  shows "Map.empty(''privatekey'' := m ''privatekey'', ''listenport'' := m ''listenport'', ''address'' := m ''address'',
    ''dns'' := m ''dns'', ''mtu'' := m ''mtu'', ''preup'' := m ''preup'', ''postup'' := m ''postup'',
    ''predown'' := m ''predown'', ''postdown'' := m ''postdown'', ''table'' := m ''table'') = m"
proof
  fix k
  have "k \<notin> interfaceKeys \<Longrightarrow> m k = None" using assms by (meson domIff subsetD)
  then show "(Map.empty(''privatekey'' := m ''privatekey'', ''listenport'' := m ''listenport'', ''address'' := m ''address'',
    ''dns'' := m ''dns'', ''mtu'' := m ''mtu'', ''preup'' := m ''preup'', ''postup'' := m ''postup'',
    ''predown'' := m ''predown'', ''postdown'' := m ''postdown'', ''table'' := m ''table'')) k = m k"
    unfolding interfaceKeys_def scriptKeys_def fun_upd_def by (simp only: Un_iff insert_iff empty_iff simp_thms if_splits) auto
qed

lemma read_interface:
  assumes "interface_inv i" "wf_section (iComments i)"
  shows "rfold (parseLine L) (pstate_init name) (interface_lines i) = Inr (ist name i True)"
proof -
  define sec where "sec = iComments i"
  note w = assms(2) [folded sec_def]
  note inv = assms(1) [unfolded interface_inv_def, folded sec_def]
  define i0 where "i0 = zeroInterface\<lparr>iComments := zeroSection\<lparr>Header := Header sec\<rparr>\<rparr>"
  define i1 where "i1 = (filed sec ''privatekey'' i0)\<lparr>PrivateKey := PrivateKey i\<rparr>"
  define i2 where "i2 = (filed sec ''listenport'' i1)\<lparr>ListenPort := ListenPort i\<rparr>"
  define i3 where "i3 = (filed sec ''address'' i2)\<lparr>Addresses := Addresses i\<rparr>"
  define i4 where "i4 = (filed sec ''dns'' i3)\<lparr>DNS := DNS i, DNSSearch := DNSSearch i\<rparr>"
  define i5 where "i5 = (filed sec ''mtu'' i4)\<lparr>MTU := MTU i\<rparr>"
  define i6 where "i6 = (filed sec ''preup'' i5)\<lparr>PreUp := PreUp i\<rparr>"
  define i7 where "i7 = (filed sec ''postup'' i6)\<lparr>PostUp := PostUp i\<rparr>"
  define i8 where "i8 = (filed sec ''predown'' i7)\<lparr>PreDown := PreDown i\<rparr>"
  define i9 where "i9 = (filed sec ''postdown'' i8)\<lparr>PostDown := PostDown i\<rparr>"
  define i10 where "i10 = (filed sec ''table'' i9)\<lparr>TableOff := TableOff i\<rparr>"
  note defs = i0_def i1_def i2_def i3_def i4_def i5_def i6_def i7_def i8_def i9_def i10_def zeroInterface_def zeroSection_def
  have r0: "rfold (parseLine L) (pstate_init name) (comment_lines (Header sec) ''[Interface]'') = Inr (ist name i0 False)"
    unfolding i0_def by (rule read_interface_header [OF w])
  have r1: "rfold (parseLine L) (ist name i0 False) (field_lines sec ''PrivateKey'' True (key_String (PrivateKey i))) = Inr (ist name i1 True)"
    unfolding i1_def by (rule read_privatekey [OF w]) (use inv in \<open>simp_all add: defs\<close>)
  have r2: "rfold (parseLine L) (ist name i1 True) (field_lines sec ''ListenPort'' (0 < ListenPort i) (uint_str (ListenPort i))) = Inr (ist name i2 True)"
    unfolding i2_def by (rule read_listenport [OF w]) (use inv in \<open>simp_all add: defs\<close>)
  have r3: "rfold (parseLine L) (ist name i2 True) ((if Addresses i \<noteq> [] then field_lines sec ''Address'' True (strings_Join (map prefix_String (Addresses i)) '', '') else [])) = Inr (ist name i3 True)"
    unfolding i3_def by (rule read_addresses [OF w]) (use inv in \<open>simp_all add: defs\<close>)
  have r4: "rfold (parseLine L) (ist name i3 True) ((if 0 < length (DNS i) + length (DNSSearch i)
       then field_lines sec ''DNS'' True (strings_Join (map addr_String (DNS i) @ DNSSearch i) '', '') else [])) = Inr (ist name i4 True)"
    unfolding i4_def by (rule read_dns_servers [OF w]) (use inv in \<open>simp_all add: defs\<close>)
  have r5: "rfold (parseLine L) (ist name i4 True) (field_lines sec ''MTU'' (0 < MTU i) (uint_str (MTU i))) = Inr (ist name i5 True)"
    unfolding i5_def by (rule read_mtu [OF w]) (use inv in \<open>simp_all add: defs\<close>)
  have r6: "rfold (parseLine L) (ist name i5 True) (field_lines sec ''PreUp'' (PreUp i \<noteq> []) (PreUp i)) = Inr (ist name i6 True)"
    unfolding i6_def by (rule read_scripts(1) [OF w]) (use inv in \<open>simp_all add: defs\<close>)
  have r7: "rfold (parseLine L) (ist name i6 True) (field_lines sec ''PostUp'' (PostUp i \<noteq> []) (PostUp i)) = Inr (ist name i7 True)"
    unfolding i7_def by (rule read_scripts(2) [OF w]) (use inv in \<open>simp_all add: defs\<close>)
  have r8: "rfold (parseLine L) (ist name i7 True) (field_lines sec ''PreDown'' (PreDown i \<noteq> []) (PreDown i)) = Inr (ist name i8 True)"
    unfolding i8_def by (rule read_scripts(3) [OF w]) (use inv in \<open>simp_all add: defs\<close>)
  have r9: "rfold (parseLine L) (ist name i8 True) (field_lines sec ''PostDown'' (PostDown i \<noteq> []) (PostDown i)) = Inr (ist name i9 True)"
    unfolding i9_def by (rule read_scripts(4) [OF w]) (use inv in \<open>simp_all add: defs\<close>)
  have r10: "rfold (parseLine L) (ist name i9 True) (field_lines sec ''Table'' (TableOff i) (if TableOff i then ''off'' else ''auto'')) = Inr (ist name i10 True)"
    unfolding i10_def by (rule read_table [OF w]) (use inv in \<open>simp_all add: defs\<close>)
  have "Lines (iComments i10) = Lines sec"
    using Lines_filed_all [of "Lines sec"] inv by (simp add: defs)
  then have "i10 = i" by (cases i) (simp add: defs sec_def)
  then show ?thesis
    unfolding interface_lines_def Let_def sec_def [symmetric] rfold_append r0 r1 r2 r3 r4 r5 r6 r7 r8 r9 r10 rbind_Inr by simp
qed

end
