(* ===== verification/ConfPeers.thy ===== *)
theory ConfPeers
  imports ConfRoundtrip
begin

text \<open>
  The peer half of the round trip: reading back the lines the writer prints for one peer gives
  that peer, with the keys of the WebSocket options it has noted for the final validation.
\<close>

section \<open>The peer sections\<close>

definition pst :: "string \<Rightarrow> Interface \<Rightarrow> Peer list \<Rightarrow> Peer \<Rightarrow> string list \<Rightarrow> pstate" where
  "pst name i ps p ws = \<lparr>ps_section = inPeerSection,
     ps_conf = zeroConfig\<lparr>Name := name, cInterface := i, Peers := ps\<rparr>,
     sawPrivateKey = True, ps_peer = Some p, peerWSKeys = ws, pendingComments = []\<rparr>"

abbreviation pfiled :: "SectionComments \<Rightarrow> string \<Rightarrow> Peer \<Rightarrow> Peer" where
  "pfiled sec key p \<equiv> pComments_update (file_comments sec key) p"

definition ws_written :: "SectionComments \<Rightarrow> string \<Rightarrow> bool \<Rightarrow> string list \<Rightarrow> string list" where
  "ws_written sec key present w = (if present \<or> Lines sec key \<noteq> None then w else [])"

lemma ws_written_Nil [simp]: "ws_written sec key present [] = []"
  by (simp add: ws_written_def)

lemma peer_absent: "Lines (pComments p) key = None \<Longrightarrow> Lines sec key = None \<Longrightarrow> pfiled sec key p = p"
  by (cases p) (simp add: file_comments_absent)

lemma pfiled_set: "p\<lparr>pComments := file_comments sec key (pComments p)\<rparr> = pfiled sec key p"
  by (cases p) simp

lemma peer_field:
  assumes "key_name k" "map lower_ascii k = key" "wf_section sec" "Lines (pComments p) key = None"
    and "present \<or> Lines sec key \<noteq> None \<Longrightarrow> line_value key v \<and>
      peerKey L key v (pfiled sec key p, ws) = Inr (f (pfiled sec key p), ws @ w)"
    and "\<not> present \<Longrightarrow> Lines sec key = None \<Longrightarrow> f p = p"
  shows "rfold (parseLine L) (pst name i ps p ws) (field_lines sec k present v) =
    Inr (pst name i ps (f (pfiled sec key p)) (ws @ ws_written sec key present w))"
  using field_lines_skip [OF assms(3) key_nameD(5) [OF assms(1)], of present v, unfolded assms(2)]
proof
  assume w: "field_lines sec k present v = comment_lines (field_comments sec key) (k @ '' = '' @ v) \<and>
      (present \<or> Lines sec key \<noteq> None)"
  let ?c = "field_comments sec key"
  have "rfold (parseLine L) (pst name i ps p ws) (comment_lines ?c (k @ '' = '' @ v)) =
      parseField L ((pst name i ps p ws)\<lparr>pendingComments := cBefore ?c\<rparr>) key v (Suffix ?c)"
    using written_field [OF assms(1,3), of v "pst name i ps p ws" L] assms(2) assms(5) w by (simp add: pst_def)
  also have "\<dots> = Inr (pst name i ps (f (pfiled sec key p)) (ws @ ws_written sec key present w))"
    using assms(5) w addLineComments_field [OF assms(3,4)]
    by (simp add: parseField_def pst_def Let_def ws_written_def pfiled_set)
  finally show ?thesis using w by simp
next
  assume "field_lines sec k present v = [] \<and> \<not> present \<and> Lines sec key = None"
  then have e: "field_lines sec k present v = []" and np: "\<not> present" and n: "Lines sec key = None" by blast+
  have "f p = p" using np n by (rule assms(6))
  moreover have "ws_written sec key present w = []" using np n by (simp add: ws_written_def)
  ultimately show ?thesis by (simp only: e rfold.simps peer_absent [OF assms(4) n] append_Nil2)
qed

lemma peer_key_names:
  "key_name ''PublicKey''" "key_name ''PresharedKey''" "key_name ''AllowedIPs''" "key_name ''Endpoint''"
  "key_name ''PersistentKeepalive''" "key_name ''WSMode''" "key_name ''WSTunnelTarget''" "key_name ''WSMask''"
  "key_name ''WSTLSCA''" "key_name ''WSTLSCert''" "key_name ''WSTLSKey''" "key_name ''WSTLSInsecure''"
  "key_name ''WSPingInterval''" "key_name ''WSBackoffMin''" "key_name ''WSBackoffMax''" "key_name ''WSBearer''"
  by (simp_all add: key_name_def printable_def)

lemma peer_lower_keys:
  "map lower_ascii ''PublicKey'' = ''publickey''" "map lower_ascii ''PresharedKey'' = ''presharedkey''"
  "map lower_ascii ''AllowedIPs'' = ''allowedips''" "map lower_ascii ''Endpoint'' = ''endpoint''"
  "map lower_ascii ''PersistentKeepalive'' = ''persistentkeepalive''" "map lower_ascii ''WSMode'' = ''wsmode''"
  "map lower_ascii ''WSTunnelTarget'' = ''wstunneltarget''" "map lower_ascii ''WSMask'' = ''wsmask''"
  "map lower_ascii ''WSTLSCA'' = ''wstlsca''" "map lower_ascii ''WSTLSCert'' = ''wstlscert''"
  "map lower_ascii ''WSTLSKey'' = ''wstlskey''" "map lower_ascii ''WSTLSInsecure'' = ''wstlsinsecure''"
  "map lower_ascii ''WSPingInterval'' = ''wspinginterval''" "map lower_ascii ''WSBackoffMin'' = ''wsbackoffmin''"
  "map lower_ascii ''WSBackoffMax'' = ''wsbackoffmax''" "map lower_ascii ''WSBearer'' = ''wsbearer''"
  by (simp_all add: lower_ascii_def char_of_def bit_0)

text \<open>Keys whose printed value always parses: \<open>f\<close> sets the field, \<open>w\<close> is the name noted.\<close>

lemma read_peer_simple:
  assumes "wf_section sec" "Lines (pComments p) key = None"
    and "key_name k" "map lower_ascii k = key" "key \<notin> scriptKeys" "wf_value v"
    and "\<And>q ws. peerKey L key v (q, ws) = Inr (f q, ws @ w)" and "\<not> present \<Longrightarrow> f p = p"
  shows "rfold (parseLine L) (pst name i ps p ws) (field_lines sec k present v) =
    Inr (pst name i ps (f (pfiled sec key p)) (ws @ ws_written sec key present w))"
  by (rule peer_field [OF assms(3,4,1,2)]) (use assms(5-8) in \<open>simp_all add: line_value_def\<close>)

text \<open>Optional text values: absent when empty, and then not commented either.\<close>

lemma read_peer_option:
  assumes "wf_section sec" "Lines (pComments p) key = None"
    and "key_name k" "map lower_ascii k = key" "key \<notin> scriptKeys" "wf_option key v sec"
    and "\<And>q ws. wf_value v \<Longrightarrow> peerKey L key v (q, ws) = Inr (f q, ws @ w)" and "v = [] \<Longrightarrow> f p = p"
  shows "rfold (parseLine L) (pst name i ps p ws) (field_lines sec k (v \<noteq> []) v) =
    Inr (pst name i ps (f (pfiled sec key p)) (ws @ ws_written sec key (v \<noteq> []) w))"
proof (rule peer_field [OF assms(3,4,1,2)])
  assume "v \<noteq> [] \<or> Lines sec key \<noteq> None"
  then have "wf_value v" using assms(6) by (simp add: wf_option_def split: if_splits)
  then show "line_value key v \<and> peerKey L key v (pfiled sec key p, ws) = Inr (f (pfiled sec key p), ws @ w)"
    using assms(5,7) by (simp add: line_value_def)
qed (use assms(8) in blast)

lemma read_allowedips:
  assumes "wf_section sec" "Lines (pComments p) ''allowedips'' = None" "AllowedIPs p = []"
    "list_all wf_prefix as" "Lines sec ''allowedips'' \<noteq> None \<longrightarrow> as \<noteq> []"
  shows "rfold (parseLine L) (pst name i ps p ws)
      (if as \<noteq> [] then field_lines sec ''AllowedIPs'' True (strings_Join (map prefix_String as) '', '') else []) =
    Inr (pst name i ps ((pfiled sec ''allowedips'' p)\<lparr>AllowedIPs := as\<rparr>) (ws @ []))"
proof (cases "as = []")
  case True
  then have "pfiled sec ''allowedips'' p = p" using assms(2,5) peer_absent by blast
  moreover have "p\<lparr>AllowedIPs := []\<rparr> = p" using assms(3) by (cases p) simp
  ultimately show ?thesis using True by simp
next
  case False
  have "rfold (parseLine L) (pst name i ps p ws)
      (field_lines sec ''AllowedIPs'' True (strings_Join (map prefix_String as) '', '')) =
    Inr (pst name i ps ((\<lambda>q. q\<lparr>AllowedIPs := as\<rparr>) (pfiled sec ''allowedips'' p)) (ws @ ws_written sec ''allowedips'' True []))"
    by (rule peer_field [OF peer_key_names(3) peer_lower_keys(3) assms(1,2)])
      (simp_all add: prefix_list [OF False assms(4)] assms(3) peerKey_def line_value_def scriptKeys_def)
  then show ?thesis using False by simp
qed

lemma read_endpoint:
  assumes "wf_section (pComments p0)" "Lines (pComments p) ''endpoint'' = None" "endpoint_inv L p0"
    "pEndpoint p = \<lparr>Host = [], Port = 0\<rparr>" "WSURL p = []"
  shows "rfold (parseLine L) (pst name i ps p ws)
      (if WSURL p0 \<noteq> [] then field_lines (pComments p0) ''Endpoint'' True (WSURL p0)
       else field_lines (pComments p0) ''Endpoint'' (\<not> endpoint_IsEmpty (pEndpoint p0)) (endpoint_String (pEndpoint p0))) =
    Inr (pst name i ps ((pfiled (pComments p0) ''endpoint'' p)\<lparr>pEndpoint := pEndpoint p0, WSURL := WSURL p0\<rparr>) (ws @ []))"
proof -
  let ?sec = "pComments p0" and ?f = "\<lambda>q. q\<lparr>pEndpoint := pEndpoint p0, WSURL := WSURL p0\<rparr>"
  have idem: "p\<lparr>pEndpoint := \<lparr>Host = [], Port = 0\<rparr>, WSURL := []\<rparr> = p" using assms(4,5) by (cases p) simp
  have "rfold (parseLine L) (pst name i ps p ws) (field_lines ?sec ''Endpoint'' present v) =
      Inr (pst name i ps (?f (pfiled ?sec ''endpoint'' p)) (ws @ ws_written ?sec ''endpoint'' present []))"
    if v: "present \<or> Lines ?sec ''endpoint'' \<noteq> None \<Longrightarrow> wf_value v \<and> (\<forall>q. parseEndpointKey L v q = Inr (?f q))"
      and np: "\<not> present \<Longrightarrow> pEndpoint p0 = \<lparr>Host = [], Port = 0\<rparr> \<and> WSURL p0 = []" for present v
    by (rule peer_field [OF peer_key_names(4) peer_lower_keys(4) assms(1,2)])
      (use v np idem in \<open>auto simp: peerKey_def line_value_def scriptKeys_def\<close>)
  note field = this
  show ?thesis
  proof (cases "WSURL p0 = []")
    case True
    have "wf_value (endpoint_String (pEndpoint p0)) \<and> (\<forall>q. parseEndpointKey L (endpoint_String (pEndpoint p0)) q = Inr (?f q))"
      if "\<not> endpoint_IsEmpty (pEndpoint p0) \<or> Lines ?sec ''endpoint'' \<noteq> None"
      using that assms(3) True by (auto simp: endpoint_inv_def endpoint_IsEmpty_def wf_endpoint_def parseEndpointKey_def split: if_splits)
    moreover have "pEndpoint p0 = \<lparr>Host = [], Port = 0\<rparr>" if "endpoint_IsEmpty (pEndpoint p0)"
      using that assms(3) True by (auto simp: endpoint_inv_def endpoint_IsEmpty_def)
    ultimately show ?thesis
      using field [of "\<not> endpoint_IsEmpty (pEndpoint p0)" "endpoint_String (pEndpoint p0)"] True by simp
  next
    case False
    then have "wf_value (WSURL p0) \<and> (\<forall>q. parseEndpointKey L (WSURL p0) q = Inr (?f q))"
      using assms(3) by (auto simp: endpoint_inv_def parseEndpointKey_def)
    then show ?thesis using field [of True "WSURL p0"] False by simp
  qed
qed

lemma read_wsmode:
  assumes "wf_section sec" "Lines (pComments p) ''wsmode'' = None" "WSMode p = WSModeNone"
    "if m = WSModeNone then Lines sec ''wsmode'' = None else m = WSModeWebSocket \<or> m = WSModeWSTunnel"
  shows "rfold (parseLine L) (pst name i ps p ws) (field_lines sec ''WSMode'' (m \<noteq> WSModeNone) m) =
    Inr (pst name i ps ((pfiled sec ''wsmode'' p)\<lparr>WSMode := m\<rparr>) (ws @ []))"
proof -
  have "rfold (parseLine L) (pst name i ps p ws) (field_lines sec ''WSMode'' (m \<noteq> WSModeNone) m) =
    Inr (pst name i ps ((\<lambda>q. q\<lparr>WSMode := m\<rparr>) (pfiled sec ''wsmode'' p)) (ws @ ws_written sec ''wsmode'' (m \<noteq> WSModeNone) []))"
  proof (rule peer_field [OF peer_key_names(6) peer_lower_keys(6) assms(1,2)])
    assume "m \<noteq> WSModeNone \<or> Lines sec ''wsmode'' \<noteq> None"
    then have "m = WSModeWebSocket \<or> m = WSModeWSTunnel" using assms(4) by (auto split: if_splits)
    then show "line_value ''wsmode'' m \<and> peerKey L ''wsmode'' m (pfiled sec ''wsmode'' p, ws) =
        Inr ((pfiled sec ''wsmode'' p)\<lparr>WSMode := m\<rparr>, ws @ [])"
      by (simp add: mode_values peerKey_def line_value_def scriptKeys_def)
  next
    assume "\<not> m \<noteq> WSModeNone"
    then show "p\<lparr>WSMode := m\<rparr> = p" using assms(3) by (cases p) simp
  qed
  then show ?thesis by simp
qed

section \<open>The lines of a peer\<close>

definition plainKeys :: "string set" where
  "plainKeys = {''publickey'', ''presharedkey'', ''allowedips'', ''endpoint'', ''persistentkeepalive''}"

lemma plain_lines: "Map.empty(''publickey'' := m ''publickey'', ''presharedkey'' := m ''presharedkey'',
    ''allowedips'' := m ''allowedips'', ''endpoint'' := m ''endpoint'',
    ''persistentkeepalive'' := m ''persistentkeepalive'') = m |` plainKeys"
  unfolding plainKeys_def by (rule ext) (simp only: restrict_map_def fun_upd_def insert_iff empty_iff simp_thms if_splits, auto)

lemma unlines_Cons: "unlines (l # ls) = l @ newline # unlines ls"
  by (simp add: unlines_def)

lemma key_IsZero_zero: "length k = KeyLength \<Longrightarrow> key_IsZero k \<Longrightarrow> k = zeroKey"
  unfolding key_IsZero_def zeroKey_def by simp

lemma validate_keys: "WSMode p \<noteq> WSModeNone \<Longrightarrow> validateWebSocketPeer p ws = validateWebSocketPeer p []"
  by (simp add: validateWebSocketPeer_def)

lemma no_ws_lines:
  assumes "no_ws_options p"
  shows "Lines (pComments p) ''wstunneltarget'' = None" "Lines (pComments p) ''wsbearer'' = None"
    "Lines (pComments p) ''wsmask'' = None" "Lines (pComments p) ''wstlsca'' = None"
    "Lines (pComments p) ''wstlscert'' = None" "Lines (pComments p) ''wstlskey'' = None"
    "Lines (pComments p) ''wstlsinsecure'' = None" "Lines (pComments p) ''wspinginterval'' = None"
    "Lines (pComments p) ''wsbackoffmin'' = None" "Lines (pComments p) ''wsbackoffmax'' = None"
proof -
  have "k \<in> wsOptionKeys \<Longrightarrow> Lines (pComments p) k = None" for k
    using assms by (auto simp: no_ws_options_def)
  then show "Lines (pComments p) ''wstunneltarget'' = None" "Lines (pComments p) ''wsbearer'' = None"
    "Lines (pComments p) ''wsmask'' = None" "Lines (pComments p) ''wstlsca'' = None"
    "Lines (pComments p) ''wstlscert'' = None" "Lines (pComments p) ''wstlskey'' = None"
    "Lines (pComments p) ''wstlsinsecure'' = None" "Lines (pComments p) ''wspinginterval'' = None"
    "Lines (pComments p) ''wsbackoffmin'' = None" "Lines (pComments p) ''wsbackoffmax'' = None"
    by (simp_all add: wsOptionKeys_def)
qed

lemma ws_lines:
  assumes "dom m \<subseteq> peerKeys"
  shows "(m |` plainKeys)(''wsmode'' := m ''wsmode'', ''wstunneltarget'' := m ''wstunneltarget'', ''wsmask'' := m ''wsmask'',
    ''wstlsca'' := m ''wstlsca'', ''wstlscert'' := m ''wstlscert'', ''wstlskey'' := m ''wstlskey'',
    ''wstlsinsecure'' := m ''wstlsinsecure'', ''wspinginterval'' := m ''wspinginterval'',
    ''wsbackoffmin'' := m ''wsbackoffmin'', ''wsbackoffmax'' := m ''wsbackoffmax'', ''wsbearer'' := m ''wsbearer'') = m"
proof
  fix k
  have "k \<notin> peerKeys \<Longrightarrow> m k = None" using assms by (meson domIff subsetD)
  then show "((m |` plainKeys)(''wsmode'' := m ''wsmode'', ''wstunneltarget'' := m ''wstunneltarget'', ''wsmask'' := m ''wsmask'',
    ''wstlsca'' := m ''wstlsca'', ''wstlscert'' := m ''wstlscert'', ''wstlskey'' := m ''wstlskey'',
    ''wstlsinsecure'' := m ''wstlsinsecure'', ''wspinginterval'' := m ''wspinginterval'',
    ''wsbackoffmin'' := m ''wsbackoffmin'', ''wsbackoffmax'' := m ''wsbackoffmax'', ''wsbearer'' := m ''wsbearer'')) k = m k"
    unfolding peerKeys_def plainKeys_def wsOptionKeys_def fun_upd_def restrict_map_def
    by (simp only: Un_iff insert_iff empty_iff simp_thms if_splits) auto
qed

lemma zero_word_present: "\<not> 0 < (w :: 'a::len word) \<Longrightarrow> w = 0"
  by (simp add: word_gt_0)

lemma wf_value_Nil [simp]: "\<not> wf_value []"
  by (simp add: wf_value_def wf_text_def)

lemmas peer_values = key_value key_IsZero_zero zero_word_present wf_value_nat_str bool_values parseWSMillis_uint_str
  parsePersistentKeepalive_uint_str peerKey_def scriptKeys_def

definition peer_net_lines :: "Peer \<Rightarrow> string list" where
  "peer_net_lines p =
     (let sec = pComments p in
      field_lines sec ''PublicKey'' True (key_String (PublicKey p)) @
      field_lines sec ''PresharedKey'' (\<not> key_IsZero (PresharedKey p)) (key_String (PresharedKey p)) @
      (if AllowedIPs p \<noteq> [] then field_lines sec ''AllowedIPs'' True (strings_Join (map prefix_String (AllowedIPs p)) '', '') else []) @
      (if WSURL p \<noteq> [] then field_lines sec ''Endpoint'' True (WSURL p)
       else field_lines sec ''Endpoint'' (\<not> endpoint_IsEmpty (pEndpoint p)) (endpoint_String (pEndpoint p))) @
      field_lines sec ''PersistentKeepalive'' (0 < PersistentKeepalive p) (uint_str (PersistentKeepalive p)))"

definition peer_ws_lines :: "Peer \<Rightarrow> string list" where
  "peer_ws_lines p =
     (let sec = pComments p in
      field_lines sec ''WSMode'' (WSMode p \<noteq> WSModeNone) (WSMode p) @
      field_lines sec ''WSTunnelTarget'' (WSTunnelTarget p \<noteq> []) (WSTunnelTarget p) @
      field_lines sec ''WSMask'' (WSMask p) (bool_str (WSMask p)) @
      field_lines sec ''WSTLSCA'' (WSTLSCA p \<noteq> []) (WSTLSCA p) @
      field_lines sec ''WSTLSCert'' (WSTLSCert p \<noteq> []) (WSTLSCert p) @
      field_lines sec ''WSTLSKey'' (WSTLSKey p \<noteq> []) (WSTLSKey p) @
      field_lines sec ''WSTLSInsecure'' (WSTLSInsecure p) (bool_str (WSTLSInsecure p)) @
      field_lines sec ''WSPingInterval'' (0 < WSPingInterval p) (uint_str (WSPingInterval p)) @
      field_lines sec ''WSBackoffMin'' (0 < WSBackoffMin p) (uint_str (WSBackoffMin p)) @
      field_lines sec ''WSBackoffMax'' (0 < WSBackoffMax p) (uint_str (WSBackoffMax p)) @
      field_lines sec ''WSBearer'' (WSBearer p \<noteq> []) (WSBearer p))"

lemma writePeer_lines:
  "writePeer p = unlines ([] # comment_lines (Header (pComments p)) ''[Peer]'' @ peer_net_lines p @ peer_ws_lines p)"
  by (simp add: writePeer_def peer_net_lines_def peer_ws_lines_def Let_def writeLine_lines writeField_lines unlines_one
      unlines_Cons)

lemma read_peer_net:
  assumes "wf_section (pComments p)" "peer_inv L p"
  shows "rfold (parseLine L) (pst name i ps (zeroPeer\<lparr>pComments := zeroSection\<lparr>Header := h\<rparr>\<rparr>) []) (peer_net_lines p) =
    Inr (pst name i ps (zeroPeer\<lparr>pComments := \<lparr>Header = h, Lines = Lines (pComments p) |` plainKeys\<rparr>,
      PublicKey := PublicKey p, PresharedKey := PresharedKey p, AllowedIPs := AllowedIPs p, pEndpoint := pEndpoint p,
      WSURL := WSURL p, PersistentKeepalive := PersistentKeepalive p\<rparr>) [])"
proof -
  define sec where "sec = pComments p"
  note w = assms(1) [folded sec_def]
  note inv = assms(2) [unfolded peer_inv_def, folded sec_def]
  define q0 where "q0 = zeroPeer\<lparr>pComments := zeroSection\<lparr>Header := h\<rparr>\<rparr>"
  define q1 where "q1 = (pfiled sec ''publickey'' q0)\<lparr>PublicKey := PublicKey p\<rparr>"
  define w1 :: "string list" where "w1 = [] @ ws_written sec ''publickey'' True []"
  define q2 where "q2 = (pfiled sec ''presharedkey'' q1)\<lparr>PresharedKey := PresharedKey p\<rparr>"
  define w2 :: "string list" where "w2 = w1 @ ws_written sec ''presharedkey'' (\<not> key_IsZero (PresharedKey p)) []"
  define q3 where "q3 = (pfiled sec ''allowedips'' q2)\<lparr>AllowedIPs := AllowedIPs p\<rparr>"
  define w3 :: "string list" where "w3 = w2 @ []"
  define q4 where "q4 = (pfiled sec ''endpoint'' q3)\<lparr>pEndpoint := pEndpoint p, WSURL := WSURL p\<rparr>"
  define w4 :: "string list" where "w4 = w3 @ []"
  define q5 where "q5 = (pfiled sec ''persistentkeepalive'' q4)\<lparr>PersistentKeepalive := PersistentKeepalive p\<rparr>"
  define w5 :: "string list" where "w5 = w4 @ ws_written sec ''persistentkeepalive'' (0 < PersistentKeepalive p) []"
  note defs = q0_def q1_def q2_def q3_def q4_def q5_def zeroPeer_def zeroSection_def
  have r1: "rfold (parseLine L) (pst name i ps q0 []) (field_lines sec ''PublicKey'' True (key_String (PublicKey p))) = Inr (pst name i ps q1 w1)"
    unfolding q1_def w1_def by (rule read_peer_simple [OF w _ peer_key_names(1) peer_lower_keys(1), where f = "\<lambda>q. q\<lparr>PublicKey := PublicKey p\<rparr>" and w = "[]"]) (use inv in \<open>auto simp: defs peer_values\<close>)
  have r2: "rfold (parseLine L) (pst name i ps q1 w1) (field_lines sec ''PresharedKey'' (\<not> key_IsZero (PresharedKey p)) (key_String (PresharedKey p))) = Inr (pst name i ps q2 w2)"
    unfolding q2_def w2_def by (rule read_peer_simple [OF w _ peer_key_names(2) peer_lower_keys(2), where f = "\<lambda>q. q\<lparr>PresharedKey := PresharedKey p\<rparr>" and w = "[]"]) (use inv in \<open>auto simp: defs peer_values\<close>)
  have r3: "rfold (parseLine L) (pst name i ps q2 w2) ((if AllowedIPs p \<noteq> [] then field_lines sec ''AllowedIPs'' True (strings_Join (map prefix_String (AllowedIPs p)) '', '') else [])) = Inr (pst name i ps q3 w3)"
    unfolding q3_def w3_def by (rule read_allowedips [OF w]) (use inv in \<open>auto simp: defs peer_values\<close>)
  have r4: "rfold (parseLine L) (pst name i ps q3 w3) ((if WSURL p \<noteq> [] then field_lines sec ''Endpoint'' True (WSURL p)
       else field_lines sec ''Endpoint'' (\<not> endpoint_IsEmpty (pEndpoint p)) (endpoint_String (pEndpoint p)))) = Inr (pst name i ps q4 w4)"
    unfolding q4_def w4_def by (rule read_endpoint [OF w [unfolded sec_def], folded sec_def]) (use inv in \<open>auto simp: defs peer_values\<close>)
  have r5: "rfold (parseLine L) (pst name i ps q4 w4) (field_lines sec ''PersistentKeepalive'' (0 < PersistentKeepalive p) (uint_str (PersistentKeepalive p))) = Inr (pst name i ps q5 w5)"
    unfolding q5_def w5_def by (rule read_peer_simple [OF w _ peer_key_names(5) peer_lower_keys(5), where f = "\<lambda>q. q\<lparr>PersistentKeepalive := PersistentKeepalive p\<rparr>" and w = "[]"]) (use inv in \<open>auto simp: defs peer_values\<close>)
  have "w5 = []" by (simp add: w1_def w2_def w3_def w4_def w5_def)
  moreover have "Lines (pComments q5) = Lines sec |` plainKeys"
    by (simp add: defs plain_lines)
  then have "pComments q5 = \<lparr>Header = h, Lines = Lines sec |` plainKeys\<rparr>" by (simp add: defs)
  then have "q5 = zeroPeer\<lparr>pComments := \<lparr>Header = h, Lines = Lines sec |` plainKeys\<rparr>,
      PublicKey := PublicKey p, PresharedKey := PresharedKey p, AllowedIPs := AllowedIPs p, pEndpoint := pEndpoint p,
      WSURL := WSURL p, PersistentKeepalive := PersistentKeepalive p\<rparr>" by (simp add: defs)
  ultimately show ?thesis
    unfolding peer_net_lines_def Let_def sec_def [symmetric] rfold_append q0_def [symmetric] r1 r2 r3 r4 r5 rbind_Inr by simp
qed


lemma read_peer_ws:
  assumes "wf_section (pComments p)" "peer_inv L p" "ws_valid p"
  shows "\<exists>ws. validateWebSocketPeer p ws = Inr () \<and>
    rfold (parseLine L) (pst name i ps (zeroPeer\<lparr>pComments := \<lparr>Header = h, Lines = Lines (pComments p) |` plainKeys\<rparr>,
      PublicKey := PublicKey p, PresharedKey := PresharedKey p, AllowedIPs := AllowedIPs p, pEndpoint := pEndpoint p,
      WSURL := WSURL p, PersistentKeepalive := PersistentKeepalive p\<rparr>) []) (peer_ws_lines p) =
    Inr (pst name i ps (p\<lparr>pComments := (pComments p)\<lparr>Header := h\<rparr>\<rparr>) ws)"
proof -
  define sec where "sec = pComments p"
  note w = assms(1) [folded sec_def]
  note inv = assms(2) [unfolded peer_inv_def, folded sec_def]
  define q0 where "q0 = zeroPeer\<lparr>pComments := \<lparr>Header = h, Lines = Lines (pComments p) |` plainKeys\<rparr>,
      PublicKey := PublicKey p, PresharedKey := PresharedKey p, AllowedIPs := AllowedIPs p, pEndpoint := pEndpoint p,
      WSURL := WSURL p, PersistentKeepalive := PersistentKeepalive p\<rparr>"
  define q1 where "q1 = (pfiled sec ''wsmode'' q0)\<lparr>WSMode := WSMode p\<rparr>"
  define w1 :: "string list" where "w1 = [] @ []"
  define q2 where "q2 = (pfiled sec ''wstunneltarget'' q1)\<lparr>WSTunnelTarget := WSTunnelTarget p\<rparr>"
  define w2 :: "string list" where "w2 = w1 @ ws_written sec ''wstunneltarget'' (WSTunnelTarget p \<noteq> []) [''WSTunnelTarget'']"
  define q3 where "q3 = (pfiled sec ''wsmask'' q2)\<lparr>WSMask := WSMask p\<rparr>"
  define w3 :: "string list" where "w3 = w2 @ ws_written sec ''wsmask'' (WSMask p) [''WSMask'']"
  define q4 where "q4 = (pfiled sec ''wstlsca'' q3)\<lparr>WSTLSCA := WSTLSCA p\<rparr>"
  define w4 :: "string list" where "w4 = w3 @ ws_written sec ''wstlsca'' (WSTLSCA p \<noteq> []) [''WSTLSCA'']"
  define q5 where "q5 = (pfiled sec ''wstlscert'' q4)\<lparr>WSTLSCert := WSTLSCert p\<rparr>"
  define w5 :: "string list" where "w5 = w4 @ ws_written sec ''wstlscert'' (WSTLSCert p \<noteq> []) [''WSTLSCert'']"
  define q6 where "q6 = (pfiled sec ''wstlskey'' q5)\<lparr>WSTLSKey := WSTLSKey p\<rparr>"
  define w6 :: "string list" where "w6 = w5 @ ws_written sec ''wstlskey'' (WSTLSKey p \<noteq> []) [''WSTLSKey'']"
  define q7 where "q7 = (pfiled sec ''wstlsinsecure'' q6)\<lparr>WSTLSInsecure := WSTLSInsecure p\<rparr>"
  define w7 :: "string list" where "w7 = w6 @ ws_written sec ''wstlsinsecure'' (WSTLSInsecure p) [''WSTLSInsecure'']"
  define q8 where "q8 = (pfiled sec ''wspinginterval'' q7)\<lparr>WSPingInterval := WSPingInterval p\<rparr>"
  define w8 :: "string list" where "w8 = w7 @ ws_written sec ''wspinginterval'' (0 < WSPingInterval p) [''WSPingInterval'']"
  define q9 where "q9 = (pfiled sec ''wsbackoffmin'' q8)\<lparr>WSBackoffMin := WSBackoffMin p\<rparr>"
  define w9 :: "string list" where "w9 = w8 @ ws_written sec ''wsbackoffmin'' (0 < WSBackoffMin p) [''WSBackoffMin'']"
  define q10 where "q10 = (pfiled sec ''wsbackoffmax'' q9)\<lparr>WSBackoffMax := WSBackoffMax p\<rparr>"
  define w10 :: "string list" where "w10 = w9 @ ws_written sec ''wsbackoffmax'' (0 < WSBackoffMax p) [''WSBackoffMax'']"
  define q11 where "q11 = (pfiled sec ''wsbearer'' q10)\<lparr>WSBearer := WSBearer p\<rparr>"
  define w11 :: "string list" where "w11 = w10 @ ws_written sec ''wsbearer'' (WSBearer p \<noteq> []) [''WSBearer'']"
  note defs = q0_def q1_def q2_def q3_def q4_def q5_def q6_def q7_def q8_def q9_def q10_def q11_def zeroPeer_def zeroSection_def restrict_map_def plainKeys_def
  have r1: "rfold (parseLine L) (pst name i ps q0 []) (field_lines sec ''WSMode'' (WSMode p \<noteq> WSModeNone) (WSMode p)) = Inr (pst name i ps q1 w1)"
    unfolding q1_def w1_def by (rule read_wsmode [OF w]) (use inv in \<open>simp_all add: defs peer_values\<close>)
  have r2: "rfold (parseLine L) (pst name i ps q1 w1) (field_lines sec ''WSTunnelTarget'' (WSTunnelTarget p \<noteq> []) (WSTunnelTarget p)) = Inr (pst name i ps q2 w2)"
    unfolding q2_def w2_def by (rule read_peer_option [OF w _ peer_key_names(7) peer_lower_keys(7), where f = "\<lambda>q. q\<lparr>WSTunnelTarget := WSTunnelTarget p\<rparr>" and w = "[''WSTunnelTarget'']"]) (use inv in \<open>auto simp: defs peer_values\<close>)
  have r3: "rfold (parseLine L) (pst name i ps q2 w2) (field_lines sec ''WSMask'' (WSMask p) (bool_str (WSMask p))) = Inr (pst name i ps q3 w3)"
    unfolding q3_def w3_def by (rule read_peer_simple [OF w _ peer_key_names(8) peer_lower_keys(8), where f = "\<lambda>q. q\<lparr>WSMask := WSMask p\<rparr>" and w = "[''WSMask'']"]) (use inv in \<open>simp_all add: defs peer_values\<close>)
  have r4: "rfold (parseLine L) (pst name i ps q3 w3) (field_lines sec ''WSTLSCA'' (WSTLSCA p \<noteq> []) (WSTLSCA p)) = Inr (pst name i ps q4 w4)"
    unfolding q4_def w4_def by (rule read_peer_option [OF w _ peer_key_names(9) peer_lower_keys(9), where f = "\<lambda>q. q\<lparr>WSTLSCA := WSTLSCA p\<rparr>" and w = "[''WSTLSCA'']"]) (use inv in \<open>simp_all add: defs peer_values\<close>)
  have r5: "rfold (parseLine L) (pst name i ps q4 w4) (field_lines sec ''WSTLSCert'' (WSTLSCert p \<noteq> []) (WSTLSCert p)) = Inr (pst name i ps q5 w5)"
    unfolding q5_def w5_def by (rule read_peer_option [OF w _ peer_key_names(10) peer_lower_keys(10), where f = "\<lambda>q. q\<lparr>WSTLSCert := WSTLSCert p\<rparr>" and w = "[''WSTLSCert'']"]) (use inv in \<open>simp_all add: defs peer_values\<close>)
  have r6: "rfold (parseLine L) (pst name i ps q5 w5) (field_lines sec ''WSTLSKey'' (WSTLSKey p \<noteq> []) (WSTLSKey p)) = Inr (pst name i ps q6 w6)"
    unfolding q6_def w6_def by (rule read_peer_option [OF w _ peer_key_names(11) peer_lower_keys(11), where f = "\<lambda>q. q\<lparr>WSTLSKey := WSTLSKey p\<rparr>" and w = "[''WSTLSKey'']"]) (use inv in \<open>simp_all add: defs peer_values\<close>)
  have r7: "rfold (parseLine L) (pst name i ps q6 w6) (field_lines sec ''WSTLSInsecure'' (WSTLSInsecure p) (bool_str (WSTLSInsecure p))) = Inr (pst name i ps q7 w7)"
    unfolding q7_def w7_def by (rule read_peer_simple [OF w _ peer_key_names(12) peer_lower_keys(12), where f = "\<lambda>q. q\<lparr>WSTLSInsecure := WSTLSInsecure p\<rparr>" and w = "[''WSTLSInsecure'']"]) (use inv in \<open>simp_all add: defs peer_values\<close>)
  have r8: "rfold (parseLine L) (pst name i ps q7 w7) (field_lines sec ''WSPingInterval'' (0 < WSPingInterval p) (uint_str (WSPingInterval p))) = Inr (pst name i ps q8 w8)"
    unfolding q8_def w8_def by (rule read_peer_simple [OF w _ peer_key_names(13) peer_lower_keys(13), where f = "\<lambda>q. q\<lparr>WSPingInterval := WSPingInterval p\<rparr>" and w = "[''WSPingInterval'']"]) (use inv in \<open>simp_all add: defs peer_values\<close>)
  have r9: "rfold (parseLine L) (pst name i ps q8 w8) (field_lines sec ''WSBackoffMin'' (0 < WSBackoffMin p) (uint_str (WSBackoffMin p))) = Inr (pst name i ps q9 w9)"
    unfolding q9_def w9_def by (rule read_peer_simple [OF w _ peer_key_names(14) peer_lower_keys(14), where f = "\<lambda>q. q\<lparr>WSBackoffMin := WSBackoffMin p\<rparr>" and w = "[''WSBackoffMin'']"]) (use inv in \<open>simp_all add: defs peer_values\<close>)
  have r10: "rfold (parseLine L) (pst name i ps q9 w9) (field_lines sec ''WSBackoffMax'' (0 < WSBackoffMax p) (uint_str (WSBackoffMax p))) = Inr (pst name i ps q10 w10)"
    unfolding q10_def w10_def by (rule read_peer_simple [OF w _ peer_key_names(15) peer_lower_keys(15), where f = "\<lambda>q. q\<lparr>WSBackoffMax := WSBackoffMax p\<rparr>" and w = "[''WSBackoffMax'']"]) (use inv in \<open>simp_all add: defs peer_values\<close>)
  have r11: "rfold (parseLine L) (pst name i ps q10 w10) (field_lines sec ''WSBearer'' (WSBearer p \<noteq> []) (WSBearer p)) = Inr (pst name i ps q11 w11)"
    unfolding q11_def w11_def by (rule read_peer_option [OF w _ peer_key_names(16) peer_lower_keys(16), where f = "\<lambda>q. q\<lparr>WSBearer := WSBearer p\<rparr>" and w = "[''WSBearer'']"]) (use inv in \<open>simp_all add: defs peer_values\<close>)
  have "validateWebSocketPeer p w11 = Inr ()"
  proof (cases "WSMode p = WSModeNone")
    case True
    then have "no_ws_options p" using assms(3) by (simp add: ws_valid_def)
    then have "w11 = []"
      using no_ws_lines(1-10) [of p, folded sec_def]
      by (simp add: no_ws_options_def w1_def w2_def w3_def w4_def w5_def w6_def w7_def w8_def w9_def w10_def w11_def ws_written_def)
    then show ?thesis using assms(3) by (simp add: ws_valid_def)
  qed (use assms(3) validate_keys [of p w11] in \<open>simp add: ws_valid_def\<close>)
  moreover have "Lines (pComments q11) = Lines sec"
    using ws_lines [of "Lines sec"] inv by (simp add: defs sec_def)
  then have "q11 = p\<lparr>pComments := sec\<lparr>Header := h\<rparr>\<rparr>" using inv by (cases p; cases sec) (simp add: defs)
  then have "rfold (parseLine L) (pst name i ps q0 []) (peer_ws_lines p) =
      Inr (pst name i ps (p\<lparr>pComments := sec\<lparr>Header := h\<rparr>\<rparr>) w11)"
    unfolding peer_ws_lines_def Let_def sec_def [symmetric] rfold_append r1 r2 r3 r4 r5 r6 r7 r8 r9 r10 r11 rbind_Inr by simp
  ultimately show ?thesis unfolding q0_def sec_def by blast
qed

end
