(* ===== verification/ConfReload.thy ===== *)
theory ConfReload
  imports ConfPeers
begin

text \<open>
  Saving and reloading: the file the writer prints for a well-formed configuration parses back
  to that configuration, so a configuration the parser accepted survives any number of
  saves and reloads unchanged, comments included.
\<close>

section \<open>The sections of a file\<close>

text \<open>The parser has read the interface and \<open>ps\<close>: the peer it is in, if any, is the last of them.\<close>

definition read_upto :: "string \<Rightarrow> Interface \<Rightarrow> Peer list \<Rightarrow> pstate \<Rightarrow> bool" where
  "read_upto name i ps st \<longleftrightarrow> sawPrivateKey st \<and> pendingComments st = [] \<and>
     finishPeer st = Inr (st\<lparr>ps_conf := zeroConfig\<lparr>Name := name, cInterface := i, Peers := ps\<rparr>,
       ps_peer := None, peerWSKeys := []\<rparr>)"

text \<open>A peer before pruning: the blank line the writer puts before its header is a comment of it.\<close>

definition raw_peer :: "Peer \<Rightarrow> Peer" where
  "raw_peer p = p\<lparr>pComments := (pComments p)\<lparr>Header := (Header (pComments p))\<lparr>cBefore := [] # cBefore (Header (pComments p))\<rparr>\<rparr>\<rparr>"

definition peer_lines :: "Peer \<Rightarrow> string list" where
  "peer_lines p = [] # comment_lines (Header (pComments p)) ''[Peer]'' @ peer_net_lines p @ peer_ws_lines p"

lemma read_upto_interface: "read_upto name i [] (ist name i True)"
  by (simp add: read_upto_def ist_def finishPeer_def maybeAddPeer_def zeroConfig_def)

lemma validate_comments: "validateWebSocketPeer (p\<lparr>pComments := c\<rparr>) ws = validateWebSocketPeer p ws"
  by (simp add: validateWebSocketPeer_def Let_def)

lemma read_upto_peer:
  "validateWebSocketPeer p ws = Inr () \<Longrightarrow> read_upto name i (ps @ [p]) (pst name i ps p ws)"
  by (simp add: read_upto_def pst_def finishPeer_def maybeAddPeer_def)

lemma read_upto_finish:
  "read_upto name i ps st \<Longrightarrow> finishPeer (st\<lparr>pendingComments := pending\<rparr>) = Inr (st\<lparr>pendingComments := pending,
     ps_conf := zeroConfig\<lparr>Name := name, cInterface := i, Peers := ps\<rparr>, ps_peer := None, peerWSKeys := []\<rparr>)"
  by (cases st) (auto simp: read_upto_def finishPeer_def rbind_def split: sum.splits cong: option.case_cong)

lemma read_peer_header:
  assumes "wf_section (pComments p)" "read_upto name i ps st"
  shows "rfold (parseLine L) st ([] # comment_lines (Header (pComments p)) ''[Peer]'') =
    Inr (pst name i ps (zeroPeer\<lparr>pComments := zeroSection\<lparr>Header := Header (pComments (raw_peer p))\<rparr>\<rparr>) [])"
proof -
  let ?h = "Header (pComments p)"
  have h: "list_all comment_or_blank ([] # cBefore ?h)" "comment_or_blank (Suffix ?h)"
    using assms(1) by (simp_all add: wf_section_def wf_comments_def pruned_def)
  note line = parseLine_header [OF header_key(2) h(2)]
  have low: "map lower_ascii ''[Peer]'' = ''[peer]''" by (simp add: lower_ascii_def char_of_def bit_0)
  note fin = read_upto_finish [OF assms(2)]
  have "pendingComments st = []" using assms(2) by (simp add: read_upto_def)
  moreover have "parseLine L (st\<lparr>pendingComments := [] # cBefore ?h\<rparr>) (with_suffix ''[Peer]'' (Suffix ?h)) =
    Inr (pst name i ps (zeroPeer\<lparr>pComments := zeroSection\<lparr>Header := Header (pComments (raw_peer p))\<rparr>\<rparr>) [])"
    unfolding parseLine_alt line(1,2,3) Let_def prod.case line(4) low
    using assms(2) by (cases "Header (pComments p)") (simp add: fin read_upto_def pst_def raw_peer_def)
  ultimately show ?thesis
    unfolding comment_lines_def append_Cons [symmetric] rfold_append rfold_blank [OF h(1)] by simp
qed

lemma read_peer:
  assumes "wf_section (pComments p)" "peer_inv L p" "ws_valid p" "read_upto name i ps st"
  shows "\<exists>st'. rfold (parseLine L) st (peer_lines p) = Inr st' \<and> read_upto name i (ps @ [raw_peer p]) st'"
proof -
  let ?h = "Header (pComments (raw_peer p))"
  obtain ws where ws: "validateWebSocketPeer p ws = Inr ()"
    and r: "rfold (parseLine L) (pst name i ps (zeroPeer\<lparr>pComments := \<lparr>Header = ?h, Lines = Lines (pComments p) |` plainKeys\<rparr>,
      PublicKey := PublicKey p, PresharedKey := PresharedKey p, AllowedIPs := AllowedIPs p, pEndpoint := pEndpoint p,
      WSURL := WSURL p, PersistentKeepalive := PersistentKeepalive p\<rparr>) []) (peer_ws_lines p) =
      Inr (pst name i ps (p\<lparr>pComments := (pComments p)\<lparr>Header := ?h\<rparr>\<rparr>) ws)"
    using read_peer_ws [OF assms(1-3)] by blast
  have "p\<lparr>pComments := (pComments p)\<lparr>Header := ?h\<rparr>\<rparr> = raw_peer p" by (simp add: raw_peer_def)
  moreover have "rfold (parseLine L) st (peer_lines p) = Inr (pst name i ps (p\<lparr>pComments := (pComments p)\<lparr>Header := ?h\<rparr>\<rparr>) ws)"
    unfolding peer_lines_def append_Cons [symmetric] rfold_append read_peer_header [OF assms(1,4)] rbind_Inr
      read_peer_net [OF assms(1,2)] r ..
  ultimately show ?thesis using ws by (auto intro!: read_upto_peer simp: raw_peer_def validate_comments)
qed

lemma read_peers:
  "list_all (\<lambda>p. peer_inv L p \<and> ws_valid p \<and> wf_section (pComments p)) qs \<Longrightarrow> read_upto name i ps st \<Longrightarrow>
   \<exists>st'. rfold (parseLine L) st (concat (map peer_lines qs)) = Inr st' \<and> read_upto name i (ps @ map raw_peer qs) st'"
proof (induction qs arbitrary: ps st)
  case (Cons q qs)
  then obtain st1 where "rfold (parseLine L) st (peer_lines q) = Inr st1" "read_upto name i (ps @ [raw_peer q]) st1"
    using read_peer by fastforce
  with Cons.IH [of "ps @ [raw_peer q]" st1] Cons.prems(1) show ?case by (simp add: rfold_append)
qed simp

section \<open>Pruning what was written\<close>

lemma prune_lines: 
  assumes "wf_section sec"
  shows "(\<lambda>key. case Lines sec key of None \<Rightarrow> None
     | Some c \<Rightarrow> let c = c\<lparr>cBefore := pruneComments (cBefore c) False False\<rparr> in
         if cBefore c = [] \<and> Suffix c = [] then None else Some c) = Lines sec"
proof
  fix key
  show "(case Lines sec key of None \<Rightarrow> None
     | Some c \<Rightarrow> let c = c\<lparr>cBefore := pruneComments (cBefore c) False False\<rparr> in
         if cBefore c = [] \<and> Suffix c = [] then None else Some c) = Lines sec key"
  proof (cases "Lines sec key")
    case (Some c)
    then have "pruned (cBefore c)" "cBefore c \<noteq> [] \<or> Suffix c \<noteq> []"
      using assms by (simp_all add: wf_section_def wf_comments_def)
    then show ?thesis using Some by (simp add: pruneComments_id)
  qed simp
qed

lemma pruneSectionComments_written:
  assumes "wf_section sec"
  shows "pruneSectionComments sec = sec"
    and "pruneSectionComments (sec\<lparr>Header := (Header sec)\<lparr>cBefore := [] # cBefore (Header sec)\<rparr>\<rparr>) = sec"
proof -
  have "pruned (cBefore (Header sec))" "cBefore (Header sec) \<noteq> [] \<longrightarrow> hd (cBefore (Header sec)) \<noteq> []"
    using assms by (simp_all add: wf_section_def wf_comments_def)
  note h = pruneComments_header [OF this]
  show "pruneSectionComments sec = sec"
    "pruneSectionComments (sec\<lparr>Header := (Header sec)\<lparr>cBefore := [] # cBefore (Header sec)\<rparr>\<rparr>) = sec"
    unfolding pruneSectionComments_def by (simp_all add: h prune_lines [OF assms])
qed

lemma prune_raw_peer: "wf_section (pComments p) \<Longrightarrow>
    (raw_peer p)\<lparr>pComments := pruneSectionComments (pComments (raw_peer p))\<rparr> = p"
  by (simp add: raw_peer_def pruneSectionComments_written)

section \<open>No line contains a newline\<close>

lemma comment_newline: "comment_or_blank l \<Longrightarrow> newline \<notin> set l"
  by (auto simp: wf_comment_def split: list.splits)

definition one_line :: "string list \<Rightarrow> bool" where
  "one_line ls \<longleftrightarrow> list_all (\<lambda>l. newline \<notin> set l) ls"

lemma one_line_simps [simp]:
  "one_line []" "one_line (l # ls) \<longleftrightarrow> newline \<notin> set l \<and> one_line ls" "one_line (a @ b) \<longleftrightarrow> one_line a \<and> one_line b"
  by (simp_all add: one_line_def)

lemma one_line_comments: "list_all comment_or_blank ls \<Longrightarrow> one_line ls"
  using comment_newline by (auto simp: one_line_def list_all_iff)

lemma one_line_comment_lines: "wf_comments c \<Longrightarrow> newline \<notin> set k \<Longrightarrow> one_line (comment_lines c k)"
  using comment_newline [of "Suffix c"] one_line_comments [of "cBefore c"]
  by (auto simp: comment_lines_def wf_comments_def pruned_def with_suffix_def)

lemma one_line_field:
  assumes "wf_section sec" "key_name k" "newline \<notin> set v"
  shows "one_line (field_lines sec k present v)"
proof -
  have "wf_comments (field_comments sec key)" for key
    using assms(1) by (auto simp: field_comments_def wf_section_def wf_comments_def zeroComments_def pruned_def split: option.splits)
  moreover have "newline \<notin> set (k @ '' = '' @ v)" using key_nameD(4) [OF assms(2)] assms(3) by simp
  ultimately show ?thesis using one_line_comment_lines by (simp add: field_lines_def Let_def)
qed

lemma value_newline: "wf_value v \<Longrightarrow> newline \<notin> set v" "wf_text v \<Longrightarrow> newline \<notin> set v"
    "wf_option key v sec \<Longrightarrow> newline \<notin> set v" "wf_script key v sec \<Longrightarrow> newline \<notin> set v"
  by (auto simp: wf_value_def wf_text_def wf_option_def wf_script_def split: if_splits)

lemmas written_newline = key_value(1) [THEN value_newline(1)] prefix_list(1) [THEN value_newline(1)]
  dns_list(1) [THEN value_newline(1)] wf_value_nat_str [THEN value_newline(1)] bool_values(1) [THEN value_newline(1)]

lemma one_line_header: "wf_section sec \<Longrightarrow> newline \<notin> set k \<Longrightarrow> one_line (comment_lines (Header sec) k)"
  by (simp add: one_line_comment_lines wf_section_def)

lemma one_line_interface:
  assumes "interface_inv i" "wf_section (iComments i)"
  shows "one_line (interface_lines i)"
proof -
  have "newline \<notin> set (PreUp i)" "newline \<notin> set (PostUp i)" "newline \<notin> set (PreDown i)" "newline \<notin> set (PostDown i)"
    by (rule value_newline(4), use assms(1) in \<open>simp only: interface_inv_def, blast\<close>)+
  with assms(1) show ?thesis
    unfolding interface_inv_def interface_lines_def Let_def
    by (simp add: one_line_header assms(2) one_line_field key_names written_newline)
qed

lemma one_line_peer:
  assumes "peer_inv L p" "wf_section (pComments p)"
  shows "one_line (peer_lines p)"
proof -
  have e: "endpoint_inv L p" using assms(1) by (simp only: peer_inv_def)
  have "newline \<notin> set (endpoint_String (pEndpoint p))" if "WSURL p = []"
  proof (cases "Host (pEndpoint p) = []")
    case True
    with e that show ?thesis using written_newline(4) by (simp add: endpoint_inv_def endpoint_String_def)
  next
    case False
    with e that show ?thesis by (simp add: endpoint_inv_def wf_endpoint_def value_newline)
  qed
  moreover have "newline \<notin> set (WSURL p)" if "WSURL p \<noteq> []"
    using e that by (simp add: endpoint_inv_def value_newline)
  moreover have "newline \<notin> set (WSMode p)"
    using assms(1) mode_values(1) by (auto simp: peer_inv_def WSModeNone_def value_newline split: if_splits)
  moreover have "newline \<notin> set (WSTunnelTarget p)" "newline \<notin> set (WSBearer p)" "newline \<notin> set (WSTLSCA p)"
      "newline \<notin> set (WSTLSCert p)" "newline \<notin> set (WSTLSKey p)"
    by (rule value_newline(3), use assms(1) in \<open>simp only: peer_inv_def, blast\<close>)+
  ultimately show ?thesis
    using assms(1)
    unfolding peer_inv_def peer_lines_def peer_net_lines_def peer_ws_lines_def Let_def
    by (simp add: one_line_header assms(2) one_line_field peer_key_names written_newline)
qed

section \<open>Saving and reloading\<close>

lemma ToWgQuick_lines: "ToWgQuick c = unlines (interface_lines (cInterface c) @ concat (map peer_lines (Peers c)) @ TrailingComments c)"
proof -
  have "concat (map writePeer ps) = unlines (concat (map peer_lines ps))" for ps
    by (induction ps) (simp_all add: writePeer_lines [folded peer_lines_def])
  then show ?thesis by (simp add: ToWgQuick_def writeInterface_lines unlines_def)
qed

lemma FromWgQuick_ToWgQuick:
  assumes "wf_config L c"
  shows "FromWgQuick L (ToWgQuick c) (Name c) = Inr c"
proof -
  let ?lines = "interface_lines (cInterface c) @ concat (map peer_lines (Peers c)) @ TrailingComments c"
  have i: "interface_inv (cInterface c)" "wf_section (iComments (cInterface c))" and t: "wf_trailing (TrailingComments c)"
    and p: "list_all (\<lambda>p. peer_inv L p \<and> ws_valid p \<and> wf_section (pComments p)) (Peers c)"
    and z: "\<not> list_ex (\<lambda>p. key_IsZero (PublicKey p)) (Peers c)" "WSTLSFiles c = []" "TunnelNameIsValid (Name c)"
    using assms by (auto simp: wf_config_def list_all_iff list_ex_iff)
  have "one_line (concat (map peer_lines ps))" if "list_all (\<lambda>p. peer_inv L p \<and> ws_valid p \<and> wf_section (pComments p)) ps" for ps
    using that by (induction ps) (auto intro: one_line_peer)
  with i p t have "one_line ?lines" by (simp add: one_line_interface one_line_comments wf_trailing_def pruned_def)
  then have split: "strings_Split (ToWgQuick c) newline = ?lines @ [[]]"
    unfolding ToWgQuick_lines unlines_def by (intro strings_Split_lines) (auto simp: one_line_def list_all_iff)
  obtain st where st: "rfold (parseLine L) (ist (Name c) (cInterface c) True) (concat (map peer_lines (Peers c))) = Inr st"
    and upto: "read_upto (Name c) (cInterface c) (map raw_peer (Peers c)) st"
    using read_peers [OF p read_upto_interface] by auto
  have "list_all comment_or_blank (TrailingComments c @ [[]])" using t by (simp add: wf_trailing_def pruned_def)
  then have "rfold (parseLine L) st (TrailingComments c @ [[]]) = Inr (st\<lparr>pendingComments := TrailingComments c @ [[]]\<rparr>)"
    using upto rfold_blank by (simp add: read_upto_def)
  then have r: "rfold (parseLine L) (pstate_init (Name c)) (strings_Split (ToWgQuick c) newline) =
      Inr (st\<lparr>pendingComments := TrailingComments c @ [[]]\<rparr>)"
    unfolding split append_assoc rfold_append read_interface [OF i] rbind_Inr st .
  have "map (\<lambda>p. p\<lparr>pComments := pruneSectionComments (pComments p)\<rparr>) (map raw_peer (Peers c)) = Peers c"
    using p by (auto simp: list_all_iff prune_raw_peer intro: map_idI)
  then have "pruneConfig (TrailingComments c @ [[]])
      (zeroConfig\<lparr>Name := Name c, cInterface := cInterface c, Peers := map raw_peer (Peers c)\<rparr>) = c"
    using z(2) unfolding pruneConfig_def zeroConfig_def
    by (simp add: pruneComments_trailing [OF t] pruneSectionComments_written(1) [OF i(2)])
  then show ?thesis
    using r upto z unfolding FromWgQuick_def by (simp add: read_upto_finish [OF upto] read_upto_def)
qed

section \<open>Properties\<close>

text \<open>A concrete tunnel: commented sections, a full peer with an endpoint, and a trailing comment.\<close>

definition sample_tunnel :: Config where
  "sample_tunnel = zeroConfig
     \<lparr>Name := ''wg0'',
      cInterface := zeroInterface
        \<lparr>PrivateKey := replicate 32 (CHR 0x01), ListenPort := 51820, MTU := 1420, Addresses := [Prefix (Addr4 0x0a000001) 24],
         PreUp := ''notify.exe'',
         iComments := zeroSection\<lparr>Header := \<lparr>cBefore = [''# home''], Suffix = []\<rparr>, Lines := [''mtu'' \<mapsto> \<lparr>cBefore = [], Suffix = ''# small''\<rparr>]\<rparr>\<rparr>,
      Peers := [zeroPeer
        \<lparr>PublicKey := replicate 32 (CHR 0x02), PresharedKey := replicate 32 (CHR 0x03), AllowedIPs := [Prefix (Addr4 0) 0],
         PersistentKeepalive := 25,
         pComments := zeroSection\<lparr>Header := \<lparr>cBefore = [''# hub''], Suffix = ''# main''\<rparr>\<rparr>\<rparr>],
      TrailingComments := [''# end'']\<rparr>"

text \<open>A library whose one decoder turns every text into that tunnel's file.\<close>

definition sample_lib :: golib where
  "sample_lib = \<lparr>unicode_lower = id, url_Parse = (\<lambda>_. None), unicode_All = [\<lambda>_. Some (ToWgQuick sample_tunnel)]\<rparr>"

lemma sample_tunnel_wf: "wf_config sample_lib sample_tunnel"
proof -
  have "wf_value ''notify.exe''" by (rule wf_value_printable) (auto simp: printable_def)
  then have "trimmed ''notify.exe''" by (simp add: wf_value_def wf_text_def)
  moreover have "TunnelNameIsValid ''wg0''" by (simp add: valid_eval)
  ultimately show ?thesis
  by (simp add: wf_config_def sample_tunnel_def interface_inv_def zeroConfig_def zeroInterface_def zeroPeer_def zeroSection_def
    zeroComments_def zeroKey_def KeyLength_def wf_prefix_def wf_section_def wf_comments_def pruned_def wf_comment_def wf_script_def
    peer_inv_def endpoint_inv_def wf_option_def ws_valid_def no_ws_options_def validateWebSocketPeer_def Let_def endpoint_IsEmpty_def
    wf_trailing_def key_IsZero_def strings_TrimRight_def scriptKeys_def interfaceKeys_def WSMode_defs printable_def wf_text_def)
qed


lemma try_decoders_cases:
  "try_decoders L ds s name = Some c \<Longrightarrow>
     \<exists>pre d post t. ds = pre @ d # post \<and> d s = Some t \<and> FromWgQuick L t name = Inr c \<and>
       (\<forall>d' \<in> set pre. \<forall>t'. d' s = Some t' \<longrightarrow> (\<exists>e. FromWgQuick L t' name = Inl e))"
  "try_decoders L ds s name = None \<Longrightarrow> d \<in> set ds \<Longrightarrow> d s = Some t \<Longrightarrow> \<exists>e. FromWgQuick L t name = Inl e"
proof (induction ds)
  case (Cons a ds)
  case 1
  show ?case
  proof (cases "\<exists>t. a s = Some t \<and> (\<exists>c'. FromWgQuick L t name = Inr c')")
    case True
    with 1 have "\<exists>t. a s = Some t \<and> FromWgQuick L t name = Inr c" by auto
    then show ?thesis by (intro exI [of _ "[]"]) auto
  next
    case False
    then have "try_decoders L ds s name = Some c" using 1 by (auto split: option.splits sum.splits)
    from Cons.IH(1) [OF this] obtain pre d post t where *: "ds = pre @ d # post" "d s = Some t" "FromWgQuick L t name = Inr c"
      "\<forall>d' \<in> set pre. \<forall>t'. d' s = Some t' \<longrightarrow> (\<exists>e. FromWgQuick L t' name = Inl e)" by blast
    have "\<exists>e. FromWgQuick L t' name = Inl e" if "a s = Some t'" for t'
      using False that by (cases "FromWgQuick L t' name") auto
    with * show ?thesis by (intro exI [of _ "a # pre"]) auto
  qed
next
  case (Cons a ds)
  case 2
  then show ?case using Cons.IH(2) by (auto split: option.splits sum.splits)
qed simp_all

text \<open>C3. Saving is lossless: the text \<open>ToWgQuick\<close> prints for a well-formed configuration parses back to
  exactly that configuration, with every address, script, WebSocket setting and comment.\<close>

theorem ToWgQuick_parses_back:
  assumes "wf_config L c"
  shows "FromWgQuick L (ToWgQuick c) (Name c) = Inr c"
  using assms by (rule FromWgQuick_ToWgQuick)

theorem ToWgQuick_parses_back_witness:
  "wf_config sample_lib sample_tunnel \<and> FromWgQuick sample_lib (ToWgQuick sample_tunnel) ''wg0'' = Inr sample_tunnel"
  using ToWgQuick_parses_back [OF sample_tunnel_wf] sample_tunnel_wf by (simp add: sample_tunnel_def)

text \<open>C25. Whatever text a configuration was read from, saving it and reading the file again gives the same
  configuration: the writer loses nothing the parser keeps.\<close>

theorem FromWgQuick_reload:
  assumes "FromWgQuick L s name = Inr c"
  shows "FromWgQuick L (ToWgQuick c) name = Inr c"
  using FromWgQuick_wf_config [OF assms] FromWgQuick_ToWgQuick by blast

theorem FromWgQuick_reload_witness:
  "FromWgQuick sample_lib (ToWgQuick sample_tunnel) (Name sample_tunnel) = Inr sample_tunnel"
  by (rule FromWgQuick_reload [OF FromWgQuick_ToWgQuick [OF sample_tunnel_wf]])

text \<open>C11. Every configuration the parser accepts satisfies the invariant \<open>wf_config\<close>: a valid tunnel
  name, keys of 32 bytes, an MTU of 0 or at least 576, valid prefixes and DNS servers, one-line
  trimmed values, consistent WebSocket settings, a non-zero public key for every peer, and
  pruned comments filed under known keys.\<close>

theorem FromWgQuick_wf:
  assumes "FromWgQuick L s name = Inr c"
  shows "wf_config L c \<and> Name c = name"
  using assms by (rule FromWgQuick_wf_config)

theorem FromWgQuick_wf_witness: "Name sample_tunnel = ''wg0'' \<and> wf_config sample_lib sample_tunnel"
proof -
  have "FromWgQuick sample_lib (ToWgQuick sample_tunnel) ''wg0'' = Inr sample_tunnel"
    using FromWgQuick_ToWgQuick [OF sample_tunnel_wf] by (simp add: sample_tunnel_def)
  from FromWgQuick_wf [OF this] show ?thesis by blast
qed

text \<open>C38. Reading a file of unknown encoding: a text that parses as it is is taken as it is; otherwise the
  configuration comes from the first decoder of \<open>unicode.All\<close> whose output parses, and when none
  does the error reported is that of the text itself.\<close>

theorem FromWgQuickWithUnknownEncoding_first:
  "case FromWgQuickWithUnknownEncoding L s name of
     Inl e \<Rightarrow> FromWgQuick L s name = Inl e \<and>
       (\<forall>d \<in> set (unicode_All L). \<forall>t. d s = Some t \<longrightarrow> (\<exists>e. FromWgQuick L t name = Inl e))
   | Inr c \<Rightarrow> FromWgQuick L s name = Inr c \<or>
       (\<exists>e pre d post t. FromWgQuick L s name = Inl e \<and> unicode_All L = pre @ d # post \<and> d s = Some t \<and>
          FromWgQuick L t name = Inr c \<and>
          (\<forall>d' \<in> set pre. \<forall>t'. d' s = Some t' \<longrightarrow> (\<exists>e. FromWgQuick L t' name = Inl e)))"
proof (cases "FromWgQuick L s name")
  case (Inl e)
  show ?thesis
  proof (cases "try_decoders L (unicode_All L) s name")
    case None
    then show ?thesis using Inl try_decoders_cases(2) [OF None] by (auto simp: FromWgQuickWithUnknownEncoding_def)
  next
    case (Some c)
    then show ?thesis using Inl try_decoders_cases(1) [OF Some] by (auto simp: FromWgQuickWithUnknownEncoding_def)
  qed
qed (simp add: FromWgQuickWithUnknownEncoding_def)

theorem FromWgQuickWithUnknownEncoding_witness:
  "\<exists>e d t. FromWgQuick sample_lib [] ''wg0'' = Inl e \<and> d \<in> set (unicode_All sample_lib) \<and> d [] = Some t \<and>
     FromWgQuick sample_lib t ''wg0'' = Inr sample_tunnel"
proof -
  have "TunnelNameIsValid ''wg0''" by (simp add: valid_eval)
  then have e: "FromWgQuick sample_lib [] ''wg0'' = Inl (ParseError ''An interface must have a private key'' ''[none specified]'')"
    by (simp add: FromWgQuick_def parseLine_blank pstate_init_def finishPeer_def Let_def)
  have "FromWgQuick sample_lib (ToWgQuick sample_tunnel) ''wg0'' = Inr sample_tunnel"
    using FromWgQuick_ToWgQuick [OF sample_tunnel_wf] by (simp add: sample_tunnel_def)
  then have u: "FromWgQuickWithUnknownEncoding sample_lib [] ''wg0'' = Inr sample_tunnel"
    by (simp add: FromWgQuickWithUnknownEncoding_def e) (simp add: sample_lib_def)
  show ?thesis
    using FromWgQuickWithUnknownEncoding_first [of sample_lib "[]" "''wg0''", unfolded u sum.case] e by fastforce
qed

end
