(* ===== verification/ConfUAPI.thy ===== *)
theory ConfUAPI
  imports ConfReload "HOL-Library.Multiset"
begin

text \<open>
  The UAPI text of conf/uapi.go: the configuration sent to the userspace device and the runtime
  view read back from its reply. The device itself is not part of the sources; what is proved
  about its reply holds for every text, and for a reply that repeats the settings it was given
  the stored configuration is recovered.
\<close>

section \<open>Writing\<close>

definition uapi_field :: "string \<Rightarrow> string \<Rightarrow> string" where
  "uapi_field key val = key @ ''='' @ val @ [newline]"

definition writeWSUAPI :: "Peer \<Rightarrow> string" where
  "writeWSUAPI peer =
     (if WSURL peer \<noteq> [] then uapi_field ''ws_url'' (WSURL peer) else []) @
     (if WSTunnelTarget peer \<noteq> [] then uapi_field ''wstunnel_target'' (WSTunnelTarget peer) else []) @
     (if WSBearer peer \<noteq> [] then uapi_field ''ws_bearer'' (WSBearer peer) else []) @
     (if WSMask peer then uapi_field ''ws_mask'' ''true'' else []) @
     (if WSTLSCA peer \<noteq> [] then uapi_field ''ws_tls_ca'' (WSTLSCA peer) else []) @
     (if WSTLSCert peer \<noteq> [] then uapi_field ''ws_tls_cert'' (WSTLSCert peer) else []) @
     (if WSTLSKey peer \<noteq> [] then uapi_field ''ws_tls_key'' (WSTLSKey peer) else []) @
     (if WSTLSInsecure peer then uapi_field ''ws_tls_insecure'' ''true'' else []) @
     (if 0 < WSPingInterval peer then uapi_field ''ws_ping_interval'' (uint_str (WSPingInterval peer)) else []) @
     (if 0 < WSBackoffMin peer then uapi_field ''ws_backoff_min'' (uint_str (WSBackoffMin peer)) else []) @
     (if 0 < WSBackoffMax peer then uapi_field ''ws_backoff_max'' (uint_str (WSBackoffMax peer)) else [])"

definition writeUAPIPeer :: "Peer \<Rightarrow> string" where
  "writeUAPIPeer peer =
     uapi_field ''public_key'' (hex_EncodeToString (PublicKey peer)) @
     uapi_field ''transport'' (if WSMode peer \<noteq> WSModeNone then WSMode peer else ''udp'') @
     (if \<not> key_IsZero (PresharedKey peer) then uapi_field ''preshared_key'' (hex_EncodeToString (PresharedKey peer)) else []) @
     (if \<not> endpoint_IsEmpty (pEndpoint peer) then uapi_field ''endpoint'' (endpoint_String (pEndpoint peer)) else []) @
     (if WSMode peer \<noteq> WSModeNone then writeWSUAPI peer else []) @
     uapi_field ''persistent_keepalive_interval'' (uint_str (PersistentKeepalive peer)) @
     uapi_field ''replace_allowed_ips'' ''true'' @
     concat (map (\<lambda>address. uapi_field ''allowed_ip'' (prefix_String address)) (AllowedIPs peer))"

definition ToUAPI :: "Config \<Rightarrow> string" where
  "ToUAPI conf =
     uapi_field ''private_key'' (hex_EncodeToString (PrivateKey (cInterface conf))) @
     (if 0 < ListenPort (cInterface conf) then uapi_field ''listen_port'' (uint_str (ListenPort (cInterface conf))) else []) @
     uapi_field ''replace_peers'' ''true'' @
     concat (map writeUAPIPeer (Peers conf))"

section \<open>Reading\<close>

definition parseKeyHex :: "string \<Rightarrow> go_error + Key" where
  "parseKeyHex s =
     (case hex_DecodeString s of Inl err \<Rightarrow> Inl (ParseErrorOf ''Invalid key: %v'' err s)
      | Inr k \<Rightarrow>
          if length k \<noteq> KeyLength then Inl (ParseError ''Keys must decode to exactly 32 bytes'' s) else Inr k)"

definition parseBytesOrStamp :: "string \<Rightarrow> go_error + u64" where
  "parseBytesOrStamp s =
     (case strconv_ParseUint s 64 of
        Inl err \<Rightarrow> Inl (ParseErrorOf ''Number must be a number between 0 and 2^64-1: %v'' err s)
      | Inr b \<Rightarrow> Inr (of_nat b))"

text \<open>A value of \<open>time.Duration\<close>: 64 bits, signed, wrapping around.\<close>

definition int64 :: "int \<Rightarrow> int" where
  "int64 z = sint (word_of_int z :: u64)"

record ustate =
  u_section :: parserState
  u_conf :: Config
  u_peer :: "Peer option"

definition uapi_init :: "Config \<Rightarrow> ustate" where
  "uapi_init existingConfig =
     (let i = cInterface existingConfig in
      \<lparr>u_section = inInterfaceSection,
       u_conf = zeroConfig\<lparr>Name := Name existingConfig,
         cInterface := zeroInterface\<lparr>Addresses := Addresses i, DNS := DNS i, DNSSearch := DNSSearch i, MTU := MTU i,
           PreUp := PreUp i, PostUp := PostUp i, PreDown := PreDown i, PostDown := PostDown i, TableOff := TableOff i\<rparr>\<rparr>,
       u_peer = None\<rparr>)"

definition copyWS :: "Peer \<Rightarrow> Peer \<Rightarrow> Peer" where
  "copyWS existing peer =
     peer\<lparr>WSMode := WSMode existing, WSURL := WSURL existing, WSTunnelTarget := WSTunnelTarget existing,
       WSBearer := WSBearer existing, WSMask := WSMask existing, WSTLSCA := WSTLSCA existing,
       WSTLSCert := WSTLSCert existing, WSTLSKey := WSTLSKey existing, WSTLSInsecure := WSTLSInsecure existing,
       WSPingInterval := WSPingInterval existing, WSBackoffMin := WSBackoffMin existing,
       WSBackoffMax := WSBackoffMax existing\<rparr>"

text \<open>The loop stops at the first stored peer with the key.\<close>

definition storedWS :: "Config \<Rightarrow> Peer \<Rightarrow> Peer" where
  "storedWS existingConfig peer =
     (case find (\<lambda>existing. PublicKey existing = PublicKey peer) (Peers existingConfig) of
        None \<Rightarrow> peer | Some existing \<Rightarrow> copyWS existing peer)"

definition addPeer :: "Config \<Rightarrow> ustate \<Rightarrow> ustate" where
  "addPeer existingConfig st =
     (case u_peer st of None \<Rightarrow> st
      | Some peer \<Rightarrow>
          st\<lparr>u_conf := (u_conf st)\<lparr>Peers := Peers (u_conf st) @ [storedWS existingConfig peer]\<rparr>, u_peer := None\<rparr>)"

definition uapiInterfaceKey :: "string \<Rightarrow> string \<Rightarrow> Interface \<Rightarrow> go_error + Interface" where
  "uapiInterfaceKey key val i =
     (if key = ''private_key'' then rbind (parseKeyHex val) (\<lambda>k. Inr (i\<lparr>PrivateKey := k\<rparr>))
      else if key = ''listen_port'' then rbind (parsePort val) (\<lambda>p. Inr (i\<lparr>ListenPort := p\<rparr>))
      else if key \<in> set [''fwmark'', ''ws_listen'', ''ws_server_tls_cert'', ''ws_server_tls_key'', ''ws_server_bearer'',
        ''ws_trusted_proxies''] then Inr i
      else Inl (ParseError ''Invalid key for interface section'' key))"

definition uapiPeerKey :: "string \<Rightarrow> string \<Rightarrow> Peer \<Rightarrow> go_error + Peer" where
  "uapiPeerKey key val p =
     (if key = ''public_key'' then rbind (parseKeyHex val) (\<lambda>k. Inr (p\<lparr>PublicKey := k\<rparr>))
      else if key = ''preshared_key'' then rbind (parseKeyHex val) (\<lambda>k. Inr (p\<lparr>PresharedKey := k\<rparr>))
      else if key = ''protocol_version'' then
        (if val \<noteq> ''1'' then Inl (ParseError ''Protocol version must be 1'' val) else Inr p)
      else if key = ''allowed_ip'' then
        rbind (parseIPCidr val) (\<lambda>a. Inr (p\<lparr>AllowedIPs := AllowedIPs p @ [a]\<rparr>))
      else if key = ''persistent_keepalive_interval'' then
        rbind (parsePersistentKeepalive val) (\<lambda>k. Inr (p\<lparr>PersistentKeepalive := k\<rparr>))
      else if key = ''endpoint'' then rbind (parseEndpoint val) (\<lambda>e. Inr (p\<lparr>pEndpoint := e\<rparr>))
      else if key = ''tx_bytes'' then rbind (parseBytesOrStamp val) (\<lambda>b. Inr (p\<lparr>TxBytes := b\<rparr>))
      else if key = ''rx_bytes'' then rbind (parseBytesOrStamp val) (\<lambda>b. Inr (p\<lparr>RxBytes := b\<rparr>))
      else if key = ''last_handshake_time_sec'' then
        rbind (parseBytesOrStamp val) (\<lambda>t.
          Inr (p\<lparr>LastHandshakeTime := int64 (LastHandshakeTime p + int64 (int64 (uint t) * 1000000000))\<rparr>))
      else if key = ''last_handshake_time_nsec'' then
        rbind (parseBytesOrStamp val) (\<lambda>t.
          Inr (p\<lparr>LastHandshakeTime := int64 (LastHandshakeTime p + int64 (uint t))\<rparr>))
      else if key \<in> set [''transport'', ''ws_url'', ''wstunnel_target'', ''ws_bearer'', ''ws_mask'', ''ws_tls_ca'',
        ''ws_tls_cert'', ''ws_tls_key'', ''ws_tls_insecure'', ''ws_ping_interval'', ''ws_backoff_min'', ''ws_backoff_max'']
        then Inr p
      else Inl (ParseError ''Invalid key for peer section'' key))"

definition uapiLine :: "Config \<Rightarrow> ustate \<Rightarrow> string \<Rightarrow> go_error + ustate" where
  "uapiLine existingConfig st line =
     (let (key, val, hasValue) = strings_Cut line ''='' in
      if \<not> hasValue then Inl (ParseError ''Config key is missing an equals separator'' line)
      else if key = ''errno'' then
        (if val \<noteq> ''0'' then Inl (ParseError ''Error in getting configuration'' val) else Inr st)
      else
        let st = (if key = ''public_key''
          then (addPeer existingConfig st)\<lparr>u_peer := Some zeroPeer, u_section := inPeerSection\<rparr> else st)
        in
        if u_section st = inInterfaceSection then
          rbind (uapiInterfaceKey key val (cInterface (u_conf st))) (\<lambda>i.
            Inr (st\<lparr>u_conf := (u_conf st)\<lparr>cInterface := i\<rparr>\<rparr>))
        else
          (case u_peer st of None \<Rightarrow> Inl (Panic ''nil peer'')
           | Some p \<Rightarrow> rbind (uapiPeerKey key val p) (\<lambda>p. Inr (st\<lparr>u_peer := Some p\<rparr>))))"

text \<open>
  \<open>ReadString\<close> returns the bytes up to and including the next newline, and \<open>io.EOF\<close> when there is
  none; an empty line ends the reply.
\<close>

function uapiLoop :: "Config \<Rightarrow> ustate \<Rightarrow> string \<Rightarrow> go_error + ustate" where
  "uapiLoop existingConfig st reader =
     (let (line, rest, ok) = strings_Cut reader [newline] in
      if \<not> ok then Inl EOF
      else if line = [] then Inr st
      else rbind (uapiLine existingConfig st line) (\<lambda>st. uapiLoop existingConfig st rest))"
  by pat_completeness auto

definition position :: "Config \<Rightarrow> Key \<rightharpoonup> nat" where
  "position existingConfig =
     foldl (\<lambda>m i. m(PublicKey (Peers existingConfig ! i) \<mapsto> i)) Map.empty [0..<length (Peers existingConfig)]"

definition peerPosition :: "Config \<Rightarrow> Peer \<Rightarrow> nat" where
  "peerPosition existingConfig p =
     (case position existingConfig (PublicKey p) of Some i \<Rightarrow> i | None \<Rightarrow> length (Peers existingConfig))"

definition FromUAPI :: "string \<Rightarrow> Config \<Rightarrow> go_error + Config" where
  "FromUAPI reader existingConfig =
     rbind (uapiLoop existingConfig (uapi_init existingConfig) reader) (\<lambda>st.
       let conf = u_conf (addPeer existingConfig st) in
       Inr (conf\<lparr>Peers := sort_key (peerPosition existingConfig) (Peers conf)\<rparr>))"

lemma strings_Cut_shorter: "strings_Cut s [c] = (a, b, True) \<Longrightarrow> length b < length s"
  using length_dropWhile_le [of "\<lambda>x. x \<noteq> c" s] by (cases s) (auto simp: strings_Cut_char split: if_splits)

termination uapiLoop
  by (relation "measure (\<lambda>(_, _, reader). length reader)") (auto dest!: strings_Cut_shorter [OF sym])

declare uapiLoop.simps [simp del]

interpretation hexkey: key_text hex_EncodeToString hex_DecodeString parseKeyHex
  by unfold_locales (simp_all add: hex_roundtrip parseKeyHex_def)


section \<open>Every reply\<close>

text \<open>The parser has a peer to fill in whenever it is in the peer section.\<close>

definition uinv :: "Config \<Rightarrow> ustate \<Rightarrow> bool" where
  "uinv e st \<longleftrightarrow> (u_section st = inInterfaceSection \<or> u_peer st \<noteq> None) \<and> Name (u_conf st) = Name e \<and>
     (\<forall>p \<in> set (Peers (u_conf st)). \<exists>q. p = storedWS e q \<and> PublicKey p = PublicKey q)"

lemma storedWS_PublicKey [simp]: "PublicKey (storedWS e p) = PublicKey p"
  by (simp add: storedWS_def copyWS_def split: option.splits)

lemma addPeer_inv:
  assumes "uinv e st"
  shows "uinv e ((addPeer e st)\<lparr>u_peer := Some zeroPeer, u_section := inPeerSection\<rparr>)"
    and "Name (u_conf (addPeer e st)) = Name e"
    and "\<forall>p \<in> set (Peers (u_conf (addPeer e st))). \<exists>q. p = storedWS e q \<and> PublicKey p = PublicKey q"
  using assms by (auto simp: uinv_def addPeer_def split: option.splits)

lemma uapiLine_inv:
  assumes "uinv e st" "uapiLine e st line = Inr st'"
  shows "uinv e st'"
proof -
  obtain key val ok where c: "strings_Cut line ''='' = (key, val, ok)" by (metis prod_cases3)
  define st1 where "st1 = (if key = ''public_key'' then (addPeer e st)\<lparr>u_peer := Some zeroPeer, u_section := inPeerSection\<rparr> else st)"
  have i1: "uinv e st1" using assms(1) addPeer_inv(1) by (simp add: st1_def)
  consider "st' = st" | i where "u_section st1 = inInterfaceSection" "st' = st1\<lparr>u_conf := (u_conf st1)\<lparr>cInterface := i\<rparr>\<rparr>"
    | p where "st' = st1\<lparr>u_peer := Some p\<rparr>"
    using assms(2) unfolding uapiLine_def c Let_def prod.case st1_def [symmetric]
    by (auto simp: rbind_eq_Inr split: if_splits option.splits)
  then show ?thesis using i1 assms(1) by cases (auto simp: uinv_def)
qed

lemma uapi_values_no_panic:
  "parseKeyHex s \<noteq> Inl (Panic m)" "parseBytesOrStamp s \<noteq> Inl (Panic m)" "parseEndpoint s \<noteq> Inl (Panic m)"
  by (simp_all add: hexkey.parse_no_panic parseBytesOrStamp_def parseEndpoint_no_panic split: sum.split)

lemmas uapi_no_panic = uapi_values_no_panic [THEN notE] values_no_panic [THEN notE]

lemma uapiKey_no_panic: "uapiPeerKey key val p \<noteq> Inl (Panic m)" "uapiInterfaceKey key val i \<noteq> Inl (Panic m)"
proof -
  show "uapiPeerKey key val p \<noteq> Inl (Panic m)"
  proof
    assume "uapiPeerKey key val p = Inl (Panic m)"
    then show False unfolding uapiPeerKey_def by (elim if_InlE rbind_InlE uapi_no_panic) simp_all
  qed
  show "uapiInterfaceKey key val i \<noteq> Inl (Panic m)"
  proof
    assume "uapiInterfaceKey key val i = Inl (Panic m)"
    then show False unfolding uapiInterfaceKey_def by (elim if_InlE rbind_InlE uapi_no_panic) simp_all
  qed
qed

lemma uapiLine_no_panic:
  assumes "uinv e st"
  shows "uapiLine e st line \<noteq> Inl (Panic m)"
proof
  obtain key val ok where c: "strings_Cut line ''='' = (key, val, ok)" by (metis prod_cases3)
  define st1 where "st1 = (if key = ''public_key'' then (addPeer e st)\<lparr>u_peer := Some zeroPeer, u_section := inPeerSection\<rparr> else st)"
  have i1: "uinv e st1" using assms(1) addPeer_inv(1) by (simp add: st1_def)
  assume "uapiLine e st line = Inl (Panic m)"
  then show False
    unfolding uapiLine_def c Let_def prod.case st1_def [symmetric]
    using i1 by (auto simp: uinv_def rbind_eq_Inl uapiKey_no_panic split: if_splits option.splits)
qed

lemma uapiLoop_inv:
  assumes "uinv e st"
  shows "uapiLoop e st reader \<noteq> Inl (Panic m)" and "uapiLoop e st reader = Inr st' \<Longrightarrow> uinv e st'"
proof -
  have "uapiLoop e st reader \<noteq> Inl (Panic m) \<and> (\<forall>st'. uapiLoop e st reader = Inr st' \<longrightarrow> uinv e st')"
    using assms
  proof (induction e st reader rule: uapiLoop.induct)
    case (1 e st reader)
    obtain line rest ok where c: "strings_Cut reader [newline] = (line, rest, ok)" by (metis prod_cases3)
    show ?case
    proof (cases "ok \<and> line \<noteq> []")
      case True
      show ?thesis
      proof (cases "uapiLine e st line")
        case (Inl err)
        then show ?thesis using True c uapiLine_no_panic [OF 1(2), of line m] by (subst (1 2) uapiLoop.simps) auto
      next
        case (Inr st1)
        with 1(1) [OF refl c [symmetric] refl _ _ Inr uapiLine_inv [OF 1(2) Inr]] True c
        show ?thesis by (subst (1 2) uapiLoop.simps) simp
      qed
    next
      case False
      with c 1(2) show ?thesis by (subst (1 2) uapiLoop.simps) auto
    qed
  qed
  then show "uapiLoop e st reader \<noteq> Inl (Panic m)" and "uapiLoop e st reader = Inr st' \<Longrightarrow> uinv e st'" by auto
qed

lemma uinv_init: "uinv e (uapi_init e)"
  by (simp add: uinv_def uapi_init_def zeroConfig_def Let_def)

lemma FromUAPI_cases:
  assumes "FromUAPI reader e = Inr c"
  obtains ps where "Peers c = sort_key (peerPosition e) ps" "Name c = Name e"
    "\<And>p. p \<in> set ps \<Longrightarrow> \<exists>q. p = storedWS e q \<and> PublicKey p = PublicKey q"
proof -
  from assms obtain st where st: "uapiLoop e (uapi_init e) reader = Inr st"
    and c: "c = (u_conf (addPeer e st))\<lparr>Peers := sort_key (peerPosition e) (Peers (u_conf (addPeer e st)))\<rparr>"
    by (auto simp: FromUAPI_def Let_def rbind_eq_Inr)
  from addPeer_inv(2,3) [OF uapiLoop_inv(2) [OF uinv_init st]] that c show ?thesis by simp
qed

text \<open>The WebSocket settings of a peer.\<close>

definition ws_settings :: "Peer \<Rightarrow> Peer" where
  "ws_settings p = copyWS p zeroPeer"

lemma ws_settings_copyWS: "ws_settings (copyWS q p) = ws_settings q"
  by (simp add: ws_settings_def copyWS_def)




section \<open>What is sent\<close>

definition uapi_line :: "bool \<Rightarrow> string \<Rightarrow> string \<Rightarrow> string list" where
  "uapi_line present key val = (if present then [key @ ''='' @ val] else [])"

definition ws_uapi_lines :: "Peer \<Rightarrow> string list" where
  "ws_uapi_lines p =
     uapi_line (WSURL p \<noteq> []) ''ws_url'' (WSURL p) @
     uapi_line (WSTunnelTarget p \<noteq> []) ''wstunnel_target'' (WSTunnelTarget p) @
     uapi_line (WSBearer p \<noteq> []) ''ws_bearer'' (WSBearer p) @
     uapi_line (WSMask p) ''ws_mask'' ''true'' @
     uapi_line (WSTLSCA p \<noteq> []) ''ws_tls_ca'' (WSTLSCA p) @
     uapi_line (WSTLSCert p \<noteq> []) ''ws_tls_cert'' (WSTLSCert p) @
     uapi_line (WSTLSKey p \<noteq> []) ''ws_tls_key'' (WSTLSKey p) @
     uapi_line (WSTLSInsecure p) ''ws_tls_insecure'' ''true'' @
     uapi_line (0 < WSPingInterval p) ''ws_ping_interval'' (uint_str (WSPingInterval p)) @
     uapi_line (0 < WSBackoffMin p) ''ws_backoff_min'' (uint_str (WSBackoffMin p)) @
     uapi_line (0 < WSBackoffMax p) ''ws_backoff_max'' (uint_str (WSBackoffMax p))"

definition peer_uapi_lines :: "Peer \<Rightarrow> string list" where
  "peer_uapi_lines p =
     uapi_line True ''public_key'' (hex_EncodeToString (PublicKey p)) @
     uapi_line True ''transport'' (if WSMode p \<noteq> WSModeNone then WSMode p else ''udp'') @
     uapi_line (\<not> key_IsZero (PresharedKey p)) ''preshared_key'' (hex_EncodeToString (PresharedKey p)) @
     uapi_line (\<not> endpoint_IsEmpty (pEndpoint p)) ''endpoint'' (endpoint_String (pEndpoint p)) @
     (if WSMode p \<noteq> WSModeNone then ws_uapi_lines p else []) @
     uapi_line True ''persistent_keepalive_interval'' (uint_str (PersistentKeepalive p)) @
     uapi_line True ''replace_allowed_ips'' ''true'' @
     map (\<lambda>a. ''allowed_ip='' @ prefix_String a) (AllowedIPs p)"

definition uapi_lines :: "Config \<Rightarrow> string list" where
  "uapi_lines c =
     uapi_line True ''private_key'' (hex_EncodeToString (PrivateKey (cInterface c))) @
     uapi_line (0 < ListenPort (cInterface c)) ''listen_port'' (uint_str (ListenPort (cInterface c))) @
     uapi_line True ''replace_peers'' ''true'' @ concat (map peer_uapi_lines (Peers c))"

lemma uapi_field_lines: "uapi_field k v = unlines (uapi_line True k v)"
  by (simp add: uapi_field_def uapi_line_def unlines_one)

lemma uapi_if: "(if b then unlines (uapi_line True k v) else []) = unlines (uapi_line b k v)"
  by (simp add: uapi_line_def)

lemma unlines_if: "unlines (if b then ls else []) = (if b then unlines ls else [])"
  by simp

lemma unlines_concat: "unlines (concat ls) = concat (map unlines ls)"
  by (induction ls) simp_all

lemma writeUAPIPeer_lines: "writeUAPIPeer p = unlines (peer_uapi_lines p)"
proof -
  have "concat (map (\<lambda>a. uapi_field ''allowed_ip'' (prefix_String a)) as) = unlines (map (\<lambda>a. ''allowed_ip='' @ prefix_String a) as)" for as
    by (induction as) (simp_all add: uapi_field_def unlines_Cons)
  moreover have "writeWSUAPI p = unlines (ws_uapi_lines p)"
    by (simp only: writeWSUAPI_def ws_uapi_lines_def uapi_field_lines uapi_if unlines_simps append_assoc)
  ultimately show ?thesis
    by (simp only: writeUAPIPeer_def peer_uapi_lines_def uapi_field_lines uapi_if unlines_if unlines_simps append_assoc)
qed

lemma ToUAPI_lines: "ToUAPI c = unlines (uapi_lines c)"
  by (simp only: ToUAPI_def uapi_lines_def uapi_field_lines uapi_if unlines_simps append_assoc unlines_concat map_map
      writeUAPIPeer_lines [symmetric] comp_def)

lemma endpoint_resolved:
  assumes "endpoint_inv L p"
  shows "pEndpoint p = \<lparr>Host = [], Port = 0\<rparr> \<or>
    Host (pEndpoint p) \<noteq> [] \<and> parseEndpoint (endpoint_String (pEndpoint p)) = Inr (pEndpoint p)"
proof (cases "WSURL p = []")
  case True
  with assms show ?thesis by (auto simp: endpoint_inv_def wf_endpoint_def split: if_splits)
next
  case False
  with assms have "parseWSURL L (WSURL p) = Inr (pEndpoint p)" by (simp add: endpoint_inv_def)
  then obtain s where "parseEndpoint s = Inr (pEndpoint p)"
    by (auto simp: parseWSURL_def Let_def split: option.splits if_splits sum.splits)
  then show ?thesis using parseEndpoint_reprint by metis
qed

definition uapiKeys :: "string set" where
  "uapiKeys = {''private_key'', ''listen_port'', ''replace_peers'', ''public_key'', ''transport'', ''preshared_key'',
     ''endpoint'', ''persistent_keepalive_interval'', ''replace_allowed_ips'', ''allowed_ip'',
     ''ws_url'', ''wstunnel_target'', ''ws_bearer'', ''ws_mask'', ''ws_tls_ca'', ''ws_tls_cert'', ''ws_tls_key'',
     ''ws_tls_insecure'', ''ws_ping_interval'', ''ws_backoff_min'', ''ws_backoff_max''}"

lemma one_line_uapi_line: "newline \<notin> set k \<Longrightarrow> newline \<notin> set v \<Longrightarrow> one_line (uapi_line b k v)"
  by (simp add: uapi_line_def)

lemma hex_newline: "newline \<notin> set (hex_EncodeToString bs)"
proof (induction bs)
  case (Cons b bs)
  have "hex_val newline = None" by (simp add: hex_val_def)
  then have "hex_char n \<noteq> newline" if "n < 16" for n using hex_val_char [OF that] by auto
  moreover have "ord b div 16 < 16" using ord_less_256 [of b] by linarith
  ultimately show ?case using Cons by (simp add: not_sym)
qed simp


lemma written_hosts:
  assumes "newline \<notin> set (Host e)"
  shows "newline \<notin> set (endpoint_String e)"
  using assms written_newline(4) by (simp add: endpoint_String_def)

lemma one_line_ws_uapi:
  assumes "peer_inv L p"
  shows "one_line (ws_uapi_lines p)"
proof -
  have "endpoint_inv L p" using assms by (simp only: peer_inv_def)
  then have "newline \<notin> set (WSURL p)" by (cases "WSURL p = []") (simp_all add: endpoint_inv_def value_newline)
  moreover have "newline \<notin> set (WSTunnelTarget p)" "newline \<notin> set (WSBearer p)" "newline \<notin> set (WSTLSCA p)"
      "newline \<notin> set (WSTLSCert p)" "newline \<notin> set (WSTLSKey p)"
    by (rule value_newline(3), use assms(1) in \<open>simp only: peer_inv_def, blast\<close>)+
  ultimately show ?thesis
    unfolding ws_uapi_lines_def by (simp add: one_line_uapi_line written_newline)
qed

lemma one_line_peer_uapi:
  assumes "peer_inv L p" "newline \<notin> set (Host (pEndpoint p))"
  shows "one_line (peer_uapi_lines p)"
proof -
  have "newline \<notin> set (WSMode p)"
    using assms(1) mode_values(1) by (auto simp: peer_inv_def WSModeNone_def value_newline split: if_splits)
  moreover have "one_line (map (\<lambda>a. ''allowed_ip='' @ prefix_String a) as)" if "list_all wf_prefix as" for as
    using that wf_item_prefix by (induction as) (auto simp: wf_item_def value_newline)
  moreover have "list_all wf_prefix (AllowedIPs p)" using assms(1) by (simp only: peer_inv_def)
  ultimately show ?thesis
    unfolding peer_uapi_lines_def
    by (simp add: one_line_uapi_line written_newline hex_newline one_line_ws_uapi [OF assms(1)] written_hosts [OF assms(2)])
qed

lemma wf_config_peers: "wf_config L c \<Longrightarrow> p \<in> set (Peers c) \<Longrightarrow> peer_inv L p \<and> ws_valid p"
  by (simp add: wf_config_def list_all_iff)

lemma one_line_uapi:
  assumes "\<forall>p \<in> set (Peers c). peer_inv L p \<and> newline \<notin> set (Host (pEndpoint p))"
  shows "one_line (uapi_lines c)"
proof -
  have "one_line (concat (map peer_uapi_lines ps))" if "\<forall>p \<in> set ps. peer_inv L p \<and> newline \<notin> set (Host (pEndpoint p))" for ps
    using that by (induction ps) (auto intro: one_line_peer_uapi [of L])
  with assms show ?thesis
    unfolding uapi_lines_def by (simp add: one_line_uapi_line written_newline hex_newline)
qed

lemma split_ToUAPI:
  assumes "\<forall>p \<in> set (Peers c). peer_inv L p \<and> newline \<notin> set (Host (pEndpoint p))"
  shows "strings_Split (ToUAPI c) newline = uapi_lines c @ [[]]"
  using one_line_uapi [OF assms] unfolding ToUAPI_lines unlines_def
  by (intro strings_Split_lines) (auto simp: one_line_def list_all_iff)

lemma uapi_keys_plain: "k \<in> uapiKeys \<Longrightarrow> CHR ''='' \<notin> set k"
  unfolding uapiKeys_def by (elim insertE; simp)

definition uapi_key :: "string \<Rightarrow> string" where
  "uapi_key line = fst (strings_Cut line ''='')"

lemma uapi_key_line: "CHR ''='' \<notin> set k \<Longrightarrow> uapi_key (k @ CHR ''='' # v) = k"
  by (simp add: uapi_key_def)

lemma uapi_line_filter:
  "CHR ''='' \<notin> set k \<Longrightarrow>
     filter (\<lambda>l. uapi_key l = key) (uapi_line b k v) = (if b \<and> k = key then [k @ ''='' @ v] else [])"
  by (auto simp: uapi_line_def uapi_key_line)

lemma allowed_ip_key: "uapi_key (''allowed_ip='' @ v) = ''allowed_ip''"
  using uapi_key_line [of "''allowed_ip''" v] by simp

lemma peer_uapi_filter:
  "filter (\<lambda>l. uapi_key l = ''public_key'') (peer_uapi_lines p) = [''public_key='' @ hex_EncodeToString (PublicKey p)]"
  "filter (\<lambda>l. uapi_key l = ''private_key'') (peer_uapi_lines p) = []"
  unfolding peer_uapi_lines_def ws_uapi_lines_def
  by (simp_all add: uapi_line_filter filter_map comp_def allowed_ip_key [simplified])

lemma peers_uapi_filter:
  "filter (\<lambda>l. uapi_key l = ''public_key'') (concat (map peer_uapi_lines ps)) =
     map (\<lambda>p. ''public_key='' @ hex_EncodeToString (PublicKey p)) ps"
  "filter (\<lambda>l. uapi_key l = ''private_key'') (concat (map peer_uapi_lines ps)) = []"
  by (induction ps) (simp_all add: peer_uapi_filter)

lemma uapi_line_keys: "k \<in> uapiKeys \<Longrightarrow> list_all (\<lambda>l. uapi_key l \<in> uapiKeys) (uapi_line b k v)"
  using uapi_keys_plain [of k] by (simp add: uapi_line_def uapi_key_line)

lemma uapi_lines_keys: "list_all (\<lambda>l. uapi_key l \<in> uapiKeys) (uapi_lines c)"
proof -
  have k: "k \<in> set [''private_key'', ''listen_port'', ''replace_peers'', ''public_key'', ''transport'', ''preshared_key'',
     ''endpoint'', ''persistent_keepalive_interval'', ''replace_allowed_ips'', ''allowed_ip'',
     ''ws_url'', ''wstunnel_target'', ''ws_bearer'', ''ws_mask'', ''ws_tls_ca'', ''ws_tls_cert'', ''ws_tls_key'',
     ''ws_tls_insecure'', ''ws_ping_interval'', ''ws_backoff_min'', ''ws_backoff_max''] \<Longrightarrow> k \<in> uapiKeys" for k
    by (simp add: uapiKeys_def)
  have "list_all (\<lambda>l. uapi_key l \<in> uapiKeys) (map (\<lambda>a. ''allowed_ip='' @ prefix_String a) as)" for as
    by (simp add: list_all_iff allowed_ip_key [simplified] k)
  then have "list_all (\<lambda>l. uapi_key l \<in> uapiKeys) (peer_uapi_lines p)" for p
    unfolding peer_uapi_lines_def ws_uapi_lines_def by (simp add: uapi_line_keys k)
  then have "list_all (\<lambda>l. uapi_key l \<in> uapiKeys) (concat (map peer_uapi_lines ps))" for ps
    by (induction ps) simp_all
  then show ?thesis unfolding uapi_lines_def by (simp add: uapi_line_keys k)
qed




section \<open>What comes back\<close>

text \<open>A reply that repeats the settings sent, without the \<open>replace_\<close> directives, and ends with a blank line.\<close>

definition uapi_reply :: "Config \<Rightarrow> string" where
  "uapi_reply c =
     unlines (filter (\<lambda>l. l \<noteq> [] \<and> \<not> strings_HasPrefix l ''replace_'') (strings_Split (ToUAPI c) newline)) @ [newline]"

text \<open>The runtime view of a configuration: what the text carries, without comments and stored files.\<close>

definition runtime_peer :: "Peer \<Rightarrow> Peer" where
  "runtime_peer p = p\<lparr>pComments := zeroSection\<rparr>"

definition runtime_view :: "Config \<Rightarrow> Config" where
  "runtime_view c = c\<lparr>cInterface := (cInterface c)\<lparr>iComments := zeroSection\<rparr>, Peers := map runtime_peer (Peers c),
     WSTLSFiles := [], TrailingComments := []\<rparr>"

lemma uapiLoop_lines:
  "one_line ls \<Longrightarrow> [] \<notin> set ls \<Longrightarrow> uapiLoop e st (unlines ls @ [newline]) = rfold (uapiLine e) st ls"
proof (induction ls arbitrary: st)
  case Nil
  show ?case by (subst uapiLoop.simps) simp
next
  case (Cons l ls)
  then have "uapiLoop e st' (unlines ls @ [newline]) = rfold (uapiLine e) st' ls" for st' by simp
  then show ?case using Cons.prems by (subst uapiLoop.simps) (auto simp: unlines_Cons)
qed

definition upst :: "Config \<Rightarrow> Peer list \<Rightarrow> Peer \<Rightarrow> ustate" where
  "upst c ps p = \<lparr>u_section = inPeerSection, u_conf = c\<lparr>Peers := ps\<rparr>, u_peer = Some p\<rparr>"

lemma uapi_peer_line:
  assumes "CHR ''='' \<notin> set k" "k \<noteq> ''errno''" "k \<noteq> ''public_key''"
  shows "uapiLine e (upst c ps p) (k @ ''='' @ v) = rbind (uapiPeerKey k v p) (\<lambda>p. Inr (upst c ps p))"
  using assms by (simp add: uapiLine_def upst_def)

lemma uapi_peer_opt:
  assumes "CHR ''='' \<notin> set k" "k \<noteq> ''errno''" "k \<noteq> ''public_key''"
    and "b \<Longrightarrow> uapiPeerKey k v p = Inr (f p)" and "\<not> b \<Longrightarrow> f p = p"
  shows "rfold (uapiLine e) (upst c ps p) (uapi_line b k v) = Inr (upst c ps (f p))"
  using assms uapi_peer_line [OF assms(1-3), of e c ps p v] by (simp add: uapi_line_def)

lemma uapi_peer_skip:
  assumes "k \<in> set [''transport'', ''ws_url'', ''wstunnel_target'', ''ws_bearer'', ''ws_mask'', ''ws_tls_ca'',
        ''ws_tls_cert'', ''ws_tls_key'', ''ws_tls_insecure'', ''ws_ping_interval'', ''ws_backoff_min'', ''ws_backoff_max'']"
  shows "rfold (uapiLine e) (upst c ps p) (uapi_line b k v) = Inr (upst c ps p)"
proof -
  have "uapiPeerKey k v p = Inr p" using assms unfolding list.set by (elim insertE; simp add: uapiPeerKey_def)
  moreover have "CHR ''='' \<notin> set k" "k \<noteq> ''errno''" "k \<noteq> ''public_key''"
    using assms unfolding list.set by (elim insertE; simp)+
  ultimately show ?thesis using uapi_peer_opt [of k b v p "\<lambda>p. p"] by simp
qed

lemma uapi_allowed_ips:
  assumes "list_all wf_prefix as"
  shows "rfold (uapiLine e) (upst c ps p) (map (\<lambda>a. ''allowed_ip='' @ prefix_String a) as) =
    Inr (upst c ps (p\<lparr>AllowedIPs := AllowedIPs p @ as\<rparr>))"
  using assms
proof (induction as arbitrary: p)
  case (Cons a as)
  have "uapiLine e (upst c ps p) (''allowed_ip='' @ prefix_String a) = Inr (upst c ps (p\<lparr>AllowedIPs := AllowedIPs p @ [a]\<rparr>))"
    using uapi_peer_line [of "''allowed_ip''" e c ps p "prefix_String a"] Cons.prems
    by (simp add: uapiPeerKey_def parseIPCidr_String)
  then show ?case using Cons by simp
qed simp

definition peer_reply :: "Peer \<Rightarrow> string list" where
  "peer_reply p = filter (\<lambda>l. l \<noteq> [] \<and> \<not> strings_HasPrefix l ''replace_'') (peer_uapi_lines p)"

lemma kept_line:
  "k \<noteq> [] \<Longrightarrow> filter (\<lambda>l. l \<noteq> [] \<and> \<not> strings_HasPrefix l ''replace_'') (uapi_line b k v) =
     (if strings_HasPrefix (k @ ''='' @ v) ''replace_'' then [] else uapi_line b k v)"
  by (simp add: uapi_line_def)

lemma peer_reply_lines:
  "peer_reply p =
     uapi_line True ''public_key'' (hex_EncodeToString (PublicKey p)) @
     uapi_line True ''transport'' (if WSMode p \<noteq> WSModeNone then WSMode p else ''udp'') @
     uapi_line (\<not> key_IsZero (PresharedKey p)) ''preshared_key'' (hex_EncodeToString (PresharedKey p)) @
     uapi_line (\<not> endpoint_IsEmpty (pEndpoint p)) ''endpoint'' (endpoint_String (pEndpoint p)) @
     (if WSMode p \<noteq> WSModeNone then ws_uapi_lines p else []) @
     uapi_line True ''persistent_keepalive_interval'' (uint_str (PersistentKeepalive p)) @
     map (\<lambda>a. ''allowed_ip='' @ prefix_String a) (AllowedIPs p)"
proof -
  let ?P = "\<lambda>l. l \<noteq> [] \<and> \<not> strings_HasPrefix l ''replace_''"
  have a: "filter ?P (map (\<lambda>a. ''allowed_ip='' @ prefix_String a) as) = map (\<lambda>a. ''allowed_ip='' @ prefix_String a) as" for as
    by (induction as) (simp_all add: strings_HasPrefix_def)
  have w: "filter ?P (ws_uapi_lines p) = ws_uapi_lines p"
    unfolding ws_uapi_lines_def by (simp only: filter_append kept_line list.simps simp_thms) (simp add: strings_HasPrefix_def)
  have i: "filter ?P (if b then ls else []) = (if b then filter ?P ls else [])" for b ls by simp
  show ?thesis
    unfolding peer_reply_def peer_uapi_lines_def filter_append a i w
    by (simp only: kept_line list.simps simp_thms) (simp add: strings_HasPrefix_def)
qed


definition device_peer :: "Peer \<Rightarrow> Peer" where
  "device_peer p = zeroPeer\<lparr>PublicKey := PublicKey p, PresharedKey := PresharedKey p, pEndpoint := pEndpoint p,
     PersistentKeepalive := PersistentKeepalive p, AllowedIPs := AllowedIPs p\<rparr>"

lemma read_peer_reply:
  assumes inv: "peer_inv L p" and st: "u_conf (addPeer e st) = c\<lparr>Peers := ps\<rparr>"
  shows "rfold (uapiLine e) st (peer_reply p) = Inr (upst c ps (device_peer p))"
proof -
  have len: "length (PublicKey p) = KeyLength" "length (PresharedKey p) = KeyLength" "list_all wf_prefix (AllowedIPs p)"
    and ep: "endpoint_inv L p"
    using inv by (simp_all only: peer_inv_def)
  define p1 where "p1 = zeroPeer\<lparr>PublicKey := PublicKey p\<rparr>"
  define p2 where "p2 = p1\<lparr>PresharedKey := PresharedKey p\<rparr>"
  define p3 where "p3 = p2\<lparr>pEndpoint := pEndpoint p\<rparr>"
  define p4 where "p4 = p3\<lparr>PersistentKeepalive := PersistentKeepalive p\<rparr>"
  have "uapiLine e st (''public_key'' @ ''='' @ hex_EncodeToString (PublicKey p)) = Inr (upst c ps p1)"
    using len(1) st unfolding uapiLine_def
    by (simp add: uapiPeerKey_def hexkey.parse_enc upst_def p1_def)
  then have r1: "rfold (uapiLine e) st (uapi_line True ''public_key'' (hex_EncodeToString (PublicKey p))) = Inr (upst c ps p1)"
    by (simp add: uapi_line_def)
  have r2: "rfold (uapiLine e) (upst c ps p1) (uapi_line (\<not> key_IsZero (PresharedKey p)) ''preshared_key'' (hex_EncodeToString (PresharedKey p))) =
      Inr (upst c ps p2)" unfolding p2_def
    by (rule uapi_peer_opt) (simp_all add: uapiPeerKey_def hexkey.parse_enc len(2) key_IsZero_def p1_def zeroPeer_def)
  have r3: "rfold (uapiLine e) (upst c ps p2) (uapi_line (\<not> endpoint_IsEmpty (pEndpoint p)) ''endpoint'' (endpoint_String (pEndpoint p))) =
      Inr (upst c ps p3)" unfolding p3_def
    by (rule uapi_peer_opt)
      (use endpoint_resolved [OF ep] in \<open>auto simp: uapiPeerKey_def endpoint_IsEmpty_def p1_def p2_def zeroPeer_def\<close>)
  have r4: "rfold (uapiLine e) (upst c ps p3) (uapi_line True ''persistent_keepalive_interval'' (uint_str (PersistentKeepalive p))) =
      Inr (upst c ps p4)" unfolding p4_def
    by (rule uapi_peer_opt) (simp_all add: uapiPeerKey_def parsePersistentKeepalive_uint_str)
  have r5: "rfold (uapiLine e) (upst c ps p4) (map (\<lambda>a. ''allowed_ip='' @ prefix_String a) (AllowedIPs p)) =
      Inr (upst c ps (device_peer p))"
    using uapi_allowed_ips [OF len(3), of e c ps p4] by (simp add: device_peer_def p1_def p2_def p3_def p4_def zeroPeer_def)
  have w: "rfold (uapiLine e) (upst c ps q) (ws_uapi_lines p) = Inr (upst c ps q)" for q
    unfolding ws_uapi_lines_def rfold_append by (simp add: uapi_peer_skip)
  then have w: "rfold (uapiLine e) (upst c ps q) (if b then ws_uapi_lines p else []) = Inr (upst c ps q)" for q b
    by simp
  have t: "rfold (uapiLine e) (upst c ps q) (uapi_line True ''transport'' v) = Inr (upst c ps q)" for q v
    by (rule uapi_peer_skip) simp
  show ?thesis
    unfolding peer_reply_lines rfold_append r1 rbind_Inr t r2 r3 w r4 r5 ..
qed

lemma storedWS_device_peer:
  assumes "peer_inv L p" "p \<in> set (Peers e)" "distinct (map PublicKey (Peers e))"
  shows "storedWS e (device_peer p) = runtime_peer p"
proof -
  have "find (\<lambda>q. PublicKey q = PublicKey p) ps = Some p" if "p \<in> set ps" "distinct (map PublicKey ps)" for ps
    using that by (induction ps) (auto simp: image_iff)
  moreover have "RxBytes p = 0" "TxBytes p = 0" "LastHandshakeTime p = 0" using assms(1) by (simp_all only: peer_inv_def)
  moreover have "PublicKey (device_peer p) = PublicKey p" by (simp add: device_peer_def)
  ultimately show ?thesis using assms(2,3)
    by (cases p) (simp add: storedWS_def copyWS_def device_peer_def runtime_peer_def zeroPeer_def)
qed

lemma read_peers_reply:
  assumes "\<And>p. p \<in> set qs \<Longrightarrow> peer_inv L p \<and> p \<in> set (Peers e)" "distinct (map PublicKey (Peers e))"
    and "u_conf (addPeer e st) = c\<lparr>Peers := ps\<rparr>"
  shows "\<exists>st'. rfold (uapiLine e) st (concat (map peer_reply qs)) = Inr st' \<and>
    u_conf (addPeer e st') = c\<lparr>Peers := ps @ map runtime_peer qs\<rparr>"
  using assms(1,3)
proof (induction qs arbitrary: st ps)
  case (Cons q qs)
  have "u_conf (addPeer e (upst c ps (device_peer q))) = c\<lparr>Peers := ps @ [runtime_peer q]\<rparr>"
    using storedWS_device_peer [of L q, OF _ _ assms(2)] Cons.prems(1) by (simp add: addPeer_def upst_def)
  with Cons.IH [of "upst c ps (device_peer q)" "ps @ [runtime_peer q]"] Cons.prems
  show ?case by (simp add: rfold_append read_peer_reply [of L])
qed simp

lemma position_upto:
  assumes "distinct (map PublicKey ps)" "n \<le> length ps" "i < n"
  shows "foldl (\<lambda>m i. m(PublicKey (ps ! i) \<mapsto> i)) Map.empty [0..<n] (PublicKey (ps ! i)) = Some i"
  using assms(2,3)
proof (induction n)
  case (Suc n)
  have "PublicKey (ps ! i) \<noteq> PublicKey (ps ! n)" if "i < n"
    using assms(1) that Suc.prems by (simp add: distinct_conv_nth)
  then show ?case using Suc by (cases "i = n") simp_all
qed simp

lemma filter_eq_distinct: "distinct xs \<Longrightarrow> k \<in> set xs \<Longrightarrow> filter (\<lambda>x. x = k) xs = [k]"
  by (induction xs) (auto simp: filter_empty_conv)

lemma sort_stored:
  assumes "distinct (map PublicKey (Peers c))" "mset qs = mset (Peers c)"
  shows "sort_key (peerPosition c) (map runtime_peer qs) = map runtime_peer (Peers c)"
proof -
  let ?f = "peerPosition c" and ?ps = "map runtime_peer (Peers c)"
  have pos: "?f (runtime_peer (Peers c ! i)) = i" if "i < length (Peers c)" for i
    using position_upto [OF assms(1) le_refl that] that by (simp add: peerPosition_def position_def runtime_peer_def)
  have m: "map ?f ?ps = [0..<length (Peers c)]"
    by (rule nth_equalityI) (simp_all add: pos)
  then have inj: "inj_on ?f (set ?ps)" "distinct ?ps"
    by (metis distinct_map distinct_upt)+
  have ms: "mset ?ps = mset (map runtime_peer qs)" using assms(2) by simp
  show ?thesis
  proof (rule properties_for_sort_key)
    fix k assume "k \<in> set ?ps"
    then have "filter (\<lambda>x. ?f k = ?f x) ?ps = filter (\<lambda>x. x = k) ?ps"
      using inj(1) by (intro filter_cong) (auto dest: inj_onD)
    also have "\<dots> = [k]" using inj(2) \<open>k \<in> set ?ps\<close> by (rule filter_eq_distinct)
    finally have f: "filter (\<lambda>x. ?f k = ?f x) ?ps = [k]" .
    have "mset (filter (\<lambda>x. ?f k = ?f x) (map runtime_peer qs)) = {#k#}"
      using f ms by (metis mset_filter mset_single_iff_right)
    then have "filter (\<lambda>x. ?f k = ?f x) (map runtime_peer qs) = [k]" by (simp only: mset_single_iff)
    then show "filter (\<lambda>x. ?f k = ?f x) ?ps = filter (\<lambda>x. ?f k = ?f x) (map runtime_peer qs)"
      using f by simp
  qed (simp_all only: m ms sorted_upt)
qed


lemma FromUAPI_reply:
  assumes "wf_config L c" and "distinct (map PublicKey (Peers c))" and "mset qs = mset (Peers c)"
    and "\<And>p. p \<in> set (Peers c) \<Longrightarrow> newline \<notin> set (Host (pEndpoint p))"
  shows "FromUAPI (uapi_reply (c\<lparr>Peers := qs\<rparr>)) c = Inr (runtime_view c)"
proof -
  let ?P = "\<lambda>l. l \<noteq> [] \<and> \<not> strings_HasPrefix l ''replace_''" and ?i = "cInterface c"
  have set: "set qs = set (Peers c)" using assms(3) by (metis set_mset_mset)
  have inv: "\<forall>p \<in> set (Peers (c\<lparr>Peers := qs\<rparr>)). peer_inv L p \<and> newline \<notin> set (Host (pEndpoint p))"
    using wf_config_peers [OF assms(1)] assms(4) set by simp
  define hd where "hd = uapi_line True ''private_key'' (hex_EncodeToString (PrivateKey ?i)) @
     uapi_line (0 < ListenPort ?i) ''listen_port'' (uint_str (ListenPort ?i))"
  have "filter ?P (concat (map peer_uapi_lines qs)) = concat (map peer_reply qs)" by (induction qs) (simp_all add: peer_reply_def)
  then have lines: "filter ?P (uapi_lines (c\<lparr>Peers := qs\<rparr>)) = hd @ concat (map peer_reply qs)"
    unfolding uapi_lines_def hd_def by (simp only: filter_append kept_line list.simps simp_thms) (simp add: strings_HasPrefix_def)
  have "one_line (filter ?P (uapi_lines (c\<lparr>Peers := qs\<rparr>)))"
    using one_line_uapi [OF inv] by (auto simp: one_line_def list_all_iff)
  then have loop: "uapiLoop c st (uapi_reply (c\<lparr>Peers := qs\<rparr>)) = rfold (uapiLine c) st (hd @ concat (map peer_reply qs))" for st
    unfolding uapi_reply_def split_ToUAPI [OF inv] by (simp add: uapiLoop_lines flip: lines)
  define conf where "conf = (runtime_view c)\<lparr>Peers := []\<rparr>"
  have "length (PrivateKey ?i) = KeyLength" using assms(1) by (simp add: wf_config_def interface_inv_def)
  then have "rfold (uapiLine c) (uapi_init c) hd = Inr ((uapi_init c)\<lparr>u_conf := conf\<rparr>)"
    unfolding hd_def uapi_line_def conf_def runtime_view_def
    by (cases ?i; cases c) (auto simp: uapiLine_def uapi_init_def uapiInterfaceKey_def hexkey.parse_enc parsePort_uint_str Let_def
      zeroConfig_def zeroInterface_def word_gt_0)
  moreover have "u_conf (addPeer c ((uapi_init c)\<lparr>u_conf := conf\<rparr>)) = conf\<lparr>Peers := []\<rparr>"
    by (simp add: addPeer_def uapi_init_def Let_def conf_def)
  then obtain st where "rfold (uapiLine c) ((uapi_init c)\<lparr>u_conf := conf\<rparr>) (concat (map peer_reply qs)) = Inr st"
    "u_conf (addPeer c st) = conf\<lparr>Peers := map runtime_peer qs\<rparr>"
    using read_peers_reply [of qs L c, OF _ assms(2)] wf_config_peers [OF assms(1)] set by fastforce
  ultimately show ?thesis
    by (simp add: FromUAPI_def loop rfold_append sort_stored [OF assms(2,3)]) (simp add: conf_def runtime_view_def)
qed

text \<open>C10. When the device repeats the settings it was sent, its peers in any order, reading the reply gives
  back the stored configuration without its comments: every key, endpoint, address and WebSocket
  setting, with the peers in their stored order.\<close>

theorem FromUAPI_device_echo:
  assumes "wf_config L c" and "distinct (map PublicKey (Peers c))" and "mset qs = mset (Peers c)"
    and "\<And>p. p \<in> set (Peers c) \<Longrightarrow> newline \<notin> set (Host (pEndpoint p))"
  shows "FromUAPI (uapi_reply (c\<lparr>Peers := qs\<rparr>)) c = Inr (runtime_view c)"
  using assms by (rule FromUAPI_reply)

theorem FromUAPI_device_echo_witness:
  "FromUAPI (uapi_reply (sample_tunnel\<lparr>Peers := Peers sample_tunnel\<rparr>)) sample_tunnel = Inr (runtime_view sample_tunnel)"
  by (rule FromUAPI_device_echo [OF sample_tunnel_wf]) (auto simp: sample_tunnel_def zeroPeer_def)

end
