(* ===== verification/WinSockaddr.thy ===== *)
theory WinSockaddr
  imports NetIP
begin

text \<open>
  The socket address union of tunnel/winipcfg/types.go. Its bytes are kept as they are laid out in
  memory: two bytes of family, then 26 bytes that a \<open>RawSockaddrInet4\<close> or a \<open>RawSockaddrInet6\<close>
  overlays. Little-endian integers in memory and big-endian ones on the wire share the digits
  of the prelude.
\<close>

section \<open>Bytes of integers\<close>

definition be_bytes :: "nat \<Rightarrow> nat \<Rightarrow> bytes" where
  "be_bytes n x = map char_of (to_digits 256 n x)"

definition be_nat :: "bytes \<Rightarrow> nat" where
  "be_nat bs = from_digits 256 (map ord bs)"

definition le_bytes :: "nat \<Rightarrow> nat \<Rightarrow> bytes" where
  "le_bytes n x = rev (be_bytes n x)"

definition le_nat :: "bytes \<Rightarrow> nat" where
  "le_nat bs = be_nat (rev bs)"

definition slice :: "nat \<Rightarrow> nat \<Rightarrow> bytes \<Rightarrow> bytes" where
  "slice off n bs = take n (drop off bs)"

definition write_at :: "nat \<Rightarrow> bytes \<Rightarrow> bytes \<Rightarrow> bytes" where
  "write_at off new bs = take off bs @ new @ drop (off + length new) bs"

section \<open>The union\<close>

definition AF_INET :: u16 where
  "AF_INET = 2"

definition AF_INET6 :: u16 where
  "AF_INET6 = 23"

record RawSockaddrInet =
  Family :: u16
  sa_data :: bytes

definition zeroSockaddr :: RawSockaddrInet where
  "zeroSockaddr = \<lparr>Family = 0, sa_data = replicate 26 (CHR 0x00)\<rparr>"

definition ntohs :: "u16 \<Rightarrow> u16" where
  "ntohs i = of_nat (be_nat (le_bytes 2 (unat i)))"

definition htons :: "u16 \<Rightarrow> u16" where
  "htons i = of_nat (le_nat (be_bytes 2 (unat i)))"

definition scope_of_zone :: "string \<Rightarrow> nat" where
  "scope_of_zone z =
     (if z \<noteq> [] then (case strconv_ParseUint z 32 of Inr s \<Rightarrow> s | Inl _ \<Rightarrow> 0) else 0)"

fun SetAddrPort :: "Addr \<Rightarrow> u16 \<Rightarrow> RawSockaddrInet \<Rightarrow> go_error + RawSockaddrInet" where
  "SetAddrPort (Addr4 a) port raw =
     (let raw = raw\<lparr>Family := AF_INET\<rparr>;
          raw = raw\<lparr>sa_data := write_at 2 (be_bytes 4 (unat a)) (sa_data raw)\<rparr>;
          raw = raw\<lparr>sa_data := write_at 0 (le_bytes 2 (unat (htons port))) (sa_data raw)\<rparr>
      in Inr (raw\<lparr>sa_data := write_at 6 (replicate 8 (CHR 0x00)) (sa_data raw)\<rparr>))"
| "SetAddrPort (Addr6 a z) port raw =
     (let raw = raw\<lparr>Family := AF_INET6\<rparr>;
          raw = raw\<lparr>sa_data := write_at 6 (be_bytes 16 (unat a)) (sa_data raw)\<rparr>;
          raw = raw\<lparr>sa_data := write_at 0 (le_bytes 2 (unat (htons port))) (sa_data raw)\<rparr>;
          raw = raw\<lparr>sa_data := write_at 2 (le_bytes 4 0) (sa_data raw)\<rparr>
      in Inr (raw\<lparr>sa_data := write_at 22 (le_bytes 4 (scope_of_zone z)) (sa_data raw)\<rparr>))"
| "SetAddrPort AddrInvalid port raw = Inl (Errno 87)"

definition SetAddr :: "Addr \<Rightarrow> RawSockaddrInet \<Rightarrow> go_error + RawSockaddrInet" where
  "SetAddr netAddr raw = SetAddrPort netAddr 0 raw"

definition sockaddr_Addr :: "RawSockaddrInet \<Rightarrow> Addr" where
  "sockaddr_Addr raw =
     (if Family raw = AF_INET then Addr4 (of_nat (be_nat (slice 2 4 (sa_data raw))))
      else if Family raw = AF_INET6 then
        let a = of_nat (be_nat (slice 6 16 (sa_data raw))); scope = le_nat (slice 22 4 (sa_data raw)) in
        Addr6 a (if scope \<noteq> 0 then nat_str scope else [])
      else AddrInvalid)"

definition sockaddr_Port :: "RawSockaddrInet \<Rightarrow> u16" where
  "sockaddr_Port raw =
     (if Family raw = AF_INET \<or> Family raw = AF_INET6 then ntohs (of_nat (le_nat (slice 0 2 (sa_data raw)))) else 0)"

section \<open>Bytes and integers\<close>

lemma length_be_bytes [simp]: "length (be_bytes n x) = n"
  by (simp add: be_bytes_def)

lemma length_le_bytes [simp]: "length (le_bytes n x) = n"
  by (simp add: le_bytes_def)

lemma be_nat_bytes [simp]: "be_nat (be_bytes n x) = x mod 256 ^ n"
proof -
  have "map ord (be_bytes n x) = to_digits 256 n x"
    unfolding be_bytes_def map_map comp_def
    by (rule map_idI) (use to_digits_less [of 256 _ n x] in simp)
  then show ?thesis by (simp add: be_nat_def from_to_digits)
qed

lemma le_nat_bytes [simp]: "le_nat (le_bytes n x) = x mod 256 ^ n"
  by (simp add: le_nat_def le_bytes_def)

lemma be_nat_less: "be_nat bs < 256 ^ length bs"
  using from_digits_less [of "map ord bs" 256] ord_less_256 by (fastforce simp: be_nat_def)

lemma be_nat_swap: "length bs = n \<Longrightarrow> be_bytes n (be_nat bs) = bs"
proof (induction bs arbitrary: n rule: rev_induct)
  case (snoc b bs)
  then have "n = Suc (length bs)" "be_bytes (length bs) (be_nat bs) = bs" by simp_all
  moreover have "(be_nat bs * 256 + ord b) div 256 = be_nat bs" using ord_less_256 [of b] by simp
  ultimately show ?case by (simp add: be_bytes_def be_nat_def)
qed (simp add: be_bytes_def)

lemma htons_ntohs [simp]: "ntohs (htons i) = i"
proof -
  have "length (be_bytes 2 (unat i)) = 2" by simp
  have "le_nat (be_bytes 2 (unat i)) < 65536" using be_nat_less [of "rev (be_bytes 2 (unat i))"] by (simp add: le_nat_def)
  then have "unat (htons i) = le_nat (be_bytes 2 (unat i))" by (simp add: htons_def unat_of_nat)
  then have "le_bytes 2 (unat (htons i)) = be_bytes 2 (unat i)" by (simp add: le_bytes_def le_nat_def be_nat_swap)
  moreover have "unat i < 65536" using unsigned_less [of i, where ?'a = nat] by simp
  ultimately show ?thesis by (simp add: ntohs_def)
qed

lemma length_write_at [simp]: "off + length new \<le> length bs \<Longrightarrow> length (write_at off new bs) = length bs"
  by (simp add: write_at_def)

lemma slice_write_at_same: "off + n \<le> length bs \<Longrightarrow> length new = n \<Longrightarrow> slice off n (write_at off new bs) = new"
  by (simp add: slice_def write_at_def)

lemma slice_write_at_other:
  "off + n \<le> off' \<or> off' + length new \<le> off \<Longrightarrow> off' + length new \<le> length bs \<Longrightarrow>
     slice off n (write_at off' new bs) = slice off n bs"
  by (auto simp: slice_def write_at_def min_def drop_take)


text \<open>The zone an address keeps: a decimal scope number other than 0.\<close>

definition scope_zone :: "string \<Rightarrow> string" where
  "scope_zone z = (if scope_of_zone z = 0 then [] else nat_str (scope_of_zone z))"

fun scoped :: "Addr \<Rightarrow> Addr" where
  "scoped (Addr6 a z) = Addr6 a (scope_zone z)"
| "scoped a = a"

lemma scope_of_zone_less: "scope_of_zone z < 2 ^ 32"
  using ParseUint_bound [of z 32] by (auto simp: scope_of_zone_def split: sum.splits)

lemma SetAddrPort_reads:
  assumes "a \<noteq> AddrInvalid" "length (sa_data raw) = 26"
  shows "\<exists>raw'. SetAddrPort a port raw = Inr raw' \<and> sockaddr_Addr raw' = scoped a \<and> sockaddr_Port raw' = port \<and>
    length (sa_data raw') = 26"
proof (cases a)
  case (Addr4 v)
  have "unat v < 2 ^ 32" "unat (htons port) < 2 ^ 16"
    using unsigned_less [of v, where ?'a = nat] unsigned_less [of "htons port", where ?'a = nat] by simp_all
  then show ?thesis
    using assms(2) Addr4
    by (simp add: sockaddr_Addr_def sockaddr_Port_def AF_INET_def slice_write_at_other slice_write_at_same)
next
  case (Addr6 v z)
  have "unat v < 2 ^ 128" "unat (htons port) < 2 ^ 16"
    using unsigned_less [of v, where ?'a = nat] unsigned_less [of "htons port", where ?'a = nat] by simp_all
  then show ?thesis
    using assms(2) Addr6 scope_of_zone_less [of z]
    by (simp add: sockaddr_Addr_def sockaddr_Port_def AF_INET_def AF_INET6_def slice_write_at_other slice_write_at_same
        scope_zone_def)
qed (use assms in simp)

text \<open>C31. A socket address holds what was stored in it: reading back address and port after \<open>SetAddrPort\<close>
  gives the same port and the same address, up to the zone of an IPv6 address, which survives
  exactly as its scope number. Only an invalid address is refused.\<close>

theorem SetAddrPort_roundtrip:
  assumes "length (sa_data raw) = 26"
  shows "(a = AddrInvalid \<longrightarrow> SetAddrPort a port raw = Inl (Errno 87)) \<and>
    (a \<noteq> AddrInvalid \<longrightarrow> (\<exists>raw'. SetAddrPort a port raw = Inr raw' \<and>
       sockaddr_Addr raw' = scoped a \<and> sockaddr_Port raw' = port \<and> length (sa_data raw') = 26))"
  using SetAddrPort_reads [OF _ assms] by simp

theorem SetAddrPort_roundtrip_witness:
  "\<exists>raw. SetAddrPort (Addr6 1 ''5'') 51820 zeroSockaddr = Inr raw \<and> sockaddr_Addr raw = Addr6 1 ''5''"
proof -
  have n: "nat_str 5 = ''5''" by (simp add: nat_str.simps digit_char_def char_of_def bit_0)
  then have "scope_of_zone ''5'' = 5" using ParseUint_nat_str [of 5 32] by (simp add: scope_of_zone_def)
  then have "scope_zone ''5'' = ''5''" by (simp add: scope_zone_def n)
  then show ?thesis
    using SetAddrPort_roundtrip [of zeroSockaddr "Addr6 1 ''5''" 51820] by (auto simp: zeroSockaddr_def)
qed

end
