(* ===== verification/DriverConf.thy ===== *)
theory DriverConf
  imports ConfUAPI WinSockaddr
begin

text \<open>
  The kernel driver's configuration block: the structures of driver/configuration_windows.go as
  they lie in memory on 64-bit Windows, the builder that appends them, and the pointer walk that
  reads them back (conf/writer.go, conf/parser.go). A pointer into the block is its offset, and
  a read outside the block, which \<open>unsafe\<close> would not stop, is \<open>None\<close>.
\<close>

section \<open>Structures\<close>

record AllowedIP =
  ipAddress :: bytes
  ipFamily :: u16
  ipCidr :: u8
  ipFlags :: u32

record DriverPeer =
  dpFlags :: u32
  dpPublicKey :: bytes
  dpPresharedKey :: bytes
  dpPersistentKeepalive :: u16
  dpEndpoint :: RawSockaddrInet
  dpTxBytes :: u64
  dpRxBytes :: u64
  dpLastHandshake :: u64
  dpAllowedIPsCount :: u32

record DriverInterface =
  diFlags :: u32
  diListenPort :: u16
  diPrivateKey :: bytes
  diPublicKey :: bytes
  diPeerCount :: u32

definition PeerHasPublicKey :: u32 where "PeerHasPublicKey = push_bit 0 1"
definition PeerHasPresharedKey :: u32 where "PeerHasPresharedKey = push_bit 1 1"
definition PeerHasPersistentKeepalive :: u32 where "PeerHasPersistentKeepalive = push_bit 2 1"
definition PeerHasEndpoint :: u32 where "PeerHasEndpoint = push_bit 3 1"
definition InterfaceHasPrivateKey :: u32 where "InterfaceHasPrivateKey = push_bit 1 1"
definition InterfaceHasListenPort :: u32 where "InterfaceHasListenPort = push_bit 2 1"

lemmas flag_defs = PeerHasPublicKey_def PeerHasPresharedKey_def PeerHasPersistentKeepalive_def PeerHasEndpoint_def
  InterfaceHasPrivateKey_def InterfaceHasListenPort_def

definition pad :: "nat \<Rightarrow> bytes" where
  "pad n = replicate n (CHR 0x00)"

definition AllowedIP_bytes :: "AllowedIP \<Rightarrow> bytes" where
  "AllowedIP_bytes a =
     ipAddress a @ le_bytes 2 (unat (ipFamily a)) @ le_bytes 1 (unat (ipCidr a)) @ pad 1 @ le_bytes 4 (unat (ipFlags a))"

definition AllowedIP_of :: "bytes \<Rightarrow> AllowedIP" where
  "AllowedIP_of bs =
     \<lparr>ipAddress = slice 0 16 bs, ipFamily = of_nat (le_nat (slice 16 2 bs)), ipCidr = of_nat (le_nat (slice 18 1 bs)),
      ipFlags = of_nat (le_nat (slice 20 4 bs))\<rparr>"

definition DriverPeer_bytes :: "DriverPeer \<Rightarrow> bytes" where
  "DriverPeer_bytes p =
     le_bytes 4 (unat (dpFlags p)) @ pad 4 @ dpPublicKey p @ dpPresharedKey p @
     le_bytes 2 (unat (dpPersistentKeepalive p)) @ pad 2 @
     le_bytes 2 (unat (Family (dpEndpoint p))) @ sa_data (dpEndpoint p) @
     le_bytes 8 (unat (dpTxBytes p)) @ le_bytes 8 (unat (dpRxBytes p)) @ le_bytes 8 (unat (dpLastHandshake p)) @
     le_bytes 4 (unat (dpAllowedIPsCount p)) @ pad 4"

definition DriverPeer_of :: "bytes \<Rightarrow> DriverPeer" where
  "DriverPeer_of bs =
     \<lparr>dpFlags = of_nat (le_nat (slice 0 4 bs)), dpPublicKey = slice 8 32 bs, dpPresharedKey = slice 40 32 bs,
      dpPersistentKeepalive = of_nat (le_nat (slice 72 2 bs)),
      dpEndpoint = \<lparr>Family = of_nat (le_nat (slice 76 2 bs)), sa_data = slice 78 26 bs\<rparr>,
      dpTxBytes = of_nat (le_nat (slice 104 8 bs)), dpRxBytes = of_nat (le_nat (slice 112 8 bs)),
      dpLastHandshake = of_nat (le_nat (slice 120 8 bs)), dpAllowedIPsCount = of_nat (le_nat (slice 128 4 bs))\<rparr>"

definition DriverInterface_bytes :: "DriverInterface \<Rightarrow> bytes" where
  "DriverInterface_bytes i =
     le_bytes 4 (unat (diFlags i)) @ le_bytes 2 (unat (diListenPort i)) @ diPrivateKey i @ diPublicKey i @ pad 2 @
     le_bytes 4 (unat (diPeerCount i)) @ pad 4"

definition DriverInterface_of :: "bytes \<Rightarrow> DriverInterface" where
  "DriverInterface_of bs =
     \<lparr>diFlags = of_nat (le_nat (slice 0 4 bs)), diListenPort = of_nat (le_nat (slice 4 2 bs)),
      diPrivateKey = slice 6 32 bs, diPublicKey = slice 38 32 bs, diPeerCount = of_nat (le_nat (slice 72 4 bs))\<rparr>"

definition sizeof_AllowedIP :: nat where "sizeof_AllowedIP = 24"
definition sizeof_Peer :: nat where "sizeof_Peer = 136"
definition sizeof_Interface :: nat where "sizeof_Interface = 80"

section \<open>Building the block\<close>

definition AppendInterface :: "DriverInterface \<Rightarrow> bytes \<Rightarrow> bytes" where
  "AppendInterface i buffer = buffer @ DriverInterface_bytes i"

definition AppendPeer :: "DriverPeer \<Rightarrow> bytes \<Rightarrow> bytes" where
  "AppendPeer p buffer = buffer @ DriverPeer_bytes p"

definition AppendAllowedIP :: "AllowedIP \<Rightarrow> bytes \<Rightarrow> bytes" where
  "AppendAllowedIP a buffer = buffer @ AllowedIP_bytes a"

fun addr_AsSlice :: "Addr \<Rightarrow> bytes" where
  "addr_AsSlice (Addr4 a) = be_bytes 4 (unat a)"
| "addr_AsSlice (Addr6 a _) = be_bytes 16 (unat a)"
| "addr_AsSlice AddrInvalid = []"

definition driverAllowedIP :: "Prefix \<Rightarrow> AllowedIP" where
  "driverAllowedIP x =
     \<lparr>ipAddress = write_at 0 (addr_AsSlice (prefix_addr x)) (pad 16),
      ipFamily = (if addr_Is4 (prefix_addr x) then AF_INET else if addr_Is6 (prefix_addr x) then AF_INET6 else 0),
      ipCidr = of_int (prefix_bits x), ipFlags = 0\<rparr>"

definition driverEndpoint :: "Endpoint \<Rightarrow> u32 \<times> RawSockaddrInet" where
  "driverEndpoint e =
     (if endpoint_IsEmpty e then (0, zeroSockaddr)
      else case netip_ParseAddr (Host e) of None \<Rightarrow> (0, zeroSockaddr)
        | Some addr \<Rightarrow>
            (PeerHasEndpoint, case SetAddrPort addr (Port e) zeroSockaddr of Inr raw \<Rightarrow> raw | Inl _ \<Rightarrow> zeroSockaddr))"

definition driverPeer :: "Peer \<Rightarrow> DriverPeer" where
  "driverPeer p =
     (let flags = or PeerHasPublicKey PeerHasPersistentKeepalive;
          flags = (if key_IsZero (PresharedKey p) then flags else or flags PeerHasPresharedKey);
          (f, endpoint) = driverEndpoint (pEndpoint p)
      in \<lparr>dpFlags = or flags f, dpPublicKey = PublicKey p, dpPresharedKey = PresharedKey p,
          dpPersistentKeepalive = PersistentKeepalive p, dpEndpoint = endpoint, dpTxBytes = 0, dpRxBytes = 0,
          dpLastHandshake = 0, dpAllowedIPsCount = of_nat (length (AllowedIPs p))\<rparr>)"

definition appendPeer :: "bytes \<Rightarrow> Peer \<Rightarrow> bytes" where
  "appendPeer buffer p =
     foldl (\<lambda>b a. AppendAllowedIP (driverAllowedIP a) b) (AppendPeer (driverPeer p) buffer) (AllowedIPs p)"

definition driverPreallocation :: "Config \<Rightarrow> nat" where
  "driverPreallocation c =
     sizeof_Interface + length (Peers c) * sizeof_Peer + sum_list (map (\<lambda>p. length (AllowedIPs p) * sizeof_AllowedIP) (Peers c))"

definition ToDriverConfiguration :: "Config \<Rightarrow> bytes" where
  "ToDriverConfiguration c =
     foldl appendPeer
       (AppendInterface \<lparr>diFlags = or InterfaceHasPrivateKey InterfaceHasListenPort,
          diListenPort = ListenPort (cInterface c), diPrivateKey = PrivateKey (cInterface c), diPublicKey = pad 32,
          diPeerCount = of_nat (length (Peers c))\<rparr> [])
       (Peers c)"

section \<open>Walking the block\<close>

definition read_at :: "bytes \<Rightarrow> nat \<Rightarrow> nat \<Rightarrow> bytes option" where
  "read_at buf off sz = (if off + sz \<le> length buf then Some (slice off sz buf) else None)"

definition FirstPeer :: "nat \<Rightarrow> nat" where
  "FirstPeer interfaze = interfaze + sizeof_Interface"

definition NextPeer :: "nat \<Rightarrow> DriverPeer \<Rightarrow> nat" where
  "NextPeer ptr p = ptr + sizeof_Peer + unat (dpAllowedIPsCount p) * sizeof_AllowedIP"

definition FirstAllowedIP :: "nat \<Rightarrow> nat" where
  "FirstAllowedIP ptr = ptr + sizeof_Peer"

definition NextAllowedIP :: "nat \<Rightarrow> nat" where
  "NextAllowedIP ptr = ptr + sizeof_AllowedIP"

definition readPrefix :: "AllowedIP \<Rightarrow> Prefix" where
  "readPrefix a =
     netip_PrefixFrom
       (if ipFamily a = AF_INET then Addr4 (of_nat (be_nat (slice 0 4 (ipAddress a))))
        else if ipFamily a = AF_INET6 then Addr6 (of_nat (be_nat (slice 0 16 (ipAddress a)))) []
        else AddrInvalid) (uint (ipCidr a))"

fun readAllowedIPs :: "bytes \<Rightarrow> nat \<Rightarrow> nat option \<Rightarrow> nat \<Rightarrow> Prefix list option" where
  "readAllowedIPs buf peer a 0 = Some []"
| "readAllowedIPs buf peer a (Suc n) =
     (let ptr = (case a of None \<Rightarrow> FirstAllowedIP peer | Some a \<Rightarrow> NextAllowedIP a) in
      case read_at buf ptr sizeof_AllowedIP of None \<Rightarrow> None
      | Some bs \<Rightarrow> map_option ((#) (readPrefix (AllowedIP_of bs))) (readAllowedIPs buf peer (Some ptr) n))"

definition readPeer :: "bytes \<Rightarrow> nat \<Rightarrow> DriverPeer \<Rightarrow> Peer option" where
  "readPeer buf ptr p =
     (let peer = zeroPeer;
          peer = (if and (dpFlags p) PeerHasPublicKey \<noteq> 0 then peer\<lparr>PublicKey := dpPublicKey p\<rparr> else peer);
          peer = (if and (dpFlags p) PeerHasPresharedKey \<noteq> 0 then peer\<lparr>PresharedKey := dpPresharedKey p\<rparr> else peer);
          peer = (if and (dpFlags p) PeerHasEndpoint \<noteq> 0
                  then peer\<lparr>pEndpoint := \<lparr>Host = addr_String (sockaddr_Addr (dpEndpoint p)), Port = sockaddr_Port (dpEndpoint p)\<rparr>\<rparr>
                  else peer);
          peer = (if and (dpFlags p) PeerHasPersistentKeepalive \<noteq> 0
                  then peer\<lparr>PersistentKeepalive := dpPersistentKeepalive p\<rparr> else peer);
          peer = peer\<lparr>TxBytes := dpTxBytes p, RxBytes := dpRxBytes p\<rparr>;
          peer = (if dpLastHandshake p \<noteq> 0
                  then peer\<lparr>LastHandshakeTime := int64 (uint ((dpLastHandshake p - 116444736000000000) * 100))\<rparr> else peer)
      in map_option (\<lambda>ips. peer\<lparr>AllowedIPs := ips\<rparr>) (readAllowedIPs buf ptr None (unat (dpAllowedIPsCount p))))"

fun readPeers :: "bytes \<Rightarrow> nat \<Rightarrow> (nat \<times> DriverPeer) option \<Rightarrow> nat \<Rightarrow> Peer list option" where
  "readPeers buf interfaze p 0 = Some []"
| "readPeers buf interfaze p (Suc n) =
     (let ptr = (case p of None \<Rightarrow> FirstPeer interfaze | Some (ptr, p) \<Rightarrow> NextPeer ptr p) in
      case read_at buf ptr sizeof_Peer of None \<Rightarrow> None
      | Some bs \<Rightarrow>
        let p = DriverPeer_of bs in
        case readPeer buf ptr p of None \<Rightarrow> None
        | Some peer \<Rightarrow> map_option ((#) peer) (readPeers buf interfaze (Some (ptr, p)) n))"

definition FromDriverConfiguration :: "bytes \<Rightarrow> Config \<Rightarrow> Config option" where
  "FromDriverConfiguration buf existingConfig =
     (case read_at buf 0 sizeof_Interface of None \<Rightarrow> None
      | Some bs \<Rightarrow>
        let interfaze = DriverInterface_of bs;
            e = cInterface existingConfig;
            i = zeroInterface\<lparr>Addresses := Addresses e, DNS := DNS e, DNSSearch := DNSSearch e, MTU := MTU e, PreUp := PreUp e,
              PostUp := PostUp e, PreDown := PreDown e, PostDown := PostDown e, TableOff := TableOff e\<rparr>;
            i = (if and (diFlags interfaze) InterfaceHasPrivateKey \<noteq> 0 then i\<lparr>PrivateKey := diPrivateKey interfaze\<rparr> else i);
            i = (if and (diFlags interfaze) InterfaceHasListenPort \<noteq> 0 then i\<lparr>ListenPort := diListenPort interfaze\<rparr> else i)
        in map_option (\<lambda>ps. zeroConfig\<lparr>Name := Name existingConfig, cInterface := i, Peers := ps\<rparr>)
             (readPeers buf 0 None (unat (diPeerCount interfaze))))"


section \<open>Fixed-size structures in a buffer\<close>

text \<open>A structure of a fixed size whose bytes determine it, and reading one from the middle of a buffer.\<close>

locale flat_struct =
  fixes sz :: nat and enc :: "'a \<Rightarrow> bytes" and dec :: "bytes \<Rightarrow> 'a" and ok :: "'a \<Rightarrow> bool"
  assumes length_enc: "ok x \<Longrightarrow> length (enc x) = sz"
    and dec_enc: "ok x \<Longrightarrow> dec (enc x) = x"
begin

lemma read_enc:
  assumes "ok x" "off = length before"
  shows "read_at (before @ enc x @ after) off sz = Some (enc x)"
  using assms by (simp add: read_at_def slice_def length_enc)

lemma length_encs: "list_all ok xs \<Longrightarrow> length (concat (map enc xs)) = length xs * sz"
  by (induction xs) (simp_all add: length_enc)

end

definition ok_AllowedIP :: "AllowedIP \<Rightarrow> bool" where
  "ok_AllowedIP a \<longleftrightarrow> length (ipAddress a) = 16"

definition ok_Peer :: "DriverPeer \<Rightarrow> bool" where
  "ok_Peer p \<longleftrightarrow> length (dpPublicKey p) = 32 \<and> length (dpPresharedKey p) = 32 \<and> length (sa_data (dpEndpoint p)) = 26"

definition ok_Interface :: "DriverInterface \<Rightarrow> bool" where
  "ok_Interface i \<longleftrightarrow> length (diPrivateKey i) = 32 \<and> length (diPublicKey i) = 32"

lemma length_pad [simp]: "length (pad n) = n"
  by (simp add: pad_def)

lemma word_bytes:
  "of_nat (unat (a :: u8) mod 256) = a" "of_nat (unat (b :: u16) mod 65536) = b"
  "of_nat (unat (c :: u32) mod 4294967296) = c" "of_nat (unat (d :: u64) mod 18446744073709551616) = d"
  using unsigned_less [of a, where ?'a = nat] unsigned_less [of b, where ?'a = nat]
    unsigned_less [of c, where ?'a = nat] unsigned_less [of d, where ?'a = nat] by simp_all

interpretation ips: flat_struct sizeof_AllowedIP AllowedIP_bytes AllowedIP_of ok_AllowedIP
  by unfold_locales
    (simp_all add: ok_AllowedIP_def AllowedIP_bytes_def AllowedIP_of_def sizeof_AllowedIP_def slice_def word_bytes)

interpretation peers: flat_struct sizeof_Peer DriverPeer_bytes DriverPeer_of ok_Peer
  by unfold_locales (simp_all add: ok_Peer_def DriverPeer_bytes_def DriverPeer_of_def sizeof_Peer_def slice_def word_bytes)

interpretation ifaces: flat_struct sizeof_Interface DriverInterface_bytes DriverInterface_of ok_Interface
  by unfold_locales
    (simp_all add: ok_Interface_def DriverInterface_bytes_def DriverInterface_of_def sizeof_Interface_def slice_def word_bytes)


section \<open>Reading back what was built\<close>

definition peer_block :: "Peer \<Rightarrow> bytes" where
  "peer_block p = DriverPeer_bytes (driverPeer p) @ concat (map AllowedIP_bytes (map driverAllowedIP (AllowedIPs p)))"

lemma appendPeer_block: "appendPeer buffer p = buffer @ peer_block p"
proof -
  have "foldl (\<lambda>b a. AppendAllowedIP (driverAllowedIP a) b) b as = b @ concat (map AllowedIP_bytes (map driverAllowedIP as))" for b as
    by (induction as arbitrary: b) (simp_all add: AppendAllowedIP_def)
  then show ?thesis by (simp add: appendPeer_def peer_block_def AppendPeer_def)
qed

definition interface_struct :: "Config \<Rightarrow> DriverInterface" where
  "interface_struct c = \<lparr>diFlags = or InterfaceHasPrivateKey InterfaceHasListenPort,
     diListenPort = ListenPort (cInterface c), diPrivateKey = PrivateKey (cInterface c), diPublicKey = pad 32,
     diPeerCount = of_nat (length (Peers c))\<rparr>"

lemma ToDriverConfiguration_blocks:
  "ToDriverConfiguration c = DriverInterface_bytes (interface_struct c) @ concat (map peer_block (Peers c))"
proof -
  have "foldl appendPeer b ps = b @ concat (map peer_block ps)" for b ps
    by (induction ps arbitrary: b) (simp_all add: appendPeer_block)
  then show ?thesis by (simp add: ToDriverConfiguration_def AppendInterface_def interface_struct_def)
qed

lemma length_addr_AsSlice: "length (addr_AsSlice a) \<le> 16"
  by (cases a) simp_all

lemma ok_driverAllowedIP: "ok_AllowedIP (driverAllowedIP x)"
  using length_addr_AsSlice by (simp add: ok_AllowedIP_def driverAllowedIP_def)

lemma ok_driverAllowedIPs: "list_all ok_AllowedIP (map driverAllowedIP as)"
  by (simp add: list_all_iff ok_driverAllowedIP)

lemma readPrefix_driver:
  assumes "wf_prefix x"
  shows "readPrefix (driverAllowedIP x) = x"
proof -
  obtain a b where x: "x = Prefix a b" by (cases x)
  have b: "0 \<le> b" "b \<le> 128" "uint (of_int b :: u8) = b"
    using assms x by (cases a; simp add: wf_prefix_def uint_word_of_int_eq take_bit_int_eq_self)+
  show ?thesis
  proof (cases a)
    case (Addr4 v)
    moreover have "unat v < 2 ^ 32" using unsigned_less [of v, where ?'a = nat] by simp
    ultimately show ?thesis
      using assms x b by (simp add: readPrefix_def driverAllowedIP_def slice_write_at_same netip_PrefixFrom_def wf_prefix_def)
  next
    case (Addr6 v z)
    moreover have "unat v < 2 ^ 128" using unsigned_less [of v, where ?'a = nat] by simp
    ultimately show ?thesis
      using assms x b by (simp add: readPrefix_def driverAllowedIP_def slice_write_at_same netip_PrefixFrom_def wf_prefix_def
        AF_INET_def AF_INET6_def)
  qed (use assms x in \<open>simp add: wf_prefix_def\<close>)
qed

lemma readAllowedIPs_block:
  assumes "list_all wf_prefix as" "(case a of None \<Rightarrow> FirstAllowedIP peer | Some a \<Rightarrow> NextAllowedIP a) = length before"
  shows "readAllowedIPs (before @ concat (map AllowedIP_bytes (map driverAllowedIP as)) @ after) peer a (length as) = Some as"
  using assms
proof (induction as arbitrary: a before)
  case (Cons x as)
  let ?e = "AllowedIP_bytes (driverAllowedIP x)"
  have "NextAllowedIP (length before) = length (before @ ?e)"
    by (simp add: NextAllowedIP_def ips.length_enc ok_driverAllowedIP)
  with Cons.IH [of "Some (length before)" "before @ ?e"] Cons.prems(1)
  have "readAllowedIPs (before @ ?e @ concat (map AllowedIP_bytes (map driverAllowedIP as)) @ after) peer (Some (length before)) (length as) = Some as"
    by simp
  then show ?case
    using Cons.prems ips.read_enc [OF ok_driverAllowedIP refl, of before x "concat (map AllowedIP_bytes (map driverAllowedIP as)) @ after"]
    by (simp add: ips.dec_enc ok_driverAllowedIP readPrefix_driver)
qed simp

text \<open>The endpoint the driver keeps: an IP address with its scope, or nothing.\<close>

definition driver_endpoint :: "Endpoint \<Rightarrow> Endpoint" where
  "driver_endpoint e =
     (if endpoint_IsEmpty e then \<lparr>Host = [], Port = 0\<rparr>
      else case netip_ParseAddr (Host e) of None \<Rightarrow> \<lparr>Host = [], Port = 0\<rparr>
        | Some a \<Rightarrow> \<lparr>Host = addr_String (scoped a), Port = Port e\<rparr>)"

definition driver_peer_view :: "Peer \<Rightarrow> Peer" where
  "driver_peer_view p = (device_peer p)\<lparr>pEndpoint := driver_endpoint (pEndpoint p)\<rparr>"


lemma driverEndpoint_cases:
  obtains "driverEndpoint e = (0, zeroSockaddr)" "driver_endpoint e = \<lparr>Host = [], Port = 0\<rparr>"
  | raw where "driverEndpoint e = (PeerHasEndpoint, raw)" "length (sa_data raw) = 26"
      "driver_endpoint e = \<lparr>Host = addr_String (sockaddr_Addr raw), Port = sockaddr_Port raw\<rparr>"
proof (cases "endpoint_IsEmpty e \<or> netip_ParseAddr (Host e) = None")
  case True
  then show ?thesis using that(1) by (auto simp: driverEndpoint_def driver_endpoint_def)
next
  case False
  then obtain a where a: "netip_ParseAddr (Host e) = Some a" "\<not> endpoint_IsEmpty e" by blast
  have "length (sa_data zeroSockaddr) = 26" by (simp add: zeroSockaddr_def)
  from SetAddrPort_reads [OF ParseAddr_zone [OF a(1)] this, of "Port e"]
  obtain raw where "SetAddrPort a (Port e) zeroSockaddr = Inr raw" "sockaddr_Addr raw = scoped a"
    "sockaddr_Port raw = Port e" "length (sa_data raw) = 26" by blast
  then show ?thesis using a by (intro that(2) [of raw]) (simp_all add: driverEndpoint_def driver_endpoint_def)
qed

lemma driverPeer_fields:
  "dpPublicKey (driverPeer p) = PublicKey p" "dpPresharedKey (driverPeer p) = PresharedKey p"
  "dpPersistentKeepalive (driverPeer p) = PersistentKeepalive p" "dpEndpoint (driverPeer p) = snd (driverEndpoint (pEndpoint p))"
  "dpTxBytes (driverPeer p) = 0" "dpRxBytes (driverPeer p) = 0" "dpLastHandshake (driverPeer p) = 0"
  "dpAllowedIPsCount (driverPeer p) = of_nat (length (AllowedIPs p))"
  by (simp_all add: driverPeer_def Let_def split: prod.split)

lemma driverPeer_flags:
  "and (dpFlags (driverPeer p)) PeerHasPublicKey \<noteq> 0" "and (dpFlags (driverPeer p)) PeerHasPersistentKeepalive \<noteq> 0"
  "and (dpFlags (driverPeer p)) PeerHasPresharedKey \<noteq> 0 \<longleftrightarrow> \<not> key_IsZero (PresharedKey p)"
  "and (dpFlags (driverPeer p)) PeerHasEndpoint \<noteq> 0 \<longleftrightarrow> fst (driverEndpoint (pEndpoint p)) \<noteq> 0"
  by (rule driverEndpoint_cases [of "pEndpoint p"]; simp add: driverPeer_def Let_def flag_defs)+

lemma ok_driverPeer:
  assumes "length (PublicKey p) = KeyLength" "length (PresharedKey p) = KeyLength"
  shows "ok_Peer (driverPeer p)"
  using assms by (cases rule: driverEndpoint_cases [of "pEndpoint p"])
    (simp_all add: ok_Peer_def driverPeer_fields KeyLength_def zeroSockaddr_def)

lemma readPeer_block:
  assumes "list_all wf_prefix (AllowedIPs p)" "length (AllowedIPs p) < 2 ^ 32"
    "length (PublicKey p) = KeyLength" "length (PresharedKey p) = KeyLength"
  shows "readPeer (before @ peer_block p @ after) (length before) (driverPeer p) = Some (driver_peer_view p)"
proof -
  have "readAllowedIPs (before @ peer_block p @ after) (length before) None (length (AllowedIPs p)) = Some (AllowedIPs p)"
    using readAllowedIPs_block [OF assms(1), where a = None and peer = "length before" and
        before = "before @ DriverPeer_bytes (driverPeer p)" and after = after] ok_driverPeer [OF assms(3,4)]
    by (simp add: peer_block_def FirstAllowedIP_def peers.length_enc)
  moreover have "unat (of_nat (length (AllowedIPs p)) :: u32) = length (AllowedIPs p)"
    using assms(2) by (simp add: unat_of_nat)
  moreover have "PeerHasEndpoint \<noteq> 0" by (simp add: PeerHasEndpoint_def)
  ultimately show ?thesis
    unfolding readPeer_def Let_def driverPeer_fields
    by (cases rule: driverEndpoint_cases [of "pEndpoint p"])
      (auto simp: driverPeer_flags driver_peer_view_def device_peer_def zeroPeer_def key_IsZero_def)
qed

definition driver_ok :: "Peer \<Rightarrow> bool" where
  "driver_ok p \<longleftrightarrow> list_all wf_prefix (AllowedIPs p) \<and> length (AllowedIPs p) < 2 ^ 32 \<and>
     length (PublicKey p) = KeyLength \<and> length (PresharedKey p) = KeyLength"

lemma length_peer_block:
  "driver_ok p \<Longrightarrow> length (peer_block p) = sizeof_Peer + length (AllowedIPs p) * sizeof_AllowedIP"
  using ips.length_encs [OF ok_driverAllowedIPs] by (simp add: peer_block_def driver_ok_def peers.length_enc ok_driverPeer)

lemma readPeers_blocks:
  assumes "list_all driver_ok ps" "(case q of None \<Rightarrow> FirstPeer 0 | Some (ptr, q) \<Rightarrow> NextPeer ptr q) = length before"
  shows "readPeers (before @ concat (map peer_block ps)) 0 q (length ps) = Some (map driver_peer_view ps)"
  using assms
proof (induction ps arbitrary: q before)
  case (Cons p ps)
  let ?rest = "concat (map peer_block ps)"
  have ok: "driver_ok p" "ok_Peer (driverPeer p)" using Cons.prems(1) ok_driverPeer by (simp_all add: driver_ok_def)
  have "NextPeer (length before) (driverPeer p) = length (before @ peer_block p)"
    using ok(1) by (simp add: NextPeer_def length_peer_block driverPeer_fields) (simp add: driver_ok_def unat_of_nat)
  with Cons.IH [of "Some (length before, driverPeer p)" "before @ peer_block p"] Cons.prems(1)
  have rest: "readPeers (before @ peer_block p @ ?rest) 0 (Some (length before, driverPeer p)) (length ps) = Some (map driver_peer_view ps)"
    by simp
  have "read_at (before @ peer_block p @ ?rest) (length before) sizeof_Peer = Some (DriverPeer_bytes (driverPeer p))"
    using peers.read_enc [OF ok(2) refl] by (simp add: peer_block_def)
  moreover have "readPeer (before @ peer_block p @ ?rest) (length before) (driverPeer p) = Some (driver_peer_view p)"
    using ok(1) by (intro readPeer_block) (simp_all add: driver_ok_def)
  ultimately show ?case
    using Cons.prems(2) rest by (simp add: Let_def peers.dec_enc [OF ok(2)])
qed simp

definition driver_view :: "Config \<Rightarrow> Config \<Rightarrow> Config" where
  "driver_view e c = (runtime_view e)\<lparr>cInterface := (cInterface e)\<lparr>iComments := zeroSection,
       PrivateKey := PrivateKey (cInterface c), ListenPort := ListenPort (cInterface c)\<rparr>,
     Peers := map driver_peer_view (Peers c)\<rparr>"


lemma FromDriver_ToDriver:
  assumes "length (PrivateKey (cInterface c)) = KeyLength" "list_all driver_ok (Peers c)" "length (Peers c) < 2 ^ 32"
  shows "FromDriverConfiguration (ToDriverConfiguration c) e = Some (driver_view e c)"
proof -
  let ?i = "interface_struct c"
  have ok: "ok_Interface ?i" using assms(1) by (simp add: ok_Interface_def interface_struct_def KeyLength_def)
  have "read_at (ToDriverConfiguration c) 0 sizeof_Interface = Some (DriverInterface_bytes ?i)"
    using ifaces.read_enc [OF ok, of 0 "[]"] by (simp add: ToDriverConfiguration_blocks)
  moreover have "FirstPeer 0 = length (DriverInterface_bytes ?i)" using ok by (simp add: FirstPeer_def ifaces.length_enc)
  then have "readPeers (ToDriverConfiguration c) 0 None (length (Peers c)) = Some (map driver_peer_view (Peers c))"
    unfolding ToDriverConfiguration_blocks by (intro readPeers_blocks [OF assms(2)]) simp
  moreover have "unat (of_nat (length (Peers c)) :: u32) = length (Peers c)" using assms(3) by (simp add: unat_of_nat)
  ultimately show ?thesis
    unfolding FromDriverConfiguration_def
    by (simp add: ifaces.dec_enc [OF ok] Let_def) (simp add: interface_struct_def flag_defs driver_view_def runtime_view_def
        zeroConfig_def zeroInterface_def)
qed

lemma wf_driver_ok: "wf_config L c \<Longrightarrow> list_all (\<lambda>p. length (AllowedIPs p) < 2 ^ 32) (Peers c) \<Longrightarrow>
    length (PrivateKey (cInterface c)) = KeyLength \<and> list_all driver_ok (Peers c)"
  by (simp add: wf_config_def interface_inv_def peer_inv_def driver_ok_def list_all_iff)

text \<open>C9. The block built for the kernel driver is read back without ever leaving it, and gives the
  configuration: keys, port and every peer with its allowed IPs, in order, each with the endpoint
  if its host is an IP address. The block fills the preallocated buffer exactly.\<close>

theorem driver_configuration_roundtrip:
  assumes "wf_config L c" "length (Peers c) < 2 ^ 32" "list_all (\<lambda>p. length (AllowedIPs p) < 2 ^ 32) (Peers c)"
  shows "FromDriverConfiguration (ToDriverConfiguration c) e = Some (driver_view e c) \<and>
    length (ToDriverConfiguration c) = driverPreallocation c"
proof -
  have ok: "length (PrivateKey (cInterface c)) = KeyLength" "list_all driver_ok (Peers c)"
    using wf_driver_ok [OF assms(1,3)] by blast+
  have "length (concat (map peer_block ps)) =
      length ps * sizeof_Peer + sum_list (map (\<lambda>p. length (AllowedIPs p) * sizeof_AllowedIP) ps)" if "list_all driver_ok ps" for ps
    using that by (induction ps) (simp_all add: length_peer_block)
  moreover have "ok_Interface (interface_struct c)"
    using ok(1) by (simp add: ok_Interface_def interface_struct_def KeyLength_def)
  ultimately have "length (ToDriverConfiguration c) = driverPreallocation c"
    using ok(2) by (simp add: ToDriverConfiguration_blocks driverPreallocation_def ifaces.length_enc)
  with FromDriver_ToDriver [OF ok assms(2)] show ?thesis by blast
qed

theorem driver_configuration_witness:
  "\<exists>c. FromDriverConfiguration (ToDriverConfiguration sample_tunnel) sample_tunnel = Some c \<and> length (Peers c) = 1"
  using driver_configuration_roundtrip [OF sample_tunnel_wf, of sample_tunnel]
  by (simp add: sample_tunnel_def driver_view_def zeroPeer_def)

section \<open>Asking the driver\<close>

text \<open>
  \<open>Configuration\<close> asks with a buffer of the last size known until the driver no longer answers
  \<open>ERROR_MORE_DATA\<close>. The driver is the parameter: \<open>drv k size\<close> is its answer to the \<open>k\<close>-th call, the
  filled buffer or an error code, with the size it reports.
\<close>

definition ERROR_MORE_DATA :: nat where
  "ERROR_MORE_DATA = 234"

partial_function (option) configurationLoop ::
  "(nat \<Rightarrow> nat \<Rightarrow> (nat + bytes) \<times> nat) \<Rightarrow> nat \<Rightarrow> nat \<Rightarrow> (go_error + bytes \<times> nat) option" where
  "configurationLoop drv k sz =
     (case drv k sz of
        (Inr buf, sz') \<Rightarrow> Some (Inr (buf, sz'))
      | (Inl e1, sz') \<Rightarrow> if e1 \<noteq> ERROR_MORE_DATA then Some (Inl (Errno e1)) else configurationLoop drv (Suc k) sz')"

definition Configuration :: "(nat \<Rightarrow> nat \<Rightarrow> (nat + bytes) \<times> nat) \<Rightarrow> nat \<Rightarrow> (go_error + bytes \<times> nat) option" where
  "Configuration drv lastGetGuessSize =
     configurationLoop drv 0 (if lastGetGuessSize = 0 then 512 else lastGetGuessSize)"

lemma configurationLoop_returns:
  assumes "\<And>k sz. n \<le> k \<Longrightarrow> need \<le> sz \<Longrightarrow> fst (drv k sz) = Inr buf"
    and "\<And>k sz. n \<le> k \<Longrightarrow> sz < need \<Longrightarrow> drv k sz = (Inl ERROR_MORE_DATA, need)"
  shows "\<exists>r. configurationLoop drv k sz = Some r"
proof (induction "n - k" arbitrary: k sz)
  case 0
  have last: "\<exists>r. configurationLoop drv k sz = Some r" if "n \<le> k" "need \<le> sz" for k sz
    using assms(1) [OF that] by (subst configurationLoop.simps) (auto split: prod.splits)
  show ?case
  proof (cases "need \<le> sz")
    case False
    then have "configurationLoop drv k sz = configurationLoop drv (Suc k) need"
      using 0 assms(2) [of k sz] by (subst configurationLoop.simps) simp
    then show ?thesis using last [of "Suc k" need] 0 by simp
  qed (use last 0 in simp)
next
  case (Suc m)
  have "m = n - Suc k" using Suc(2) by simp
  note IH = Suc(1) [OF this]
  show ?case
    by (subst configurationLoop.simps) (use IH in \<open>auto split: prod.splits sum.splits\<close>)
qed

text \<open>C34. Reading the driver's configuration ends: once the required size stops changing and the driver
  reports it with \<open>ERROR_MORE_DATA\<close>, the loop returns an answer.\<close>

theorem Configuration_returns:
  assumes "\<And>k sz. n \<le> k \<Longrightarrow> need \<le> sz \<Longrightarrow> fst (drv k sz) = Inr buf"
    and "\<And>k sz. n \<le> k \<Longrightarrow> sz < need \<Longrightarrow> drv k sz = (Inl ERROR_MORE_DATA, need)"
  shows "\<exists>r. Configuration drv guess = Some r"
  unfolding Configuration_def by (rule configurationLoop_returns [of n need drv buf]) (fact assms)+

theorem Configuration_returns_witness:
  "\<exists>r. Configuration (\<lambda>k sz. if sz < 1000 then (Inl ERROR_MORE_DATA, 1000) else (Inr (replicate 1000 (CHR 0x00)), 1000)) 0 = Some r"
  by (rule Configuration_returns [where n = 0 and need = 1000 and buf = "replicate 1000 (CHR 0x00)"]) simp_all

end
