(* ===== verification/GoProg.thy ===== *)
theory GoProg
  imports GoNumbers
begin

text \<open>
  Go code that calls the platform: a program is a function from the state of the platform to a
  result, an error or a value, and the next state. \<open>pbind\<close> is \<open>x, err := m(); if err != nil { return err }\<close>, \<open>peach\<close> a
  loop that returns at the first error. \<open>pvalid\<close> is a Hoare triple with a postcondition for each of
  the two ways a program returns, and the rules of this theory carry the proofs of the
  components that use it.
\<close>

type_synonym ('s, 'e, 'a) eprog = "'s \<Rightarrow> ('e + 'a) \<times> 's"
type_synonym ('s, 'a) prog = "('s, go_error, 'a) eprog"

definition pbind :: "('s, 'e, 'a) eprog \<Rightarrow> ('a \<Rightarrow> ('s, 'e, 'b) eprog) \<Rightarrow> ('s, 'e, 'b) eprog" where
  "pbind m f s = (case m s of (Inl e, s') \<Rightarrow> (Inl e, s') | (Inr x, s') \<Rightarrow> f x s')"

definition preturn :: "'a \<Rightarrow> ('s, 'e, 'a) eprog" where
  "preturn x s = (Inr x, s)"

definition pfail :: "'e \<Rightarrow> ('s, 'e, 'a) eprog" where
  "pfail e s = (Inl e, s)"

text \<open>A pure fallible computation, and an error passed through a function on its way out.\<close>

definition plift :: "'e + 'a \<Rightarrow> ('s, 'e, 'a) eprog" where
  "plift r s = (r, s)"

definition pcatch :: "('e \<Rightarrow> 'f) \<Rightarrow> ('s, 'e, 'a) eprog \<Rightarrow> ('s, 'f, 'a) eprog" where
  "pcatch h m s = (case m s of (Inl e, s') \<Rightarrow> (Inl (h e), s') | (Inr x, s') \<Rightarrow> (Inr x, s'))"

definition pwhen :: "bool \<Rightarrow> ('s, 'e, unit) eprog \<Rightarrow> ('s, 'e, unit) eprog" where
  "pwhen b m = (if b then m else preturn ())"

fun peach :: "('a \<Rightarrow> ('s, 'e, unit) eprog) \<Rightarrow> 'a list \<Rightarrow> ('s, 'e, unit) eprog" where
  "peach f [] = preturn ()"
| "peach f (x # xs) = pbind (f x) (\<lambda>_. peach f xs)"

text \<open>\<open>windows.GUID\<close>, which the firewall and the network configuration share.\<close>

record GUID =
  Data1 :: u32
  Data2 :: u16
  Data3 :: u16
  Data4 :: "u8 list"

text \<open>What \<open>golang.org/x/sys/windows\<close> shares: error numbers, and strings for Windows, which cannot hold NUL.\<close>

definition ERROR_BUFFER_OVERFLOW :: go_error where "ERROR_BUFFER_OVERFLOW = Errno 111"
definition ERROR_ALREADY_EXISTS :: go_error where "ERROR_ALREADY_EXISTS = Errno 183"
definition EINVAL :: go_error where "EINVAL = Errno 536870951"

definition UTF16PtrFromString :: "string \<Rightarrow> go_error + string" where
  "UTF16PtrFromString s = (if CHR 0x00 \<in> set s then Inl EINVAL else Inr s)"

section \<open>Hoare triples\<close>

named_theorems prog_rules \<open>rules of the triples\<close>

definition pvalid :: "('s \<Rightarrow> bool) \<Rightarrow> ('s, 'e, 'a) eprog \<Rightarrow> ('a \<Rightarrow> 's \<Rightarrow> bool) \<Rightarrow> ('e \<Rightarrow> 's \<Rightarrow> bool) \<Rightarrow> bool" where
  "pvalid P m Q E \<longleftrightarrow> (\<forall>s. P s \<longrightarrow> (case m s of (Inl e, s') \<Rightarrow> E e s' | (Inr x, s') \<Rightarrow> Q x s'))"

lemma pvalidI:
  assumes "\<And>s x s'. P s \<Longrightarrow> m s = (Inr x, s') \<Longrightarrow> Q x s'" "\<And>s e s'. P s \<Longrightarrow> m s = (Inl e, s') \<Longrightarrow> E e s'"
  shows "pvalid P m Q E"
  using assms unfolding pvalid_def by (auto split: prod.split sum.split)

lemma pvalid_Inr: "pvalid P m Q E \<Longrightarrow> P s \<Longrightarrow> m s = (Inr x, s') \<Longrightarrow> Q x s'"
  by (force simp: pvalid_def)

lemma pvalid_Inl: "pvalid P m Q E \<Longrightarrow> P s \<Longrightarrow> m s = (Inl e, s') \<Longrightarrow> E e s'"
  by (force simp: pvalid_def)

lemma pvalid_weaken:
  assumes "pvalid P m Q E" "\<And>s. P' s \<Longrightarrow> P s" "\<And>x s. Q x s \<Longrightarrow> Q' x s" "\<And>e s. E e s \<Longrightarrow> E' e s"
  shows "pvalid P' m Q' E'"
  using assms unfolding pvalid_def by (fastforce split: prod.splits sum.splits)

lemma pvalid_pre: "pvalid P m Q E \<Longrightarrow> (\<And>s. P' s \<Longrightarrow> P s) \<Longrightarrow> pvalid P' m Q E"
  by (erule pvalid_weaken)

lemma pvalid_return [prog_rules]: "(\<And>s. P s \<Longrightarrow> Q x s) \<Longrightarrow> pvalid P (preturn x) Q E"
  by (simp add: pvalid_def preturn_def)

lemma pvalid_fail [prog_rules]: "(\<And>s. P s \<Longrightarrow> E e s) \<Longrightarrow> pvalid P (pfail e) Q E"
  by (simp add: pvalid_def pfail_def)

lemma pvalid_lift [prog_rules]:
  "(\<And>x s. r = Inr x \<Longrightarrow> P s \<Longrightarrow> Q x s) \<Longrightarrow> (\<And>e s. r = Inl e \<Longrightarrow> P s \<Longrightarrow> E e s) \<Longrightarrow> pvalid P (plift r) Q E"
  by (cases r) (simp_all add: pvalid_def plift_def)

lemma pvalid_bind [prog_rules]:
  assumes "pvalid P m R E" "\<And>x. pvalid (R x) (f x) Q E"
  shows "pvalid P (pbind m f) Q E"
proof (rule pvalidI)
  fix s x s' assume "P s" "pbind m f s = (Inr x, s')"
  then obtain y s1 where "m s = (Inr y, s1)" "f y s1 = (Inr x, s')"
    by (auto simp: pbind_def split: prod.splits sum.splits)
  with assms \<open>P s\<close> show "Q x s'" by (blast dest: pvalid_Inr)
next
  fix s e s' assume "P s" "pbind m f s = (Inl e, s')"
  then consider "m s = (Inl e, s')" | y s1 where "m s = (Inr y, s1)" "f y s1 = (Inl e, s')"
    by (auto simp: pbind_def split: prod.splits sum.splits)
  then show "E e s'" using assms \<open>P s\<close> by cases (blast dest: pvalid_Inr pvalid_Inl)+
qed

lemma pvalid_catch [prog_rules]: "pvalid P m Q (\<lambda>e. E (h e)) \<Longrightarrow> pvalid P (pcatch h m) Q E"
  by (force simp: pvalid_def pcatch_def split: prod.splits sum.splits)

lemma pvalid_when [prog_rules]:
  "(b \<Longrightarrow> pvalid P m Q E) \<Longrightarrow> (\<And>s. \<not> b \<Longrightarrow> P s \<Longrightarrow> Q () s) \<Longrightarrow> pvalid P (pwhen b m) Q E"
  by (simp add: pwhen_def pvalid_return)

lemma pvalid_each:
  assumes "\<And>xs y zs. ys = xs @ y # zs \<Longrightarrow> pvalid (I xs) (f y) (\<lambda>_. I (xs @ [y])) E"
  shows "pvalid (I []) (peach f ys) (\<lambda>_. I ys) E"
proof -
  have "pvalid (I xs) (peach f zs) (\<lambda>_. I ys) E" if "ys = xs @ zs" for xs zs
    using that
  proof (induction zs arbitrary: xs)
    case (Cons z zs)
    then show ?case using assms [of xs z zs] by (auto intro!: pvalid_bind)
  qed (simp add: pvalid_return)
  from this [of "[]" ys] show ?thesis by simp
qed

lemma pvalid_conj: "pvalid P m Q E \<Longrightarrow> pvalid P' m Q' E' \<Longrightarrow>
    pvalid (\<lambda>s. P s \<and> P' s) m (\<lambda>x s. Q x s \<and> Q' x s) (\<lambda>e s. E e s \<and> E' e s)"
  by (force simp: pvalid_def split: prod.splits sum.splits)

lemma pvalid_bind_lift:
  "(\<And>x. r = Inr x \<Longrightarrow> pvalid P (f x) Q E) \<Longrightarrow> (\<And>e s. r = Inl e \<Longrightarrow> P s \<Longrightarrow> E e s) \<Longrightarrow> pvalid P (pbind (plift r) f) Q E"
  by (cases r) (auto simp: pvalid_def pbind_def plift_def)

lemma pvalid_pure: "(b \<Longrightarrow> pvalid P m Q E) \<Longrightarrow> pvalid (\<lambda>s. P s \<and> b) m Q E"
  by (cases b) (simp_all add: pvalid_def)

lemma total_triple:
  assumes "\<And>s. fst (m s) = Inr x" "\<And>s. P s \<Longrightarrow> Q x (snd (m s))"
  shows "pvalid P m Q E"
  by (rule pvalidI) (metis assms fst_conv snd_conv sum.inject(2) sum.distinct(1))+

section \<open>Programs without errors\<close>

text \<open>Programs that return without an error from every state.\<close>

definition succeeds :: "('s, 'e, 'a) eprog \<Rightarrow> bool" where
  "succeeds m \<longleftrightarrow> (\<forall>s. \<exists>x s'. m s = (Inr x, s'))"

lemma succeedsE: "succeeds m \<Longrightarrow> (\<And>x s'. m s = (Inr x, s') \<Longrightarrow> P) \<Longrightarrow> P"
  unfolding succeeds_def by blast

lemma succeeds_return: "succeeds (preturn x)"
  by (simp add: succeeds_def preturn_def)

lemma succeeds_lift: "succeeds (plift (Inr x))"
  by (simp add: succeeds_def plift_def)

lemma succeeds_bind: "succeeds m \<Longrightarrow> (\<And>x. succeeds (f x)) \<Longrightarrow> succeeds (pbind m f)"
  unfolding succeeds_def pbind_def by (metis (no_types, lifting) case_prod_conv sum.case(2))

lemma succeeds_catch:
  assumes "succeeds m"
  shows "succeeds (pcatch h m)"
  unfolding succeeds_def
proof
  fix s
  from assms obtain x s' where "m s = (Inr x, s')" by (rule succeedsE)
  then show "\<exists>x s'. pcatch h m s = (Inr x, s')" by (simp add: pcatch_def)
qed

lemma succeeds_when: "(b \<Longrightarrow> succeeds m) \<Longrightarrow> succeeds (pwhen b m)"
  by (simp add: pwhen_def succeeds_return)

lemma succeeds_if: "(b \<Longrightarrow> succeeds m) \<Longrightarrow> (\<not> b \<Longrightarrow> succeeds m') \<Longrightarrow> succeeds (if b then m else m')"
  by simp

lemmas succeeds_rules = succeeds_return succeeds_lift succeeds_bind succeeds_catch succeeds_when succeeds_if

lemma succeeds_each: "(\<And>x. x \<in> set xs \<Longrightarrow> succeeds (f x)) \<Longrightarrow> succeeds (peach f xs)"
  by (induction xs) (simp_all add: succeeds_rules)

end
