(* ===== verification/WinIPCfg.thy ===== *)
theory WinIPCfg
  imports WinSockaddr GoProg
begin

text \<open>
  Package tunnel/winipcfg: addresses, routes and DNS of a network interface (luid.go, winipcfg.go, types.go).
  The IP helper library of Windows is not part of the sources: its calls are the fields of the
  parameter \<open>N\<close>. A row keeps the fields the program uses; the others are its \<open>rest\<close>. \<open>net_laws\<close> states what the
  platform documents of the calls, over the view \<open>netview\<close> of its state, and the triples of this
  theory show what each operation of the package makes of that view.
\<close>

section \<open>Rows\<close>

record MibUnicastIPAddressRow =
  ua_Address :: RawSockaddrInet
  ua_InterfaceLUID :: u64
  ua_ValidLifetime :: u32
  ua_PreferredLifetime :: u32
  ua_OnLinkPrefixLength :: u8
  ua_DadState :: u32
  ua_rest :: bytes

record IPAddressPrefix =
  RawPrefix :: RawSockaddrInet
  PrefixLength :: u8

record MibIPforwardRow2 =
  fr_InterfaceLUID :: u64
  fr_InterfaceIndex :: u32
  fr_DestinationPrefix :: IPAddressPrefix
  fr_NextHop :: RawSockaddrInet
  fr_ValidLifetime :: u32
  fr_PreferredLifetime :: u32
  fr_Metric :: u32
  fr_rest :: bytes

record MibIPInterfaceRow =
  ip_Family :: u16
  ip_InterfaceLUID :: u64
  ip_UseAutomaticMetric :: bool
  ip_ManagedAddressConfigurationSupported :: bool
  ip_OtherStatefulConfigurationSupported :: bool
  ip_RouterDiscoveryBehavior :: int
  ip_DadTransmits :: u32
  ip_SitePrefixLength :: u32
  ip_Metric :: u32
  ip_NLMTU :: u32
  ip_rest :: bytes

record MibIfRow2 =
  if_OperStatus :: u32
  if_MTU :: u32

record IPAdapterAddresses =
  aa_LUID :: u64
  aa_OperStatus :: u32
  aa_Unicast :: "(bytes \<times> u8) list"

record RouteData =
  Destination :: Prefix
  NextHop :: Addr
  Metric :: u32

record DnsInterfaceSettings =
  dns_Flags :: u64
  dns_NameServer :: string
  dns_SearchList :: string

definition RouterDiscoveryDisabled :: int where "RouterDiscoveryDisabled = 0"
definition DadStatePreferred :: u32 where "DadStatePreferred = 4"
definition IfOperStatusUp :: u32 where "IfOperStatusUp = 1"
definition AF_UNSPEC :: u16 where "AF_UNSPEC = 0"

definition DnsInterfaceSettingsFlagIPv6 :: u64 where "DnsInterfaceSettingsFlagIPv6 = 1"
definition DnsInterfaceSettingsFlagNameserver :: u64 where "DnsInterfaceSettingsFlagNameserver = 2"
definition DnsInterfaceSettingsFlagSearchList :: u64 where "DnsInterfaceSettingsFlagSearchList = 4"

text \<open>Windows error numbers.\<close>

definition ERROR_PROC_NOT_FOUND :: go_error where "ERROR_PROC_NOT_FOUND = Errno 127"
definition ERROR_NOT_FOUND :: go_error where "ERROR_NOT_FOUND = Errno 1168"
definition ERROR_PROTOCOL_UNREACHABLE :: go_error where "ERROR_PROTOCOL_UNREACHABLE = Errno 1233"
definition ERROR_OBJECT_ALREADY_EXISTS :: go_error where "ERROR_OBJECT_ALREADY_EXISTS = Errno 5010"

section \<open>The platform\<close>

text \<open>
  A registry key is named by its path. \<open>notifyDnscache\<close> is the attempt to tell the DNS cache service, whose
  errors the program ignores.
\<close>

record 's netio =
  initUnicastRow :: MibUnicastIPAddressRow
  initForwardRow :: MibIPforwardRow2
  initIPInterfaceRow :: MibIPInterfaceRow
  getUnicastIPAddressTable :: "u16 \<Rightarrow> ('s, MibUnicastIPAddressRow list) prog"
  createUnicastIPAddressEntry :: "MibUnicastIPAddressRow \<Rightarrow> ('s, unit) prog"
  deleteUnicastIPAddressEntry :: "MibUnicastIPAddressRow \<Rightarrow> ('s, unit) prog"
  getIPForwardTable2 :: "u16 \<Rightarrow> ('s, MibIPforwardRow2 list) prog"
  getIPForwardEntry2 :: "MibIPforwardRow2 \<Rightarrow> ('s, MibIPforwardRow2) prog"
  createIPForwardEntry2 :: "MibIPforwardRow2 \<Rightarrow> ('s, unit) prog"
  deleteIPForwardEntry2 :: "MibIPforwardRow2 \<Rightarrow> ('s, unit) prog"
  getIPInterfaceEntry :: "MibIPInterfaceRow \<Rightarrow> ('s, MibIPInterfaceRow) prog"
  setIPInterfaceEntry :: "MibIPInterfaceRow \<Rightarrow> ('s, unit) prog"
  getIfEntry2 :: "u64 \<Rightarrow> ('s, MibIfRow2) prog"
  sysGetAdaptersAddresses :: "u16 \<Rightarrow> u32 \<Rightarrow> ('s, go_error \<times> u32, IPAdapterAddresses list) eprog"
  convertInterfaceLUIDToGUID :: "u64 \<Rightarrow> ('s, GUID) prog"
  setInterfaceDnsSettings :: "GUID \<Rightarrow> DnsInterfaceSettings \<Rightarrow> ('s, unit) prog"
  registry_CreateKey :: "string \<Rightarrow> ('s, unit) prog"
  registry_SetStringValue :: "string \<Rightarrow> string \<Rightarrow> string \<Rightarrow> ('s, unit) prog"
  notifyDnscache :: "'s \<Rightarrow> 's"
  guid_String :: "GUID \<Rightarrow> string"

section \<open>Interfaces\<close>

definition patchSitePrefixLength :: "MibIPInterfaceRow \<Rightarrow> MibIPInterfaceRow" where
  "patchSitePrefixLength row =
     (if ip_Family row = AF_INET then
        (if 32 < ip_SitePrefixLength row then row\<lparr>ip_SitePrefixLength := 0\<rparr> else row)
      else if ip_Family row = AF_INET6 then
        (if 128 < ip_SitePrefixLength row then row\<lparr>ip_SitePrefixLength := 128\<rparr> else row)
      else row)"

definition ipInterfaceRow_get :: "'s netio \<Rightarrow> MibIPInterfaceRow \<Rightarrow> ('s, MibIPInterfaceRow) prog" where
  "ipInterfaceRow_get N row = pbind (getIPInterfaceEntry N row) (\<lambda>row. preturn (patchSitePrefixLength row))"

definition IPInterface :: "'s netio \<Rightarrow> u64 \<Rightarrow> u16 \<Rightarrow> ('s, MibIPInterfaceRow) prog" where
  "IPInterface N luid family =
     ipInterfaceRow_get N ((initIPInterfaceRow N)\<lparr>ip_InterfaceLUID := luid, ip_Family := family\<rparr>)"

definition luid_Interface :: "'s netio \<Rightarrow> u64 \<Rightarrow> ('s, MibIfRow2) prog" where
  "luid_Interface N luid = getIfEntry2 N luid"

lemma unat_u32_less: "unat (x :: u32) < 4294967296"
  using unsigned_less [of x, where ?'a = nat] by simp

text \<open>The buffer grows until the call fits; the sizes strictly increase, so the loop ends.\<close>

function adaptersLoop :: "'s netio \<Rightarrow> u16 \<Rightarrow> u32 \<Rightarrow> ('s, IPAdapterAddresses list) prog" where
  "adaptersLoop N family sz s =
     (case sysGetAdaptersAddresses N family sz s of
        (Inr adapters, s) \<Rightarrow> (Inr adapters, s)
      | (Inl (err, size'), s) \<Rightarrow>
          (if err \<noteq> ERROR_BUFFER_OVERFLOW \<or> size' \<le> sz then (Inl err, s) else adaptersLoop N family size' s))"
  by pat_completeness auto
termination
  by (relation "measure (\<lambda>(N, family, sz, s). 2 ^ 32 - unat sz)")
    (auto simp: not_le word_less_nat_alt unat_u32_less intro!: diff_less_mono2)

declare adaptersLoop.simps [simp del]

definition GetAdaptersAddresses :: "'s netio \<Rightarrow> u16 \<Rightarrow> ('s, IPAdapterAddresses list) prog" where
  "GetAdaptersAddresses N family = adaptersLoop N family 15000"

section \<open>Addresses\<close>

definition AddIPAddress :: "'s netio \<Rightarrow> u64 \<Rightarrow> Prefix \<Rightarrow> ('s, unit) prog" where
  "AddIPAddress N luid address =
     pbind (plift (SetAddr (prefix_addr address) (ua_Address (initUnicastRow N)))) (\<lambda>a.
       createUnicastIPAddressEntry N ((initUnicastRow N)\<lparr>ua_Address := a, ua_InterfaceLUID := luid,
         ua_ValidLifetime := 0xffffffff, ua_PreferredLifetime := 0xffffffff,
         ua_OnLinkPrefixLength := of_int (prefix_bits address), ua_DadState := DadStatePreferred\<rparr>))"

definition AddIPAddresses :: "'s netio \<Rightarrow> u64 \<Rightarrow> Prefix list \<Rightarrow> ('s, unit) prog" where
  "AddIPAddresses N luid addresses = peach (AddIPAddress N luid) addresses"

text \<open>The loop deletes the rows of the interface and ignores the errors.\<close>

fun deleteAddresses :: "'s netio \<Rightarrow> u64 \<Rightarrow> MibUnicastIPAddressRow list \<Rightarrow> ('s, unit) prog" where
  "deleteAddresses N luid [] s = (Inr (), s)"
| "deleteAddresses N luid (r # t) s =
     deleteAddresses N luid t (if ua_InterfaceLUID r = luid then snd (deleteUnicastIPAddressEntry N r s) else s)"

definition FlushIPAddresses :: "'s netio \<Rightarrow> u64 \<Rightarrow> u16 \<Rightarrow> ('s, unit) prog" where
  "FlushIPAddresses N luid family = pbind (getUnicastIPAddressTable N family) (deleteAddresses N luid)"

definition SetIPAddresses :: "'s netio \<Rightarrow> u64 \<Rightarrow> Prefix list \<Rightarrow> ('s, unit) prog" where
  "SetIPAddresses N luid addresses = pbind (FlushIPAddresses N luid AF_UNSPEC) (\<lambda>_. AddIPAddresses N luid addresses)"

text \<open>The \<open>continue\<close> of the loops over one family.\<close>

definition skipFamily :: "u16 \<Rightarrow> Addr \<Rightarrow> bool" where
  "skipFamily family a \<longleftrightarrow> \<not> addr_Is4 a \<and> family = AF_INET \<or> \<not> addr_Is6 a \<and> family = AF_INET6"

definition SetIPAddressesForFamily :: "'s netio \<Rightarrow> u64 \<Rightarrow> u16 \<Rightarrow> Prefix list \<Rightarrow> ('s, unit) prog" where
  "SetIPAddressesForFamily N luid family addresses =
     pbind (FlushIPAddresses N luid family) (\<lambda>_.
       peach (\<lambda>a. if skipFamily family (prefix_addr a) then preturn () else AddIPAddress N luid a) addresses)"

definition DeleteIPAddress :: "'s netio \<Rightarrow> u64 \<Rightarrow> Prefix \<Rightarrow> ('s, unit) prog" where
  "DeleteIPAddress N luid address =
     pbind (plift (SetAddr (prefix_addr address) (ua_Address (initUnicastRow N)))) (\<lambda>a.
       deleteUnicastIPAddressEntry N ((initUnicastRow N)\<lparr>ua_Address := a, ua_InterfaceLUID := luid,
         ua_OnLinkPrefixLength := of_int (prefix_bits address)\<rparr>))"

section \<open>Routes\<close>

definition SetPrefix :: "Prefix \<Rightarrow> IPAddressPrefix \<Rightarrow> go_error + IPAddressPrefix" where
  "SetPrefix netPrefix p =
     rbind (SetAddr (prefix_addr netPrefix) (RawPrefix p)) (\<lambda>raw.
       Inr \<lparr>RawPrefix = raw, PrefixLength = of_int (prefix_bits netPrefix)\<rparr>)"

definition prefix_Prefix :: "IPAddressPrefix \<Rightarrow> Prefix" where
  "prefix_Prefix p =
     (if Family (RawPrefix p) = AF_INET \<or> Family (RawPrefix p) = AF_INET6
      then netip_PrefixFrom (addr_withoutZone (sockaddr_Addr (RawPrefix p))) (uint (PrefixLength p))
      else Prefix AddrInvalid (-1))"

definition routeRow :: "'s netio \<Rightarrow> u64 \<Rightarrow> Prefix \<Rightarrow> Addr \<Rightarrow> go_error + MibIPforwardRow2" where
  "routeRow N luid destination nextHop =
     rbind (SetPrefix destination (fr_DestinationPrefix (initForwardRow N))) (\<lambda>dst.
     rbind (SetAddr nextHop (fr_NextHop (initForwardRow N))) (\<lambda>hop.
       Inr ((initForwardRow N)\<lparr>fr_InterfaceLUID := luid, fr_DestinationPrefix := dst, fr_NextHop := hop\<rparr>)))"

definition Route :: "'s netio \<Rightarrow> u64 \<Rightarrow> Prefix \<Rightarrow> Addr \<Rightarrow> ('s, MibIPforwardRow2) prog" where
  "Route N luid destination nextHop =
     pbind (plift (routeRow N luid destination nextHop)) (\<lambda>row.
       getIPForwardEntry2 N (row\<lparr>fr_ValidLifetime := 0xffffffff, fr_PreferredLifetime := 0xffffffff\<rparr>))"

definition AddRoute :: "'s netio \<Rightarrow> u64 \<Rightarrow> Prefix \<Rightarrow> Addr \<Rightarrow> u32 \<Rightarrow> ('s, unit) prog" where
  "AddRoute N luid destination nextHop metric =
     pbind (plift (routeRow N luid destination nextHop)) (\<lambda>row. createIPForwardEntry2 N (row\<lparr>fr_Metric := metric\<rparr>))"

definition addRouteData :: "'s netio \<Rightarrow> u64 \<Rightarrow> RouteData \<Rightarrow> ('s, unit) prog" where
  "addRouteData N luid rd = AddRoute N luid (Destination rd) (NextHop rd) (Metric rd)"

definition AddRoutes :: "'s netio \<Rightarrow> u64 \<Rightarrow> RouteData list \<Rightarrow> ('s, unit) prog" where
  "AddRoutes N luid routesData = peach (addRouteData N luid) routesData"

text \<open>The loop deletes the routes of the interface, goes on after an error and returns the last one.\<close>

fun deleteRoutes :: "'s netio \<Rightarrow> u64 \<Rightarrow> MibIPforwardRow2 list \<Rightarrow> go_error option \<Rightarrow> ('s, unit) prog" where
  "deleteRoutes N luid [] err s = (case err of None \<Rightarrow> (Inr (), s) | Some e \<Rightarrow> (Inl e, s))"
| "deleteRoutes N luid (r # t) err s =
     (if fr_InterfaceLUID r = luid then
        (case deleteIPForwardEntry2 N r s of
           (Inl err2, s) \<Rightarrow> deleteRoutes N luid t (Some err2) s
         | (Inr _, s) \<Rightarrow> deleteRoutes N luid t err s)
      else deleteRoutes N luid t err s)"

definition FlushRoutes :: "'s netio \<Rightarrow> u64 \<Rightarrow> u16 \<Rightarrow> ('s, unit) prog" where
  "FlushRoutes N luid family = pbind (getIPForwardTable2 N family) (\<lambda>t. deleteRoutes N luid t None)"

definition SetRoutes :: "'s netio \<Rightarrow> u64 \<Rightarrow> RouteData list \<Rightarrow> ('s, unit) prog" where
  "SetRoutes N luid routesData = pbind (FlushRoutes N luid AF_UNSPEC) (\<lambda>_. AddRoutes N luid routesData)"

definition SetRoutesForFamily :: "'s netio \<Rightarrow> u64 \<Rightarrow> u16 \<Rightarrow> RouteData list \<Rightarrow> ('s, unit) prog" where
  "SetRoutesForFamily N luid family routesData =
     pbind (FlushRoutes N luid family) (\<lambda>_.
       peach (\<lambda>rd. if skipFamily family (prefix_addr (Destination rd)) then preturn () else addRouteData N luid rd) routesData)"

definition DeleteRoute :: "'s netio \<Rightarrow> u64 \<Rightarrow> Prefix \<Rightarrow> Addr \<Rightarrow> ('s, unit) prog" where
  "DeleteRoute N luid destination nextHop =
     pbind (plift (routeRow N luid destination nextHop)) (\<lambda>row.
     pbind (getIPForwardEntry2 N row) (deleteIPForwardEntry2 N))"

section \<open>DNS\<close>

definition dnsRegPath :: "'s netio \<Rightarrow> u16 \<Rightarrow> GUID \<Rightarrow> string" where
  "dnsRegPath N family guid =
     strings_Join [''SYSTEM'', ''CurrentControlSet'', ''Services'', if family = AF_INET then ''Tcpip'' else ''Tcpip6'',
       ''Parameters'', ''Interfaces'', guid_String N guid] [CHR 0x5C]"

definition setDNSRegistry :: "'s netio \<Rightarrow> u16 \<Rightarrow> GUID \<Rightarrow> string \<Rightarrow> string \<Rightarrow> ('s, unit) prog" where
  "setDNSRegistry N family guid servers domains =
     (let regPath = dnsRegPath N family guid in
      pbind (pcatch (Wrapped ''opening interface registry key'') (registry_CreateKey N regPath)) (\<lambda>_.
      pbind (pcatch (Wrapped ''setting NameServer registry value'') (registry_SetStringValue N regPath ''NameServer'' servers)) (\<lambda>_.
      pbind (pcatch (Wrapped ''setting SearchList registry value'') (registry_SetStringValue N regPath ''SearchList'' domains)) (\<lambda>_ s.
        (Inr (), notifyDnscache N s)))))"

definition dnsSettings :: "u16 \<Rightarrow> string \<Rightarrow> string \<Rightarrow> DnsInterfaceSettings" where
  "dnsSettings family servers16 domains16 =
     (let flags = or DnsInterfaceSettingsFlagNameserver DnsInterfaceSettingsFlagSearchList in
      \<lparr>dns_Flags = (if family = AF_INET6 then or flags DnsInterfaceSettingsFlagIPv6 else flags),
       dns_NameServer = servers16, dns_SearchList = domains16\<rparr>)"

definition familyServers :: "u16 \<Rightarrow> Addr list \<Rightarrow> string" where
  "familyServers family servers =
     strings_Join (map addr_String (filter (\<lambda>a. addr_Is4 a \<and> family = AF_INET \<or> addr_Is6 a \<and> family = AF_INET6) servers)) '',''"

definition SetDNS :: "'s netio \<Rightarrow> u64 \<Rightarrow> u16 \<Rightarrow> Addr list \<Rightarrow> string list \<Rightarrow> ('s, unit) prog" where
  "SetDNS N luid family servers domains =
     (if family \<noteq> AF_INET \<and> family \<noteq> AF_INET6 then pfail ERROR_PROTOCOL_UNREACHABLE
      else
        pbind (plift (UTF16PtrFromString (familyServers family servers))) (\<lambda>servers16.
        pbind (plift (UTF16PtrFromString (strings_Join domains '',''))) (\<lambda>domains16.
        pbind (convertInterfaceLUIDToGUID N luid) (\<lambda>guid s.
          case setInterfaceDnsSettings N guid (dnsSettings family servers16 domains16) s of
            (Inr _, s) \<Rightarrow> (Inr (), s)
          | (Inl err, s) \<Rightarrow>
              if err \<noteq> ERROR_PROC_NOT_FOUND then (Inl err, s)
              else setDNSRegistry N family guid servers16 domains16 s))))"

definition FlushDNS :: "'s netio \<Rightarrow> u64 \<Rightarrow> u16 \<Rightarrow> ('s, unit) prog" where
  "FlushDNS N luid family = SetDNS N luid family [] []"

section \<open>What the platform promises\<close>

text \<open>
  The view of the platform's state: addresses \<open>(interface, address, prefix length)\<close>, routes \<open>(interface, destination,
  prefix length, next hop, metric)\<close>, the settings of each interface and family, the DNS settings and the
  values in the registry. An interface has one GUID; a table lists the entries of its family; creating an entry adds it, deleting one removes what
  its key names, and a call that fails changes nothing.
\<close>

type_synonym addr_entry = "u64 \<times> Addr \<times> u8"
type_synonym route_entry = "u64 \<times> Addr \<times> u8 \<times> Addr \<times> u32"

record netview =
  v_addrs :: "addr_entry set"
  v_routes :: "route_entry set"
  v_ipif :: "u64 \<times> u16 \<Rightarrow> MibIPInterfaceRow"
  v_dns :: "GUID \<times> bool \<Rightarrow> string \<times> string"
  v_reg :: "string \<times> string \<Rightarrow> string"

definition addr_entry :: "MibUnicastIPAddressRow \<Rightarrow> addr_entry" where
  "addr_entry r = (ua_InterfaceLUID r, sockaddr_Addr (ua_Address r), ua_OnLinkPrefixLength r)"

fun addr_key :: "addr_entry \<Rightarrow> u64 \<times> Addr" where
  "addr_key (l, a, n) = (l, a)"

definition route_entry :: "MibIPforwardRow2 \<Rightarrow> route_entry" where
  "route_entry r = (fr_InterfaceLUID r, sockaddr_Addr (RawPrefix (fr_DestinationPrefix r)),
     PrefixLength (fr_DestinationPrefix r), sockaddr_Addr (fr_NextHop r), fr_Metric r)"

fun route_key :: "route_entry \<Rightarrow> u64 \<times> Addr \<times> u8 \<times> Addr" where
  "route_key (l, d, n, h, m) = (l, d, n, h)"

definition in_family :: "u16 \<Rightarrow> Addr \<Rightarrow> bool" where
  "in_family family a \<longleftrightarrow> family = AF_UNSPEC \<or> family = AF_INET \<and> addr_Is4 a \<or> family = AF_INET6 \<and> addr_Is6 a"

text \<open>\<open>keeps view m\<close>: the call changes nothing of the view. \<open>updates view m f\<close>: it applies \<open>f\<close> when it succeeds.\<close>

definition updates :: "('s \<Rightarrow> netview) \<Rightarrow> ('s, 'a) prog \<Rightarrow> (netview \<Rightarrow> netview) \<Rightarrow> bool" where
  "updates view m f \<longleftrightarrow> (\<forall>v. pvalid (\<lambda>s. view s = v) m (\<lambda>_ s. view s = f v) (\<lambda>_ s. view s = v))"

definition keeps :: "('s \<Rightarrow> netview) \<Rightarrow> ('s, 'e, 'a) eprog \<Rightarrow> bool" where
  "keeps view m \<longleftrightarrow> (\<forall>s. view (snd (m s)) = view s)"

definition address_laws :: "'s netio \<Rightarrow> ('s \<Rightarrow> netview) \<Rightarrow> bool" where
  "address_laws N view \<longleftrightarrow>
     length (sa_data (ua_Address (initUnicastRow N))) = 26 \<and>
     (\<forall>family. keeps view (getUnicastIPAddressTable N family)) \<and>
     (\<forall>family s t s'. getUnicastIPAddressTable N family s = (Inr t, s') \<longrightarrow>
        addr_entry ` set t = {e \<in> v_addrs (view s). in_family family (fst (snd e))}) \<and>
     (\<forall>r. updates view (createUnicastIPAddressEntry N r) (v_addrs_update (insert (addr_entry r)))) \<and>
     (\<forall>r. updates view (deleteUnicastIPAddressEntry N r) (v_addrs_update (\<lambda>A. {e \<in> A. addr_key e \<noteq> addr_key (addr_entry r)}))) \<and>
     (\<forall>family sz. keeps view (sysGetAdaptersAddresses N family sz))"

definition route_laws :: "'s netio \<Rightarrow> ('s \<Rightarrow> netview) \<Rightarrow> bool" where
  "route_laws N view \<longleftrightarrow>
     length (sa_data (RawPrefix (fr_DestinationPrefix (initForwardRow N)))) = 26 \<and>
     length (sa_data (fr_NextHop (initForwardRow N))) = 26 \<and>
     (\<forall>family. keeps view (getIPForwardTable2 N family)) \<and>
     (\<forall>family s t s'. getIPForwardTable2 N family s = (Inr t, s') \<longrightarrow>
        route_entry ` set t = {e \<in> v_routes (view s). in_family family (fst (snd e))}) \<and>
     (\<forall>r. keeps view (getIPForwardEntry2 N r)) \<and>
     (\<forall>r s r' s'. getIPForwardEntry2 N r s = (Inr r', s') \<longrightarrow> route_key (route_entry r') = route_key (route_entry r)) \<and>
     (\<forall>r. updates view (createIPForwardEntry2 N r) (v_routes_update (insert (route_entry r)))) \<and>
     (\<forall>r. updates view (deleteIPForwardEntry2 N r) (v_routes_update (\<lambda>A. {e \<in> A. route_key e \<noteq> route_key (route_entry r)})))"

definition interface_laws :: "'s netio \<Rightarrow> ('s \<Rightarrow> netview) \<Rightarrow> (u64 \<Rightarrow> GUID) \<Rightarrow> bool" where
  "interface_laws N view guid_of \<longleftrightarrow>
     (\<forall>r. keeps view (getIPInterfaceEntry N r)) \<and>
     (\<forall>r s r' s'. getIPInterfaceEntry N r s = (Inr r', s') \<longrightarrow>
        ip_InterfaceLUID r' = ip_InterfaceLUID r \<and> ip_Family r' = ip_Family r) \<and>
     (\<forall>r. updates view (setIPInterfaceEntry N r) (v_ipif_update (\<lambda>m. m((ip_InterfaceLUID r, ip_Family r) := r)))) \<and>
     (\<forall>luid. keeps view (getIfEntry2 N luid)) \<and> (\<forall>luid. keeps view (convertInterfaceLUIDToGUID N luid)) \<and>
     (\<forall>luid s g s'. convertInterfaceLUIDToGUID N luid s = (Inr g, s') \<longrightarrow> g = guid_of luid) \<and>
     (\<forall>g d. updates view (setInterfaceDnsSettings N g d)
        (v_dns_update (\<lambda>m. m((g, and (dns_Flags d) DnsInterfaceSettingsFlagIPv6 \<noteq> 0) := (dns_NameServer d, dns_SearchList d))))) \<and>
     (\<forall>p. keeps view (registry_CreateKey N p)) \<and>
     (\<forall>p n x. updates view (registry_SetStringValue N p n x) (v_reg_update (\<lambda>m. m((p, n) := x)))) \<and>
     (\<forall>s. view (notifyDnscache N s) = view s)"

text \<open>The service may delete the addresses of its interface.\<close>

definition deletes_allowed :: "'s netio \<Rightarrow> ('s \<Rightarrow> netview) \<Rightarrow> bool" where
  "deletes_allowed N view \<longleftrightarrow>
     (\<forall>r s. addr_key (addr_entry r) \<in> addr_key ` v_addrs (view s) \<longrightarrow> fst (deleteUnicastIPAddressEntry N r s) = Inr ())"

section \<open>What the operations do\<close>

lemma keeps_triple: "keeps view m \<Longrightarrow> pvalid (\<lambda>s. view s = v) m (\<lambda>_ s. view s = v) (\<lambda>_ s. view s = v)"
  by (auto simp: keeps_def intro!: pvalidI) (metis snd_conv)+

lemma updates_triple: "updates view m f \<Longrightarrow> pvalid (\<lambda>s. view s = v) m (\<lambda>_ s. view s = f v) (\<lambda>_ s. view s = v)"
  by (simp add: updates_def)

lemma updates_cases: "updates view m f \<Longrightarrow> view (snd (m s)) = (case fst (m s) of Inl _ \<Rightarrow> view s | Inr _ \<Rightarrow> f (view s))"
  by (cases "m s"; cases "fst (m s)") (auto simp: updates_def dest: pvalid_Inl pvalid_Inr)

lemma updates_bind_lift:
  "(\<And>x. r = Inr x \<Longrightarrow> updates view (f x) g) \<Longrightarrow> updates view (pbind (plift r) f) g"
  by (cases r) (simp_all add: updates_def pvalid_def pbind_def plift_def)

lemma updates_bind_keeps:
  assumes "keeps view m" "\<And>x. updates view (f x) g"
  shows "updates view (pbind m f) g"
  using assms unfolding updates_def by (blast intro: pvalid_bind keeps_triple)

lemma updates_catch: "updates view m f \<Longrightarrow> updates view (pcatch h m) f"
  by (simp add: updates_def pvalid_catch)

lemma SetAddr_Inr: "SetAddr a raw = Inr raw' \<Longrightarrow> length (sa_data raw) = 26 \<Longrightarrow> sockaddr_Addr raw' = scoped a"
  using SetAddrPort_reads [of a raw 0] by (cases a) (auto simp: SetAddr_def)

lemma create_address:
  "address_laws N view \<Longrightarrow> addr_entry r = e \<Longrightarrow> updates view (createUnicastIPAddressEntry N r) (v_addrs_update (insert e))"
  by (auto simp: address_laws_def)

lemma delete_address:
  "address_laws N view \<Longrightarrow> addr_key (addr_entry r) = k \<Longrightarrow>
     updates view (deleteUnicastIPAddressEntry N r) (v_addrs_update (\<lambda>A. {e \<in> A. addr_key e \<noteq> k}))"
  by (auto simp: address_laws_def)

lemma create_route:
  "route_laws N view \<Longrightarrow> route_entry r = e \<Longrightarrow> updates view (createIPForwardEntry2 N r) (v_routes_update (insert e))"
  by (auto simp: route_laws_def)

lemma delete_route:
  "route_laws N view \<Longrightarrow> route_key (route_entry r) = k \<Longrightarrow>
     updates view (deleteIPForwardEntry2 N r) (v_routes_update (\<lambda>A. {e \<in> A. route_key e \<noteq> k}))"
  by (auto simp: route_laws_def)

lemma unicast_address:
  "address_laws N view \<Longrightarrow> SetAddr a (ua_Address (initUnicastRow N)) = Inr raw \<Longrightarrow> sockaddr_Addr raw = scoped a"
  by (auto simp: address_laws_def intro: SetAddr_Inr)

lemma AddIPAddress_updates:
  assumes "address_laws N view"
  shows "updates view (AddIPAddress N luid p)
    (v_addrs_update (insert (luid, scoped (prefix_addr p), of_int (prefix_bits p))))"
  unfolding AddIPAddress_def using assms
  by (intro updates_bind_lift create_address) (simp_all add: addr_entry_def unicast_address)

lemma DeleteIPAddress_updates:
  assumes "address_laws N view"
  shows "updates view (DeleteIPAddress N luid p) (v_addrs_update (\<lambda>A. {e \<in> A. addr_key e \<noteq> (luid, scoped (prefix_addr p))}))"
  unfolding DeleteIPAddress_def using assms
  by (intro updates_bind_lift delete_address) (simp_all add: addr_entry_def unicast_address)

lemma routeRow_entry:
  assumes "route_laws N view" "routeRow N luid d h = Inr r"
  shows "route_entry (r\<lparr>fr_Metric := m\<rparr>) = (luid, scoped (prefix_addr d), of_int (prefix_bits d), scoped h, m)"
  using assms by (auto simp: routeRow_def SetPrefix_def route_laws_def route_entry_def rbind_eq_Inr dest: SetAddr_Inr)

lemma AddRoute_updates:
  assumes "route_laws N view"
  shows "updates view (AddRoute N luid d h m)
    (v_routes_update (insert (luid, scoped (prefix_addr d), of_int (prefix_bits d), scoped h, m)))"
  unfolding AddRoute_def by (intro updates_bind_lift create_route [OF assms] routeRow_entry [OF assms])

lemma route_key_metric: "route_key (route_entry (r\<lparr>fr_Metric := m\<rparr>)) = route_key (route_entry r)"
  by (simp add: route_entry_def)

lemma DeleteRoute_updates:
  assumes "route_laws N view"
  shows "updates view (DeleteRoute N luid d h)
    (v_routes_update (\<lambda>A. {e \<in> A. route_key e \<noteq> (luid, scoped (prefix_addr d), of_int (prefix_bits d), scoped h)}))"
  unfolding DeleteRoute_def
proof (rule updates_bind_lift)
  fix r assume "routeRow N luid d h = Inr r"
  then have k: "route_key (route_entry r) = (luid, scoped (prefix_addr d), of_int (prefix_bits d), scoped h)"
    using routeRow_entry [OF assms, where m = 0] route_key_metric [of 0 r] by simp
  show "updates view (pbind (getIPForwardEntry2 N r) (deleteIPForwardEntry2 N))
      (v_routes_update (\<lambda>A. {e \<in> A. route_key e \<noteq> (luid, scoped (prefix_addr d), of_int (prefix_bits d), scoped h)}))"
    unfolding updates_def
  proof (rule allI, rule pvalid_bind)
    fix v
    show "pvalid (\<lambda>s. view s = v) (getIPForwardEntry2 N r)
        (\<lambda>r' s. view s = v \<and> route_key (route_entry r') = route_key (route_entry r)) (\<lambda>_ s. view s = v)"
      using assms by (auto simp: route_laws_def keeps_def intro!: pvalidI) (metis snd_conv)+
    show "pvalid (\<lambda>s. view s = v \<and> route_key (route_entry r') = route_key (route_entry r)) (deleteIPForwardEntry2 N r')
        (\<lambda>_ s. view s = v_routes_update (\<lambda>A. {e \<in> A. route_key e \<noteq> (luid, scoped (prefix_addr d), of_int (prefix_bits d), scoped h)}) v)
        (\<lambda>_ s. view s = v)" for r'
    proof (cases "route_key (route_entry r') = route_key (route_entry r)")
      case True
      with k have "route_key (route_entry r') = (luid, scoped (prefix_addr d), of_int (prefix_bits d), scoped h)" by simp
      from updates_triple [OF delete_route [OF assms this]] show ?thesis by (rule pvalid_pre) simp
    qed (simp add: pvalid_def)
  qed
qed

section \<open>Setting the addresses and routes of a family\<close>

lemma scoped_no_zone: "addr_Zone a = [] \<Longrightarrow> scoped a = a"
  by (cases a) (auto simp: scope_zone_def scope_of_zone_def)

lemma scoped_family [simp]: "in_family family (scoped a) = in_family family a"
  by (cases a) (auto simp: in_family_def)

lemma not_skipFamily: "family = AF_INET \<or> family = AF_INET6 \<Longrightarrow> skipFamily family a \<longleftrightarrow> \<not> in_family family a"
  by (auto simp: skipFamily_def in_family_def AF_INET_def AF_INET6_def AF_UNSPEC_def)

definition address_of :: "u64 \<Rightarrow> Prefix \<Rightarrow> addr_entry" where
  "address_of luid p = (luid, scoped (prefix_addr p), of_int (prefix_bits p))"

definition route_of :: "u64 \<Rightarrow> RouteData \<Rightarrow> route_entry" where
  "route_of luid rd = (luid, scoped (prefix_addr (Destination rd)), of_int (prefix_bits (Destination rd)), scoped (NextHop rd), Metric rd)"

lemma keepsD: "keeps view m \<Longrightarrow> m s = (r, s') \<Longrightarrow> view s' = view s"
  by (metis keeps_def snd_conv)

lemma keeps_result:
  assumes "keeps view m" "\<And>s x s'. m s = (Inr x, s') \<Longrightarrow> P x (view s)"
  shows "pvalid (\<lambda>s. view s = v) m (\<lambda>x s. view s = v \<and> P x v) (\<lambda>_ s. view s = v)"
  by (rule pvalidI) (use assms keepsD [OF assms(1)] in blast)+

lemma filter_no_key: "k \<notin> f ` A \<Longrightarrow> {e \<in> A. f e \<noteq> k} = A"
  by blast

lemma delete_address_view:
  assumes "address_laws N view" "deletes_allowed N view"
  shows "view (snd (deleteUnicastIPAddressEntry N r s)) =
    v_addrs_update (\<lambda>A. {e \<in> A. addr_key e \<noteq> addr_key (addr_entry r)}) (view s)"
proof (cases "fst (deleteUnicastIPAddressEntry N r s)")
  case (Inl e)
  with assms(2) have "addr_key (addr_entry r) \<notin> addr_key ` v_addrs (view s)"
    unfolding deletes_allowed_def by (metis sum.distinct(1))
  then have "{e \<in> v_addrs (view s). addr_key e \<noteq> addr_key (addr_entry r)} = v_addrs (view s)"
    by (rule filter_no_key)
  then have "v_addrs_update (\<lambda>A. {e \<in> A. addr_key e \<noteq> addr_key (addr_entry r)}) (view s) = view s" by simp
  then show ?thesis using updates_cases [OF delete_address [OF assms(1) refl], of r s] Inl by simp
qed (use updates_cases [OF delete_address [OF assms(1) refl], of r s] in simp)

lemma deleteAddresses_view:
  assumes "address_laws N view" "deletes_allowed N view"
  shows "fst (deleteAddresses N luid t s) = Inr () \<and> view (snd (deleteAddresses N luid t s)) =
    v_addrs_update (\<lambda>A. {e \<in> A. addr_key e \<notin> (addr_key \<circ> addr_entry) ` {r \<in> set t. ua_InterfaceLUID r = luid}}) (view s)"
proof (induction t arbitrary: s)
  case (Cons r t)
  have "{x. (x = r \<or> x \<in> set t) \<and> ua_InterfaceLUID x = luid} =
      (if ua_InterfaceLUID r = luid then insert r {x \<in> set t. ua_InterfaceLUID x = luid} else {x \<in> set t. ua_InterfaceLUID x = luid})"
    by auto
  then show ?case
    using Cons delete_address_view [OF assms, of r s] by (auto intro: netview.equality)
qed simp

lemma family_keys:
  fixes entry :: "'r \<Rightarrow> u64 \<times> Addr \<times> 'x"
  assumes t: "entry ` set t = {e \<in> A. in_family family (fst (snd e))}"
    and l: "\<And>r. fst (entry r) = owner r"
    and k: "\<And>e e'. key e = key e' \<Longrightarrow> fst e = fst e' \<and> fst (snd e) = fst (snd e')"
  shows "{e \<in> A. key e \<notin> (key \<circ> entry) ` {r \<in> set t. owner r = luid}} =
    {e \<in> A. \<not> (fst e = luid \<and> in_family family (fst (snd e)))}"
proof (intro Collect_cong conj_cong refl)
  fix e assume e: "e \<in> A"
  have "key e \<in> (key \<circ> entry) ` {r \<in> set t. owner r = luid} \<longleftrightarrow> fst e = luid \<and> in_family family (fst (snd e))"
  proof
    assume "key e \<in> (key \<circ> entry) ` {r \<in> set t. owner r = luid}"
    then obtain r where r: "r \<in> set t" "owner r = luid" "key e = key (entry r)" by auto
    then have "in_family family (fst (snd (entry r)))" using t by blast
    with k [OF r(3)] l [of r] r(2) show "fst e = luid \<and> in_family family (fst (snd e))" by simp
  next
    assume f: "fst e = luid \<and> in_family family (fst (snd e))"
    with e t obtain r where "r \<in> set t" "e = entry r" by blast
    with f l [of r] show "key e \<in> (key \<circ> entry) ` {r \<in> set t. owner r = luid}" by auto
  qed
  then show "key e \<notin> (key \<circ> entry) ` {r \<in> set t. owner r = luid} \<longleftrightarrow> \<not> (fst e = luid \<and> in_family family (fst (snd e)))"
    by blast
qed

lemma addr_family_keys:
  "addr_entry ` set t = {e \<in> A. in_family family (fst (snd e))} \<Longrightarrow>
   {e \<in> A. addr_key e \<notin> (addr_key \<circ> addr_entry) ` {r \<in> set t. ua_InterfaceLUID r = luid}} =
   {e \<in> A. \<not> (fst e = luid \<and> in_family family (fst (snd e)))}"
  by (rule family_keys) (auto simp: addr_entry_def)

lemma route_family_keys:
  "route_entry ` set t = {e \<in> A. in_family family (fst (snd e))} \<Longrightarrow>
   {e \<in> A. route_key e \<notin> (route_key \<circ> route_entry) ` {r \<in> set t. fr_InterfaceLUID r = luid}} =
   {e \<in> A. \<not> (fst e = luid \<and> in_family family (fst (snd e)))}"
  by (rule family_keys) (auto simp: route_entry_def)

lemma FlushIPAddresses_updates:
  assumes "address_laws N view" "deletes_allowed N view"
  shows "updates view (FlushIPAddresses N luid family)
    (v_addrs_update (\<lambda>A. {e \<in> A. \<not> (fst e = luid \<and> in_family family (fst (snd e)))}))"
  unfolding updates_def FlushIPAddresses_def
proof (rule allI, rule pvalid_bind)
  fix v
  show "pvalid (\<lambda>s. view s = v) (getUnicastIPAddressTable N family)
      (\<lambda>t s. view s = v \<and> addr_entry ` set t = {e \<in> v_addrs v. in_family family (fst (snd e))}) (\<lambda>_ s. view s = v)"
    using assms(1) unfolding address_laws_def by (intro keeps_result [where P = "\<lambda>t v. addr_entry ` set t = {e \<in> v_addrs v. in_family family (fst (snd e))}"]) simp_all
  show "pvalid (\<lambda>s. view s = v \<and> addr_entry ` set t = {e \<in> v_addrs v. in_family family (fst (snd e))}) (deleteAddresses N luid t)
      (\<lambda>_ s. view s = v_addrs_update (\<lambda>A. {e \<in> A. \<not> (fst e = luid \<and> in_family family (fst (snd e)))}) v) (\<lambda>_ s. view s = v)" for t
    using deleteAddresses_view [OF assms, of luid t] addr_family_keys [of t "v_addrs v" family luid]
    by (intro total_triple [where x = "()"]) auto
qed

lemma deleteRoutes_success:
  assumes "route_laws N view" "deleteRoutes N luid t err s = (Inr (), s')"
  shows "err = None \<and> view s' =
    v_routes_update (\<lambda>A. {e \<in> A. route_key e \<notin> (route_key \<circ> route_entry) ` {r \<in> set t. fr_InterfaceLUID r = luid}}) (view s)"
  using assms(2)
proof (induction t arbitrary: err s)
  case (Cons r t)
  show ?case
  proof (cases "fr_InterfaceLUID r = luid")
    case True
    obtain x s1 where d: "deleteIPForwardEntry2 N r s = (Inr x, s1)"
      using Cons True by (fastforce split: prod.splits sum.splits)
    have v1: "view s1 = v_routes_update (\<lambda>A. {e \<in> A. route_key e \<noteq> route_key (route_entry r)}) (view s)"
      using updates_cases [OF delete_route [OF assms(1) refl], of r s] d by simp
    have "{x. (x = r \<or> x \<in> set t) \<and> fr_InterfaceLUID x = luid} = insert r {x \<in> set t. fr_InterfaceLUID x = luid}"
      using True by auto
    then show ?thesis using Cons.IH [of err s1] Cons.prems d True v1 by (auto intro: netview.equality)
  next
    case False
    then have "{x. (x = r \<or> x \<in> set t) \<and> fr_InterfaceLUID x = luid} = {x \<in> set t. fr_InterfaceLUID x = luid}" by auto
    then show ?thesis using Cons.IH [of err s] Cons.prems False by simp
  qed
qed (simp split: option.splits)

lemma FlushRoutes_triple:
  assumes "route_laws N view"
  shows "pvalid (\<lambda>s. view s = v) (FlushRoutes N luid family)
    (\<lambda>_ s. view s = v_routes_update (\<lambda>A. {e \<in> A. \<not> (fst e = luid \<and> in_family family (fst (snd e)))}) v) (\<lambda>_ _. True)"
  unfolding FlushRoutes_def
proof (rule pvalid_bind)
  show "pvalid (\<lambda>s. view s = v) (getIPForwardTable2 N family)
      (\<lambda>t s. view s = v \<and> route_entry ` set t = {e \<in> v_routes v. in_family family (fst (snd e))}) (\<lambda>_ _. True)"
    using assms unfolding route_laws_def
    by (intro pvalid_weaken [OF keeps_result [where P = "\<lambda>t v. route_entry ` set t = {e \<in> v_routes v. in_family family (fst (snd e))}"]]) auto
  show "pvalid (\<lambda>s. view s = v \<and> route_entry ` set t = {e \<in> v_routes v. in_family family (fst (snd e))}) (deleteRoutes N luid t None)
      (\<lambda>_ s. view s = v_routes_update (\<lambda>A. {e \<in> A. \<not> (fst e = luid \<and> in_family family (fst (snd e)))}) v) (\<lambda>_ _. True)" for t
    using deleteRoutes_success [OF assms, of luid t None] route_family_keys [of t "v_routes v" family luid]
    by (intro pvalidI) auto
qed

lemma each_inserts:
  fixes upd :: "('e set \<Rightarrow> 'e set) \<Rightarrow> netview \<Rightarrow> netview"
  assumes f: "\<And>y. updates view (f y) (upd (insert (entry y)))"
    and upd: "\<And>g h v. upd g (upd h v) = upd (g \<circ> h) v" "\<And>v. upd (\<lambda>A. A) v = v"
  shows "pvalid (\<lambda>s. view s = v) (peach (\<lambda>y. if skip y then preturn () else f y) ys)
    (\<lambda>_ s. view s = upd (\<lambda>A. A \<union> entry ` {y \<in> set ys. \<not> skip y}) v) (\<lambda>_ _. True)"
proof (rule pvalid_pre)
  let ?I = "\<lambda>xs s. view s = upd (\<lambda>A. A \<union> entry ` {y \<in> set xs. \<not> skip y}) v"
  show "pvalid (?I []) (peach (\<lambda>y. if skip y then preturn () else f y) ys) (\<lambda>_. ?I ys) (\<lambda>_ _. True)"
  proof (rule pvalid_each)
    fix xs y zs
    have "{x. (x = y \<or> x \<in> set xs) \<and> \<not> skip x} = (if skip y then {x \<in> set xs. \<not> skip x} else insert y {x \<in> set xs. \<not> skip x})"
      by auto
    then show "pvalid (?I xs) (if skip y then preturn () else f y) (\<lambda>_. ?I (xs @ [y])) (\<lambda>_ _. True)"
      using pvalid_weaken [OF updates_triple [OF f [of y]], of "?I xs" "upd (\<lambda>A. A \<union> entry ` {y \<in> set xs. \<not> skip y}) v" "\<lambda>_. ?I (xs @ [y])" "\<lambda>_ _. True"]
      by (auto simp: upd comp_def intro: pvalid_return)
  qed
qed (simp add: upd)

lemma SetRoutesForFamily_triple:
  assumes "route_laws N view"
  shows "pvalid (\<lambda>s. view s = v) (SetRoutesForFamily N luid family rds)
    (\<lambda>_ s. view s = v_routes_update (\<lambda>A. {e \<in> A. \<not> (fst e = luid \<and> in_family family (fst (snd e)))} \<union>
       route_of luid ` {rd \<in> set rds. \<not> skipFamily family (prefix_addr (Destination rd))}) v) (\<lambda>_ _. True)"
  unfolding SetRoutesForFamily_def
proof (rule pvalid_bind [OF FlushRoutes_triple [OF assms]])
  have "updates view (addRouteData N luid rd) (v_routes_update (insert (route_of luid rd)))" for rd
    unfolding addRouteData_def route_of_def by (rule AddRoute_updates [OF assms])
  note step = each_inserts [where upd = v_routes_update and entry = "route_of luid", OF this,
      of "v_routes_update (\<lambda>A. {e \<in> A. \<not> (fst e = luid \<and> in_family family (fst (snd e)))}) v"
        "\<lambda>rd. skipFamily family (prefix_addr (Destination rd))" rds]
  show "pvalid (\<lambda>s. view s = v_routes_update (\<lambda>A. {e \<in> A. \<not> (fst e = luid \<and> in_family family (fst (snd e)))}) v)
      (peach (\<lambda>rd. if skipFamily family (prefix_addr (Destination rd)) then preturn () else addRouteData N luid rd) rds)
      (\<lambda>_ s. view s = v_routes_update (\<lambda>A. {e \<in> A. \<not> (fst e = luid \<and> in_family family (fst (snd e)))} \<union>
       route_of luid ` {rd \<in> set rds. \<not> skipFamily family (prefix_addr (Destination rd))}) v) (\<lambda>_ _. True)"
    using step by (simp add: comp_def)
qed

lemma SetIPAddressesForFamily_triple:
  assumes "address_laws N view" "deletes_allowed N view"
  shows "pvalid (\<lambda>s. view s = v) (SetIPAddressesForFamily N luid family as)
    (\<lambda>_ s. view s = v_addrs_update (\<lambda>A. {e \<in> A. \<not> (fst e = luid \<and> in_family family (fst (snd e)))} \<union>
       address_of luid ` {a \<in> set as. \<not> skipFamily family (prefix_addr a)}) v) (\<lambda>_ _. True)"
  unfolding SetIPAddressesForFamily_def
proof (rule pvalid_bind)
  show "pvalid (\<lambda>s. view s = v) (FlushIPAddresses N luid family)
      (\<lambda>_ s. view s = v_addrs_update (\<lambda>A. {e \<in> A. \<not> (fst e = luid \<and> in_family family (fst (snd e)))}) v) (\<lambda>_ _. True)"
    by (rule pvalid_weaken [OF updates_triple [OF FlushIPAddresses_updates [OF assms]]]) auto
  have "updates view (AddIPAddress N luid a) (v_addrs_update (insert (address_of luid a)))" for a
    unfolding address_of_def by (rule AddIPAddress_updates [OF assms(1)])
  note step = each_inserts [where upd = v_addrs_update and entry = "address_of luid", OF this,
      of "v_addrs_update (\<lambda>A. {e \<in> A. \<not> (fst e = luid \<and> in_family family (fst (snd e)))}) v"
        "\<lambda>a. skipFamily family (prefix_addr a)" as]
  show "pvalid (\<lambda>s. view s = v_addrs_update (\<lambda>A. {e \<in> A. \<not> (fst e = luid \<and> in_family family (fst (snd e)))}) v)
      (peach (\<lambda>a. if skipFamily family (prefix_addr a) then preturn () else AddIPAddress N luid a) as)
      (\<lambda>_ s. view s = v_addrs_update (\<lambda>A. {e \<in> A. \<not> (fst e = luid \<and> in_family family (fst (snd e)))} \<union>
       address_of luid ` {a \<in> set as. \<not> skipFamily family (prefix_addr a)}) v) (\<lambda>_ _. True)"
    using step by (simp add: comp_def)
qed

lemma setDNSRegistry_triple:
  assumes "interface_laws N view guid_of"
  shows "pvalid (\<lambda>s. view s = v) (setDNSRegistry N family g x y)
    (\<lambda>_ s. view s = v_reg_update (\<lambda>m. m((dnsRegPath N family g, ''NameServer'') := x, (dnsRegPath N family g, ''SearchList'') := y)) v)
    (\<lambda>_ _. True)"
proof -
  have create: "pvalid (\<lambda>s. view s = v) (registry_CreateKey N p) (\<lambda>_ s. view s = v) (\<lambda>_ _. True)" for p
    using assms by (intro pvalid_weaken [OF keeps_triple]) (auto simp: interface_laws_def)
  have set: "pvalid (\<lambda>s. view s = w) (registry_SetStringValue N p n z) (\<lambda>_ s. view s = v_reg_update (\<lambda>m. m((p, n) := z)) w)
      (\<lambda>_ _. True)" for w p n z
    using assms by (intro pvalid_weaken [OF updates_triple [where f = "v_reg_update (\<lambda>m. m((p, n) := z))" and v = w]])
      (auto simp: interface_laws_def)
  have notify: "pvalid (\<lambda>s. view s = w) (\<lambda>s. (Inr (), notifyDnscache N s)) (\<lambda>_ s. view s = w) (\<lambda>_ _. True)" for w
    using assms by (auto simp: interface_laws_def intro: pvalidI)
  show ?thesis
    unfolding setDNSRegistry_def Let_def
    by (rule pvalid_bind, rule pvalid_catch, rule create, rule pvalid_bind, rule pvalid_catch, rule set, rule pvalid_bind,
        rule pvalid_catch, rule set, rule pvalid_weaken [OF notify]) (auto simp: comp_def fun_upd_def)
qed

lemma setInterfaceDnsSettings_updates:
  assumes "interface_laws N view guid_of"
  shows "updates view (setInterfaceDnsSettings N g (dnsSettings family x y)) (v_dns_update (\<lambda>m. m((g, family = AF_INET6) := (x, y))))"
proof -
  have flags: "(and (dns_Flags (dnsSettings family x y)) DnsInterfaceSettingsFlagIPv6 \<noteq> 0) = (family = AF_INET6)"
    by (simp add: dnsSettings_def DnsInterfaceSettingsFlagIPv6_def DnsInterfaceSettingsFlagNameserver_def DnsInterfaceSettingsFlagSearchList_def)
  have "updates view (setInterfaceDnsSettings N g d) (v_dns_update (\<lambda>m. m((g, and (dns_Flags d) DnsInterfaceSettingsFlagIPv6 \<noteq> 0) :=
      (dns_NameServer d, dns_SearchList d))))" for d
    using assms unfolding interface_laws_def by blast
  from this [of "dnsSettings family x y"] show ?thesis unfolding flags by (simp add: dnsSettings_def Let_def)
qed

definition dns_set :: "'s netio \<Rightarrow> u16 \<Rightarrow> GUID \<Rightarrow> string \<Rightarrow> string \<Rightarrow> netview \<Rightarrow> netview \<Rightarrow> bool" where
  "dns_set N family guid x y v v' \<longleftrightarrow>
     v' = v_dns_update (\<lambda>m. m((guid, family = AF_INET6) := (x, y))) v \<or>
     v' = v_reg_update (\<lambda>m. m((dnsRegPath N family guid, ''NameServer'') := x, (dnsRegPath N family guid, ''SearchList'') := y)) v"

text \<open>Setting with the call that newer systems have, or in the registry.\<close>

lemma dns_settings_triple:
  assumes "interface_laws N view guid_of"
  shows "pvalid (\<lambda>s. view s = v)
      (\<lambda>s. case setInterfaceDnsSettings N g (dnsSettings family x y) s of
            (Inr _, s) \<Rightarrow> (Inr (), s)
          | (Inl err, s) \<Rightarrow> if err \<noteq> ERROR_PROC_NOT_FOUND then (Inl err, s) else setDNSRegistry N family g x y s)
      (\<lambda>_ s. dns_set N family g x y v (view s)) (\<lambda>_ _. True)"
proof (rule pvalidI)
  fix s r s' assume s: "view s = v" and e: "(case setInterfaceDnsSettings N g (dnsSettings family x y) s of
          (Inr _, s) \<Rightarrow> (Inr (), s)
        | (Inl err, s) \<Rightarrow> if err \<noteq> ERROR_PROC_NOT_FOUND then (Inl err, s) else setDNSRegistry N family g x y s) = (Inr r, s')"
  obtain q s1 where q: "setInterfaceDnsSettings N g (dnsSettings family x y) s = (q, s1)" by fastforce
  note u = updates_cases [OF setInterfaceDnsSettings_updates [OF assms], of g family x y s]
  show "dns_set N family g x y v (view s')"
  proof (cases q)
    case (Inr z)
    then show ?thesis using u q e s by (simp add: dns_set_def)
  next
    case (Inl err)
    then have "setDNSRegistry N family g x y s1 = (Inr r, s')" using e q by (auto split: if_splits)
    moreover have "view s1 = v" using u q Inl s by simp
    ultimately show ?thesis unfolding dns_set_def using pvalid_Inr [OF setDNSRegistry_triple [OF assms]] by blast
  qed
qed simp

lemma SetDNS_triple:
  assumes "interface_laws N view guid_of" "family = AF_INET \<or> family = AF_INET6"
  shows "pvalid (\<lambda>s. view s = v) (SetDNS N luid family servers domains)
    (\<lambda>_ s. dns_set N family (guid_of luid) (familyServers family servers) (strings_Join domains '','') v (view s)) (\<lambda>_ _. True)"
proof -
  have "pvalid (\<lambda>s. view s = v) (convertInterfaceLUIDToGUID N luid) (\<lambda>g s. view s = v \<and> g = guid_of luid) (\<lambda>_ s. view s = v)"
    by (rule keeps_result) (use assms(1) in \<open>unfold interface_laws_def, blast+\<close>)
  then have guid: "pvalid (\<lambda>s. view s = v) (convertInterfaceLUIDToGUID N luid) (\<lambda>g s. view s = v \<and> g = guid_of luid) (\<lambda>_ _. True)"
    by (rule pvalid_weaken) simp_all
  have utf: "UTF16PtrFromString z = Inr w \<Longrightarrow> w = z" for z w
    by (simp add: UTF16PtrFromString_def split: if_splits)
  have n: "\<not> (family \<noteq> AF_INET \<and> family \<noteq> AF_INET6)" using assms(2) by blast
  show ?thesis
    unfolding SetDNS_def if_not_P [OF n]
    by (rule pvalid_bind_lift, drule utf, rule pvalid_bind_lift, drule utf, simp only:, rule pvalid_bind [OF guid],
        rule pvalid_pure, simp only:, rule dns_settings_triple [OF assms(1)]) simp_all
qed

lemma patchSitePrefixLength_fields [simp]:
  "ip_InterfaceLUID (patchSitePrefixLength r) = ip_InterfaceLUID r" "ip_Family (patchSitePrefixLength r) = ip_Family r"
  by (simp_all add: patchSitePrefixLength_def)

lemma IPInterface_luid:
  assumes L: "interface_laws N view guid_of" and "IPInterface N luid family s = (Inr r, s')"
  shows "ip_InterfaceLUID r = luid \<and> ip_Family r = family"
proof -
  let ?row = "(initIPInterfaceRow N)\<lparr>ip_InterfaceLUID := luid, ip_Family := family\<rparr>"
  obtain q s1 where g: "getIPInterfaceEntry N ?row s = (q, s1)" by fastforce
  then obtain r0 where r0: "q = Inr r0" "r = patchSitePrefixLength r0"
    using assms(2) by (cases q) (auto simp: IPInterface_def ipInterfaceRow_get_def pbind_def preturn_def)
  have "ip_InterfaceLUID r0 = ip_InterfaceLUID ?row \<and> ip_Family r0 = ip_Family ?row"
    using L g r0(1) unfolding interface_laws_def by metis
  then show ?thesis by (simp add: r0(2))
qed

lemma set_ip_interface:
  "interface_laws N view guid_of \<Longrightarrow>
     updates view (setIPInterfaceEntry N r) (v_ipif_update (\<lambda>m. m((ip_InterfaceLUID r, ip_Family r) := r)))"
  unfolding interface_laws_def by blast

section \<open>A concrete platform\<close>

record netstate =
  ns_unicast :: "MibUnicastIPAddressRow list"
  ns_forward :: "MibIPforwardRow2 list"
  ns_ipif :: "u64 \<times> u16 \<Rightarrow> MibIPInterfaceRow"
  ns_dns :: "GUID \<times> bool \<Rightarrow> string \<times> string"
  ns_reg :: "string \<times> string \<Rightarrow> string"

definition sample_view :: "netstate \<Rightarrow> netview" where
  "sample_view s = \<lparr>v_addrs = addr_entry ` set (ns_unicast s), v_routes = route_entry ` set (ns_forward s), v_ipif = ns_ipif s,
     v_dns = ns_dns s, v_reg = ns_reg s\<rparr>"

definition zeroUnicastRow :: MibUnicastIPAddressRow where
  "zeroUnicastRow = \<lparr>ua_Address = zeroSockaddr, ua_InterfaceLUID = 0, ua_ValidLifetime = 0, ua_PreferredLifetime = 0,
     ua_OnLinkPrefixLength = 0, ua_DadState = 0, ua_rest = []\<rparr>"

definition zeroForwardRow :: MibIPforwardRow2 where
  "zeroForwardRow = \<lparr>fr_InterfaceLUID = 0, fr_InterfaceIndex = 0, fr_DestinationPrefix = \<lparr>RawPrefix = zeroSockaddr, PrefixLength = 0\<rparr>,
     fr_NextHop = zeroSockaddr, fr_ValidLifetime = 0, fr_PreferredLifetime = 0, fr_Metric = 0, fr_rest = []\<rparr>"

definition zeroIPInterfaceRow :: MibIPInterfaceRow where
  "zeroIPInterfaceRow = \<lparr>ip_Family = 0, ip_InterfaceLUID = 0, ip_UseAutomaticMetric = True, ip_ManagedAddressConfigurationSupported = True,
     ip_OtherStatefulConfigurationSupported = True, ip_RouterDiscoveryBehavior = 1, ip_DadTransmits = 3, ip_SitePrefixLength = 64,
     ip_Metric = 25, ip_NLMTU = 1500, ip_rest = []\<rparr>"

definition sample_guid :: "u64 \<Rightarrow> GUID" where
  "sample_guid luid = \<lparr>Data1 = ucast luid, Data2 = 0, Data3 = 0, Data4 = replicate 8 0\<rparr>"

definition sample_net :: "netstate netio" where
  "sample_net =
     \<lparr>initUnicastRow = zeroUnicastRow, initForwardRow = zeroForwardRow, initIPInterfaceRow = zeroIPInterfaceRow,
      getUnicastIPAddressTable = (\<lambda>f s. (Inr (filter (\<lambda>r. in_family f (sockaddr_Addr (ua_Address r))) (ns_unicast s)), s)),
      createUnicastIPAddressEntry = (\<lambda>r s. (Inr (), s\<lparr>ns_unicast := r # ns_unicast s\<rparr>)),
      deleteUnicastIPAddressEntry = (\<lambda>r s. (Inr (), s\<lparr>ns_unicast := filter (\<lambda>x. addr_key (addr_entry x) \<noteq> addr_key (addr_entry r)) (ns_unicast s)\<rparr>)),
      getIPForwardTable2 = (\<lambda>f s. (Inr (filter (\<lambda>r. in_family f (sockaddr_Addr (RawPrefix (fr_DestinationPrefix r)))) (ns_forward s)), s)),
      getIPForwardEntry2 = (\<lambda>r s. (case find (\<lambda>x. route_key (route_entry x) = route_key (route_entry r)) (ns_forward s) of
         None \<Rightarrow> (Inl ERROR_NOT_FOUND, s) | Some x \<Rightarrow> (Inr x, s))),
      createIPForwardEntry2 = (\<lambda>r s. (Inr (), s\<lparr>ns_forward := r # ns_forward s\<rparr>)),
      deleteIPForwardEntry2 = (\<lambda>r s. (Inr (), s\<lparr>ns_forward := filter (\<lambda>x. route_key (route_entry x) \<noteq> route_key (route_entry r)) (ns_forward s)\<rparr>)),
      getIPInterfaceEntry = (\<lambda>r s. (Inr ((ns_ipif s (ip_InterfaceLUID r, ip_Family r))\<lparr>ip_InterfaceLUID := ip_InterfaceLUID r, ip_Family := ip_Family r\<rparr>), s)),
      setIPInterfaceEntry = (\<lambda>r s. (Inr (), s\<lparr>ns_ipif := (ns_ipif s)((ip_InterfaceLUID r, ip_Family r) := r)\<rparr>)),
      getIfEntry2 = (\<lambda>luid s. (Inr \<lparr>if_OperStatus = 1, if_MTU = 1500\<rparr>, s)),
      sysGetAdaptersAddresses = (\<lambda>f n s. (Inr [], s)),
      convertInterfaceLUIDToGUID = (\<lambda>luid s. (Inr (sample_guid luid), s)),
      setInterfaceDnsSettings = (\<lambda>g d s. (Inr (), s\<lparr>ns_dns := (ns_dns s)((g, and (dns_Flags d) DnsInterfaceSettingsFlagIPv6 \<noteq> 0) :=
        (dns_NameServer d, dns_SearchList d))\<rparr>)),
      registry_CreateKey = (\<lambda>p s. (Inr (), s)), registry_SetStringValue = (\<lambda>p n x s. (Inr (), s\<lparr>ns_reg := (ns_reg s)((p, n) := x)\<rparr>)),
      notifyDnscache = id, guid_String = (\<lambda>_. ''{0}'')\<rparr>"

definition no_network :: netstate where
  "no_network = \<lparr>ns_unicast = [], ns_forward = [zeroForwardRow\<lparr>fr_InterfaceLUID := 6, fr_Metric := 25\<rparr>], ns_ipif = (\<lambda>_. zeroIPInterfaceRow),
     ns_dns = (\<lambda>_. ([], [])), ns_reg = (\<lambda>_. [])\<rparr>"

lemma updates_total: "(\<And>s. m s = (Inr x, g s)) \<Longrightarrow> (\<And>s. view (g s) = f (view s)) \<Longrightarrow> updates view m f"
  by (simp add: updates_def pvalid_def)

lemma image_filter_key: "f ` set (filter (\<lambda>x. k (f x) \<noteq> k0) xs) = {e \<in> f ` set xs. k e \<noteq> k0}"
  by auto

lemma sample_address_laws: "address_laws sample_net sample_view" "deletes_allowed sample_net sample_view"
  unfolding address_laws_def
  by (auto simp: sample_net_def zeroUnicastRow_def zeroSockaddr_def keeps_def sample_view_def deletes_allowed_def image_filter_key
      intro!: updates_total netview.equality) (auto simp: addr_entry_def)

lemma sample_route_laws: "route_laws sample_net sample_view"
  unfolding route_laws_def
  by (auto simp: sample_net_def zeroForwardRow_def zeroSockaddr_def keeps_def sample_view_def image_filter_key find_Some_iff
      intro!: updates_total netview.equality split: option.splits) (auto simp: route_entry_def)

lemma sample_interface_laws: "interface_laws sample_net sample_view sample_guid"
  unfolding interface_laws_def
  by (auto simp: sample_net_def keeps_def sample_view_def intro!: updates_total netview.equality)

lemmas sample_net_laws = sample_route_laws sample_address_laws(1) sample_interface_laws

end
