(* ===== verification/ChangeHandler.thy ===== *)
theory ChangeHandler
  imports GoProg
begin

text \<open>
  The change notifications of tunnel/winipcfg (route_change_handler.go, interface_change_handler.go and
  unicast_address_change_handler.go). Each file keeps a set of callbacks and the handle of one subscription with
  the platform, made for the first callback and cancelled with the last. The globals of the
  three files are the record \<open>handlers\<close>; a callback is named by its pointer. The three files have the same
  text up to names, so \<open>registerCallback\<close> and \<open>unregisterCallback\<close> take the globals they work on as a pair of a
  read and a write function, and the locale \<open>registry\<close> states what every such pair gives.
\<close>

record changeHandler =
  callbacks :: "nat list"
  handle :: u64
  fresh :: nat

record handlers =
  routeChange :: changeHandler
  interfaceChange :: changeHandler
  unicastAddressChange :: changeHandler

text \<open>The subscriptions of the platform: a call gives the handle, cancelling takes it.\<close>

record 's notifyio =
  notifyRouteChange2 :: "('s, u64) prog"
  notifyIPInterfaceChange :: "('s, u64) prog"
  notifyUnicastIPAddressChange :: "('s, u64) prog"
  cancelMibChangeNotify2 :: "u64 \<Rightarrow> ('s, unit) prog"

section \<open>Registration\<close>

text \<open>\<open>allocate\<close> is \<open>s := &Callback{...}\<close> and its insertion; \<open>removeIt\<close> the condition of the cancellation.\<close>

definition allocate :: "changeHandler \<Rightarrow> changeHandler" where
  "allocate h = h\<lparr>callbacks := fresh h # callbacks h, fresh := Suc (fresh h)\<rparr>"

definition discard :: "nat \<Rightarrow> changeHandler \<Rightarrow> changeHandler" where
  "discard cb h = h\<lparr>callbacks := removeAll cb (callbacks h)\<rparr>"

definition removeIt :: "changeHandler \<Rightarrow> bool" where
  "removeIt h \<longleftrightarrow> callbacks h = [] \<and> handle h \<noteq> 0"

definition registerCallback ::
  "(handlers \<Rightarrow> changeHandler) \<Rightarrow> (changeHandler \<Rightarrow> handlers \<Rightarrow> handlers) \<Rightarrow> ('s, u64) prog \<Rightarrow> (handlers \<times> 's, nat) prog" where
  "registerCallback get put notify = (\<lambda>(g, s).
     let cb = fresh (get g); h = allocate (get g) in
     if handle h = 0 then
       (case notify s of
          (Inl err, s) \<Rightarrow> (Inl err, put ((discard cb h)\<lparr>handle := 0\<rparr>) g, s)
        | (Inr n, s) \<Rightarrow> (Inr cb, put (h\<lparr>handle := n\<rparr>) g, s))
     else (Inr cb, put h g, s))"

definition unregisterCallback ::
  "(handlers \<Rightarrow> changeHandler) \<Rightarrow> (changeHandler \<Rightarrow> handlers \<Rightarrow> handlers) \<Rightarrow> (u64 \<Rightarrow> ('s, unit) prog) \<Rightarrow> nat \<Rightarrow> (handlers \<times> 's, unit) prog" where
  "unregisterCallback get put cancel cb = (\<lambda>(g, s).
     let h = discard cb (get g) in
     if removeIt h then
       (case cancel (handle h) s of
          (Inl err, s) \<Rightarrow> (Inl err, put h g, s)
        | (Inr _, s) \<Rightarrow> (Inr (), put (h\<lparr>handle := 0\<rparr>) g, s))
     else (Inr (), put h g, s))"

text \<open>A notification calls every registered callback with a copy of the row.\<close>

definition deliver :: "changeHandler \<Rightarrow> 'r \<Rightarrow> 't \<Rightarrow> (nat \<times> 't \<times> 'r) list" where
  "deliver h row notificationType = map (\<lambda>cb. (cb, notificationType, row)) (callbacks h)"

subsection \<open>Routes\<close>

definition RegisterRouteChangeCallback :: "'s notifyio \<Rightarrow> (handlers \<times> 's, nat) prog" where
  "RegisterRouteChangeCallback C =
     registerCallback routeChange (\<lambda>h. routeChange_update (\<lambda>_. h)) (notifyRouteChange2 C)"

definition RouteChangeCallback_Unregister :: "'s notifyio \<Rightarrow> nat \<Rightarrow> (handlers \<times> 's, unit) prog" where
  "RouteChangeCallback_Unregister C =
     unregisterCallback routeChange (\<lambda>h. routeChange_update (\<lambda>_. h)) (cancelMibChangeNotify2 C)"

definition routeChanged :: "handlers \<Rightarrow> 'r \<Rightarrow> 't \<Rightarrow> (nat \<times> 't \<times> 'r) list" where
  "routeChanged g = deliver (routeChange g)"

subsection \<open>Interfaces\<close>

definition RegisterInterfaceChangeCallback :: "'s notifyio \<Rightarrow> (handlers \<times> 's, nat) prog" where
  "RegisterInterfaceChangeCallback C =
     registerCallback interfaceChange (\<lambda>h. interfaceChange_update (\<lambda>_. h)) (notifyIPInterfaceChange C)"

definition InterfaceChangeCallback_Unregister :: "'s notifyio \<Rightarrow> nat \<Rightarrow> (handlers \<times> 's, unit) prog" where
  "InterfaceChangeCallback_Unregister C =
     unregisterCallback interfaceChange (\<lambda>h. interfaceChange_update (\<lambda>_. h)) (cancelMibChangeNotify2 C)"

definition interfaceChanged :: "handlers \<Rightarrow> 'r \<Rightarrow> 't \<Rightarrow> (nat \<times> 't \<times> 'r) list" where
  "interfaceChanged g = deliver (interfaceChange g)"

subsection \<open>Unicast addresses\<close>

definition RegisterUnicastAddressChangeCallback :: "'s notifyio \<Rightarrow> (handlers \<times> 's, nat) prog" where
  "RegisterUnicastAddressChangeCallback C =
     registerCallback unicastAddressChange (\<lambda>h. unicastAddressChange_update (\<lambda>_. h)) (notifyUnicastIPAddressChange C)"

definition UnicastAddressChangeCallback_Unregister :: "'s notifyio \<Rightarrow> nat \<Rightarrow> (handlers \<times> 's, unit) prog" where
  "UnicastAddressChangeCallback_Unregister C =
     unregisterCallback unicastAddressChange (\<lambda>h. unicastAddressChange_update (\<lambda>_. h)) (cancelMibChangeNotify2 C)"

definition unicastAddressChanged :: "handlers \<Rightarrow> 'r \<Rightarrow> 't \<Rightarrow> (nat \<times> 't \<times> 'r) list" where
  "unicastAddressChanged g = deliver (unicastAddressChange g)"

section \<open>What a registry promises\<close>

text \<open>
  A well-formed registry holds each callback once, knows which pointers are taken, and is subscribed
  whenever a callback is registered.
\<close>

definition wf_registry :: "changeHandler \<Rightarrow> bool" where
  "wf_registry h \<longleftrightarrow> distinct (callbacks h) \<and> (\<forall>cb\<in>set (callbacks h). cb < fresh h) \<and> (callbacks h \<noteq> [] \<longrightarrow> handle h \<noteq> 0)"

definition gives_handles :: "('s, u64) prog \<Rightarrow> bool" where
  "gives_handles notify \<longleftrightarrow> (\<forall>s n s'. notify s = (Inr n, s') \<longrightarrow> n \<noteq> 0)"

locale registry =
  fixes get :: "handlers \<Rightarrow> changeHandler" and put :: "changeHandler \<Rightarrow> handlers \<Rightarrow> handlers"
  assumes get_put: "get (put h g) = h"
begin

lemma register_wf:
  "wf_registry (get g) \<Longrightarrow> gives_handles notify \<Longrightarrow> wf_registry (get (fst (snd (registerCallback get put notify (g, s)))))"
  by (auto simp: registerCallback_def Let_def allocate_def discard_def wf_registry_def gives_handles_def get_put
      split: prod.split sum.split)

lemma unregister_wf:
  "wf_registry (get g) \<Longrightarrow> wf_registry (get (fst (snd (unregisterCallback get put cancel cb (g, s)))))"
  by (auto simp: unregisterCallback_def Let_def discard_def removeIt_def wf_registry_def get_put distinct_removeAll
      split: prod.split sum.split)

lemma register_callbacks:
  assumes "wf_registry (get g)" "registerCallback get put notify (g, s) = (r, g', s')"
  shows "case r of Inl _ \<Rightarrow> callbacks (get g') = callbacks (get g)
    | Inr cb \<Rightarrow> cb \<notin> set (callbacks (get g)) \<and> callbacks (get g') = cb # callbacks (get g)"
  using assms
  by (auto simp: registerCallback_def Let_def allocate_def discard_def wf_registry_def get_put
      split: prod.splits sum.splits if_splits)

lemma unregister_callbacks:
  "unregisterCallback get put cancel cb (g, s) = (r, g', s') \<Longrightarrow> callbacks (get g') = removeAll cb (callbacks (get g))"
  by (auto simp: unregisterCallback_def Let_def discard_def get_put split: prod.splits sum.splits if_splits)

lemma unregister_last:
  "unregisterCallback get put cancel cb (g, s) = (Inr (), g', s') \<Longrightarrow> callbacks (get g') = [] \<Longrightarrow> handle (get g') = 0"
  by (auto simp: unregisterCallback_def Let_def discard_def removeIt_def get_put split: prod.splits sum.splits if_splits)

end

interpretation route_registry: registry routeChange "\<lambda>h. routeChange_update (\<lambda>_. h)"
  by unfold_locales simp

interpretation interface_registry: registry interfaceChange "\<lambda>h. interfaceChange_update (\<lambda>_. h)"
  by unfold_locales simp

interpretation address_registry: registry unicastAddressChange "\<lambda>h. unicastAddressChange_update (\<lambda>_. h)"
  by unfold_locales simp

section \<open>Histories\<close>

text \<open>A history of the three registries is a list of calls; every caller may register and unregister in any order.\<close>

datatype handler_op =
    RegisterRoute | UnregisterRoute nat
  | RegisterInterface | UnregisterInterface nat
  | RegisterUnicast | UnregisterUnicast nat

fun run_op :: "'s notifyio \<Rightarrow> handler_op \<Rightarrow> handlers \<times> 's \<Rightarrow> handlers \<times> 's" where
  "run_op C RegisterRoute gs = snd (RegisterRouteChangeCallback C gs)"
| "run_op C (UnregisterRoute cb) gs = snd (RouteChangeCallback_Unregister C cb gs)"
| "run_op C RegisterInterface gs = snd (RegisterInterfaceChangeCallback C gs)"
| "run_op C (UnregisterInterface cb) gs = snd (InterfaceChangeCallback_Unregister C cb gs)"
| "run_op C RegisterUnicast gs = snd (RegisterUnicastAddressChangeCallback C gs)"
| "run_op C (UnregisterUnicast cb) gs = snd (UnicastAddressChangeCallback_Unregister C cb gs)"

definition run_ops :: "'s notifyio \<Rightarrow> handler_op list \<Rightarrow> handlers \<times> 's \<Rightarrow> handlers \<times> 's" where
  "run_ops C ops gs = fold (run_op C) ops gs"

definition no_handlers :: handlers where
  "no_handlers = (let h = \<lparr>callbacks = [], handle = 0, fresh = 0\<rparr> in
     \<lparr>routeChange = h, interfaceChange = h, unicastAddressChange = h\<rparr>)"

lemma register_get:
  assumes "\<And>h. get' (put h g) = get' g"
  shows "get' (fst (snd (registerCallback get put notify (g, s)))) = get' g"
    "get' (fst (snd (unregisterCallback get put cancel cb (g, s)))) = get' g"
  using assms
  by (simp_all add: registerCallback_def unregisterCallback_def Let_def split: prod.split sum.split)

lemmas registration_defs = RegisterRouteChangeCallback_def RouteChangeCallback_Unregister_def
  RegisterInterfaceChangeCallback_def InterfaceChangeCallback_Unregister_def
  RegisterUnicastAddressChangeCallback_def UnicastAddressChangeCallback_Unregister_def

text \<open>Only the operations of a file touch its globals, and each of them keeps its registry well-formed.\<close>

lemma run_op_wf:
  assumes "gives_handles (notifyRouteChange2 C)" "wf_registry (routeChange (fst gs))"
  shows "wf_registry (routeChange (fst (run_op C op gs)))"
  using assms
  by (cases gs; cases op)
    (simp_all add: registration_defs route_registry.register_wf route_registry.unregister_wf register_get)

lemma run_ops_wf:
  assumes "gives_handles (notifyRouteChange2 C)" "wf_registry (routeChange (fst gs))"
  shows "wf_registry (routeChange (fst (run_ops C ops gs)))"
  using assms(2) unfolding run_ops_def
  by (induction ops arbitrary: gs) (simp_all add: run_op_wf [OF assms(1)])

lemma run_op_keeps:
  assumes "wf_registry (routeChange (fst gs))" "cb \<in> set (callbacks (routeChange (fst gs)))" "op \<noteq> UnregisterRoute cb"
  shows "cb \<in> set (callbacks (routeChange (fst (run_op C op gs))))"
proof (cases "\<exists>cb'. op = RegisterRoute \<or> op = UnregisterRoute cb'")
  case True
  then consider "op = RegisterRoute" | cb' where "op = UnregisterRoute cb'" by blast
  then show ?thesis
  proof cases
    case 1
    obtain g s where gs: "gs = (g, s)" by (cases gs)
    obtain r g' s' where r: "RegisterRouteChangeCallback C gs = (r, g', s')" by (cases "RegisterRouteChangeCallback C gs") auto
    from route_registry.register_callbacks [OF _ r [unfolded gs RegisterRouteChangeCallback_def]] 1 assms gs r
    show ?thesis by (auto split: sum.splits)
  next
    case 2
    obtain g s where gs: "gs = (g, s)" by (cases gs)
    obtain r g' s' where r: "RouteChangeCallback_Unregister C cb' gs = (r, g', s')" by (cases "RouteChangeCallback_Unregister C cb' gs") auto
    from route_registry.unregister_callbacks [OF r [unfolded gs RouteChangeCallback_Unregister_def]] 2 assms gs r
    show ?thesis by auto
  qed
next
  case False
  with assms show ?thesis by (cases gs; cases op) (simp_all add: registration_defs register_get)
qed

lemma run_ops_keeps:
  assumes "gives_handles (notifyRouteChange2 C)" "wf_registry (routeChange (fst gs))"
    "cb \<in> set (callbacks (routeChange (fst gs)))" "UnregisterRoute cb \<notin> set ops"
  shows "cb \<in> set (callbacks (routeChange (fst (run_ops C ops gs))))"
  using assms(2-) unfolding run_ops_def
proof (induction ops arbitrary: gs)
  case (Cons op ops)
  then have "op \<noteq> UnregisterRoute cb" "UnregisterRoute cb \<notin> set ops" by auto
  with Cons run_op_keeps [of gs cb op C] run_op_wf [OF assms(1), of gs op] show ?case by simp
qed simp

lemma no_handlers_wf: "wf_registry (routeChange no_handlers)"
  by (simp add: no_handlers_def wf_registry_def Let_def)

lemma count_delivered: "count_list (map fst (deliver h row t)) cb = count_list (callbacks h) cb"
  by (simp add: deliver_def comp_def)

lemma count_distinct: "distinct xs \<Longrightarrow> x \<in> set xs \<Longrightarrow> count_list xs x = 1"
  by (induction xs) (auto simp: count_list_0_iff)


definition sample_notify :: "nat notifyio" where
  "sample_notify = \<lparr>notifyRouteChange2 = (\<lambda>s. (Inr 7, Suc s)), notifyIPInterfaceChange = (\<lambda>s. (Inl (Errno 5), s)),
     notifyUnicastIPAddressChange = (\<lambda>s. (Inr 9, Suc s)), cancelMibChangeNotify2 = (\<lambda>_ s. (Inr (), s - 1))\<rparr>"


end
