(* ===== verification/RouteMonitor.thy ===== *)
theory RouteMonitor
  imports WinIPCfg ChangeHandler Conf
begin

text \<open>
  The monitor of the default route (tunnel/defaultroutemonitor.go): it finds the best default gateway
  that is not the tunnel, keeps a host route to every WebSocket server through it and pins the
  UDP sockets to its interface. \<open>N\<close> is the IP helper library, \<open>C\<close> its change notifications, \<open>B\<close> the sockets
  of the userspace device (package conn and the \<open>rebind\<close> function), and \<open>visit\<close> the order in which Go ranges over
  the map \<open>owned\<close>, which is left open: the theorems assume only that it visits every key.
  A time is a number of milliseconds.
\<close>

section \<open>Data\<close>

record defaultGateway =
  gw_luid :: u64
  gw_index :: u32
  gw_nextHop :: Addr

record defaultRouteFamily =
  f_family :: u16
  f_blackhole :: bool
  f_hosts :: "Prefix list"
  f_gateway :: defaultGateway
  f_owned :: "Prefix list"
  f_incomplete :: bool

text \<open>\<open>burstTimer\<close> is nil until \<open>start\<close>; a timer is stopped, or armed with the time it fires.\<close>

datatype timer = NoTimer | Stopped | Armed int

record defaultRouteMonitor =
  m_ourLUID :: u64
  m_families :: "defaultRouteFamily list"
  m_callbacks :: "(nat \<times> nat) option"
  m_burstTimer :: timer
  m_firstBurst :: "int option"

definition zeroGateway :: defaultGateway where
  "zeroGateway = \<lparr>gw_luid = 0, gw_index = 0, gw_nextHop = AddrInvalid\<rparr>"

record 's sockets =
  BindSocketToInterface4 :: "u32 \<Rightarrow> bool \<Rightarrow> ('s, unit) prog"
  BindSocketToInterface6 :: "u32 \<Rightarrow> bool \<Rightarrow> ('s, unit) prog"
  rebind :: "('s, unit) prog"

datatype MibNotificationType = MibParameterNotification | MibAddInstance | MibDeleteInstance | MibInitialNotification

section \<open>The default gateway\<close>

text \<open>\<open>candidateMetric\<close> is the combined metric of a row, or None where the loop skips it: the row is no default
  route, or leads into the tunnel, or its interface is down or cannot be read.\<close>

definition candidateMetric :: "'s netio \<Rightarrow> u16 \<Rightarrow> u64 \<Rightarrow> MibIPforwardRow2 \<Rightarrow> 's \<Rightarrow> u64 option \<times> 's" where
  "candidateMetric N family ourLUID r s =
     (if PrefixLength (fr_DestinationPrefix r) \<noteq> 0 \<or> fr_InterfaceLUID r = ourLUID then (None, s)
      else case luid_Interface N (fr_InterfaceLUID r) s of
        (Inl _, s) \<Rightarrow> (None, s)
      | (Inr ifrow, s) \<Rightarrow>
          if if_OperStatus ifrow \<noteq> IfOperStatusUp then (None, s)
          else case IPInterface N (fr_InterfaceLUID r) family s of
            (Inl _, s) \<Rightarrow> (None, s)
          | (Inr iface, s) \<Rightarrow> (Some (ucast (fr_Metric r) + ucast (ip_Metric iface)), s))"

definition rowGateway :: "MibIPforwardRow2 \<Rightarrow> defaultGateway" where
  "rowGateway r = \<lparr>gw_luid = fr_InterfaceLUID r, gw_index = fr_InterfaceIndex r, gw_nextHop = sockaddr_Addr (fr_NextHop r)\<rparr>"

fun gatewayLoop :: "'s netio \<Rightarrow> u16 \<Rightarrow> u64 \<Rightarrow> MibIPforwardRow2 list \<Rightarrow> u64 \<Rightarrow> defaultGateway \<Rightarrow> ('s, defaultGateway) prog" where
  "gatewayLoop N family ourLUID [] lowestMetric gateway s = (Inr gateway, s)"
| "gatewayLoop N family ourLUID (r # rs) lowestMetric gateway s =
     (case candidateMetric N family ourLUID r s of
        (None, s) \<Rightarrow> gatewayLoop N family ourLUID rs lowestMetric gateway s
      | (Some combinedMetric, s) \<Rightarrow>
          if combinedMetric < lowestMetric
          then gatewayLoop N family ourLUID rs combinedMetric (rowGateway r) s
          else gatewayLoop N family ourLUID rs lowestMetric gateway s)"

definition findDefaultGateway :: "'s netio \<Rightarrow> u16 \<Rightarrow> u64 \<Rightarrow> ('s, defaultGateway) prog" where
  "findDefaultGateway N family ourLUID =
     pbind (getIPForwardTable2 N family) (\<lambda>r. gatewayLoop N family ourLUID r (-1) zeroGateway)"

section \<open>The configuration\<close>

definition serverHost :: "u16 \<Rightarrow> Prefix list \<Rightarrow> Peer \<Rightarrow> Prefix list" where
  "serverHost family hosts peer =
     (if WSURL peer = [] then hosts
      else case netip_ParseAddr (Host (pEndpoint peer)) of
        None \<Rightarrow> hosts
      | Some addr \<Rightarrow>
          let addr = addr_Unmap addr in
          if addr_Is4 addr \<noteq> (family = AF_INET) then hosts
          else let prefix = netip_PrefixFrom addr (addr_BitLen addr) in
            if list_ex (\<lambda>host. host = prefix) hosts then hosts else hosts @ [prefix])"

definition webSocketServerHosts :: "Config \<Rightarrow> u16 \<Rightarrow> Prefix list" where
  "webSocketServerHosts config family = foldl (serverHost family) [] (Peers config)"

definition hasDefaultRoute :: "u16 \<Rightarrow> Config \<Rightarrow> bool" where
  "hasDefaultRoute family config =
     (let (zero, half) = (if family = AF_INET then (Addr4 0, Addr4 (push_bit 31 1)) else (Addr6 0 [], Addr6 (push_bit 127 1) []));
          ps = concat (map AllowedIPs (Peers config));
          foundFull = list_ex (\<lambda>p. p = netip_PrefixFrom zero 0) ps;
          foundHalf0 = list_ex (\<lambda>p. p = netip_PrefixFrom zero 1) ps;
          foundHalf1 = list_ex (\<lambda>p. p = netip_PrefixFrom half 1) ps
      in foundFull \<or> (foundHalf0 \<and> foundHalf1))"

section \<open>The host routes\<close>

definition deleteHosts :: "'s netio \<Rightarrow> defaultGateway \<Rightarrow> Prefix list \<Rightarrow> 's \<Rightarrow> 's" where
  "deleteHosts N gateway hosts s = fold (\<lambda>host s. snd (DeleteRoute N (gw_luid gateway) host (gw_nextHop gateway) s)) hosts s"

text \<open>The loop over \<open>hosts\<close>: the next \<open>owned\<close>, whether a route was added, and the error it breaks with.\<close>

fun addHosts :: "'s netio \<Rightarrow> defaultGateway \<Rightarrow> Prefix list \<Rightarrow> Prefix list \<Rightarrow> 's \<Rightarrow> Prefix list \<times> bool \<times> go_error option \<times> 's" where
  "addHosts N gateway [] owned s = (owned, False, None, s)"
| "addHosts N gateway (host # hosts) owned s =
     (if gw_luid gateway = 0 then addHosts N gateway hosts owned s
      else case AddRoute N (gw_luid gateway) host (gw_nextHop gateway) 0 s of
        (Inr _, s) \<Rightarrow> (case addHosts N gateway hosts (List.insert host owned) s of (owned, _, err, s) \<Rightarrow> (owned, True, err, s))
      | (Inl err, s) \<Rightarrow>
          if err \<noteq> ERROR_OBJECT_ALREADY_EXISTS then (owned, False, Some (Wrapped ''unable to add host route'' err), s)
          else addHosts N gateway hosts owned s)"

text \<open>The body of the loop of \<open>updateLocked\<close>: the next family, whether its host routes moved, and its error.\<close>

definition updateFamily :: "'s netio \<Rightarrow> (Prefix list \<Rightarrow> Prefix list) \<Rightarrow> u64 \<Rightarrow> defaultRouteFamily \<Rightarrow> 's \<Rightarrow>
    defaultRouteFamily \<times> bool \<times> go_error option \<times> 's" where
  "updateFamily N visit ourLUID f s =
     (case findDefaultGateway N (f_family f) ourLUID s of
        (Inl err, s) \<Rightarrow> (f, False, Some err, s)
      | (Inr gateway, s) \<Rightarrow>
          if gateway = f_gateway f \<and> \<not> f_incomplete f then (f, False, None, s)
          else
            let previous = f_gateway f;
                s = (if previous \<noteq> gateway then deleteHosts N previous (visit (f_owned f)) s else s);
                owned = (if previous \<noteq> gateway then [] else f_owned f);
                moved = (previous \<noteq> gateway \<and> f_hosts f \<noteq> [])
            in case addHosts N gateway (f_hosts f) owned s of (owned, added, err, s) \<Rightarrow>
              (f\<lparr>f_gateway := gateway, f_owned := owned, f_incomplete := err \<noteq> None\<rparr>, moved \<or> added, err, s))"

fun updateFamilies :: "'s netio \<Rightarrow> (Prefix list \<Rightarrow> Prefix list) \<Rightarrow> u64 \<Rightarrow> defaultRouteFamily list \<Rightarrow> 's \<Rightarrow>
    defaultRouteFamily list \<times> bool \<times> go_error option \<times> 's" where
  "updateFamilies N visit ourLUID [] s = ([], False, None, s)"
| "updateFamilies N visit ourLUID (f # fs) s =
     (case updateFamily N visit ourLUID f s of (f, moved, err, s) \<Rightarrow>
      case updateFamilies N visit ourLUID fs s of (fs, moved', err', s) \<Rightarrow>
        (f # fs, moved \<or> moved', (case err of None \<Rightarrow> err' | Some _ \<Rightarrow> err), s))"

definition updateLocked :: "'s netio \<Rightarrow> (Prefix list \<Rightarrow> Prefix list) \<Rightarrow> defaultRouteMonitor \<Rightarrow> 's \<Rightarrow>
    defaultRouteMonitor \<times> bool \<times> go_error option \<times> 's" where
  "updateLocked N visit m s =
     (case updateFamilies N visit (m_ourLUID m) (m_families m) s of (fs, moved, err, s) \<Rightarrow> (m\<lparr>m_families := fs\<rparr>, moved, err, s))"

definition removeHostRoutesLocked :: "'s netio \<Rightarrow> (Prefix list \<Rightarrow> Prefix list) \<Rightarrow> defaultRouteMonitor \<Rightarrow> 's \<Rightarrow> defaultRouteMonitor \<times> 's" where
  "removeHostRoutesLocked N visit m s =
     (m\<lparr>m_families := map (\<lambda>f. f\<lparr>f_owned := [], f_gateway := zeroGateway\<rparr>) (m_families m)\<rparr>,
      fold (\<lambda>f. deleteHosts N (f_gateway f) (visit (f_owned f))) (m_families m) s)"

definition newFamily :: "Config \<Rightarrow> u16 \<Rightarrow> defaultRouteFamily" where
  "newFamily config family =
     \<lparr>f_family = family, f_blackhole = hasDefaultRoute family config, f_hosts = webSocketServerHosts config family,
      f_gateway = zeroGateway, f_owned = [], f_incomplete = False\<rparr>"

definition newDefaultRouteMonitor :: "'s netio \<Rightarrow> (Prefix list \<Rightarrow> Prefix list) \<Rightarrow> Config \<Rightarrow> u64 \<Rightarrow> ('s, defaultRouteMonitor) prog" where
  "newDefaultRouteMonitor N visit config ourLUID s =
     (let m = \<lparr>m_ourLUID = ourLUID, m_families = map (newFamily config) [AF_INET, AF_INET6], m_callbacks = None,
           m_burstTimer = NoTimer, m_firstBurst = None\<rparr>
      in case updateLocked N visit m s of
           (m, _, None, s) \<Rightarrow> (Inr m, s)
         | (m, _, Some err, s) \<Rightarrow> (Inl err, snd (removeHostRoutesLocked N visit m s)))"

section \<open>Following changes\<close>

definition pinFamily :: "'s sockets \<Rightarrow> defaultRouteFamily \<Rightarrow> ('s, unit) prog" where
  "pinFamily B f =
     (let index = gw_index (f_gateway f); blackhole = (f_blackhole f \<and> index = 0) in
      if f_family f = AF_INET then BindSocketToInterface4 B index blackhole else BindSocketToInterface6 B index blackhole)"

definition pinSocketsLocked :: "'s sockets \<Rightarrow> defaultRouteMonitor \<Rightarrow> ('s, unit) prog" where
  "pinSocketsLocked B m = peach (pinFamily B) (m_families m)"

definition update :: "'s netio \<Rightarrow> 's sockets \<Rightarrow> (Prefix list \<Rightarrow> Prefix list) \<Rightarrow> defaultRouteMonitor \<Rightarrow> 's \<Rightarrow> defaultRouteMonitor \<times> 's" where
  "update N B visit m s =
     (if m_callbacks m = None then (m, s)
      else case updateLocked N visit m s of (m, moved, _, s) \<Rightarrow>
        let s = (if moved then snd (rebind B s) else s) in (m, snd (pinSocketsLocked B m s)))"

fun markDeleted :: "Prefix \<Rightarrow> defaultRouteFamily list \<Rightarrow> bool \<times> defaultRouteFamily list" where
  "markDeleted host_prefix [] = (False, [])"
| "markDeleted host_prefix (f # fs) =
     (if list_ex (\<lambda>host. host = host_prefix) (f_hosts f) then (True, f\<lparr>f_incomplete := True\<rparr> # fs)
      else case markDeleted host_prefix fs of (b, fs) \<Rightarrow> (b, f # fs))"

definition hostRouteDeleted :: "MibIPforwardRow2 \<Rightarrow> defaultRouteMonitor \<Rightarrow> bool \<times> defaultRouteMonitor" where
  "hostRouteDeleted route m =
     (case markDeleted (prefix_Prefix (fr_DestinationPrefix route)) (m_families m) of (b, fs) \<Rightarrow> (b, m\<lparr>m_families := fs\<rparr>))"

text \<open>\<open>bump\<close> at time \<open>now\<close>: the next state and whether it starts \<open>update\<close>. A nil timer panics.\<close>

definition bump :: "int \<Rightarrow> defaultRouteMonitor \<Rightarrow> go_error + (defaultRouteMonitor \<times> bool)" where
  "bump now m =
     (if m_burstTimer m = NoTimer then Inl (Panic ''nil timer'')
      else let m = m\<lparr>m_burstTimer := Armed (now + 150)\<rparr> in
        case m_firstBurst m of
          None \<Rightarrow> Inr (m\<lparr>m_firstBurst := Some now\<rparr>, False)
        | Some first \<Rightarrow>
            if 2000 < now - first then Inr (m\<lparr>m_firstBurst := None, m_burstTimer := Stopped\<rparr>, True) else Inr (m, False))"

text \<open>The function of the timer, run at its time, then calls \<open>update\<close>.\<close>

definition timerFires :: "defaultRouteMonitor \<Rightarrow> defaultRouteMonitor" where
  "timerFires m = m\<lparr>m_burstTimer := Stopped, m_firstBurst := None\<rparr>"

definition onRouteChange :: "int \<Rightarrow> MibNotificationType \<Rightarrow> MibIPforwardRow2 option \<Rightarrow> defaultRouteMonitor \<Rightarrow>
    go_error + (defaultRouteMonitor \<times> bool)" where
  "onRouteChange now notificationType route m =
     (case route of None \<Rightarrow> Inr (m, False)
      | Some r \<Rightarrow>
          if PrefixLength (fr_DestinationPrefix r) = 0 then bump now m
          else if notificationType = MibDeleteInstance then
            (case hostRouteDeleted r m of (True, m) \<Rightarrow> bump now m | (False, m) \<Rightarrow> Inr (m, False))
          else Inr (m, False))"

definition onInterfaceChange :: "int \<Rightarrow> MibNotificationType \<Rightarrow> defaultRouteMonitor \<Rightarrow> go_error + (defaultRouteMonitor \<times> bool)" where
  "onInterfaceChange now notificationType m =
     (if notificationType = MibParameterNotification then bump now m else Inr (m, False))"

definition start :: "'s notifyio \<Rightarrow> 's sockets \<Rightarrow> defaultRouteMonitor \<Rightarrow> handlers \<times> 's \<Rightarrow>
    (go_error + unit) \<times> defaultRouteMonitor \<times> handlers \<times> 's" where
  "start C B m = (\<lambda>(g, s).
     case pinSocketsLocked B m s of
       (Inl err, s) \<Rightarrow> (Inl err, m, g, s)
     | (Inr _, s) \<Rightarrow>
         let m = m\<lparr>m_burstTimer := Stopped\<rparr> in
         case RegisterRouteChangeCallback C (g, s) of
           (Inl err, gs) \<Rightarrow> (Inl err, m, gs)
         | (Inr cbr, gs) \<Rightarrow>
             case RegisterInterfaceChangeCallback C gs of
               (Inl err, gs) \<Rightarrow> (Inl err, m, snd (RouteChangeCallback_Unregister C cbr gs))
             | (Inr cbi, gs) \<Rightarrow> (Inr (), m\<lparr>m_callbacks := Some (cbr, cbi)\<rparr>, gs))"

definition Destroy :: "'s netio \<Rightarrow> 's notifyio \<Rightarrow> (Prefix list \<Rightarrow> Prefix list) \<Rightarrow> defaultRouteMonitor \<Rightarrow> handlers \<times> 's \<Rightarrow>
    defaultRouteMonitor \<times> handlers \<times> 's" where
  "Destroy N C visit m gs =
     (let gs = (case m_callbacks m of None \<Rightarrow> gs
           | Some (cbr, cbi) \<Rightarrow> snd (InterfaceChangeCallback_Unregister C cbi (snd (RouteChangeCallback_Unregister C cbr gs))));
          m = m\<lparr>m_callbacks := None\<rparr>;
          m = (if m_burstTimer m \<noteq> NoTimer then m\<lparr>m_burstTimer := Stopped\<rparr> else m)
      in case gs of (g, s) \<Rightarrow> case removeHostRoutesLocked N visit m s of (m, s) \<Rightarrow> (m, g, s))"

section \<open>What the platform promises of routes\<close>

text \<open>
  A route is created only when no route has its key (interface, destination and next hop), the
  error \<open>ERROR_OBJECT_ALREADY_EXISTS\<close> says that one has, and a route that exists is found and can be deleted.
\<close>

definition host_route_laws :: "'s netio \<Rightarrow> ('s \<Rightarrow> netview) \<Rightarrow> bool" where
  "host_route_laws N view \<longleftrightarrow>
     route_laws N view \<and> (\<forall>luid. keeps view (getIfEntry2 N luid)) \<and> (\<forall>r. keeps view (getIPInterfaceEntry N r)) \<and>
     (\<forall>r s s'. createIPForwardEntry2 N r s = (Inr (), s') \<longrightarrow> route_key (route_entry r) \<notin> route_key ` v_routes (view s)) \<and>
     (\<forall>r s s'. createIPForwardEntry2 N r s = (Inl ERROR_OBJECT_ALREADY_EXISTS, s') \<longrightarrow>
        route_key (route_entry r) \<in> route_key ` v_routes (view s)) \<and>
     (\<forall>r s. route_key (route_entry r) \<in> route_key ` v_routes (view s) \<longrightarrow>
        (\<exists>r' s'. getIPForwardEntry2 N r s = (Inr r', s')) \<and> fst (deleteIPForwardEntry2 N r s) = Inr ())"

lemma host_laws:
  assumes "host_route_laws N view"
  shows "route_laws N view" "keeps view (getIfEntry2 N luid)" "keeps view (getIPInterfaceEntry N row)"
    "createIPForwardEntry2 N r s = (Inr (), s') \<Longrightarrow> route_key (route_entry r) \<notin> route_key ` v_routes (view s)"
    "createIPForwardEntry2 N r s = (Inl ERROR_OBJECT_ALREADY_EXISTS, s') \<Longrightarrow>
      route_key (route_entry r) \<in> route_key ` v_routes (view s)"
    "route_key (route_entry r) \<in> route_key ` v_routes (view s) \<Longrightarrow> \<exists>r' s'. getIPForwardEntry2 N r s = (Inr r', s')"
    "route_key (route_entry r) \<in> route_key ` v_routes (view s) \<Longrightarrow> fst (deleteIPForwardEntry2 N r s) = Inr ()"
  using assms unfolding host_route_laws_def by blast+

definition host_key :: "defaultGateway \<Rightarrow> Prefix \<Rightarrow> u64 \<times> Addr \<times> u8 \<times> Addr" where
  "host_key g h = (gw_luid g, scoped (prefix_addr h), of_int (prefix_bits h), scoped (gw_nextHop g))"

definition host_route :: "defaultGateway \<Rightarrow> Prefix \<Rightarrow> route_entry" where
  "host_route g h = (gw_luid g, scoped (prefix_addr h), of_int (prefix_bits h), scoped (gw_nextHop g), 0)"

lemma route_key_host_route [simp]: "route_key (host_route g h) = host_key g h"
  by (simp add: host_route_def host_key_def)

definition has_row :: "'s netio \<Rightarrow> defaultGateway \<Rightarrow> Prefix \<Rightarrow> bool" where
  "has_row N g h \<longleftrightarrow> (\<exists>r. routeRow N (gw_luid g) h (gw_nextHop g) = Inr r)"

lemma row_key:
  assumes "route_laws N view" "routeRow N (gw_luid g) h (gw_nextHop g) = Inr r"
  shows "route_key (route_entry r) = host_key g h"
  using routeRow_entry [OF assms, where m = 0] route_key_metric [of 0 r] by (simp add: host_key_def)

lemma keeps_bind: "keeps view m \<Longrightarrow> (\<And>x. keeps view (f x)) \<Longrightarrow> keeps view (pbind m f)"
  by (auto simp: keeps_def pbind_def split: prod.split sum.split) (metis snd_conv)+

lemma ipInterfaceRow_get_keeps: "keeps view (getIPInterfaceEntry N r) \<Longrightarrow> keeps view (ipInterfaceRow_get N r)"
  unfolding ipInterfaceRow_get_def by (erule keeps_bind) (simp add: keeps_def preturn_def)

lemma candidateMetric_keeps:
  assumes "host_route_laws N view"
  shows "view (snd (candidateMetric N family our r s)) = view s"
  using host_laws(2) [OF assms] ipInterfaceRow_get_keeps [OF host_laws(3) [OF assms]]
  by (auto simp: candidateMetric_def luid_Interface_def IPInterface_def keeps_def split: prod.split sum.split) (metis snd_conv)+

lemma gatewayLoop_keeps:
  assumes "host_route_laws N view"
  shows "view (snd (gatewayLoop N family our rs lowest g s)) = view s"
  using candidateMetric_keeps [OF assms, of family our]
  by (induction rs arbitrary: lowest g s) (auto split: prod.split option.split, (metis snd_conv)+)

lemma findDefaultGateway_keeps:
  assumes "host_route_laws N view"
  shows "keeps view (findDefaultGateway N family our)"
proof -
  from host_laws(1) [OF assms] have "keeps view (getIPForwardTable2 N family)" by (simp add: route_laws_def)
  then show ?thesis unfolding findDefaultGateway_def
    by (rule keeps_bind) (simp add: keeps_def gatewayLoop_keeps [OF assms])
qed

section \<open>Deleting and adding host routes\<close>

lemma DeleteRoute_host:
  assumes "host_route_laws N view" "has_row N g h"
  shows "v_routes (view (snd (DeleteRoute N (gw_luid g) h (gw_nextHop g) s))) = {e \<in> v_routes (view s). route_key e \<noteq> host_key g h}"
proof -
  let ?m = "DeleteRoute N (gw_luid g) h (gw_nextHop g)"
  have up: "view (snd (?m s)) = (case fst (?m s) of Inl _ \<Rightarrow> view s
      | Inr _ \<Rightarrow> v_routes_update (\<lambda>A. {e \<in> A. route_key e \<noteq> host_key g h}) (view s))"
    unfolding host_key_def by (rule updates_cases [OF DeleteRoute_updates [OF host_laws(1) [OF assms(1)]]])
  show ?thesis
  proof (cases "host_key g h \<in> route_key ` v_routes (view s)")
    case False
    then have "{e \<in> v_routes (view s). route_key e \<noteq> host_key g h} = v_routes (view s)" by (rule filter_no_key)
    then show ?thesis unfolding up by (simp split: sum.split)
  next
    case True
    obtain r where r: "routeRow N (gw_luid g) h (gw_nextHop g) = Inr r" using assms(2) by (auto simp: has_row_def)
    note k = row_key [OF host_laws(1) [OF assms(1)] r]
    obtain r' s' where get: "getIPForwardEntry2 N r s = (Inr r', s')" using host_laws(6) [OF assms(1)] True k by metis
    have "keeps view (getIPForwardEntry2 N r)" "route_key (route_entry r') = route_key (route_entry r)"
      using host_laws(1) [OF assms(1)] get unfolding route_laws_def by blast+
    then have "view s' = view s" "route_key (route_entry r') = host_key g h" using get k by (auto dest: keepsD)
    then have "fst (deleteIPForwardEntry2 N r' s') = Inr ()" using host_laws(7) [OF assms(1)] True by metis
    then have "fst (?m s) = Inr ()" by (simp add: DeleteRoute_def pbind_def plift_def r get)
    then show ?thesis unfolding up by simp
  qed
qed

lemma deleteHosts_routes:
  assumes "host_route_laws N view" "\<forall>h\<in>set hs. has_row N g h"
  shows "v_routes (view (deleteHosts N g hs s)) = {e \<in> v_routes (view s). route_key e \<notin> host_key g ` set hs}"
  using assms(2)
proof (induction hs arbitrary: s)
  case (Cons h hs)
  then have "v_routes (view (deleteHosts N g (h # hs) s)) =
      {e \<in> v_routes (view (snd (DeleteRoute N (gw_luid g) h (gw_nextHop g) s))). route_key e \<notin> host_key g ` set hs}"
    by (simp add: deleteHosts_def)
  also have "\<dots> = {e \<in> v_routes (view s). route_key e \<notin> host_key g ` set (h # hs)}"
    using Cons.prems by (auto simp: DeleteRoute_host [OF assms(1)])
  finally show ?case .
qed (simp add: deleteHosts_def)

lemma SetAddr_error: "SetAddr a raw = Inl err \<Longrightarrow> err \<noteq> ERROR_OBJECT_ALREADY_EXISTS"
  by (cases a) (auto simp: SetAddr_def ERROR_OBJECT_ALREADY_EXISTS_def Let_def split: if_splits)

lemma routeRow_error: "routeRow N l h hop = Inl err \<Longrightarrow> err \<noteq> ERROR_OBJECT_ALREADY_EXISTS"
  by (auto simp: routeRow_def SetPrefix_def rbind_eq_Inl dest: SetAddr_error)

lemma AddRoute_host:
  assumes "host_route_laws N view" "AddRoute N (gw_luid g) h (gw_nextHop g) 0 s = (r, s')"
  shows "r = Inr () \<Longrightarrow> has_row N g h \<and> host_key g h \<notin> route_key ` v_routes (view s) \<and>
      v_routes (view s') = insert (host_route g h) (v_routes (view s))"
    and "r = Inl err \<Longrightarrow> v_routes (view s') = v_routes (view s)"
    and "r = Inl ERROR_OBJECT_ALREADY_EXISTS \<Longrightarrow> host_key g h \<in> route_key ` v_routes (view s)"
proof -
  note laws = host_laws(1) [OF assms(1)]
  have up: "view s' = (case r of Inl _ \<Rightarrow> view s | Inr _ \<Rightarrow> v_routes_update (insert (host_route g h)) (view s))"
    using updates_cases [OF AddRoute_updates [OF laws], of "gw_luid g" h "gw_nextHop g" 0 s] assms(2) unfolding host_route_def by simp
  then show "r = Inl err \<Longrightarrow> v_routes (view s') = v_routes (view s)" by simp
  have row: "\<exists>row. routeRow N (gw_luid g) h (gw_nextHop g) = Inr row \<and> createIPForwardEntry2 N (row\<lparr>fr_Metric := 0\<rparr>) s = (r, s')"
    if "r = Inr () \<or> r = Inl ERROR_OBJECT_ALREADY_EXISTS"
    using assms(2) that
    by (auto simp: AddRoute_def pbind_def plift_def split: sum.splits dest: routeRow_error)
  { assume "r = Inr ()"
    with row obtain row where "routeRow N (gw_luid g) h (gw_nextHop g) = Inr row" "createIPForwardEntry2 N (row\<lparr>fr_Metric := 0\<rparr>) s = (Inr (), s')"
      by blast
    with host_laws(4) [OF assms(1) this(2)] row_key [OF laws this(1)] up \<open>r = Inr ()\<close>
    show "has_row N g h \<and> host_key g h \<notin> route_key ` v_routes (view s) \<and> v_routes (view s') = insert (host_route g h) (v_routes (view s))"
      by (auto simp: has_row_def route_key_metric) }
  { assume "r = Inl ERROR_OBJECT_ALREADY_EXISTS"
    with row obtain row where "routeRow N (gw_luid g) h (gw_nextHop g) = Inr row"
      "createIPForwardEntry2 N (row\<lparr>fr_Metric := 0\<rparr>) s = (Inl ERROR_OBJECT_ALREADY_EXISTS, s')" by blast
    with host_laws(5) [OF assms(1) this(2)] row_key [OF laws this(1)]
    show "host_key g h \<in> route_key ` v_routes (view s)" by (simp add: route_key_metric) }
qed

text \<open>\<open>added_hosts\<close>: what \<open>addHosts\<close> did to the table, with the hosts \<open>A\<close> it added.\<close>

definition added_hosts :: "'s netio \<Rightarrow> defaultGateway \<Rightarrow> Prefix set \<Rightarrow> route_entry set \<Rightarrow> route_entry set \<Rightarrow> bool" where
  "added_hosts N g A R R' \<longleftrightarrow>
     (\<forall>h\<in>A. has_row N g h) \<and> host_key g ` A \<inter> route_key ` R = {} \<and> R' = R \<union> host_route g ` A"

lemma addHosts_routes:
  assumes "host_route_laws N view" "addHosts N g hosts owned s = (owned', added, err, s')"
  shows "\<exists>A \<subseteq> set hosts. set owned' = set owned \<union> A \<and> added_hosts N g A (v_routes (view s)) (v_routes (view s')) \<and>
    (err = None \<longrightarrow> gw_luid g \<noteq> 0 \<longrightarrow> host_key g ` set hosts \<subseteq> route_key ` v_routes (view s'))"
  using assms(2)
proof (induction hosts arbitrary: owned s added owned')
  case Nil
  then show ?case by (auto simp: added_hosts_def)
next
  case (Cons h hosts)
  show ?case
  proof (cases "gw_luid g = 0")
    case True
    with Cons.prems have "addHosts N g hosts owned s = (owned', added, err, s')" by simp
    from Cons.IH [OF this] True show ?thesis by (meson set_subset_Cons subset_trans)
  next
    case False
    obtain r s1 where r: "AddRoute N (gw_luid g) h (gw_nextHop g) 0 s = (r, s1)" by fastforce
    note host = AddRoute_host [OF assms(1) r]
    consider (ok) "r = Inr ()" | (exists) "r = Inl ERROR_OBJECT_ALREADY_EXISTS" | (err) e where "r = Inl e" "e \<noteq> ERROR_OBJECT_ALREADY_EXISTS"
      by (cases r) auto
    then show ?thesis
    proof cases
      case ok
      then obtain added1 where "addHosts N g hosts (List.insert h owned) s1 = (owned', added1, err, s')"
        using Cons.prems r False by (auto split: prod.splits)
      from Cons.IH [OF this] obtain A where A: "A \<subseteq> set hosts" "set owned' = set (List.insert h owned) \<union> A"
        "added_hosts N g A (v_routes (view s1)) (v_routes (view s'))"
        "err = None \<Longrightarrow> gw_luid g \<noteq> 0 \<Longrightarrow> host_key g ` set hosts \<subseteq> route_key ` v_routes (view s')" by blast
      have "added_hosts N g (insert h A) (v_routes (view s)) (v_routes (view s'))"
        using A(3) host(1) [OF ok] by (auto simp: added_hosts_def)
      moreover have "host_route g h \<in> v_routes (view s')" using A(3) host(1) [OF ok] by (simp add: added_hosts_def)
      then have "host_key g h \<in> route_key ` v_routes (view s')" by (metis imageI route_key_host_route)
      ultimately show ?thesis using A False by (intro exI [of _ "insert h A"]) auto
    next
      case exists
      then have "addHosts N g hosts owned s1 = (owned', added, err, s')" using Cons.prems r False by simp
      from Cons.IH [OF this] obtain A where A: "A \<subseteq> set hosts" "set owned' = set owned \<union> A"
        "added_hosts N g A (v_routes (view s)) (v_routes (view s'))"
        "err = None \<Longrightarrow> gw_luid g \<noteq> 0 \<Longrightarrow> host_key g ` set hosts \<subseteq> route_key ` v_routes (view s')" using host(2) [OF exists] by auto
      then have "host_key g h \<in> route_key ` v_routes (view s')" using host(3) [OF exists] by (auto simp: added_hosts_def)
      with A show ?thesis by (intro exI [of _ A]) auto
    next
      case err
      then show ?thesis using Cons.prems r False host(2) [OF err(1)] by (intro exI [of _ "{}"]) (auto simp: added_hosts_def)
    qed
  qed
qed

section \<open>One family\<close>

text \<open>
  The routes of the others are those whose key no owned host has. \<open>family_ok\<close>: the monitor owns routes to its
  hosts only, and can name them. \<open>routed\<close>: unless the family is marked incomplete, every host has a route through its gateway.
\<close>

definition owned_keys :: "defaultRouteFamily \<Rightarrow> (u64 \<times> Addr \<times> u8 \<times> Addr) set" where
  "owned_keys f = host_key (f_gateway f) ` set (f_owned f)"

definition others :: "(u64 \<times> Addr \<times> u8 \<times> Addr) set \<Rightarrow> route_entry set \<Rightarrow> route_entry set" where
  "others K R = {e \<in> R. route_key e \<notin> K}"

definition family_ok :: "'s netio \<Rightarrow> defaultRouteFamily \<Rightarrow> bool" where
  "family_ok N f \<longleftrightarrow> set (f_owned f) \<subseteq> set (f_hosts f) \<and> (\<forall>h\<in>set (f_owned f). has_row N (f_gateway f) h)"

definition routed :: "defaultRouteFamily \<Rightarrow> route_entry set \<Rightarrow> bool" where
  "routed f R \<longleftrightarrow> (\<not> f_incomplete f \<longrightarrow> gw_luid (f_gateway f) \<noteq> 0 \<longrightarrow> host_key (f_gateway f) ` set (f_hosts f) \<subseteq> route_key ` R)"

lemma others_deleted: "others K {e \<in> R. route_key e \<notin> D} = others (K \<union> D) R"
  by (auto simp: others_def)

lemma others_added: "added_hosts N g A R R' \<Longrightarrow> others (K \<union> (D \<union> host_key g ` A)) R' = others (K \<union> D) R"
  by (auto simp: others_def added_hosts_def)

definition same_hosts :: "defaultRouteFamily \<Rightarrow> defaultRouteFamily \<Rightarrow> bool" where
  "same_hosts f f' \<longleftrightarrow> f_family f' = f_family f \<and> f_hosts f' = f_hosts f \<and> f_blackhole f' = f_blackhole f"

lemma updateFamily_routes:
  assumes "host_route_laws N view" "\<And>xs. set (visit xs) = set xs" "family_ok N f" "routed f (v_routes (view s))"
    and "updateFamily N visit our f s = (f', moved, err, s')"
  shows "same_hosts f f' \<and> family_ok N f' \<and> routed f' (v_routes (view s')) \<and>
    (\<forall>K. others (K \<union> owned_keys f') (v_routes (view s')) = others (K \<union> owned_keys f) (v_routes (view s))) \<and>
    others (owned_keys f) (v_routes (view s)) \<subseteq> v_routes (view s')"
proof -
  obtain r s0 where r: "findDefaultGateway N (f_family f) our s = (r, s0)" by fastforce
  have v0: "view s0 = view s" using keepsD [OF findDefaultGateway_keeps [OF assms(1)] r] .
  show ?thesis
  proof (cases "\<exists>g. r = Inr g \<and> (g \<noteq> f_gateway f \<or> f_incomplete f)")
    case False
    then have "f' = f \<and> s' = s0" using assms(5) r by (cases r) (auto simp: updateFamily_def)
    then show ?thesis using assms(3,4) v0 by (auto simp: same_hosts_def others_def)
  next
    case True
    then obtain g where g: "r = Inr g" "g \<noteq> f_gateway f \<or> f_incomplete f" by blast
    define moves where "moves \<longleftrightarrow> f_gateway f \<noteq> g"
    define s1 where "s1 = (if moves then deleteHosts N (f_gateway f) (visit (f_owned f)) s0 else s0)"
    define owned where "owned = (if moves then [] else f_owned f)"
    obtain owned' added err2 s2 where a: "addHosts N g (f_hosts f) owned s1 = (owned', added, err2, s2)" by (metis prod_cases4)
    have "updateFamily N visit our f s =
        (f\<lparr>f_gateway := g, f_owned := owned', f_incomplete := err2 \<noteq> None\<rparr>, (moves \<and> f_hosts f \<noteq> []) \<or> added, err2, s2)"
      using g a [unfolded s1_def owned_def moves_def]
      by (simp only: updateFamily_def r prod.case sum.case Let_def moves_def) auto
    then have f': "f' = f\<lparr>f_gateway := g, f_owned := owned', f_incomplete := err \<noteq> None\<rparr>" "s' = s2" "err2 = err"
      using assms(5) by auto
    note a = a [unfolded f'(3)]
    obtain A where A: "A \<subseteq> set (f_hosts f)" "set owned' = set owned \<union> A" "added_hosts N g A (v_routes (view s1)) (v_routes (view s'))"
      "err = None \<Longrightarrow> gw_luid g \<noteq> 0 \<Longrightarrow> host_key g ` set (f_hosts f) \<subseteq> route_key ` v_routes (view s')"
      using addHosts_routes [OF assms(1) a] f'(2) by blast
    have del: "others (K \<union> host_key g ` set owned) (v_routes (view s1)) = others (K \<union> owned_keys f) (v_routes (view s))" for K
    proof (cases moves)
      case True
      have "v_routes (view s1) = {e \<in> v_routes (view s). route_key e \<notin> owned_keys f}"
        using deleteHosts_routes [OF assms(1), of "visit (f_owned f)" "f_gateway f" s0] assms(2,3) True v0
        by (simp add: s1_def family_ok_def owned_keys_def)
      with True show ?thesis by (simp add: others_deleted owned_def)
    qed (simp add: s1_def v0 owned_def owned_keys_def moves_def)
    have keys: "owned_keys f' = host_key g ` set owned \<union> host_key g ` A" by (simp add: f' owned_keys_def A(2) image_Un)
    have "family_ok N f'" using assms(3) A by (auto simp: family_ok_def f' owned_def moves_def added_hosts_def)
    moreover have "routed f' (v_routes (view s'))" using A(4) by (simp add: routed_def f'(1))
    moreover have "others (K \<union> owned_keys f') (v_routes (view s')) = others (K \<union> owned_keys f) (v_routes (view s))" for K
      unfolding keys by (simp add: others_added [OF A(3)] del)
    moreover have "others (owned_keys f) (v_routes (view s)) \<subseteq> v_routes (view s')"
      using calculation(3) [of "{}"] by (auto simp: others_def)
    ultimately show ?thesis by (simp add: same_hosts_def f'(1))
  qed
qed

section \<open>Both families\<close>

definition host_in :: "u16 \<Rightarrow> Prefix \<Rightarrow> bool" where
  "host_in family h \<longleftrightarrow> (\<exists>a. h = Prefix a (addr_BitLen a) \<and> a \<noteq> AddrInvalid \<and> addr_Zone a = [] \<and> (addr_Is4 a \<longleftrightarrow> family = AF_INET))"

definition hosts_ok :: "defaultRouteFamily list \<Rightarrow> bool" where
  "hosts_ok fs \<longleftrightarrow> distinct (map f_family fs) \<and>
     (\<forall>f\<in>set fs. f_family f \<in> {AF_INET, AF_INET6} \<and> (\<forall>h\<in>set (f_hosts f). host_in (f_family f) h))"

definition families_ok :: "'s netio \<Rightarrow> defaultRouteFamily list \<Rightarrow> route_entry set \<Rightarrow> bool" where
  "families_ok N fs R \<longleftrightarrow> hosts_ok fs \<and> (\<forall>f\<in>set fs. family_ok N f \<and> routed f R)"

definition all_owned :: "defaultRouteFamily list \<Rightarrow> (u64 \<times> Addr \<times> u8 \<times> Addr) set" where
  "all_owned fs = (\<Union>f\<in>set fs. owned_keys f)"

lemma addr_Is4_scoped [simp]: "addr_Is4 (scoped a) = addr_Is4 a"
  by (cases a) simp_all

lemma host_keys_disjoint:
  assumes "hosts_ok fs" "f \<in> set fs" "f' \<in> set fs" "f_family f \<noteq> f_family f'" "h \<in> set (f_hosts f)" "h' \<in> set (f_hosts f')"
  shows "host_key g h \<noteq> host_key g' h'"
proof -
  from assms have "host_in (f_family f) h" "host_in (f_family f') h'" "f_family f \<in> {AF_INET, AF_INET6}" "f_family f' \<in> {AF_INET, AF_INET6}"
    by (auto simp: hosts_ok_def)
  with assms(4) have "addr_Is4 (prefix_addr h) \<noteq> addr_Is4 (prefix_addr h')" by (auto simp: host_in_def)
  then have "scoped (prefix_addr h) \<noteq> scoped (prefix_addr h')" by (metis addr_Is4_scoped)
  then show ?thesis by (simp add: host_key_def)
qed

lemma routed_mono:
  assumes "routed f R" "others K R \<subseteq> R'" "host_key (f_gateway f) ` set (f_hosts f) \<inter> K = {}"
  shows "routed f R'"
proof -
  have "k \<in> route_key ` R'" if "k \<in> route_key ` R" "k \<notin> K" for k
  proof -
    from that obtain e where "e \<in> R" "route_key e = k" by blast
    with that(2) assms(2) show ?thesis by (auto simp: others_def)
  qed
  with assms(1,3) show ?thesis unfolding routed_def by blast
qed

lemma hosts_ok_Cons: "hosts_ok (f # fs) \<Longrightarrow> hosts_ok fs"
  by (auto simp: hosts_ok_def)

lemma hosts_ok_map:
  "hosts_ok fs \<longleftrightarrow> distinct (map f_family fs) \<and>
     (\<forall>x\<in>set (map (\<lambda>f. (f_family f, f_hosts f)) fs). fst x \<in> {AF_INET, AF_INET6} \<and> (\<forall>h\<in>set (snd x). host_in (fst x) h))"
  unfolding hosts_ok_def by simp

lemma same_hosts_maps:
  "list_all2 same_hosts fs fs' \<Longrightarrow> map f_family fs' = map f_family fs"
  "list_all2 same_hosts fs fs' \<Longrightarrow> map (\<lambda>f. (f_family f, f_hosts f)) fs' = map (\<lambda>f. (f_family f, f_hosts f)) fs"
  by (induction rule: list_all2_induct) (simp_all add: same_hosts_def)

lemma same_hosts_ok:
  assumes "list_all2 same_hosts fs fs'" "hosts_ok fs"
  shows "hosts_ok fs'"
  using assms(2) unfolding hosts_ok_map same_hosts_maps [OF assms(1)] .

lemma owned_hosts: "family_ok N f \<Longrightarrow> owned_keys f \<subseteq> host_key (f_gateway f) ` set (f_hosts f)"
  by (auto simp: family_ok_def owned_keys_def)

lemma Cons_disjoint:
  assumes "hosts_ok (f # fs)" "f' \<in> set fs"
  shows "host_key g ` set (f_hosts f) \<inter> host_key g' ` set (f_hosts f') = {}"
proof -
  from assms have "f_family f \<noteq> f_family f'" by (auto simp: hosts_ok_def)
  then have "host_key g h \<noteq> host_key g' h'" if "h \<in> set (f_hosts f)" "h' \<in> set (f_hosts f')" for h h'
    using host_keys_disjoint [OF assms(1), of f f' h h' g g'] assms(2) that by simp
  then show ?thesis by blast
qed

lemma updateFamilies_routes:
  assumes laws: "host_route_laws N view" "\<And>xs. set (visit xs) = set xs"
    and "families_ok N fs (v_routes (view s))" "updateFamilies N visit our fs s = (fs', moved, err, s')"
  shows "list_all2 same_hosts fs fs' \<and> (\<forall>f\<in>set fs'. family_ok N f \<and> routed f (v_routes (view s'))) \<and>
    (\<forall>K. others (K \<union> all_owned fs') (v_routes (view s')) = others (K \<union> all_owned fs) (v_routes (view s)))"
  using assms(3-)
proof (induction fs arbitrary: s fs' moved err s')
  case (Cons f fs)
  obtain f1 mv1 e1 s1 where f1: "updateFamily N visit our f s = (f1, mv1, e1, s1)" by (metis prod_cases4)
  obtain fs2 mv2 e2 s2 where fs2: "updateFamilies N visit our fs s1 = (fs2, mv2, e2, s2)" by (metis prod_cases4)
  have eq: "fs' = f1 # fs2" "s' = s2" using Cons.prems(2) f1 fs2 by auto
  have ok: "hosts_ok (f # fs)" "family_ok N f" "routed f (v_routes (view s))" using Cons.prems(1) by (auto simp: families_ok_def)
  note u = updateFamily_routes [OF laws ok(2,3) f1]
  then have f1h: "f_hosts f1 = f_hosts f" by (simp add: same_hosts_def)
  have "routed f' (v_routes (view s1))" if "f' \<in> set fs" for f'
  proof (rule routed_mono)
    show "routed f' (v_routes (view s))" using Cons.prems(1) that by (simp add: families_ok_def)
    show "others (owned_keys f) (v_routes (view s)) \<subseteq> v_routes (view s1)" using u by simp
    show "host_key (f_gateway f') ` set (f_hosts f') \<inter> owned_keys f = {}"
      using Cons_disjoint [OF ok(1) that] owned_hosts [OF ok(2)] by fast
  qed
  then have fs: "families_ok N fs (v_routes (view s1))"
    using Cons.prems(1) by (auto simp: families_ok_def dest: hosts_ok_Cons)
  note IH = Cons.IH [OF this fs2]
  have "others (all_owned fs) (v_routes (view s1)) \<subseteq> v_routes (view s2)"
    using IH [THEN conjunct2, THEN conjunct2, rule_format, of "{}"] by (auto simp: others_def)
  moreover have "host_key (f_gateway f1) ` set (f_hosts f1) \<inter> all_owned fs = {}"
    unfolding all_owned_def f1h using Cons_disjoint [OF ok(1)] owned_hosts fs by (fastforce simp: families_ok_def)
  ultimately have "routed f1 (v_routes (view s2))" using u by (blast intro: routed_mono)
  moreover have "others (K \<union> all_owned (f1 # fs2)) (v_routes (view s2)) = others (K \<union> all_owned (f # fs)) (v_routes (view s))" for K
  proof -
    have "others ((K \<union> owned_keys f1) \<union> all_owned fs2) (v_routes (view s2)) = others ((K \<union> owned_keys f1) \<union> all_owned fs) (v_routes (view s1))"
      using IH by blast
    also have "\<dots> = others ((K \<union> all_owned fs) \<union> owned_keys f1) (v_routes (view s1))" by (simp add: Un_ac)
    also have "\<dots> = others ((K \<union> all_owned fs) \<union> owned_keys f) (v_routes (view s))" using u by blast
    finally show ?thesis by (simp add: all_owned_def Un_ac)
  qed
  ultimately show ?case using IH u by (simp add: eq)
qed (simp add: others_def)

lemma removeHostRoutes_routes:
  assumes "host_route_laws N view" "\<And>xs. set (visit xs) = set xs" "\<forall>f\<in>set (m_families m). family_ok N f"
  shows "v_routes (view (snd (removeHostRoutesLocked N visit m s))) = others (all_owned (m_families m)) (v_routes (view s))"
proof -
  have "v_routes (view (fold (\<lambda>f. deleteHosts N (f_gateway f) (visit (f_owned f))) fs s)) = others (all_owned fs) (v_routes (view s))"
    if "\<forall>f\<in>set fs. family_ok N f" for fs
    using that
  proof (induction fs arbitrary: s)
    case (Cons f fs)
    then have "\<forall>h\<in>set (visit (f_owned f)). has_row N (f_gateway f) h" by (simp add: assms(2) family_ok_def)
    note d = deleteHosts_routes [OF assms(1) this, of s]
    show ?case using Cons by (auto simp: d others_def all_owned_def owned_keys_def assms(2))
  qed (simp add: others_def all_owned_def)
  with assms(3) show ?thesis by (simp add: removeHostRoutesLocked_def)
qed

end
