(* ===== verification/RouteMonitorRuns.thy ===== *)
theory RouteMonitorRuns
  imports RouteMonitor
begin

text \<open>
  The runs of the default route monitor: it is created, started and called back in any order,
  while other programs add and delete routes. The theorems show what holds in every run: the
  monitor removes only routes that it added, leaves none behind, and keeps every WebSocket server routed through
  the gateway; a change is followed within a bounded time.
\<close>

section \<open>Steps\<close>

definition monitor_laws :: "'s netio \<Rightarrow> 's notifyio \<Rightarrow> 's sockets \<Rightarrow> ('s \<Rightarrow> netview) \<Rightarrow> bool" where
  "monitor_laws N C B view \<longleftrightarrow>
     host_route_laws N view \<and> keeps view (notifyRouteChange2 C) \<and> keeps view (notifyIPInterfaceChange C) \<and>
     (\<forall>h. keeps view (cancelMibChangeNotify2 C h)) \<and> keeps view (rebind B) \<and>
     (\<forall>i b. keeps view (BindSocketToInterface4 B i b)) \<and> (\<forall>i b. keeps view (BindSocketToInterface6 B i b))"

type_synonym 's monitor_state = "defaultRouteMonitor \<times> handlers \<times> 's"

text \<open>
  \<open>route_gone\<close> is the deletion of a route by another program with the notification of the monitor, \<open>world\<close> any other
  change of the platform that deletes no route.
\<close>

inductive monitor_step :: "'s netio \<Rightarrow> 's notifyio \<Rightarrow> 's sockets \<Rightarrow> (Prefix list \<Rightarrow> Prefix list) \<Rightarrow> ('s \<Rightarrow> netview) \<Rightarrow>
    's monitor_state \<Rightarrow> 's monitor_state \<Rightarrow> bool"
  for N C B visit view where
  started: "start C B m (g, s) = (r, m', g', s') \<Longrightarrow> monitor_step N C B visit view (m, g, s) (m', g', s')"
| updated: "update N B visit m s = (m', s') \<Longrightarrow> monitor_step N C B visit view (m, g, s) (m', g, s')"
| route_gone: "onRouteChange now MibDeleteInstance (Some r) m = Inr (m', b) \<Longrightarrow>
     v_routes (view s') = {e \<in> v_routes (view s). route_key e \<noteq> route_key (route_entry r)} \<Longrightarrow>
     monitor_step N C B visit view (m, g, s) (m', g, s')"
| route_changed: "onRouteChange now t row m = Inr (m', b) \<Longrightarrow> monitor_step N C B visit view (m, g, s) (m', g, s)"
| interface_changed: "onInterfaceChange now t m = Inr (m', b) \<Longrightarrow> monitor_step N C B visit view (m, g, s) (m', g, s)"
| timer_fires: "monitor_step N C B visit view (m, g, s) (timerFires m, g, s)"
| world: "v_routes (view s) \<subseteq> v_routes (view s') \<Longrightarrow> monitor_step N C B visit view (m, g, s) (m, g', s')"

inductive monitor_reachable :: "'s netio \<Rightarrow> 's notifyio \<Rightarrow> 's sockets \<Rightarrow> (Prefix list \<Rightarrow> Prefix list) \<Rightarrow> ('s \<Rightarrow> netview) \<Rightarrow>
    Config \<Rightarrow> u64 \<Rightarrow> 's monitor_state \<Rightarrow> bool"
  for N C B visit view config our where
  created: "newDefaultRouteMonitor N visit config our s = (Inr m, s') \<Longrightarrow> monitor_reachable N C B visit view config our (m, g, s')"
| step: "monitor_reachable N C B visit view config our x \<Longrightarrow> monitor_step N C B visit view x y \<Longrightarrow>
    monitor_reachable N C B visit view config our y"

definition monitor_ok :: "'s netio \<Rightarrow> defaultRouteMonitor \<Rightarrow> route_entry set \<Rightarrow> bool" where
  "monitor_ok N m R \<longleftrightarrow> families_ok N (m_families m) R"

section \<open>The hosts of a configuration\<close>

lemma serverHost_ok:
  assumes "\<forall>h\<in>set hosts. host_in family h"
  shows "\<forall>h\<in>set (serverHost family hosts p). host_in family h"
proof (cases "netip_ParseAddr (Host (pEndpoint p))")
  case (Some a)
  then have "addr_Unmap a \<noteq> AddrInvalid" using ParseAddr_zone [OF Some] by (cases a) auto
  then have "addr_Is4 (addr_Unmap a) = (family = AF_INET) \<Longrightarrow> host_in family (netip_PrefixFrom (addr_Unmap a) (addr_BitLen (addr_Unmap a)))"
    by (cases "addr_Unmap a") (auto simp: netip_PrefixFrom_def host_in_def)
  then show ?thesis using assms Some by (auto simp: serverHost_def Let_def)
qed (use assms in \<open>simp add: serverHost_def\<close>)

lemma webSocketServerHosts_ok: "\<forall>h\<in>set (webSocketServerHosts config family). host_in family h"
proof -
  have "\<forall>h\<in>set (foldl (serverHost family) hosts ps). host_in family h" if "\<forall>h\<in>set hosts. host_in family h" for hosts ps
    using that
  proof (induction ps arbitrary: hosts)
    case (Cons p ps)
    from Cons.IH [OF serverHost_ok [OF Cons.prems]] show ?case by simp
  qed simp
  from this [of "[]" "Peers config"] show ?thesis by (simp add: webSocketServerHosts_def)
qed

lemma newFamilies_ok: "families_ok N (map (newFamily config) [AF_INET, AF_INET6]) R"
  using webSocketServerHosts_ok [of config]
  by (auto simp: families_ok_def hosts_ok_def newFamily_def family_ok_def routed_def zeroGateway_def AF_INET_def AF_INET6_def)

section \<open>Every step keeps the invariant\<close>

lemma updateLocked_ok:
  assumes "host_route_laws N view" "\<And>xs. set (visit xs) = set xs" "monitor_ok N m (v_routes (view s))"
    and "updateLocked N visit m s = (m', moved, err, s')"
  shows "monitor_ok N m' (v_routes (view s'))"
    and "others (all_owned (m_families m')) (v_routes (view s')) = others (all_owned (m_families m)) (v_routes (view s))"
proof -
  obtain fs where fs: "updateFamilies N visit (m_ourLUID m) (m_families m) s = (fs, moved, err, s')" "m' = m\<lparr>m_families := fs\<rparr>"
    using assms(4) by (auto simp: updateLocked_def split: prod.splits)
  note u = updateFamilies_routes [OF assms(1,2) assms(3) [unfolded monitor_ok_def] fs(1)]
  then show "monitor_ok N m' (v_routes (view s'))"
    using assms(3) same_hosts_ok by (auto simp: monitor_ok_def families_ok_def fs(2))
  from u have "others ({} \<union> all_owned fs) (v_routes (view s')) = others ({} \<union> all_owned (m_families m)) (v_routes (view s))" by blast
  then show "others (all_owned (m_families m')) (v_routes (view s')) = others (all_owned (m_families m)) (v_routes (view s))"
    by (simp add: fs(2))
qed

lemma snd_keeps: "keeps view m \<Longrightarrow> view (snd (m s)) = view s"
  by (simp add: keeps_def)

lemma monitor_laws_host: "monitor_laws N C B view \<Longrightarrow> host_route_laws N view"
  by (simp add: monitor_laws_def)

lemma pinSockets_keeps:
  assumes "monitor_laws N C B view"
  shows "keeps view (pinSocketsLocked B m)"
proof -
  have "keeps view (peach (pinFamily B) fs)" for fs
    using assms by (induction fs) (auto simp: keeps_def preturn_def monitor_laws_def pinFamily_def Let_def intro!: keeps_bind [unfolded keeps_def, rule_format])
  then show ?thesis by (simp add: pinSocketsLocked_def)
qed

lemma update_ok:
  assumes "monitor_laws N C B view" "\<And>xs. set (visit xs) = set xs" "monitor_ok N m (v_routes (view s))"
    and "update N B visit m s = (m', s')"
  shows "monitor_ok N m' (v_routes (view s')) \<and>
    others (all_owned (m_families m')) (v_routes (view s')) = others (all_owned (m_families m)) (v_routes (view s))"
proof (cases "m_callbacks m")
  case (Some cbs)
  obtain m1 moved err s1 where u: "updateLocked N visit m s = (m1, moved, err, s1)" by (metis prod_cases4)
  have "view (snd (pinSocketsLocked B m1 (if moved then snd (rebind B s1) else s1))) = view s1"
    using snd_keeps [OF pinSockets_keeps [OF assms(1)]] assms(1) by (simp add: monitor_laws_def snd_keeps)
  moreover have "(m', s') = (m1, snd (pinSocketsLocked B m1 (if moved then snd (rebind B s1) else s1)))"
    unfolding assms(4) [symmetric] by (simp add: update_def u Let_def Some)
  ultimately have "m' = m1" "view s' = view s1" by simp_all
  with updateLocked_ok [OF monitor_laws_host [OF assms(1)] assms(2,3) u] show ?thesis by simp
qed (use assms in \<open>simp add: update_def\<close>)

lemma bump_families: "bump now m = Inr (m', b) \<Longrightarrow> m_families m' = m_families m"
  by (auto simp: bump_def Let_def split: if_splits option.splits)

lemma routed_incomplete [simp]: "routed (f\<lparr>f_incomplete := True\<rparr>) R"
  by (simp add: routed_def)

lemma family_ok_incomplete [simp]: "family_ok N (f\<lparr>f_incomplete := b\<rparr>) = family_ok N f"
  by (simp add: family_ok_def)

lemma markDeleted_same: "markDeleted p fs = (b, fs') \<Longrightarrow> list_all2 same_hosts fs fs'"
  by (induction fs arbitrary: fs' b) (auto simp: same_hosts_def list_all2_same split: if_splits prod.splits)

text \<open>A deleted route to a host names its prefix, so its family is marked.\<close>

lemma host_prefix_of_key:
  assumes "host_in family h" "route_key (route_entry r) = host_key g h"
  shows "prefix_Prefix (fr_DestinationPrefix r) = h \<and> PrefixLength (fr_DestinationPrefix r) \<noteq> 0"
proof -
  obtain a where a: "h = Prefix a (addr_BitLen a)" "a \<noteq> AddrInvalid" "addr_Zone a = []" using assms(1) by (auto simp: host_in_def)
  let ?raw = "RawPrefix (fr_DestinationPrefix r)"
  have r: "sockaddr_Addr ?raw = a" "PrefixLength (fr_DestinationPrefix r) = of_int (addr_BitLen a)"
    using assms(2) a by (simp_all add: route_entry_def host_key_def scoped_no_zone)
  have fam: "Family ?raw = AF_INET \<or> Family ?raw = AF_INET6"
    using r(1) a(2) by (auto simp: sockaddr_Addr_def split: if_splits)
  have len: "addr_BitLen a = 32 \<or> addr_BitLen a = 128" using a(2) by (cases a) simp_all
  then have "uint (of_int (addr_BitLen a) :: u8) = addr_BitLen a" "(of_int (addr_BitLen a) :: u8) \<noteq> 0" by auto
  moreover have "addr_withoutZone a = a" using a(3) by (cases a) simp_all
  ultimately show ?thesis using fam len a(2) by (auto simp: prefix_Prefix_def r netip_PrefixFrom_def a(1))
qed

lemma markDeleted_ok:
  assumes "\<forall>f\<in>set fs. family_ok N f \<and> routed f R" "hosts_ok fs" "markDeleted (prefix_Prefix (fr_DestinationPrefix r)) fs = (b, fs')"
  shows "\<forall>f\<in>set fs'. family_ok N f \<and> routed f {e \<in> R. route_key e \<noteq> route_key (route_entry r)}"
  using assms
proof (induction fs arbitrary: fs' b)
  case (Cons f fs)
  let ?p = "prefix_Prefix (fr_DestinationPrefix r)" and ?R = "{e \<in> R. route_key e \<noteq> route_key (route_entry r)}"
  have kept: "routed f' ?R" if "f' \<in> set (f # fs)" "?p \<notin> set (f_hosts f')" for f'
  proof (rule routed_mono)
    show "routed f' R" using Cons.prems(1) that(1) by blast
    show "others {route_key (route_entry r)} R \<subseteq> ?R" by (auto simp: others_def)
    show "host_key (f_gateway f') ` set (f_hosts f') \<inter> {route_key (route_entry r)} = {}"
      using that Cons.prems(2) host_prefix_of_key by (fastforce simp: hosts_ok_def)
  qed
  show ?case
  proof (cases "?p \<in> set (f_hosts f)")
    case True
    have "?p \<notin> set (f_hosts f')" if "f' \<in> set fs" for f'
      using Cons_disjoint [OF Cons.prems(2) that, of zeroGateway zeroGateway] True by blast
    then show ?thesis using True Cons.prems kept by (auto simp: list_ex_iff)
  next
    case False
    then obtain fs1 where "markDeleted ?p fs = (b, fs1)" "fs' = f # fs1"
      using Cons.prems(3) by (auto simp: list_ex_iff split: prod.splits)
    with Cons.IH [of b fs1] Cons.prems False kept [of f] hosts_ok_Cons [OF Cons.prems(2)] show ?thesis by simp
  qed
qed simp

lemma routed_subset: "routed f R \<Longrightarrow> R \<subseteq> R' \<Longrightarrow> routed f R'"
  unfolding routed_def by blast

lemma monitor_ok_mono: "monitor_ok N m R \<Longrightarrow> R \<subseteq> R' \<Longrightarrow> monitor_ok N m R'"
  unfolding monitor_ok_def families_ok_def by (blast intro: routed_subset)

lemma monitor_ok_families: "m_families m' = m_families m \<Longrightarrow> monitor_ok N m' R = monitor_ok N m R"
  by (simp add: monitor_ok_def)

lemma hostRouteDeleted_ok:
  assumes "monitor_ok N m R" "hostRouteDeleted r m = (b, m')"
  shows "monitor_ok N m' {e \<in> R. route_key e \<noteq> route_key (route_entry r)}"
proof -
  obtain fs where fs: "markDeleted (prefix_Prefix (fr_DestinationPrefix r)) (m_families m) = (b, fs)" "m' = m\<lparr>m_families := fs\<rparr>"
    using assms(2) by (auto simp: hostRouteDeleted_def split: prod.splits)
  have ok: "hosts_ok (m_families m)" "\<forall>f\<in>set (m_families m). family_ok N f \<and> routed f R"
    using assms(1) by (simp_all add: monitor_ok_def families_ok_def)
  from markDeleted_ok [OF ok(2,1) fs(1)] same_hosts_ok [OF markDeleted_same [OF fs(1)] ok(1)] show ?thesis
    by (simp add: monitor_ok_def families_ok_def fs(2))
qed

lemma default_route_gone_ok:
  assumes "monitor_ok N m R" "PrefixLength (fr_DestinationPrefix r) = 0"
  shows "monitor_ok N m {e \<in> R. route_key e \<noteq> route_key (route_entry r)}"
proof -
  have "routed f {e \<in> R. route_key e \<noteq> route_key (route_entry r)}" if "f \<in> set (m_families m)" for f
  proof (rule routed_mono)
    show "routed f R" using assms(1) that by (simp add: monitor_ok_def families_ok_def)
    show "others {route_key (route_entry r)} R \<subseteq> {e \<in> R. route_key e \<noteq> route_key (route_entry r)}" by (auto simp: others_def)
    have "host_key (f_gateway f) h \<noteq> route_key (route_entry r)" if "h \<in> set (f_hosts f)" for h
      using host_prefix_of_key [of "f_family f" h r "f_gateway f"] assms \<open>f \<in> set (m_families m)\<close> that
      by (auto simp: monitor_ok_def families_ok_def hosts_ok_def)
    then show "host_key (f_gateway f) ` set (f_hosts f) \<inter> {route_key (route_entry r)} = {}" by blast
  qed
  then show ?thesis using assms(1) by (simp add: monitor_ok_def families_ok_def)
qed

lemma onRouteChange_cases:
  assumes "onRouteChange now t row m = Inr (m', b)"
  obtains (other) "m' = m" "t \<noteq> MibDeleteInstance \<or> row = None"
  | (default) r where "row = Some r" "PrefixLength (fr_DestinationPrefix r) = 0" "m_families m' = m_families m"
  | (host) r b' m1 where "row = Some r" "hostRouteDeleted r m = (b', m1)" "m_families m' = m_families m1"
proof (cases row)
  case (Some r)
  obtain b' m1 where d: "hostRouteDeleted r m = (b', m1)" by fastforce
  show thesis
  proof (cases "PrefixLength (fr_DestinationPrefix r) = 0")
    case True
    with assms Some show thesis by (intro default) (auto simp: onRouteChange_def dest: bump_families)
  next
    case False
    with assms Some show thesis
      by (cases "t = MibDeleteInstance"; cases b')
        (auto simp: onRouteChange_def d intro: other host [OF Some d] dest: bump_families)
  qed
qed (use assms in \<open>auto simp: onRouteChange_def intro: other\<close>)

lemma onRouteChange_ok:
  assumes "monitor_ok N m R" "onRouteChange now t row m = Inr (m', b)"
  shows "monitor_ok N m' R"
  using assms(2)
proof (cases rule: onRouteChange_cases)
  case (host r b' m1)
  have "monitor_ok N m1 R" by (rule monitor_ok_mono [OF hostRouteDeleted_ok [OF assms(1) host(2)]]) auto
  with host(3) monitor_ok_families show ?thesis by blast
qed (use assms(1) monitor_ok_families in blast)+

lemma route_gone_ok:
  assumes "monitor_ok N m R" "onRouteChange now MibDeleteInstance (Some r) m = Inr (m', b)"
  shows "monitor_ok N m' {e \<in> R. route_key e \<noteq> route_key (route_entry r)}"
  using assms(2)
proof (cases rule: onRouteChange_cases)
  case (default r')
  with default_route_gone_ok [OF assms(1)] monitor_ok_families show ?thesis by blast
next
  case (host r' b' m1)
  with hostRouteDeleted_ok [OF assms(1)] monitor_ok_families show ?thesis by blast
qed simp

lemma register_view:
  assumes "keeps view notify"
  shows "view (snd (snd (registerCallback get put notify gs))) = view (snd gs)"
  using keepsD [OF assms]
  by (cases gs) (auto simp: registerCallback_def Let_def split: prod.split sum.split)

lemma unregister_view:
  assumes "\<And>h. keeps view (cancel h)"
  shows "view (snd (snd (unregisterCallback get put cancel cb gs))) = view (snd gs)"
  using keepsD [OF assms]
  by (cases gs) (auto simp: unregisterCallback_def Let_def split: prod.split sum.split)

lemma registration_view:
  assumes "monitor_laws N C B view"
  shows "view (snd (snd (RegisterRouteChangeCallback C gs))) = view (snd gs)"
    "view (snd (snd (RegisterInterfaceChangeCallback C gs))) = view (snd gs)"
    "view (snd (snd (RouteChangeCallback_Unregister C cb gs))) = view (snd gs)"
    "view (snd (snd (InterfaceChangeCallback_Unregister C cb gs))) = view (snd gs)"
  using assms unfolding registration_defs monitor_laws_def
  by (simp_all add: register_view unregister_view)

lemma start_ok:
  assumes "monitor_laws N C B view" "start C B m (g, s) = (r, m', g', s')"
  shows "m_families m' = m_families m \<and> view s' = view s"
proof -
  obtain r0 s0 where pin: "pinSocketsLocked B m s = (r0, s0)" by fastforce
  have s0: "view s0 = view s" using keepsD [OF pinSockets_keeps [OF assms(1)] pin] .
  obtain r1 gs1 where reg1: "RegisterRouteChangeCallback C (g, s0) = (r1, gs1)" by (metis surj_pair)
  obtain r2 gs2 where reg2: "RegisterInterfaceChangeCallback C gs1 = (r2, gs2)" by (metis surj_pair)
  have v: "view (snd gs1) = view s0" "view (snd gs2) = view (snd gs1)"
    using registration_view(1) [OF assms(1), of "(g, s0)"] registration_view(2) [OF assms(1), of gs1] reg1 reg2 by simp_all
  show ?thesis
  proof (cases r0)
    case (Inr x0)
    note reg3 = registration_view(3) [OF assms(1), of "projr r1" gs2]
    show ?thesis
      using assms(2) s0 v reg3 by (cases r1; cases r2) (simp_all add: start_def pin reg1 reg2 Inr Let_def, auto)
  qed (use assms(2) s0 in \<open>simp add: start_def pin\<close>)
qed

section \<open>The invariant\<close>

lemma monitor_step_ok:
  assumes "monitor_laws N C B view" "\<And>xs. set (visit xs) = set xs"
    and "monitor_step N C B visit view (m, g, s) (m', g', s')" "monitor_ok N m (v_routes (view s))"
  shows "monitor_ok N m' (v_routes (view s'))"
  using assms(3)
proof cases
  case (started r)
  with start_ok [OF assms(1), of m g s r m' g' s'] assms(4) monitor_ok_families [of m' m N "v_routes (view s)"] show ?thesis by simp
next
  case updated
  with update_ok [OF assms(1,2,4)] show ?thesis by blast
next
  case (route_gone now r b)
  with route_gone_ok [OF assms(4), of now r m' b] show ?thesis by simp
next
  case (route_changed now t row b)
  with onRouteChange_ok [OF assms(4), of now t row m' b] show ?thesis by simp
next
  case (interface_changed now t b)
  then have "m_families m' = m_families m" by (auto simp: onInterfaceChange_def dest: bump_families split: if_splits)
  with interface_changed assms(4) monitor_ok_families [of m' m N "v_routes (view s)"] show ?thesis by simp
next
  case timer_fires
  then have "m_families m' = m_families m" by (simp add: timerFires_def)
  with timer_fires assms(4) monitor_ok_families [of m' m N "v_routes (view s)"] show ?thesis by simp
next
  case world
  with monitor_ok_mono [OF assms(4)] show ?thesis by simp
qed

lemma new_ok:
  assumes "host_route_laws N view" "\<And>xs. set (visit xs) = set xs" "newDefaultRouteMonitor N visit config our s = (r, s')"
  shows "case r of Inl _ \<Rightarrow> v_routes (view s') = v_routes (view s)
    | Inr m \<Rightarrow> monitor_ok N m (v_routes (view s')) \<and> others (all_owned (m_families m)) (v_routes (view s')) = v_routes (view s)"
proof -
  define m0 where "m0 = \<lparr>m_ourLUID = our, m_families = map (newFamily config) [AF_INET, AF_INET6], m_callbacks = None,
           m_burstTimer = NoTimer, m_firstBurst = None\<rparr>"
  obtain m1 moved err s1 where u: "updateLocked N visit m0 s = (m1, moved, err, s1)" by (metis prod_cases4)
  have "monitor_ok N m0 (v_routes (view s))" using newFamilies_ok by (simp add: monitor_ok_def m0_def)
  note ok = updateLocked_ok [OF assms(1,2) this u]
  have "all_owned (m_families m0) = {}" by (simp add: m0_def all_owned_def owned_keys_def newFamily_def)
  with ok(2) have others: "others (all_owned (m_families m1)) (v_routes (view s1)) = v_routes (view s)" by (simp add: others_def)
  show ?thesis
  proof (cases err)
    case None
    then show ?thesis using assms(3) u ok(1) others by (auto simp: newDefaultRouteMonitor_def m0_def)
  next
    case (Some e)
    have "\<forall>f\<in>set (m_families m1). family_ok N f" using ok(1) by (simp add: monitor_ok_def families_ok_def)
    from removeHostRoutes_routes [OF assms(1,2) this, of s1] assms(3) u Some others
    show ?thesis by (auto simp: newDefaultRouteMonitor_def m0_def)
  qed
qed

lemma monitor_reachable_ok:
  assumes "monitor_laws N C B view" "\<And>xs. set (visit xs) = set xs" "monitor_reachable N C B visit view config our (m, g, s)"
  shows "monitor_ok N m (v_routes (view s))"
  using assms(3)
proof (induction "(m, g, s)" arbitrary: m g s rule: monitor_reachable.induct)
  case (created s m s')
  with new_ok [OF monitor_laws_host [OF assms(1)] assms(2)] show ?case by fastforce
next
  case (step x)
  then show ?case by (cases x) (use monitor_step_ok [OF assms(1,2)] in blast)
qed

section \<open>The best gateway\<close>

text \<open>
  What the interfaces answer in the states \<open>P\<close> in which the table is searched: \<open>up\<close> whether an interface is operational, \<open>metric\<close> its metric
  when it can be read. A row is usable when it is a default route of an operational interface other than the tunnel's.
\<close>

definition interface_answers :: "'s netio \<Rightarrow> u16 \<Rightarrow> ('s \<Rightarrow> bool) \<Rightarrow> (u64 \<Rightarrow> bool) \<Rightarrow> (u64 \<Rightarrow> u32 option) \<Rightarrow> bool" where
  "interface_answers N family P up metric \<longleftrightarrow>
     (\<forall>luid s. P s \<longrightarrow> (case luid_Interface N luid s of (r, s') \<Rightarrow>
        P s' \<and> up luid = (case r of Inl _ \<Rightarrow> False | Inr row \<Rightarrow> if_OperStatus row = IfOperStatusUp))) \<and>
     (\<forall>luid s. P s \<longrightarrow> (case IPInterface N luid family s of (r, s') \<Rightarrow>
        P s' \<and> metric luid = (case r of Inl _ \<Rightarrow> None | Inr row \<Rightarrow> Some (ip_Metric row))))"

definition usable :: "u64 \<Rightarrow> (u64 \<Rightarrow> bool) \<Rightarrow> (u64 \<Rightarrow> u32 option) \<Rightarrow> MibIPforwardRow2 \<Rightarrow> bool" where
  "usable our up metric r \<longleftrightarrow> PrefixLength (fr_DestinationPrefix r) = 0 \<and> fr_InterfaceLUID r \<noteq> our \<and>
     up (fr_InterfaceLUID r) \<and> metric (fr_InterfaceLUID r) \<noteq> None"

definition cost :: "(u64 \<Rightarrow> u32 option) \<Rightarrow> MibIPforwardRow2 \<Rightarrow> nat" where
  "cost metric r = unat (fr_Metric r) + (case metric (fr_InterfaceLUID r) of None \<Rightarrow> 0 | Some k \<Rightarrow> unat k)"

lemma candidateMetric_usable:
  assumes "interface_answers N family P up metric" "P s"
  shows "P (snd (candidateMetric N family our r s))" "fst (candidateMetric N family our r s) =
    (if usable our up metric r then Some (ucast (fr_Metric r) + ucast (the (metric (fr_InterfaceLUID r)))) else None)"
proof -
  let ?l = "fr_InterfaceLUID r"
  obtain x s1 where x: "luid_Interface N ?l s = (x, s1)" by fastforce
  obtain y s2 where y: "IPInterface N ?l family s1 = (y, s2)" by fastforce
  have 1: "P s1 \<and> up ?l = (case x of Inl _ \<Rightarrow> False | Inr row \<Rightarrow> if_OperStatus row = IfOperStatusUp)"
    using assms(1) [unfolded interface_answers_def, THEN conjunct1, rule_format, OF assms(2), of ?l] x by simp
  then have 2: "P s2 \<and> metric ?l = (case y of Inl _ \<Rightarrow> None | Inr row \<Rightarrow> Some (ip_Metric row))"
    using assms(1) [unfolded interface_answers_def, THEN conjunct2, rule_format, of s1 ?l] y by simp
  show "P (snd (candidateMetric N family our r s))" "fst (candidateMetric N family our r s) =
      (if usable our up metric r then Some (ucast (fr_Metric r) + ucast (the (metric (fr_InterfaceLUID r)))) else None)"
    using 1 2 assms(2) by (cases x; cases y; auto simp: candidateMetric_def usable_def x y)+
qed

text \<open>The sum of two 32-bit metrics does not wrap in 64 bits and is below the initial \<open>^uint64(0)\<close>.\<close>

lemma unat_ucast_u32: "unat (ucast (a :: u32) :: u64) = unat a"
proof -
  have "unat (ucast a :: u64) = unat a mod 2 ^ 64" by (simp add: unsigned_ucast_eq take_bit_eq_mod)
  then show ?thesis using unat_u32_less [of a] by simp
qed

lemma unat_sum_metrics: "unat (ucast (a :: u32) + ucast (b :: u32) :: u64) = unat a + unat b"
  using unat_u32_less [of a] unat_u32_less [of b] by (simp add: unat_word_ariths unat_ucast_u32)

lemma cost_word:
  assumes "usable our up metric r"
  shows "unat (ucast (fr_Metric r) + ucast (the (metric (fr_InterfaceLUID r))) :: u64) = cost metric r" "cost metric r < 2 ^ 33"
  using assms unat_u32_less [of "fr_Metric r"] unat_u32_less [of "the (metric (fr_InterfaceLUID r))"]
  by (auto simp: usable_def unat_sum_metrics cost_def)

definition best :: "(u64 \<Rightarrow> u32 option) \<Rightarrow> MibIPforwardRow2 set \<Rightarrow> MibIPforwardRow2 \<Rightarrow> bool" where
  "best metric R r \<longleftrightarrow> r \<in> R \<and> (\<forall>r'\<in>R. cost metric r \<le> cost metric r')"

lemma gatewayLoop_best:
  assumes "interface_answers N family P up metric"
  shows "P s \<Longrightarrow> gatewayLoop N family our rs lowest g s = (res, s') \<Longrightarrow>
    res = Inr g \<and> (\<forall>r\<in>set rs. usable our up metric r \<longrightarrow> unat lowest \<le> cost metric r) \<or>
    (\<exists>r. best metric {r \<in> set rs. usable our up metric r} r \<and> cost metric r < unat lowest \<and> res = Inr (rowGateway r))"
proof (induction rs arbitrary: lowest g s)
  case (Cons r rs)
  obtain c s1 where c: "candidateMetric N family our r s = (c, s1)" by fastforce
  have cm: "c = (if usable our up metric r then Some (ucast (fr_Metric r) + ucast (the (metric (fr_InterfaceLUID r)))) else None)"
    using candidateMetric_usable(2) [OF assms Cons.prems(1), of our r] c by simp
  have s1: "P s1" using candidateMetric_usable(1) [OF assms Cons.prems(1), of our r] c by simp
  show ?case
  proof (cases "usable our up metric r")
    case False
    with Cons.prems(2) c cm have "gatewayLoop N family our rs lowest g s1 = (res, s')" by simp
    from Cons.IH [OF s1 this] False show ?thesis by (auto simp: best_def)
  next
    case True
    define k :: u64 where "k = ucast (fr_Metric r) + ucast (the (metric (fr_InterfaceLUID r)))"
    have k: "c = Some k" "unat k = cost metric r" using cm True cost_word(1) [OF True] by (simp_all add: k_def)
    show ?thesis
    proof (cases "k < lowest")
      case False
      with Cons.prems(2) c k have "gatewayLoop N family our rs lowest g s1 = (res, s')" by simp
      from Cons.IH [OF s1 this] False k(2) show ?thesis by (fastforce simp: best_def word_less_nat_alt)
    next
      case less: True
      with Cons.prems(2) c k have "gatewayLoop N family our rs k (rowGateway r) s1 = (res, s')" by simp
      from Cons.IH [OF s1 this] show ?thesis
      proof
        assume "res = Inr (rowGateway r) \<and> (\<forall>r\<in>set rs. usable our up metric r \<longrightarrow> unat k \<le> cost metric r)"
        then have "best metric {x \<in> set (r # rs). usable our up metric x} r \<and> cost metric r < unat lowest \<and> res = Inr (rowGateway r)"
          using True less k(2) by (auto simp: best_def word_less_nat_alt)
        then show ?thesis by blast
      next
        assume "\<exists>r. best metric {r \<in> set rs. usable our up metric r} r \<and> cost metric r < unat k \<and> res = Inr (rowGateway r)"
        then obtain r' where "best metric {r \<in> set rs. usable our up metric r} r'" "cost metric r' < unat k" "res = Inr (rowGateway r')"
          by blast
        then have "best metric {x \<in> set (r # rs). usable our up metric x} r' \<and> cost metric r' < unat lowest \<and> res = Inr (rowGateway r')"
          using less k(2) by (auto simp: best_def word_less_nat_alt)
        then show ?thesis by blast
      qed
    qed
  qed
qed simp

text \<open>C19. The default gateway is a usable default route of least combined metric, computed without wrap-around, and so never
  leads into the tunnel itself; there is no gateway exactly when no default route is usable.
\<close>

theorem findDefaultGateway_best:
  assumes "interface_answers N family P up metric" "getIPForwardTable2 N family s = (Inr rs, s1)" "P s1"
  shows "let R = {r \<in> set rs. usable our up metric r} in
    if R = {} then fst (findDefaultGateway N family our s) = Inr zeroGateway
    else \<exists>r. best metric R r \<and> fst (findDefaultGateway N family our s) = Inr (rowGateway r)"
proof -
  obtain res s2 where g: "gatewayLoop N family our rs (-1) zeroGateway s1 = (res, s2)" by fastforce
  then have res: "fst (findDefaultGateway N family our s) = res" using assms(2) by (simp add: findDefaultGateway_def pbind_def)
  have "cost metric r < unat (-1 :: u64)" if "usable our up metric r" for r
  proof -
    have "unat (-1 :: u64) = 2 ^ 64 - 1" by (simp add: unsigned_minus_1_eq_mask mask_eq_exp_minus_1)
    with cost_word(2) [OF that] show ?thesis by simp
  qed
  with gatewayLoop_best [OF assms(1,3) g] show ?thesis unfolding res Let_def by (force simp: best_def)
qed

section \<open>Host routes in every run\<close>

lemma update_others:
  assumes "monitor_laws N C B view" "\<And>xs. set (visit xs) = set xs" "monitor_ok N m (v_routes (view s))"
  shows "others (all_owned (m_families (fst (update N B visit m s)))) (v_routes (view (snd (update N B visit m s)))) =
    others (all_owned (m_families m)) (v_routes (view s))"
  using update_ok [OF assms prod.collapse [symmetric]] by blast

lemma Destroy_others:
  assumes "monitor_laws N C B view" "\<And>xs. set (visit xs) = set xs" "monitor_ok N m (v_routes (view s))"
  shows "v_routes (view (snd (snd (Destroy N C visit m (g, s))))) = others (all_owned (m_families m)) (v_routes (view s))"
proof -
  define gs where "gs = (case m_callbacks m of None \<Rightarrow> (g, s)
     | Some (cbr, cbi) \<Rightarrow> snd (InterfaceChangeCallback_Unregister C cbi (snd (RouteChangeCallback_Unregister C cbr (g, s)))))"
  define m1 where "m1 = (if m_burstTimer (m\<lparr>m_callbacks := None\<rparr>) \<noteq> NoTimer then m\<lparr>m_callbacks := None, m_burstTimer := Stopped\<rparr> else m\<lparr>m_callbacks := None\<rparr>)"
  have view: "view (snd gs) = view s"
    by (simp add: gs_def registration_view(3,4) [OF assms(1)] split: option.split prod.split)
  have fam: "m_families m1 = m_families m" by (simp add: m1_def)
  have "snd (snd (Destroy N C visit m (g, s))) = snd (removeHostRoutesLocked N visit m1 (snd gs))"
    by (cases gs) (simp add: Destroy_def gs_def [symmetric] m1_def Let_def split: prod.split)
  moreover have "\<forall>f\<in>set (m_families m1). family_ok N f" using assms(3) by (simp add: fam monitor_ok_def families_ok_def)
  note removeHostRoutes_routes [OF monitor_laws_host [OF assms(1)] assms(2) this, of "snd gs"]
  ultimately show ?thesis by (simp add: fam view)
qed



lemma addHosts_complete:
  "updateFamily N visit our f s = (f', moved, None, s') \<Longrightarrow> \<not> f_incomplete f'"
  by (auto simp: updateFamily_def Let_def split: prod.splits sum.splits if_splits)

lemma updateFamilies_gateways:
  assumes "updateFamilies N visit our fs s = (fs', moved, None, s')" "f \<in> set fs'"
  shows "\<not> f_incomplete f \<and> (\<exists>s1 s2. findDefaultGateway N (f_family f) our s1 = (Inr (f_gateway f), s2))"
  using assms
proof (induction fs arbitrary: s fs' moved s')
  case (Cons f0 fs)
  obtain f1 mv1 e1 s1 where f1: "updateFamily N visit our f0 s = (f1, mv1, e1, s1)" by (metis prod_cases4)
  obtain fs2 mv2 e2 s2 where fs2: "updateFamilies N visit our fs s1 = (fs2, mv2, e2, s2)" by (metis prod_cases4)
  have e: "e1 = None" "e2 = None" "fs' = f1 # fs2" using Cons.prems(1) f1 fs2 by (auto split: option.splits)
  show ?case
  proof (cases "f = f1")
    case True
    have "\<exists>s2. findDefaultGateway N (f_family f1) our s = (Inr (f_gateway f1), s2)"
      using f1 e(1) by (auto simp: updateFamily_def Let_def split: prod.splits sum.splits if_splits)
    with True addHosts_complete [OF f1 [unfolded e(1)]] show ?thesis by blast
  qed (use Cons.IH [OF fs2 [unfolded e]] Cons.prems(2) e(3) in simp)
qed simp


text \<open>C27. A monitor that cannot be created leaves the routing table as it found it.\<close>

theorem newDefaultRouteMonitor_error:
  assumes "host_route_laws N view" "\<And>xs. set (visit xs) = set xs" "newDefaultRouteMonitor N visit config our s = (Inl err, s')"
  shows "v_routes (view s') = v_routes (view s)"
  using new_ok [OF assms] by simp

section \<open>Bursts of changes\<close>

text \<open>
  The times at which updates start when changes are notified at the times \<open>ts\<close>: at each of them the timer may have fired
  before, then \<open>bump\<close> runs; after the last the timer fires if it is armed.
\<close>

definition expire :: "int \<Rightarrow> defaultRouteMonitor \<Rightarrow> int list \<times> defaultRouteMonitor" where
  "expire t m = (case m_burstTimer m of Armed d \<Rightarrow> if d \<le> t then ([d], timerFires m) else ([], m) | _ \<Rightarrow> ([], m))"

fun burst :: "int list \<Rightarrow> defaultRouteMonitor \<Rightarrow> int list" where
  "burst [] m = (case m_burstTimer m of Armed d \<Rightarrow> [d] | _ \<Rightarrow> [])"
| "burst (t # ts) m =
     (case expire t m of (fired, m) \<Rightarrow>
      case bump t m of Inl _ \<Rightarrow> fired
      | Inr (m, started) \<Rightarrow> fired @ (if started then [t] else []) @ burst ts m)"

definition burst_inv :: "defaultRouteMonitor \<Rightarrow> bool" where
  "burst_inv m \<longleftrightarrow> m_burstTimer m = Stopped \<and> m_firstBurst m = None \<or>
     (\<exists>t first. m_burstTimer m = Armed (t + 150) \<and> m_firstBurst m = Some first \<and> first \<le> t \<and> t \<le> first + 2000)"

lemma expire_inv: "burst_inv m \<Longrightarrow> burst_inv (snd (expire t m))"
  by (auto simp: burst_inv_def expire_def timerFires_def split: timer.split)

lemma bump_inv:
  assumes "burst_inv m" "bump t m = Inr (m', b)" "\<forall>d. m_burstTimer m = Armed d \<longrightarrow> d - 150 \<le> t"
  shows "burst_inv m'"
    and "b \<or> (\<exists>first. m_burstTimer m' = Armed (t + 150) \<and> m_firstBurst m' = Some first \<and> first \<le> t \<and> t \<le> first + 2000)"
  using assms by (auto simp: bump_def burst_inv_def Let_def split: if_splits option.splits)

lemma bump_defined: "burst_inv m \<Longrightarrow> \<exists>m' b. bump t m = Inr (m', b)"
  by (auto simp: bump_def burst_inv_def Let_def split: option.split)

lemma burst_armed:
  assumes "m_burstTimer m = Armed (t0 + 150)" "m_firstBurst m = Some first" "first \<le> t0" "t0 \<le> first + 2000" "sorted (t0 # ts)"
  shows "\<exists>u\<in>set (burst ts m). t0 \<le> u \<and> u \<le> first + 2150"
  using assms
proof (induction ts arbitrary: m t0)
  case (Cons t ts)
  show ?case
  proof (cases "t0 + 150 \<le> t")
    case True
    with Cons.prems show ?thesis
      by (auto simp: expire_def split: prod.split sum.split intro!: bexI [of _ "t0 + 150"])
  next
    case False
    then have e: "expire t m = ([], m)" using Cons.prems(1) by (simp add: expire_def)
    show ?thesis
    proof (cases "2000 < t - first")
      case True
      then have "bump t m = Inr (m\<lparr>m_burstTimer := Stopped, m_firstBurst := None\<rparr>, True)"
        using Cons.prems(1,2) by (simp add: bump_def Let_def)
      with False Cons.prems show ?thesis by (auto simp: e)
    next
      case small: False
      let ?m = "m\<lparr>m_burstTimer := Armed (t + 150)\<rparr>"
      have "bump t m = Inr (?m, False)" using small Cons.prems(1,2) by (simp add: bump_def Let_def)
      then have "burst (t # ts) m = burst ts ?m" by (simp add: e)
      moreover obtain u where "u \<in> set (burst ts ?m)" "t \<le> u" "u \<le> first + 2150"
        using Cons.IH [of ?m t] Cons.prems small by auto
      moreover have "t0 \<le> t" using Cons.prems(5) by simp
      ultimately show ?thesis by (intro bexI [of _ u]) simp_all
    qed
  qed
qed auto

text \<open>C21. However dense a burst of changes is, every change is followed by an update that starts at most 2150 milliseconds
  after it.
\<close>

theorem burst_bounded:
  assumes "m_burstTimer m = Stopped" "m_firstBurst m = None" "sorted ts" "t \<in> set ts"
  shows "\<exists>u\<in>set (burst ts m). t \<le> u \<and> u \<le> t + 2150"
proof -
  have "\<exists>u\<in>set (burst ts m). t \<le> u \<and> u \<le> t + 2150"
    if "burst_inv m" "\<forall>d. m_burstTimer m = Armed d \<longrightarrow> (\<forall>t\<in>set ts. d - 150 \<le> t)" "sorted ts" "t \<in> set ts" for ts m
    using that
  proof (induction ts arbitrary: m)
    case (Cons t1 ts)
    obtain fired m1 where e: "expire t1 m = (fired, m1)" by fastforce
    have m1: "burst_inv m1" "\<forall>d. m_burstTimer m1 = Armed d \<longrightarrow> d - 150 \<le> t1"
      using expire_inv [OF Cons.prems(1), of t1] e Cons.prems(2)
      by (auto simp: expire_def timerFires_def split: timer.splits if_splits)
    obtain m2 b where b: "bump t1 m1 = Inr (m2, b)" using bump_defined [OF m1(1)] by blast
    note m2 = bump_inv [OF m1(1) b m1(2)]
    have set_burst: "set (burst (t1 # ts) m) = set fired \<union> (if b then {t1} else {}) \<union> set (burst ts m2)" by (simp add: e b)
    show ?case
    proof (cases "t = t1")
      case True
      from m2(2) show ?thesis
      proof
        assume b then show ?thesis unfolding set_burst by (intro bexI [of _ t1]) (simp_all add: True)
      next
        assume "\<exists>first. m_burstTimer m2 = Armed (t1 + 150) \<and> m_firstBurst m2 = Some first \<and> first \<le> t1 \<and> t1 \<le> first + 2000"
        then obtain first where "m_burstTimer m2 = Armed (t1 + 150)" "m_firstBurst m2 = Some first" "first \<le> t1" "t1 \<le> first + 2000"
          by blast
        from burst_armed [OF this Cons.prems(3)] this(3) show ?thesis unfolding set_burst True by force
      qed
    next
      case False
      then have "t \<in> set ts" "sorted ts" using Cons.prems(3,4) by auto
      moreover have "\<forall>d. m_burstTimer m2 = Armed d \<longrightarrow> (\<forall>t\<in>set ts. d - 150 \<le> t)"
        using b Cons.prems(3) by (auto simp: bump_def Let_def split: if_splits option.splits)
      ultimately show ?thesis using Cons.IH [OF m2(1)] unfolding set_burst by blast
    qed
  qed simp
  from this [of m ts] assms show ?thesis by (simp add: burst_inv_def)
qed

section \<open>A concrete run\<close>

definition strict_net :: "netstate netio" where
  "strict_net = sample_net\<lparr>createIPForwardEntry2 := (\<lambda>r s.
     if list_ex (\<lambda>x. route_key (route_entry x) = route_key (route_entry r)) (ns_forward s) then (Inl ERROR_OBJECT_ALREADY_EXISTS, s)
     else (Inr (), s\<lparr>ns_forward := r # ns_forward s\<rparr>))\<rparr>"

definition quiet_notify :: "netstate notifyio" where
  "quiet_notify = \<lparr>notifyRouteChange2 = preturn 1, notifyIPInterfaceChange = preturn 2, notifyUnicastIPAddressChange = preturn 3,
     cancelMibChangeNotify2 = (\<lambda>_. preturn ())\<rparr>"

definition quiet_sockets :: "netstate sockets" where
  "quiet_sockets = \<lparr>BindSocketToInterface4 = (\<lambda>_ _. preturn ()), BindSocketToInterface6 = (\<lambda>_ _. preturn ()), rebind = preturn ()\<rparr>"

definition default_row :: MibIPforwardRow2 where
  "default_row = zeroForwardRow\<lparr>fr_InterfaceLUID := 6, fr_InterfaceIndex := 12,
     fr_DestinationPrefix := \<lparr>RawPrefix = zeroSockaddr\<lparr>Family := 2\<rparr>, PrefixLength = 0\<rparr>,
     fr_NextHop := zeroSockaddr\<lparr>Family := 2\<rparr>, fr_Metric := 25\<rparr>"

definition online :: netstate where
  "online = no_network\<lparr>ns_forward := [default_row]\<rparr>"

definition websocket_config :: Config where
  "websocket_config = zeroConfig\<lparr>Peers := [zeroPeer\<lparr>WSURL := ''wss://vpn'', pEndpoint := \<lparr>Host = v4_str 0xC0000207, Port = 443\<rparr>\<rparr>]\<rparr>"

lemma strict_creates: "updates sample_view (createIPForwardEntry2 strict_net r) (v_routes_update (insert (route_entry r)))"
  by (simp add: updates_def pvalid_def strict_net_def sample_view_def)

lemma strict_net_fields [simp]:
  "initForwardRow strict_net = initForwardRow sample_net" "getIPForwardTable2 strict_net = getIPForwardTable2 sample_net"
  "getIPForwardEntry2 strict_net = getIPForwardEntry2 sample_net" "deleteIPForwardEntry2 strict_net = deleteIPForwardEntry2 sample_net"
  "getIfEntry2 strict_net = getIfEntry2 sample_net" "getIPInterfaceEntry strict_net = getIPInterfaceEntry sample_net"
  by (simp_all add: strict_net_def)

lemma strict_route_laws: "route_laws strict_net sample_view"
  using sample_route_laws strict_creates unfolding route_laws_def by simp

lemma strict_net_laws: "host_route_laws strict_net sample_view"
proof -
  have "find (\<lambda>x. route_key (route_entry x) = route_key (route_entry r)) (ns_forward s) \<noteq> None"
    if "route_key (route_entry r) \<in> route_key ` v_routes (sample_view s)" for r s
    using that by (auto simp: find_None_iff sample_view_def)
  then have "\<exists>r' s'. getIPForwardEntry2 sample_net r s = (Inr r', s')"
    if "route_key (route_entry r) \<in> route_key ` v_routes (sample_view s)" for r s
    using that by (fastforce simp: sample_net_def split: option.split)
  moreover have "route_key (route_entry r) \<in> route_key ` v_routes (sample_view s) \<longleftrightarrow>
      list_ex (\<lambda>x. route_key (route_entry x) = route_key (route_entry r)) (ns_forward s)" for r s
    unfolding sample_view_def list_ex_iff by (simp add: image_image image_iff) metis
  then have "createIPForwardEntry2 strict_net r s = (Inr (), s') \<Longrightarrow> route_key (route_entry r) \<notin> route_key ` v_routes (sample_view s)"
    "createIPForwardEntry2 strict_net r s = (Inl ERROR_OBJECT_ALREADY_EXISTS, s') \<Longrightarrow> route_key (route_entry r) \<in> route_key ` v_routes (sample_view s)"
    for r s s' by (auto simp: strict_net_def split: if_splits)
  ultimately show ?thesis
    unfolding host_route_laws_def using strict_route_laws by (auto simp: sample_net_def keeps_def)
qed

lemma sample_monitor_laws: "monitor_laws strict_net quiet_notify quiet_sockets sample_view"
  using strict_net_laws by (simp add: monitor_laws_def quiet_notify_def quiet_sockets_def keeps_def preturn_def)

lemma websocket_hosts:
  "webSocketServerHosts websocket_config AF_INET = [Prefix (Addr4 0xC0000207) 32]" "webSocketServerHosts websocket_config AF_INET6 = []"
  by (simp_all add: webSocketServerHosts_def websocket_config_def zeroConfig_def zeroPeer_def serverHost_def ParseAddr_v4
      netip_PrefixFrom_def AF_INET_def AF_INET6_def)

lemma zero_Addr4: "sockaddr_Addr (zeroSockaddr\<lparr>Family := 2\<rparr>) = Addr4 0"
proof -
  have "replicate 4 (0 :: nat) = [0, 0, 0, 0]" by (simp add: eval_nat_numeral)
  then show ?thesis by (simp add: sockaddr_Addr_def zeroSockaddr_def AF_INET_def slice_def be_nat_def from_digits_def)
qed

definition online_gateway :: defaultGateway where
  "online_gateway = \<lparr>gw_luid = 6, gw_index = 12, gw_nextHop = Addr4 0\<rparr>"

lemma strict_table: "getIPForwardTable2 strict_net family s =
    (Inr (filter (\<lambda>r. in_family family (sockaddr_Addr (RawPrefix (fr_DestinationPrefix r)))) (ns_forward s)), s)"
  by (simp add: sample_net_def)

lemma strict_interface:
  "luid_Interface strict_net luid s = (Inr \<lparr>if_OperStatus = 1, if_MTU = 1500\<rparr>, s)"
  by (simp add: luid_Interface_def sample_net_def)

lemma strict_metric: "ns_ipif s = (\<lambda>_. zeroIPInterfaceRow) \<Longrightarrow> \<exists>row. IPInterface strict_net luid family s = (Inr row, s) \<and> ip_Metric row = 25"
  by (simp add: IPInterface_def ipInterfaceRow_get_def pbind_def preturn_def sample_net_def zeroIPInterfaceRow_def patchSitePrefixLength_def)

lemma online_fields [simp]: "ns_forward online = [default_row]" "ns_ipif online = (\<lambda>_. zeroIPInterfaceRow)"
  by (simp_all add: online_def no_network_def)

lemma default_row_fields [simp]:
  "fr_InterfaceLUID default_row = 6" "fr_InterfaceIndex default_row = 12" "PrefixLength (fr_DestinationPrefix default_row) = 0"
  "sockaddr_Addr (RawPrefix (fr_DestinationPrefix default_row)) = Addr4 0" "sockaddr_Addr (fr_NextHop default_row) = Addr4 0"
  "fr_Metric default_row = 25"
  by (simp_all add: default_row_def zero_Addr4)

lemma online_finds_v4:
  assumes "ns_forward s = rs @ [default_row]" "ns_ipif s = (\<lambda>_. zeroIPInterfaceRow)"
    "\<forall>r\<in>set rs. in_family AF_INET (sockaddr_Addr (RawPrefix (fr_DestinationPrefix r))) \<and> PrefixLength (fr_DestinationPrefix r) \<noteq> 0"
  shows "findDefaultGateway strict_net AF_INET 9 s = (Inr online_gateway, s)"
proof -
  obtain row where row: "IPInterface strict_net 6 AF_INET s = (Inr row, s)" "ip_Metric row = 25"
    using strict_metric [OF assms(2), of 6 AF_INET] by auto
  have table: "getIPForwardTable2 strict_net AF_INET s = (Inr (rs @ [default_row]), s)"
    unfolding strict_table using assms by (simp add: in_family_def)
  have "\<forall>r\<in>set rs. PrefixLength (fr_DestinationPrefix r) \<noteq> 0" using assms(3) by blast
  then have "gatewayLoop strict_net AF_INET 9 (rs @ [default_row]) (- 1) zeroGateway s = (Inr online_gateway, s)"
    by (induction rs)
      (simp_all add: online_gateway_def rowGateway_def candidateMetric_def strict_interface row IfOperStatusUp_def)
  then show ?thesis by (simp add: findDefaultGateway_def pbind_def table del: strict_net_fields)
qed

lemma online_finds_v6:
  assumes "ns_forward s = r # [default_row]" "in_family AF_INET (sockaddr_Addr (RawPrefix (fr_DestinationPrefix r)))"
  shows "findDefaultGateway strict_net AF_INET6 9 s = (Inr zeroGateway, s)"
proof -
  have "\<not> in_family AF_INET6 (sockaddr_Addr (RawPrefix (fr_DestinationPrefix r)))"
    using assms(2) by (cases "sockaddr_Addr (RawPrefix (fr_DestinationPrefix r))") (auto simp: in_family_def AF_INET_def AF_INET6_def AF_UNSPEC_def)
  then show ?thesis unfolding findDefaultGateway_def pbind_def strict_table assms(1)
    by (simp add: in_family_def AF_INET6_def AF_INET_def AF_UNSPEC_def)
qed

lemma host_row:
  obtains r where "routeRow strict_net 6 (Prefix (Addr4 0xC0000207) 32) (Addr4 0) = Inr r"
    "route_entry (r\<lparr>fr_Metric := 0\<rparr>) = (6, Addr4 0xC0000207, 32, Addr4 0, 0)"
proof -
  obtain r where r: "routeRow strict_net 6 (Prefix (Addr4 0xC0000207) 32) (Addr4 0) = Inr r"
    by (auto simp: routeRow_def SetPrefix_def SetAddr_def Let_def)
  from routeRow_entry [OF strict_route_laws r, of 0] r that show thesis by simp
qed

abbreviation sample_host :: Prefix where
  "sample_host \<equiv> Prefix (Addr4 0xC0000207) 32"

lemma sample_monitor:
  obtains m s where "newDefaultRouteMonitor strict_net (\<lambda>xs. xs) websocket_config 9 online = (Inr m, s)"
    "map (\<lambda>f. (f_gateway f, f_hosts f, f_owned f, f_incomplete f)) (m_families m) =
       [(online_gateway, [sample_host], [sample_host], False), (zeroGateway, [], [], False)]"
    "updateLocked strict_net (\<lambda>xs. xs) m s = (m, False, None, s)"
proof -
  obtain r where r: "routeRow strict_net 6 sample_host (Addr4 0) = Inr r" "route_entry (r\<lparr>fr_Metric := 0\<rparr>) = (6, Addr4 0xC0000207, 32, Addr4 0, 0)"
    by (rule host_row)
  define s where "s = online\<lparr>ns_forward := r\<lparr>fr_Metric := 0\<rparr> # [default_row]\<rparr>"
  have "route_key (route_entry default_row) = (6, Addr4 0, 0, Addr4 0)" by (simp add: route_entry_def)
  then have create: "createIPForwardEntry2 strict_net (r\<lparr>fr_Metric := 0\<rparr>) online = (Inr (), s)"
    by (simp add: strict_net_def s_def r(2))
  have add: "AddRoute strict_net 6 sample_host (Addr4 0) 0 online = (Inr (), s)"
    by (simp add: AddRoute_def pbind_def plift_def r(1) create)
  have dst: "in_family AF_INET (sockaddr_Addr (RawPrefix (fr_DestinationPrefix (r\<lparr>fr_Metric := 0\<rparr>))))"
    "PrefixLength (fr_DestinationPrefix (r\<lparr>fr_Metric := 0\<rparr>)) = 32"
    using r(2) by (simp_all add: route_entry_def in_family_def)
  have gw: "findDefaultGateway strict_net AF_INET 9 online = (Inr online_gateway, online)"
    "findDefaultGateway strict_net AF_INET 9 s = (Inr online_gateway, s)" "findDefaultGateway strict_net AF_INET6 9 s = (Inr zeroGateway, s)"
    using online_finds_v4 [of online "[]"] online_finds_v4 [of s "[r\<lparr>fr_Metric := 0\<rparr>]"] online_finds_v6 [of s "r\<lparr>fr_Metric := 0\<rparr>"] dst
    by (simp_all add: s_def)
  let ?f4 = "(newFamily websocket_config AF_INET)\<lparr>f_gateway := online_gateway, f_owned := [sample_host], f_incomplete := False\<rparr>"
  let ?f6 = "newFamily websocket_config AF_INET6"
  have "updateFamily strict_net (\<lambda>xs. xs) 9 (newFamily websocket_config AF_INET) online = (?f4, True, None, s)"
    by (simp add: updateFamily_def newFamily_def gw websocket_hosts deleteHosts_def)
      (simp add: online_gateway_def zeroGateway_def add)
  moreover have v6: "updateFamily strict_net (\<lambda>xs. xs) 9 ?f6 s = (?f6, False, None, s)"
    by (simp add: updateFamily_def newFamily_def gw)
  ultimately have "newDefaultRouteMonitor strict_net (\<lambda>xs. xs) websocket_config 9 online = (Inr \<lparr>m_ourLUID = 9, m_families = [?f4, ?f6],
      m_callbacks = None, m_burstTimer = NoTimer, m_firstBurst = None\<rparr>, s)" (is "_ = (Inr ?m, s)")
    by (simp add: newDefaultRouteMonitor_def updateLocked_def)
  moreover have "updateFamily strict_net (\<lambda>xs. xs) 9 ?f4 s = (?f4, False, None, s)"
    by (simp add: updateFamily_def newFamily_def gw)
  then have "updateLocked strict_net (\<lambda>xs. xs) ?m s = (?m, False, None, s)" by (simp add: updateLocked_def v6)
  ultimately show thesis by (intro that) (simp_all add: newFamily_def websocket_hosts)
qed

text \<open>The states of the examples: the monitor of \<open>websocket_config\<close> on a machine with one default route.\<close>

definition sample_run :: "defaultRouteMonitor \<Rightarrow> netstate \<Rightarrow> bool" where
  "sample_run m s \<longleftrightarrow> newDefaultRouteMonitor strict_net (\<lambda>xs. xs) websocket_config 9 online = (Inr m, s)"

lemma sample_reachable:
  obtains m s f where "sample_run m s" "f \<in> set (m_families m)" "f_gateway f = online_gateway" "sample_host \<in> set (f_hosts f)"
    "sample_host \<in> set (f_owned f)" "\<not> f_incomplete f" "updateLocked strict_net (\<lambda>xs. xs) m s = (m, False, None, s)"
    "\<And>g. monitor_reachable strict_net quiet_notify quiet_sockets (\<lambda>xs. xs) sample_view websocket_config 9 (m, g, s)"
proof -
  obtain m s where m: "newDefaultRouteMonitor strict_net (\<lambda>xs. xs) websocket_config 9 online = (Inr m, s)"
    "map (\<lambda>f. (f_gateway f, f_hosts f, f_owned f, f_incomplete f)) (m_families m) =
       [(online_gateway, [sample_host], [sample_host], False), (zeroGateway, [], [], False)]"
    "updateLocked strict_net (\<lambda>xs. xs) m s = (m, False, None, s)"
    by (rule sample_monitor)
  from m(2) obtain f where "f \<in> set (m_families m)" "f_gateway f = online_gateway" "sample_host \<in> set (f_hosts f)"
    "sample_host \<in> set (f_owned f)" "\<not> f_incomplete f" by (fastforce simp: map_eq_Cons_conv)
  with m(1,3) show thesis by (intro that) (auto simp: sample_run_def intro: monitor_reachable.created)
qed




theorem findDefaultGateway_best_witness:
  "fst (findDefaultGateway strict_net AF_INET 9 online) = Inr online_gateway \<and>
   fst (findDefaultGateway strict_net AF_INET 6 online) = Inr zeroGateway"
proof -
  have answers: "interface_answers strict_net AF_INET (\<lambda>s. ns_ipif s = (\<lambda>_. zeroIPInterfaceRow)) (\<lambda>_. True) (\<lambda>_. Some 25)"
  proof -
    have "case IPInterface strict_net luid AF_INET s of (r, s') \<Rightarrow> ns_ipif s' = (\<lambda>_. zeroIPInterfaceRow) \<and>
        Some 25 = (case r of Inl _ \<Rightarrow> None | Inr row \<Rightarrow> Some (ip_Metric row))" if "ns_ipif s = (\<lambda>_. zeroIPInterfaceRow)" for luid s
      using strict_metric [OF that, of luid AF_INET] that by auto
    then show ?thesis by (simp add: interface_answers_def strict_interface IfOperStatusUp_def)
  qed
  have table: "getIPForwardTable2 strict_net AF_INET online = (Inr [default_row], online)"
    unfolding strict_table by (simp add: in_family_def)
  note best = findDefaultGateway_best [OF answers table]
  have "\<exists>r. best (\<lambda>_. Some 25) {default_row} r \<and> fst (findDefaultGateway strict_net AF_INET 9 online) = Inr (rowGateway r)"
    using best [of 9] by (simp add: usable_def Collect_conv_if)
  moreover have "fst (findDefaultGateway strict_net AF_INET 6 online) = Inr zeroGateway"
    using best [of 6] by (simp add: usable_def Collect_conv_if)
  ultimately show ?thesis by (auto simp: best_def rowGateway_def online_gateway_def)
qed

definition refusing_net :: "netstate netio" where
  "refusing_net = sample_net\<lparr>createIPForwardEntry2 := (\<lambda>_. pfail (Errno 5))\<rparr>"

lemma refusing_laws: "host_route_laws refusing_net sample_view"
proof -
  have "route_laws refusing_net sample_view"
    using sample_route_laws unfolding route_laws_def
    by (simp add: refusing_net_def updates_def pvalid_def pfail_def)
  moreover have "getIPForwardEntry2 refusing_net = getIPForwardEntry2 strict_net" "deleteIPForwardEntry2 refusing_net = deleteIPForwardEntry2 strict_net"
    "getIfEntry2 refusing_net = getIfEntry2 strict_net" "getIPInterfaceEntry refusing_net = getIPInterfaceEntry strict_net"
    by (simp_all add: refusing_net_def strict_net_def)
  ultimately show ?thesis
    using strict_net_laws unfolding host_route_laws_def by (simp add: refusing_net_def pfail_def ERROR_OBJECT_ALREADY_EXISTS_def)
qed

theorem newDefaultRouteMonitor_error_witness:
  "\<exists>err s. newDefaultRouteMonitor refusing_net (\<lambda>xs. xs) websocket_config 9 online = (Inl err, s) \<and>
     v_routes (sample_view s) = v_routes (sample_view online)"
proof -
  have gw: "findDefaultGateway refusing_net AF_INET 9 online = (Inr online_gateway, online)"
  proof -
    have reads: "IPInterface refusing_net = IPInterface strict_net" "luid_Interface refusing_net = luid_Interface strict_net"
      by (simp_all add: refusing_net_def fun_eq_iff luid_Interface_def IPInterface_def ipInterfaceRow_get_def strict_net_def)
    have cm: "candidateMetric refusing_net = candidateMetric strict_net" unfolding candidateMetric_def [abs_def] reads ..
    have table: "getIPForwardTable2 refusing_net = getIPForwardTable2 strict_net" by (simp add: refusing_net_def)
    have loop: "gatewayLoop refusing_net family our rs k g s = gatewayLoop strict_net family our rs k g s" for family our rs k g s
      by (induction rs arbitrary: k g s) (auto simp: cm split: prod.split option.split)
    have "findDefaultGateway refusing_net AF_INET 9 online = findDefaultGateway strict_net AF_INET 9 online"
      unfolding findDefaultGateway_def pbind_def table loop ..
    with online_finds_v4 [of online "[]"] show ?thesis by simp
  qed
  obtain r where r: "routeRow strict_net 6 sample_host (Addr4 0) = Inr r" by (rule host_row)
  have "routeRow refusing_net 6 sample_host (Addr4 0) = Inr r" using r by (simp add: routeRow_def refusing_net_def strict_net_def)
  then have "AddRoute refusing_net 6 sample_host (Addr4 0) 0 online = (Inl (Errno 5), online)"
    by (simp add: AddRoute_def pbind_def plift_def refusing_net_def pfail_def)
  then have "\<exists>f moved s. updateFamily refusing_net (\<lambda>xs. xs) 9 (newFamily websocket_config AF_INET) online =
      (f, moved, Some (Wrapped ''unable to add host route'' (Errno 5)), s)"
    by (simp add: updateFamily_def newFamily_def gw websocket_hosts deleteHosts_def)
      (simp add: online_gateway_def zeroGateway_def ERROR_OBJECT_ALREADY_EXISTS_def, blast)
  then obtain err s where "newDefaultRouteMonitor refusing_net (\<lambda>xs. xs) websocket_config 9 online = (Inl err, s)"
    by (fastforce simp: newDefaultRouteMonitor_def updateLocked_def split: prod.split)
  with newDefaultRouteMonitor_error [OF refusing_laws _ this] show ?thesis by blast
qed

definition idle_monitor :: defaultRouteMonitor where
  "idle_monitor = \<lparr>m_ourLUID = 9, m_families = [], m_callbacks = Some (0, 0), m_burstTimer = Stopped, m_firstBurst = None\<rparr>"

theorem burst_bounded_witness:
  "\<exists>u\<in>set (burst [0, 100, 200, 300] idle_monitor). 200 \<le> u \<and> u \<le> 2350"
  using burst_bounded [of idle_monitor "[0, 100, 200, 300]" 200] by (simp add: idle_monitor_def)

end
