(* ===== verification/MTUMonitor.thy ===== *)
theory MTUMonitor
  imports RouteMonitorRuns
begin

text \<open>
  The MTU monitor (tunnel/mtumonitor.go): it follows the interface of the default route and gives the tunnel's
  interface that MTU less the 80 bytes of the encapsulation. The variables that the closure \<open>doIt\<close> captures are
  the record \<open>mtuState\<close>; \<open>clamp\<close> is the userspace device's \<open>ForceMTU\<close>, None where the program passes nil.
\<close>

section \<open>The interface of the default route\<close>

fun luidLoop :: "'s netio \<Rightarrow> u16 \<Rightarrow> u64 \<Rightarrow> MibIPforwardRow2 list \<Rightarrow> u64 \<Rightarrow> u64 \<Rightarrow> u32 \<Rightarrow> 's \<Rightarrow> (u64 \<times> u32) \<times> 's" where
  "luidLoop N family ourLUID [] lowestMetric luid index s = ((luid, index), s)"
| "luidLoop N family ourLUID (r # rs) lowestMetric luid index s =
     (if PrefixLength (fr_DestinationPrefix r) \<noteq> 0 \<or> fr_InterfaceLUID r = ourLUID
      then luidLoop N family ourLUID rs lowestMetric luid index s
      else case luid_Interface N (fr_InterfaceLUID r) s of
        (Inl _, s) \<Rightarrow> luidLoop N family ourLUID rs lowestMetric luid index s
      | (Inr ifrow, s) \<Rightarrow>
          if if_OperStatus ifrow \<noteq> IfOperStatusUp then luidLoop N family ourLUID rs lowestMetric luid index s
          else case IPInterface N (fr_InterfaceLUID r) family s of
            (Inl _, s) \<Rightarrow> luidLoop N family ourLUID rs lowestMetric luid index s
          | (Inr iface, s) \<Rightarrow>
              let combinedMetric = ucast (fr_Metric r) + ucast (ip_Metric iface) in
              if combinedMetric < lowestMetric
              then luidLoop N family ourLUID rs combinedMetric (fr_InterfaceLUID r) (fr_InterfaceIndex r) s
              else luidLoop N family ourLUID rs lowestMetric luid index s)"

text \<open>\<open>lastDefault\<close> holds the variables behind the pointers \<open>lastLUID\<close> and \<open>lastIndex\<close>.\<close>

definition findDefaultLUID :: "'s netio \<Rightarrow> u16 \<Rightarrow> u64 \<Rightarrow> u64 \<times> u32 \<Rightarrow> 's \<Rightarrow> (go_error + unit) \<times> (u64 \<times> u32) \<times> 's" where
  "findDefaultLUID N family ourLUID lastDefault s =
     (case getIPForwardTable2 N family s of
        (Inl err, s) \<Rightarrow> (Inl err, lastDefault, s)
      | (Inr r, s) \<Rightarrow>
          case luidLoop N family ourLUID r (-1) 0 0 s of ((luid, index), s) \<Rightarrow>
            if luid = fst lastDefault \<and> index = snd lastDefault then (Inr (), lastDefault, s) else (Inr (), (luid, index), s))"

section \<open>Clamping\<close>

record sharedMTUClamper =
  mtus :: "int list"

definition newClamper :: sharedMTUClamper where
  "newClamper = \<lparr>mtus = [0, 0]\<rparr>"

text \<open>The next state and the MTU given to the device.\<close>

definition ForceMTU :: "nat \<Rightarrow> int \<Rightarrow> sharedMTUClamper \<Rightarrow> sharedMTUClamper \<times> int" where
  "ForceMTU index mtu c =
     (let c = c\<lparr>mtus := (mtus c)[index := mtu]\<rparr> in
      (c, foldl (\<lambda>mtu m. if 0 < m \<and> m < mtu then m else mtu) mtu (mtus c)))"

section \<open>Following the MTU\<close>

record mtuState =
  t_lastLUID :: u64
  t_lastIndex :: u32
  t_lastMTU :: u32

definition initialMTU :: mtuState where
  "initialMTU = \<lparr>t_lastLUID = 0, t_lastIndex = -1, t_lastMTU = 0\<rparr>"

definition minMTU :: "u16 \<Rightarrow> int" where
  "minMTU family = (if family = AF_INET then 576 else if family = AF_INET6 then 1280 else 0)"

definition defaultMTU :: "'s netio \<Rightarrow> u64 \<Rightarrow> ('s, u32) prog" where
  "defaultMTU N luid =
     (if luid \<noteq> 0 then pbind (luid_Interface N luid) (\<lambda>iface. preturn (if 0 < if_MTU iface then if_MTU iface else 0)) else preturn 0)"

definition tunnelMTU :: "u16 \<Rightarrow> u32 \<Rightarrow> u32" where
  "tunnelMTU family mtu = of_int (max (uint mtu - 80) (minMTU family))"

definition doIt :: "'s netio \<Rightarrow> u16 \<Rightarrow> u64 \<Rightarrow> (int \<Rightarrow> 's \<Rightarrow> 's) option \<Rightarrow> mtuState \<Rightarrow> 's \<Rightarrow> (go_error + unit) \<times> mtuState \<times> 's" where
  "doIt N family ourLUID clamp st s =
     (case findDefaultLUID N family ourLUID (t_lastLUID st, t_lastIndex st) s of
        (Inl err, (luid, index), s) \<Rightarrow> (Inl err, st\<lparr>t_lastLUID := luid, t_lastIndex := index\<rparr>, s)
      | (Inr _, (luid, index), s) \<Rightarrow>
          let st = st\<lparr>t_lastLUID := luid, t_lastIndex := index\<rparr> in
          case defaultMTU N luid s of
            (Inl err, s) \<Rightarrow> (Inl err, st, s)
          | (Inr mtu, s) \<Rightarrow>
              if 0 < mtu \<and> t_lastMTU st \<noteq> mtu then
                case IPInterface N ourLUID family s of
                  (Inl err, s) \<Rightarrow> (Inl err, st, s)
                | (Inr iface, s) \<Rightarrow>
                    let iface = iface\<lparr>ip_NLMTU := tunnelMTU family mtu\<rparr> in
                    case setIPInterfaceEntry N iface s of
                      (Inl err, s) \<Rightarrow> (Inl err, st, s)
                    | (Inr _, s) \<Rightarrow>
                        (Inr (), st\<lparr>t_lastMTU := mtu\<rparr>, (case clamp of None \<Rightarrow> s | Some f \<Rightarrow> f (uint (ip_NLMTU iface)) s))
              else (Inr (), st, s))"

definition monitorMTU :: "'s netio \<Rightarrow> 's notifyio \<Rightarrow> u16 \<Rightarrow> u64 \<Rightarrow> (int \<Rightarrow> 's \<Rightarrow> 's) option \<Rightarrow> handlers \<times> 's \<Rightarrow>
    (go_error + nat \<times> nat) \<times> mtuState \<times> handlers \<times> 's" where
  "monitorMTU N C family ourLUID clamp = (\<lambda>(g, s).
     case doIt N family ourLUID clamp initialMTU s of
       (Inl err, st, s) \<Rightarrow> (Inl err, st, g, s)
     | (Inr _, st, s) \<Rightarrow>
         case RegisterRouteChangeCallback C (g, s) of
           (Inl err, gs) \<Rightarrow> (Inl err, st, gs)
         | (Inr cbr, gs) \<Rightarrow>
             case RegisterInterfaceChangeCallback C gs of
               (Inl err, gs) \<Rightarrow> (Inl err, st, snd (RouteChangeCallback_Unregister C cbr gs))
             | (Inr cbi, gs) \<Rightarrow> (Inr (cbr, cbi), st, gs))"

section \<open>Both searches agree\<close>

lemma luidLoop_step:
  "luidLoop N family our (r # rs) lowest luid index s =
     (case candidateMetric N family our r s of
        (None, s) \<Rightarrow> luidLoop N family our rs lowest luid index s
      | (Some m, s) \<Rightarrow> if m < lowest then luidLoop N family our rs m (fr_InterfaceLUID r) (fr_InterfaceIndex r) s
          else luidLoop N family our rs lowest luid index s)"
  by (simp add: candidateMetric_def Let_def split: prod.split sum.split)

declare luidLoop.simps(2) [simp del]

lemma luidLoop_gatewayLoop:
  "\<exists>g'. gatewayLoop N family our rs lowest g s = (Inr g', snd (luidLoop N family our rs lowest (gw_luid g) (gw_index g) s)) \<and>
     fst (luidLoop N family our rs lowest (gw_luid g) (gw_index g) s) = (gw_luid g', gw_index g')"
proof (induction rs arbitrary: lowest g s)
  case (Cons r rs)
  obtain c s1 where c: "candidateMetric N family our r s = (c, s1)" by fastforce
  from Cons.IH [of lowest g s1] Cons.IH [of "the c" "rowGateway r" s1] show ?case
    by (cases c) (simp_all add: luidLoop_step c rowGateway_def)
qed simp

text \<open>C20. The MTU monitor and the default route monitor follow the same interface: \<open>findDefaultLUID\<close> leaves the interface and index that
  \<open>findDefaultGateway\<close> returns on the same state, whatever it held before, and fails with the same error.
\<close>

theorem findDefaultLUID_findDefaultGateway:
  "findDefaultLUID N family our lastDefault s =
     (case findDefaultGateway N family our s of
        (Inl err, s') \<Rightarrow> (Inl err, lastDefault, s')
      | (Inr g, s') \<Rightarrow> (Inr (), (gw_luid g, gw_index g), s'))"
proof -
  obtain t s1 where t: "getIPForwardTable2 N family s = (t, s1)" by fastforce
  show ?thesis
  proof (cases t)
    case (Inr rs)
    obtain g where "gatewayLoop N family our rs (-1) zeroGateway s1 = (Inr g, snd (luidLoop N family our rs (-1) 0 0 s1))"
      "fst (luidLoop N family our rs (-1) 0 0 s1) = (gw_luid g, gw_index g)"
      using luidLoop_gatewayLoop [of N family our rs "-1" zeroGateway s1] by (auto simp: zeroGateway_def)
    then show ?thesis
      by (cases "luidLoop N family our rs (-1) 0 0 s1"; cases lastDefault)
        (simp add: findDefaultLUID_def findDefaultGateway_def pbind_def t Inr)
  qed (simp add: findDefaultLUID_def findDefaultGateway_def pbind_def t)
qed

section \<open>The clamp of both families\<close>

lemma Min_insert_min: "finite A \<Longrightarrow> Min (insert a (insert b A)) = Min (insert (min a b) A)"
  by (cases "A = {}") (simp_all add: min.assoc)

lemma foldl_clamp:
  assumes "0 < (mtu :: int)"
  shows "foldl (\<lambda>mtu m. if 0 < m \<and> m < mtu then m else mtu) mtu ms = Min (insert mtu {m \<in> set ms. 0 < m})"
  using assms
proof (induction ms arbitrary: mtu)
  case (Cons m ms)
  have fin: "finite {m \<in> set ms. 0 < m}" by simp
  show ?case
  proof (cases "0 < m")
    case True
    then have "{x \<in> set (m # ms). 0 < x} = insert m {x \<in> set ms. 0 < x}" by auto
    then have "Min (insert mtu {x \<in> set (m # ms). 0 < x}) = Min (insert (min mtu m) {x \<in> set ms. 0 < x})"
      using Min_insert_min [OF fin] by simp
    moreover have "(if 0 < m \<and> m < mtu then m else mtu) = min mtu m" using True by (simp add: min_def)
    ultimately show ?thesis using Cons.IH [of "min mtu m"] Cons.prems True by simp
  next
    case False
    then have "{x \<in> set (m # ms). 0 < x} = {x \<in> set ms. 0 < x}" by auto
    with False Cons.IH [OF Cons.prems] show ?thesis by simp
  qed
qed simp



section \<open>The MTU of the tunnel\<close>

lemma uint_tunnelMTU: "uint (tunnelMTU family mtu) = max (uint mtu - 80) (minMTU family)"
proof -
  have "uint mtu < 2 ^ 32" using uint_bounded [of mtu] by simp
  then have "0 \<le> max (uint mtu - 80) (minMTU family)" "max (uint mtu - 80) (minMTU family) < 2 ^ 32"
    by (auto simp: minMTU_def max_def)
  then show ?thesis by (simp add: tunnelMTU_def uint_word_of_int)
qed


lemma strict_interface_laws: "interface_laws strict_net sample_view sample_guid"
  using sample_interface_laws unfolding interface_laws_def by (simp add: strict_net_def)


end
