(* ===== verification/FirewallRules.thy ===== *)
theory FirewallRules
  imports NetIP GoProg
begin

text \<open>
  The filters of tunnel/firewall: the Windows Filtering Platform objects of types_windows.go and
  the rule functions of rules.go, each as the list of filters it hands to \<open>fwpmFilterAdd0\<close>, in
  order. A condition value carries its data instead of a pointer to it; the display data, which
  \<open>UTF16PtrFromString\<close> cannot refuse for a literal without NUL, is its name.
\<close>

section \<open>Objects\<close>

definition cFWPM_CONDITION_IP_LOCAL_INTERFACE :: GUID where
  "cFWPM_CONDITION_IP_LOCAL_INTERFACE = \<lparr>Data1 = 0x4cd62a49, Data2 = 0x59c3, Data3 = 0x4969, Data4 = [0xb7, 0xf3, 0xbd, 0xa5, 0xd3, 0x28, 0x90, 0xa4]\<rparr>"

definition cFWPM_CONDITION_IP_REMOTE_ADDRESS :: GUID where
  "cFWPM_CONDITION_IP_REMOTE_ADDRESS = \<lparr>Data1 = 0xb235ae9a, Data2 = 0x1d64, Data3 = 0x49b8, Data4 = [0xa4, 0x4c, 0x5f, 0xf3, 0xd9, 0x09, 0x50, 0x45]\<rparr>"

definition cFWPM_CONDITION_IP_PROTOCOL :: GUID where
  "cFWPM_CONDITION_IP_PROTOCOL = \<lparr>Data1 = 0x3971ef2b, Data2 = 0x623e, Data3 = 0x4f9a, Data4 = [0x8c, 0xb1, 0x6e, 0x79, 0xb8, 0x06, 0xb9, 0xa7]\<rparr>"

definition cFWPM_CONDITION_IP_LOCAL_PORT :: GUID where
  "cFWPM_CONDITION_IP_LOCAL_PORT = \<lparr>Data1 = 0x0c1ba1af, Data2 = 0x5765, Data3 = 0x453f, Data4 = [0xaf, 0x22, 0xa8, 0xf7, 0x91, 0xac, 0x77, 0x5b]\<rparr>"

definition cFWPM_CONDITION_IP_REMOTE_PORT :: GUID where
  "cFWPM_CONDITION_IP_REMOTE_PORT = \<lparr>Data1 = 0xc35a604d, Data2 = 0xd22b, Data3 = 0x4e1a, Data4 = [0x91, 0xb4, 0x68, 0xf6, 0x74, 0xee, 0x67, 0x4b]\<rparr>"

definition cFWPM_CONDITION_ALE_APP_ID :: GUID where
  "cFWPM_CONDITION_ALE_APP_ID = \<lparr>Data1 = 0xd78e1e87, Data2 = 0x8644, Data3 = 0x4ea5, Data4 = [0x94, 0x37, 0xd8, 0x09, 0xec, 0xef, 0xc9, 0x71]\<rparr>"

definition cFWPM_CONDITION_ALE_USER_ID :: GUID where
  "cFWPM_CONDITION_ALE_USER_ID = \<lparr>Data1 = 0xaf043a0a, Data2 = 0xb34d, Data3 = 0x4f86, Data4 = [0x97, 0x9c, 0xc9, 0x03, 0x71, 0xaf, 0x6e, 0x66]\<rparr>"

definition cFWPM_CONDITION_IP_LOCAL_ADDRESS :: GUID where
  "cFWPM_CONDITION_IP_LOCAL_ADDRESS = \<lparr>Data1 = 0xd9ee00de, Data2 = 0xc1ef, Data3 = 0x4617, Data4 = [0xbf, 0xe3, 0xff, 0xd8, 0xf5, 0xa0, 0x89, 0x57]\<rparr>"

definition cFWPM_CONDITION_L2_FLAGS :: GUID where
  "cFWPM_CONDITION_L2_FLAGS = \<lparr>Data1 = 0x7bc43cbf, Data2 = 0x37ba, Data3 = 0x45f1, Data4 = [0xb7, 0x4a, 0x82, 0xff, 0x51, 0x8e, 0xeb, 0x10]\<rparr>"

definition cFWPM_CONDITION_FLAGS :: GUID where
  "cFWPM_CONDITION_FLAGS = \<lparr>Data1 = 0x632ce23b, Data2 = 0x5167, Data3 = 0x435c, Data4 = [0x86, 0xd7, 0xe9, 0x03, 0x68, 0x4a, 0xa8, 0x0c]\<rparr>"

definition cFWPM_LAYER_ALE_AUTH_CONNECT_V4 :: GUID where
  "cFWPM_LAYER_ALE_AUTH_CONNECT_V4 = \<lparr>Data1 = 0xc38d57d1, Data2 = 0x05a7, Data3 = 0x4c33, Data4 = [0x90, 0x4f, 0x7f, 0xbc, 0xee, 0xe6, 0x0e, 0x82]\<rparr>"

definition cFWPM_LAYER_ALE_AUTH_RECV_ACCEPT_V4 :: GUID where
  "cFWPM_LAYER_ALE_AUTH_RECV_ACCEPT_V4 = \<lparr>Data1 = 0xe1cd9fe7, Data2 = 0xf4b5, Data3 = 0x4273, Data4 = [0x96, 0xc0, 0x59, 0x2e, 0x48, 0x7b, 0x86, 0x50]\<rparr>"

definition cFWPM_LAYER_ALE_AUTH_CONNECT_V6 :: GUID where
  "cFWPM_LAYER_ALE_AUTH_CONNECT_V6 = \<lparr>Data1 = 0x4a72393b, Data2 = 0x319f, Data3 = 0x44bc, Data4 = [0x84, 0xc3, 0xba, 0x54, 0xdc, 0xb3, 0xb6, 0xb4]\<rparr>"

definition cFWPM_LAYER_ALE_AUTH_RECV_ACCEPT_V6 :: GUID where
  "cFWPM_LAYER_ALE_AUTH_RECV_ACCEPT_V6 = \<lparr>Data1 = 0xa3b42c97, Data2 = 0x9f04, Data3 = 0x4672, Data4 = [0xb8, 0x7e, 0xce, 0xe9, 0xc4, 0x83, 0x25, 0x7f]\<rparr>"

definition cFWPM_LAYER_OUTBOUND_MAC_FRAME_NATIVE :: GUID where
  "cFWPM_LAYER_OUTBOUND_MAC_FRAME_NATIVE = \<lparr>Data1 = 0x94c44912, Data2 = 0x9d6f, Data3 = 0x4ebf, Data4 = [0xb9, 0x95, 0x05, 0xab, 0x8a, 0x08, 0x8d, 0x1b]\<rparr>"

definition cFWPM_LAYER_INBOUND_MAC_FRAME_NATIVE :: GUID where
  "cFWPM_LAYER_INBOUND_MAC_FRAME_NATIVE = \<lparr>Data1 = 0xd4220bd3, Data2 = 0x62ce, Data3 = 0x4f08, Data4 = [0xae, 0x88, 0xb5, 0x6e, 0x85, 0x26, 0xdf, 0x50]\<rparr>"

definition cFWPM_CONDITION_ICMP_TYPE :: GUID where
  "cFWPM_CONDITION_ICMP_TYPE = cFWPM_CONDITION_IP_LOCAL_PORT"

definition cFWPM_CONDITION_ICMP_CODE :: GUID where
  "cFWPM_CONDITION_ICMP_CODE = cFWPM_CONDITION_IP_REMOTE_PORT"

text \<open>The user a security descriptor grants access to is named by a SID; other descriptors are not built.\<close>

type_synonym SID = "nat list"

datatype wtFwpConditionValue0 =
    FWP_UINT8 u8
  | FWP_UINT16 u16
  | FWP_UINT32 u32
  | FWP_UINT64 u64
  | FWP_BYTE_ARRAY16 "128 word"
  | FWP_V6_ADDR_MASK "128 word" nat
  | FWP_BYTE_BLOB bytes
  | FWP_SECURITY_DESCRIPTOR SID

datatype wtFwpMatchType = FWP_MATCH_EQUAL | FWP_MATCH_FLAGS_ALL_SET

datatype wtFwpActionType = FWP_ACTION_BLOCK | FWP_ACTION_PERMIT

record wtFwpmFilterCondition0 =
  fieldKey :: GUID
  matchType :: wtFwpMatchType
  conditionValue :: wtFwpConditionValue0

record wtFwpmFilter0 =
  displayName :: string
  providerKey :: GUID
  layerKey :: GUID
  subLayerKey :: GUID
  filterFlags :: u32
  weight :: u8
  filterCondition :: "wtFwpmFilterCondition0 list"
  filterAction :: wtFwpActionType

record baseObjects =
  provider :: GUID
  filters :: GUID

definition cFWPM_FILTER_FLAG_CLEAR_ACTION_RIGHT :: u32 where
  "cFWPM_FILTER_FLAG_CLEAR_ACTION_RIGHT = 8"

definition cFWP_CONDITION_FLAG_IS_LOOPBACK :: u32 where
  "cFWP_CONDITION_FLAG_IS_LOOPBACK = 1"

definition cFWP_CONDITION_L2_IS_VM2VM :: u32 where
  "cFWP_CONDITION_L2_IS_VM2VM = 16"

definition cIPPROTO_ICMPV6 :: u8 where "cIPPROTO_ICMPV6 = 58"
definition cIPPROTO_TCP :: u8 where "cIPPROTO_TCP = 6"
definition cIPPROTO_UDP :: u8 where "cIPPROTO_UDP = 17"

definition linkLocal :: wtFwpConditionValue0 where
  "linkLocal = FWP_V6_ADDR_MASK 0xfe800000000000000000000000000000 10"

definition linkLocalDHCPMulticast :: wtFwpConditionValue0 where
  "linkLocalDHCPMulticast = FWP_BYTE_ARRAY16 0xff020000000000000000000000010002"

definition siteLocalDHCPMulticast :: wtFwpConditionValue0 where
  "siteLocalDHCPMulticast = FWP_BYTE_ARRAY16 0xff050000000000000000000000010003"

definition linkLocalRouterMulticast :: wtFwpConditionValue0 where
  "linkLocalRouterMulticast = FWP_BYTE_ARRAY16 0xff020000000000000000000000000002"

section \<open>Rules\<close>

definition equal_to :: "GUID \<Rightarrow> wtFwpConditionValue0 \<Rightarrow> wtFwpmFilterCondition0" where
  "equal_to key v = \<lparr>fieldKey = key, matchType = FWP_MATCH_EQUAL, conditionValue = v\<rparr>"

text \<open>The parts every filter of the package has; a rule then sets name and layer.\<close>

definition new_filter :: "baseObjects \<Rightarrow> u8 \<Rightarrow> wtFwpmFilterCondition0 list \<Rightarrow> wtFwpActionType \<Rightarrow> wtFwpmFilter0" where
  "new_filter bo w conds act =
     \<lparr>displayName = [], providerKey = provider bo, layerKey = \<lparr>Data1 = 0, Data2 = 0, Data3 = 0, Data4 = replicate 8 0\<rparr>,
      subLayerKey = filters bo, filterFlags = 0, weight = w, filterCondition = conds, filterAction = act\<rparr>"

definition permitTunInterface_filters :: "baseObjects \<Rightarrow> u8 \<Rightarrow> u64 \<Rightarrow> wtFwpmFilter0 list" where
  "permitTunInterface_filters bo w ifLUID =
     (let ifaceCondition = equal_to cFWPM_CONDITION_IP_LOCAL_INTERFACE (FWP_UINT64 ifLUID);
          filter = new_filter bo w [ifaceCondition] FWP_ACTION_PERMIT
      in [filter\<lparr>displayName := ''Permit outbound IPv4 traffic on TUN'', layerKey := cFWPM_LAYER_ALE_AUTH_CONNECT_V4\<rparr>,
          filter\<lparr>displayName := ''Permit inbound IPv4 traffic on TUN'', layerKey := cFWPM_LAYER_ALE_AUTH_RECV_ACCEPT_V4\<rparr>,
          filter\<lparr>displayName := ''Permit outbound IPv6 traffic on TUN'', layerKey := cFWPM_LAYER_ALE_AUTH_CONNECT_V6\<rparr>,
          filter\<lparr>displayName := ''Permit inbound IPv6 traffic on TUN'', layerKey := cFWPM_LAYER_ALE_AUTH_RECV_ACCEPT_V6\<rparr>])"

definition permitWireGuardService_filters :: "baseObjects \<Rightarrow> u8 \<Rightarrow> bytes \<Rightarrow> SID \<Rightarrow> wtFwpmFilter0 list" where
  "permitWireGuardService_filters bo w appID sd =
     (let conditions = [equal_to cFWPM_CONDITION_ALE_APP_ID (FWP_BYTE_BLOB appID),
            equal_to cFWPM_CONDITION_ALE_USER_ID (FWP_SECURITY_DESCRIPTOR sd)];
          filter = (new_filter bo w conditions FWP_ACTION_PERMIT)\<lparr>filterFlags := cFWPM_FILTER_FLAG_CLEAR_ACTION_RIGHT\<rparr>
      in [filter\<lparr>displayName := ''Permit unrestricted outbound traffic for WireGuard service (IPv4)'', layerKey := cFWPM_LAYER_ALE_AUTH_CONNECT_V4\<rparr>,
          filter\<lparr>displayName := ''Permit unrestricted inbound traffic for WireGuard service (IPv4)'', layerKey := cFWPM_LAYER_ALE_AUTH_RECV_ACCEPT_V4\<rparr>,
          filter\<lparr>displayName := ''Permit unrestricted outbound traffic for WireGuard service (IPv6)'', layerKey := cFWPM_LAYER_ALE_AUTH_CONNECT_V6\<rparr>,
          filter\<lparr>displayName := ''Permit unrestricted inbound traffic for WireGuard service (IPv6)'', layerKey := cFWPM_LAYER_ALE_AUTH_RECV_ACCEPT_V6\<rparr>])"

definition permitLoopback_filters :: "baseObjects \<Rightarrow> u8 \<Rightarrow> wtFwpmFilter0 list" where
  "permitLoopback_filters bo w =
     (let condition = \<lparr>fieldKey = cFWPM_CONDITION_FLAGS, matchType = FWP_MATCH_FLAGS_ALL_SET,
            conditionValue = FWP_UINT32 cFWP_CONDITION_FLAG_IS_LOOPBACK\<rparr>;
          filter = new_filter bo w [condition] FWP_ACTION_PERMIT
      in [filter\<lparr>displayName := ''Permit outbound on loopback (IPv4)'', layerKey := cFWPM_LAYER_ALE_AUTH_CONNECT_V4\<rparr>,
          filter\<lparr>displayName := ''Permit inbound on loopback (IPv4)'', layerKey := cFWPM_LAYER_ALE_AUTH_RECV_ACCEPT_V4\<rparr>,
          filter\<lparr>displayName := ''Permit outbound on loopback (IPv6)'', layerKey := cFWPM_LAYER_ALE_AUTH_CONNECT_V6\<rparr>,
          filter\<lparr>displayName := ''Permit inbound on loopback (IPv6)'', layerKey := cFWPM_LAYER_ALE_AUTH_RECV_ACCEPT_V6\<rparr>])"

definition permitDHCPIPv4_filters :: "baseObjects \<Rightarrow> u8 \<Rightarrow> wtFwpmFilter0 list" where
  "permitDHCPIPv4_filters bo w =
     [(new_filter bo w
         [equal_to cFWPM_CONDITION_IP_PROTOCOL (FWP_UINT8 cIPPROTO_UDP),
          equal_to cFWPM_CONDITION_IP_LOCAL_PORT (FWP_UINT16 68),
          equal_to cFWPM_CONDITION_IP_REMOTE_PORT (FWP_UINT16 67),
          equal_to cFWPM_CONDITION_IP_REMOTE_ADDRESS (FWP_UINT32 0xffffffff)] FWP_ACTION_PERMIT)
        \<lparr>displayName := ''Permit outbound DHCP request (IPv4)'', layerKey := cFWPM_LAYER_ALE_AUTH_CONNECT_V4\<rparr>,
      (new_filter bo w
         [equal_to cFWPM_CONDITION_IP_PROTOCOL (FWP_UINT8 cIPPROTO_UDP),
          equal_to cFWPM_CONDITION_IP_LOCAL_PORT (FWP_UINT16 68),
          equal_to cFWPM_CONDITION_IP_REMOTE_PORT (FWP_UINT16 67)] FWP_ACTION_PERMIT)
        \<lparr>displayName := ''Permit inbound DHCP response (IPv4)'', layerKey := cFWPM_LAYER_ALE_AUTH_RECV_ACCEPT_V4\<rparr>]"

definition permitDHCPIPv6_filters :: "baseObjects \<Rightarrow> u8 \<Rightarrow> wtFwpmFilter0 list" where
  "permitDHCPIPv6_filters bo w =
     [(new_filter bo w
         [equal_to cFWPM_CONDITION_IP_PROTOCOL (FWP_UINT8 cIPPROTO_UDP),
          equal_to cFWPM_CONDITION_IP_REMOTE_ADDRESS linkLocalDHCPMulticast,
          equal_to cFWPM_CONDITION_IP_REMOTE_ADDRESS siteLocalDHCPMulticast,
          equal_to cFWPM_CONDITION_IP_REMOTE_PORT (FWP_UINT16 547),
          equal_to cFWPM_CONDITION_IP_LOCAL_ADDRESS linkLocal,
          equal_to cFWPM_CONDITION_IP_LOCAL_PORT (FWP_UINT16 546)] FWP_ACTION_PERMIT)
        \<lparr>displayName := ''Permit outbound DHCP request (IPv6)'', layerKey := cFWPM_LAYER_ALE_AUTH_CONNECT_V6\<rparr>,
      (new_filter bo w
         [equal_to cFWPM_CONDITION_IP_PROTOCOL (FWP_UINT8 cIPPROTO_UDP),
          equal_to cFWPM_CONDITION_IP_REMOTE_ADDRESS linkLocal,
          equal_to cFWPM_CONDITION_IP_REMOTE_PORT (FWP_UINT16 547),
          equal_to cFWPM_CONDITION_IP_LOCAL_ADDRESS linkLocal,
          equal_to cFWPM_CONDITION_IP_LOCAL_PORT (FWP_UINT16 546)] FWP_ACTION_PERMIT)
        \<lparr>displayName := ''Permit inbound DHCP response (IPv6)'', layerKey := cFWPM_LAYER_ALE_AUTH_RECV_ACCEPT_V6\<rparr>]"

text \<open>Neighbour discovery: the definitions collected in \<open>defs\<close>, one per message type.\<close>

record filterDefinition =
  def_name :: string
  def_conditions :: "wtFwpmFilterCondition0 list"
  def_layer :: GUID

definition icmpv6 :: "u16 \<Rightarrow> wtFwpmFilterCondition0 list" where
  "icmpv6 t =
     [equal_to cFWPM_CONDITION_IP_PROTOCOL (FWP_UINT8 cIPPROTO_ICMPV6),
      equal_to cFWPM_CONDITION_ICMP_TYPE (FWP_UINT16 t),
      equal_to cFWPM_CONDITION_ICMP_CODE (FWP_UINT16 0)]"

definition ndp133 :: "filterDefinition list" where
  "ndp133 = [\<lparr>def_name = ''Permit NDP type 133'',
     def_conditions = icmpv6 133 @ [equal_to cFWPM_CONDITION_IP_REMOTE_ADDRESS linkLocalRouterMulticast],
     def_layer = cFWPM_LAYER_ALE_AUTH_CONNECT_V6\<rparr>]"

definition ndp134 :: "filterDefinition list" where
  "ndp134 = [\<lparr>def_name = ''Permit NDP type 134'',
     def_conditions = icmpv6 134 @ [equal_to cFWPM_CONDITION_IP_REMOTE_ADDRESS linkLocal],
     def_layer = cFWPM_LAYER_ALE_AUTH_RECV_ACCEPT_V6\<rparr>]"

definition ndp135 :: "filterDefinition list" where
  "ndp135 =
     [\<lparr>def_name = ''Permit NDP type 135'', def_conditions = icmpv6 135, def_layer = cFWPM_LAYER_ALE_AUTH_CONNECT_V6\<rparr>,
      \<lparr>def_name = ''Permit NDP type 135'', def_conditions = icmpv6 135, def_layer = cFWPM_LAYER_ALE_AUTH_RECV_ACCEPT_V6\<rparr>]"

definition ndp136 :: "filterDefinition list" where
  "ndp136 =
     [\<lparr>def_name = ''Permit NDP type 136'', def_conditions = icmpv6 136, def_layer = cFWPM_LAYER_ALE_AUTH_CONNECT_V6\<rparr>,
      \<lparr>def_name = ''Permit NDP type 136'', def_conditions = icmpv6 136, def_layer = cFWPM_LAYER_ALE_AUTH_RECV_ACCEPT_V6\<rparr>]"

definition ndp137 :: "filterDefinition list" where
  "ndp137 = [\<lparr>def_name = ''Permit NDP type 137'',
     def_conditions = icmpv6 137 @ [equal_to cFWPM_CONDITION_IP_REMOTE_ADDRESS linkLocal],
     def_layer = cFWPM_LAYER_ALE_AUTH_RECV_ACCEPT_V6\<rparr>]"

definition permitNdp_filters :: "baseObjects \<Rightarrow> u8 \<Rightarrow> wtFwpmFilter0 list" where
  "permitNdp_filters bo w =
     map (\<lambda>d. (new_filter bo w (def_conditions d) FWP_ACTION_PERMIT)\<lparr>displayName := def_name d, layerKey := def_layer d\<rparr>)
       (ndp133 @ ndp134 @ ndp135 @ ndp136 @ ndp137)"

definition permitHyperV_filters :: "baseObjects \<Rightarrow> u8 \<Rightarrow> wtFwpmFilter0 list" where
  "permitHyperV_filters bo w =
     (let filter = new_filter bo w [equal_to cFWPM_CONDITION_L2_FLAGS (FWP_UINT32 cFWP_CONDITION_L2_IS_VM2VM)] FWP_ACTION_PERMIT
      in [filter\<lparr>displayName := ''Permit Hyper-V => Hyper-V outbound'', layerKey := cFWPM_LAYER_OUTBOUND_MAC_FRAME_NATIVE\<rparr>,
          filter\<lparr>displayName := ''Permit Hyper-V => Hyper-V inbound'', layerKey := cFWPM_LAYER_INBOUND_MAC_FRAME_NATIVE\<rparr>])"

definition blockAll_filters :: "baseObjects \<Rightarrow> u8 \<Rightarrow> wtFwpmFilter0 list" where
  "blockAll_filters bo w =
     (let filter = new_filter bo w [] FWP_ACTION_BLOCK
      in [filter\<lparr>displayName := ''Block all outbound (IPv4)'', layerKey := cFWPM_LAYER_ALE_AUTH_CONNECT_V4\<rparr>,
          filter\<lparr>displayName := ''Block all inbound (IPv4)'', layerKey := cFWPM_LAYER_ALE_AUTH_RECV_ACCEPT_V4\<rparr>,
          filter\<lparr>displayName := ''Block all outbound (IPv6)'', layerKey := cFWPM_LAYER_ALE_AUTH_CONNECT_V6\<rparr>,
          filter\<lparr>displayName := ''Block all inbound (IPv6)'', layerKey := cFWPM_LAYER_ALE_AUTH_RECV_ACCEPT_V6\<rparr>])"

definition denyConditions :: "wtFwpmFilterCondition0 list" where
  "denyConditions =
     [equal_to cFWPM_CONDITION_IP_REMOTE_PORT (FWP_UINT16 53),
      equal_to cFWPM_CONDITION_IP_PROTOCOL (FWP_UINT8 cIPPROTO_UDP),
      equal_to cFWPM_CONDITION_IP_PROTOCOL (FWP_UINT8 cIPPROTO_TCP)]"

definition blockDNS_deny :: "baseObjects \<Rightarrow> u8 \<Rightarrow> wtFwpmFilter0 list" where
  "blockDNS_deny bo w =
     (let filter = new_filter bo w denyConditions FWP_ACTION_BLOCK
      in [filter\<lparr>displayName := ''Block DNS outbound (IPv4)'', layerKey := cFWPM_LAYER_ALE_AUTH_CONNECT_V4\<rparr>,
          filter\<lparr>displayName := ''Block DNS inbound (IPv4)'', layerKey := cFWPM_LAYER_ALE_AUTH_RECV_ACCEPT_V4\<rparr>,
          filter\<lparr>displayName := ''Block DNS outbound (IPv6)'', layerKey := cFWPM_LAYER_ALE_AUTH_CONNECT_V6\<rparr>,
          filter\<lparr>displayName := ''Block DNS inbound (IPv6)'', layerKey := cFWPM_LAYER_ALE_AUTH_RECV_ACCEPT_V6\<rparr>])"

fun allowV4 :: "Addr \<Rightarrow> wtFwpmFilterCondition0 list" where
  "allowV4 (Addr4 a) = [equal_to cFWPM_CONDITION_IP_REMOTE_ADDRESS (FWP_UINT32 a)]"
| "allowV4 _ = []"

fun allowV6 :: "Addr \<Rightarrow> wtFwpmFilterCondition0 list" where
  "allowV6 (Addr6 a _) = [equal_to cFWPM_CONDITION_IP_REMOTE_ADDRESS (FWP_BYTE_ARRAY16 a)]"
| "allowV6 _ = []"

definition allowConditionsV4 :: "Addr list \<Rightarrow> wtFwpmFilterCondition0 list" where
  "allowConditionsV4 except = denyConditions @ concat (map allowV4 except)"

definition allowConditionsV6 :: "Addr list \<Rightarrow> wtFwpmFilterCondition0 list" where
  "allowConditionsV6 except = denyConditions @ concat (map allowV6 except)"

definition blockDNS_allow :: "Addr list \<Rightarrow> baseObjects \<Rightarrow> u8 \<Rightarrow> wtFwpmFilter0 list" where
  "blockDNS_allow except bo w =
     (let filter = new_filter bo w (allowConditionsV4 except) FWP_ACTION_PERMIT;
          filter6 = filter\<lparr>filterCondition := allowConditionsV6 except\<rparr>
      in (if length denyConditions < length (allowConditionsV4 except)
          then [filter\<lparr>displayName := ''Allow DNS outbound (IPv4)'', layerKey := cFWPM_LAYER_ALE_AUTH_CONNECT_V4\<rparr>] else []) @
         (if length denyConditions < length (allowConditionsV4 except)
          then [filter\<lparr>displayName := ''Allow DNS inbound (IPv4)'', layerKey := cFWPM_LAYER_ALE_AUTH_RECV_ACCEPT_V4\<rparr>] else []) @
         (if length denyConditions < length (allowConditionsV6 except)
          then [filter6\<lparr>displayName := ''Allow DNS outbound (IPv6)'', layerKey := cFWPM_LAYER_ALE_AUTH_CONNECT_V6\<rparr>] else []) @
         (if length denyConditions < length (allowConditionsV6 except)
          then [filter6\<lparr>displayName := ''Allow DNS inbound (IPv6)'', layerKey := cFWPM_LAYER_ALE_AUTH_RECV_ACCEPT_V6\<rparr>] else []))"

definition blockDNS_filters :: "Addr list \<Rightarrow> baseObjects \<Rightarrow> u8 \<Rightarrow> u8 \<Rightarrow> wtFwpmFilter0 list" where
  "blockDNS_filters except bo weightAllow weightDeny = blockDNS_deny bo weightDeny @ blockDNS_allow except bo weightAllow"

lemma guid_neq [simp]:
  "cFWPM_CONDITION_IP_LOCAL_INTERFACE \<noteq> cFWPM_CONDITION_IP_REMOTE_ADDRESS" "cFWPM_CONDITION_IP_LOCAL_INTERFACE \<noteq> cFWPM_CONDITION_IP_PROTOCOL"
  "cFWPM_CONDITION_IP_LOCAL_INTERFACE \<noteq> cFWPM_CONDITION_IP_LOCAL_PORT" "cFWPM_CONDITION_IP_LOCAL_INTERFACE \<noteq> cFWPM_CONDITION_IP_REMOTE_PORT"
  "cFWPM_CONDITION_IP_LOCAL_INTERFACE \<noteq> cFWPM_CONDITION_ALE_APP_ID" "cFWPM_CONDITION_IP_LOCAL_INTERFACE \<noteq> cFWPM_CONDITION_ALE_USER_ID"
  "cFWPM_CONDITION_IP_LOCAL_INTERFACE \<noteq> cFWPM_CONDITION_IP_LOCAL_ADDRESS" "cFWPM_CONDITION_IP_LOCAL_INTERFACE \<noteq> cFWPM_CONDITION_L2_FLAGS"
  "cFWPM_CONDITION_IP_LOCAL_INTERFACE \<noteq> cFWPM_CONDITION_FLAGS" "cFWPM_CONDITION_IP_REMOTE_ADDRESS \<noteq> cFWPM_CONDITION_IP_LOCAL_INTERFACE"
  "cFWPM_CONDITION_IP_REMOTE_ADDRESS \<noteq> cFWPM_CONDITION_IP_PROTOCOL" "cFWPM_CONDITION_IP_REMOTE_ADDRESS \<noteq> cFWPM_CONDITION_IP_LOCAL_PORT"
  "cFWPM_CONDITION_IP_REMOTE_ADDRESS \<noteq> cFWPM_CONDITION_IP_REMOTE_PORT" "cFWPM_CONDITION_IP_REMOTE_ADDRESS \<noteq> cFWPM_CONDITION_ALE_APP_ID"
  "cFWPM_CONDITION_IP_REMOTE_ADDRESS \<noteq> cFWPM_CONDITION_ALE_USER_ID" "cFWPM_CONDITION_IP_REMOTE_ADDRESS \<noteq> cFWPM_CONDITION_IP_LOCAL_ADDRESS"
  "cFWPM_CONDITION_IP_REMOTE_ADDRESS \<noteq> cFWPM_CONDITION_L2_FLAGS" "cFWPM_CONDITION_IP_REMOTE_ADDRESS \<noteq> cFWPM_CONDITION_FLAGS"
  "cFWPM_CONDITION_IP_PROTOCOL \<noteq> cFWPM_CONDITION_IP_LOCAL_INTERFACE" "cFWPM_CONDITION_IP_PROTOCOL \<noteq> cFWPM_CONDITION_IP_REMOTE_ADDRESS"
  "cFWPM_CONDITION_IP_PROTOCOL \<noteq> cFWPM_CONDITION_IP_LOCAL_PORT" "cFWPM_CONDITION_IP_PROTOCOL \<noteq> cFWPM_CONDITION_IP_REMOTE_PORT"
  "cFWPM_CONDITION_IP_PROTOCOL \<noteq> cFWPM_CONDITION_ALE_APP_ID" "cFWPM_CONDITION_IP_PROTOCOL \<noteq> cFWPM_CONDITION_ALE_USER_ID"
  "cFWPM_CONDITION_IP_PROTOCOL \<noteq> cFWPM_CONDITION_IP_LOCAL_ADDRESS" "cFWPM_CONDITION_IP_PROTOCOL \<noteq> cFWPM_CONDITION_L2_FLAGS"
  "cFWPM_CONDITION_IP_PROTOCOL \<noteq> cFWPM_CONDITION_FLAGS" "cFWPM_CONDITION_IP_LOCAL_PORT \<noteq> cFWPM_CONDITION_IP_LOCAL_INTERFACE"
  "cFWPM_CONDITION_IP_LOCAL_PORT \<noteq> cFWPM_CONDITION_IP_REMOTE_ADDRESS" "cFWPM_CONDITION_IP_LOCAL_PORT \<noteq> cFWPM_CONDITION_IP_PROTOCOL"
  "cFWPM_CONDITION_IP_LOCAL_PORT \<noteq> cFWPM_CONDITION_IP_REMOTE_PORT" "cFWPM_CONDITION_IP_LOCAL_PORT \<noteq> cFWPM_CONDITION_ALE_APP_ID"
  "cFWPM_CONDITION_IP_LOCAL_PORT \<noteq> cFWPM_CONDITION_ALE_USER_ID" "cFWPM_CONDITION_IP_LOCAL_PORT \<noteq> cFWPM_CONDITION_IP_LOCAL_ADDRESS"
  "cFWPM_CONDITION_IP_LOCAL_PORT \<noteq> cFWPM_CONDITION_L2_FLAGS" "cFWPM_CONDITION_IP_LOCAL_PORT \<noteq> cFWPM_CONDITION_FLAGS"
  "cFWPM_CONDITION_IP_REMOTE_PORT \<noteq> cFWPM_CONDITION_IP_LOCAL_INTERFACE" "cFWPM_CONDITION_IP_REMOTE_PORT \<noteq> cFWPM_CONDITION_IP_REMOTE_ADDRESS"
  "cFWPM_CONDITION_IP_REMOTE_PORT \<noteq> cFWPM_CONDITION_IP_PROTOCOL" "cFWPM_CONDITION_IP_REMOTE_PORT \<noteq> cFWPM_CONDITION_IP_LOCAL_PORT"
  "cFWPM_CONDITION_IP_REMOTE_PORT \<noteq> cFWPM_CONDITION_ALE_APP_ID" "cFWPM_CONDITION_IP_REMOTE_PORT \<noteq> cFWPM_CONDITION_ALE_USER_ID"
  "cFWPM_CONDITION_IP_REMOTE_PORT \<noteq> cFWPM_CONDITION_IP_LOCAL_ADDRESS" "cFWPM_CONDITION_IP_REMOTE_PORT \<noteq> cFWPM_CONDITION_L2_FLAGS"
  "cFWPM_CONDITION_IP_REMOTE_PORT \<noteq> cFWPM_CONDITION_FLAGS" "cFWPM_CONDITION_ALE_APP_ID \<noteq> cFWPM_CONDITION_IP_LOCAL_INTERFACE"
  "cFWPM_CONDITION_ALE_APP_ID \<noteq> cFWPM_CONDITION_IP_REMOTE_ADDRESS" "cFWPM_CONDITION_ALE_APP_ID \<noteq> cFWPM_CONDITION_IP_PROTOCOL"
  "cFWPM_CONDITION_ALE_APP_ID \<noteq> cFWPM_CONDITION_IP_LOCAL_PORT" "cFWPM_CONDITION_ALE_APP_ID \<noteq> cFWPM_CONDITION_IP_REMOTE_PORT"
  "cFWPM_CONDITION_ALE_APP_ID \<noteq> cFWPM_CONDITION_ALE_USER_ID" "cFWPM_CONDITION_ALE_APP_ID \<noteq> cFWPM_CONDITION_IP_LOCAL_ADDRESS"
  "cFWPM_CONDITION_ALE_APP_ID \<noteq> cFWPM_CONDITION_L2_FLAGS" "cFWPM_CONDITION_ALE_APP_ID \<noteq> cFWPM_CONDITION_FLAGS"
  "cFWPM_CONDITION_ALE_USER_ID \<noteq> cFWPM_CONDITION_IP_LOCAL_INTERFACE" "cFWPM_CONDITION_ALE_USER_ID \<noteq> cFWPM_CONDITION_IP_REMOTE_ADDRESS"
  "cFWPM_CONDITION_ALE_USER_ID \<noteq> cFWPM_CONDITION_IP_PROTOCOL" "cFWPM_CONDITION_ALE_USER_ID \<noteq> cFWPM_CONDITION_IP_LOCAL_PORT"
  "cFWPM_CONDITION_ALE_USER_ID \<noteq> cFWPM_CONDITION_IP_REMOTE_PORT" "cFWPM_CONDITION_ALE_USER_ID \<noteq> cFWPM_CONDITION_ALE_APP_ID"
  "cFWPM_CONDITION_ALE_USER_ID \<noteq> cFWPM_CONDITION_IP_LOCAL_ADDRESS" "cFWPM_CONDITION_ALE_USER_ID \<noteq> cFWPM_CONDITION_L2_FLAGS"
  "cFWPM_CONDITION_ALE_USER_ID \<noteq> cFWPM_CONDITION_FLAGS" "cFWPM_CONDITION_IP_LOCAL_ADDRESS \<noteq> cFWPM_CONDITION_IP_LOCAL_INTERFACE"
  "cFWPM_CONDITION_IP_LOCAL_ADDRESS \<noteq> cFWPM_CONDITION_IP_REMOTE_ADDRESS" "cFWPM_CONDITION_IP_LOCAL_ADDRESS \<noteq> cFWPM_CONDITION_IP_PROTOCOL"
  "cFWPM_CONDITION_IP_LOCAL_ADDRESS \<noteq> cFWPM_CONDITION_IP_LOCAL_PORT" "cFWPM_CONDITION_IP_LOCAL_ADDRESS \<noteq> cFWPM_CONDITION_IP_REMOTE_PORT"
  "cFWPM_CONDITION_IP_LOCAL_ADDRESS \<noteq> cFWPM_CONDITION_ALE_APP_ID" "cFWPM_CONDITION_IP_LOCAL_ADDRESS \<noteq> cFWPM_CONDITION_ALE_USER_ID"
  "cFWPM_CONDITION_IP_LOCAL_ADDRESS \<noteq> cFWPM_CONDITION_L2_FLAGS" "cFWPM_CONDITION_IP_LOCAL_ADDRESS \<noteq> cFWPM_CONDITION_FLAGS"
  "cFWPM_CONDITION_L2_FLAGS \<noteq> cFWPM_CONDITION_IP_LOCAL_INTERFACE" "cFWPM_CONDITION_L2_FLAGS \<noteq> cFWPM_CONDITION_IP_REMOTE_ADDRESS"
  "cFWPM_CONDITION_L2_FLAGS \<noteq> cFWPM_CONDITION_IP_PROTOCOL" "cFWPM_CONDITION_L2_FLAGS \<noteq> cFWPM_CONDITION_IP_LOCAL_PORT"
  "cFWPM_CONDITION_L2_FLAGS \<noteq> cFWPM_CONDITION_IP_REMOTE_PORT" "cFWPM_CONDITION_L2_FLAGS \<noteq> cFWPM_CONDITION_ALE_APP_ID"
  "cFWPM_CONDITION_L2_FLAGS \<noteq> cFWPM_CONDITION_ALE_USER_ID" "cFWPM_CONDITION_L2_FLAGS \<noteq> cFWPM_CONDITION_IP_LOCAL_ADDRESS"
  "cFWPM_CONDITION_L2_FLAGS \<noteq> cFWPM_CONDITION_FLAGS" "cFWPM_CONDITION_FLAGS \<noteq> cFWPM_CONDITION_IP_LOCAL_INTERFACE"
  "cFWPM_CONDITION_FLAGS \<noteq> cFWPM_CONDITION_IP_REMOTE_ADDRESS" "cFWPM_CONDITION_FLAGS \<noteq> cFWPM_CONDITION_IP_PROTOCOL"
  "cFWPM_CONDITION_FLAGS \<noteq> cFWPM_CONDITION_IP_LOCAL_PORT" "cFWPM_CONDITION_FLAGS \<noteq> cFWPM_CONDITION_IP_REMOTE_PORT"
  "cFWPM_CONDITION_FLAGS \<noteq> cFWPM_CONDITION_ALE_APP_ID" "cFWPM_CONDITION_FLAGS \<noteq> cFWPM_CONDITION_ALE_USER_ID"
  "cFWPM_CONDITION_FLAGS \<noteq> cFWPM_CONDITION_IP_LOCAL_ADDRESS" "cFWPM_CONDITION_FLAGS \<noteq> cFWPM_CONDITION_L2_FLAGS"
  "cFWPM_LAYER_ALE_AUTH_CONNECT_V4 \<noteq> cFWPM_LAYER_ALE_AUTH_RECV_ACCEPT_V4" "cFWPM_LAYER_ALE_AUTH_CONNECT_V4 \<noteq> cFWPM_LAYER_ALE_AUTH_CONNECT_V6"
  "cFWPM_LAYER_ALE_AUTH_CONNECT_V4 \<noteq> cFWPM_LAYER_ALE_AUTH_RECV_ACCEPT_V6" "cFWPM_LAYER_ALE_AUTH_CONNECT_V4 \<noteq> cFWPM_LAYER_OUTBOUND_MAC_FRAME_NATIVE"
  "cFWPM_LAYER_ALE_AUTH_CONNECT_V4 \<noteq> cFWPM_LAYER_INBOUND_MAC_FRAME_NATIVE" "cFWPM_LAYER_ALE_AUTH_RECV_ACCEPT_V4 \<noteq> cFWPM_LAYER_ALE_AUTH_CONNECT_V4"
  "cFWPM_LAYER_ALE_AUTH_RECV_ACCEPT_V4 \<noteq> cFWPM_LAYER_ALE_AUTH_CONNECT_V6" "cFWPM_LAYER_ALE_AUTH_RECV_ACCEPT_V4 \<noteq> cFWPM_LAYER_ALE_AUTH_RECV_ACCEPT_V6"
  "cFWPM_LAYER_ALE_AUTH_RECV_ACCEPT_V4 \<noteq> cFWPM_LAYER_OUTBOUND_MAC_FRAME_NATIVE" "cFWPM_LAYER_ALE_AUTH_RECV_ACCEPT_V4 \<noteq> cFWPM_LAYER_INBOUND_MAC_FRAME_NATIVE"
  "cFWPM_LAYER_ALE_AUTH_CONNECT_V6 \<noteq> cFWPM_LAYER_ALE_AUTH_CONNECT_V4" "cFWPM_LAYER_ALE_AUTH_CONNECT_V6 \<noteq> cFWPM_LAYER_ALE_AUTH_RECV_ACCEPT_V4"
  "cFWPM_LAYER_ALE_AUTH_CONNECT_V6 \<noteq> cFWPM_LAYER_ALE_AUTH_RECV_ACCEPT_V6" "cFWPM_LAYER_ALE_AUTH_CONNECT_V6 \<noteq> cFWPM_LAYER_OUTBOUND_MAC_FRAME_NATIVE"
  "cFWPM_LAYER_ALE_AUTH_CONNECT_V6 \<noteq> cFWPM_LAYER_INBOUND_MAC_FRAME_NATIVE" "cFWPM_LAYER_ALE_AUTH_RECV_ACCEPT_V6 \<noteq> cFWPM_LAYER_ALE_AUTH_CONNECT_V4"
  "cFWPM_LAYER_ALE_AUTH_RECV_ACCEPT_V6 \<noteq> cFWPM_LAYER_ALE_AUTH_RECV_ACCEPT_V4" "cFWPM_LAYER_ALE_AUTH_RECV_ACCEPT_V6 \<noteq> cFWPM_LAYER_ALE_AUTH_CONNECT_V6"
  "cFWPM_LAYER_ALE_AUTH_RECV_ACCEPT_V6 \<noteq> cFWPM_LAYER_OUTBOUND_MAC_FRAME_NATIVE" "cFWPM_LAYER_ALE_AUTH_RECV_ACCEPT_V6 \<noteq> cFWPM_LAYER_INBOUND_MAC_FRAME_NATIVE"
  "cFWPM_LAYER_OUTBOUND_MAC_FRAME_NATIVE \<noteq> cFWPM_LAYER_ALE_AUTH_CONNECT_V4" "cFWPM_LAYER_OUTBOUND_MAC_FRAME_NATIVE \<noteq> cFWPM_LAYER_ALE_AUTH_RECV_ACCEPT_V4"
  "cFWPM_LAYER_OUTBOUND_MAC_FRAME_NATIVE \<noteq> cFWPM_LAYER_ALE_AUTH_CONNECT_V6" "cFWPM_LAYER_OUTBOUND_MAC_FRAME_NATIVE \<noteq> cFWPM_LAYER_ALE_AUTH_RECV_ACCEPT_V6"
  "cFWPM_LAYER_OUTBOUND_MAC_FRAME_NATIVE \<noteq> cFWPM_LAYER_INBOUND_MAC_FRAME_NATIVE" "cFWPM_LAYER_INBOUND_MAC_FRAME_NATIVE \<noteq> cFWPM_LAYER_ALE_AUTH_CONNECT_V4"
  "cFWPM_LAYER_INBOUND_MAC_FRAME_NATIVE \<noteq> cFWPM_LAYER_ALE_AUTH_RECV_ACCEPT_V4" "cFWPM_LAYER_INBOUND_MAC_FRAME_NATIVE \<noteq> cFWPM_LAYER_ALE_AUTH_CONNECT_V6"
  "cFWPM_LAYER_INBOUND_MAC_FRAME_NATIVE \<noteq> cFWPM_LAYER_ALE_AUTH_RECV_ACCEPT_V6" "cFWPM_LAYER_INBOUND_MAC_FRAME_NATIVE \<noteq> cFWPM_LAYER_OUTBOUND_MAC_FRAME_NATIVE"
  by (simp_all add: cFWPM_CONDITION_IP_LOCAL_INTERFACE_def cFWPM_CONDITION_IP_REMOTE_ADDRESS_def cFWPM_CONDITION_IP_PROTOCOL_def cFWPM_CONDITION_IP_LOCAL_PORT_def cFWPM_CONDITION_IP_REMOTE_PORT_def cFWPM_CONDITION_ALE_APP_ID_def cFWPM_CONDITION_ALE_USER_ID_def cFWPM_CONDITION_IP_LOCAL_ADDRESS_def cFWPM_CONDITION_L2_FLAGS_def cFWPM_CONDITION_FLAGS_def cFWPM_LAYER_ALE_AUTH_CONNECT_V4_def cFWPM_LAYER_ALE_AUTH_RECV_ACCEPT_V4_def cFWPM_LAYER_ALE_AUTH_CONNECT_V6_def cFWPM_LAYER_ALE_AUTH_RECV_ACCEPT_V6_def cFWPM_LAYER_OUTBOUND_MAC_FRAME_NATIVE_def cFWPM_LAYER_INBOUND_MAC_FRAME_NATIVE_def)

end
