(* ===== verification/Firewall.thy ===== *)
theory Firewall
  imports FirewallRules
begin

text \<open>
  Enabling and disabling the firewall (tunnel/firewall/blocker.go, helpers.go). The filtering engine
  of Windows is not part of the sources: its calls are the fields of the parameter \<open>W\<close>, each a
  function of the engine's state \<open>'s\<close>, and \<open>wfp_laws\<close> states what the platform documents of
  transactions and dynamic sessions.
\<close>

section \<open>Errors with a location\<close>

text \<open>\<open>err = f(); if err != nil { return wrapErr(err) }\<close>: only an \<open>Errno\<close> gets the location added.\<close>

definition wrapErr :: "go_error \<Rightarrow> go_error" where
  "wrapErr err = (case err of Errno _ \<Rightarrow> Wrapped ''Firewall error at'' err | _ \<Rightarrow> err)"

definition wrapped :: "('s, 'a) prog \<Rightarrow> ('s, 'a) prog" where
  "wrapped = pcatch wrapErr"

section \<open>The platform\<close>

record sid_group =
  Attributes :: u32
  sid_valid :: bool
  sid_authority :: nat
  sid_subAuthorities :: "nat list"

record sublayer =
  sub_key :: GUID
  sub_provider :: GUID
  sub_weight :: u16

record 's wfp =
  fwpmEngineOpen0 :: "('s, nat) prog"
  fwpmEngineClose0 :: "nat \<Rightarrow> 's \<Rightarrow> 's"
  fwpmTransactionBegin0 :: "nat \<Rightarrow> ('s, unit) prog"
  fwpmTransactionCommit0 :: "nat \<Rightarrow> ('s, unit) prog"
  fwpmTransactionAbort0 :: "nat \<Rightarrow> 's \<Rightarrow> 's"
  fwpmProviderAdd0 :: "nat \<Rightarrow> GUID \<Rightarrow> ('s, unit) prog"
  fwpmSubLayerAdd0 :: "nat \<Rightarrow> sublayer \<Rightarrow> ('s, unit) prog"
  fwpmFilterAdd0 :: "nat \<Rightarrow> wtFwpmFilter0 \<Rightarrow> ('s, unit) prog"
  GenerateGUID :: "('s, GUID) prog"
  processAppID :: "go_error + bytes"
  tokenGroups :: "go_error + sid_group list"
  buildDescriptor :: "SID \<Rightarrow> go_error option"

text \<open>
  \<open>tokenGroups\<close> is \<open>OpenProcessToken\<close> with \<open>GetTokenGroups\<close>; \<open>buildDescriptor sid\<close> is the error, if any, of the
  four calls that build the descriptor granting a match to \<open>sid\<close> alone (\<open>ACLFromEntries\<close> to \<open>ToSelfRelative\<close>), and
  the descriptor itself is that \<open>sid\<close>; \<open>processAppID\<close> is \<open>os.Executable\<close> with \<open>fwpmGetAppIdFromFileName0\<close>.
\<close>

section \<open>Helpers\<close>

definition runTransaction :: "'s wfp \<Rightarrow> nat \<Rightarrow> (nat \<Rightarrow> ('s, unit) prog) \<Rightarrow> ('s, unit) prog" where
  "runTransaction W session operation =
     pbind (wrapped (fwpmTransactionBegin0 W session)) (\<lambda>_ s.
       case operation session s of
         (Inl err, s) \<Rightarrow> (Inl (wrapErr err), fwpmTransactionAbort0 W session s)
       | (Inr _, s) \<Rightarrow>
           (case fwpmTransactionCommit0 W session s of
              (Inl err, s) \<Rightarrow> (Inl (wrapErr err), fwpmTransactionAbort0 W session s)
            | (Inr _, s) \<Rightarrow> (Inr (), s)))"

definition serviceGroup :: "sid_group \<Rightarrow> bool" where
  "serviceGroup g \<longleftrightarrow>
     Attributes g = or (or 4 2) 8 \<and>
     \<not> (\<not> sid_valid g \<or> sid_authority g \<noteq> 5 \<or> length (sid_subAuthorities g) < 6 \<or> sid_subAuthorities g ! 0 \<noteq> 80)"

definition getCurrentProcessSecurityDescriptor :: "'s wfp \<Rightarrow> go_error + SID" where
  "getCurrentProcessSecurityDescriptor W =
     (case tokenGroups W of Inl err \<Rightarrow> Inl (wrapErr err)
      | Inr gs \<Rightarrow>
          (case find serviceGroup gs of None \<Rightarrow> Inl (wrapErr (Errno 1319))
           | Some g \<Rightarrow>
               (case buildDescriptor W (sid_subAuthorities g) of Some err \<Rightarrow> Inl (wrapErr err)
                | None \<Rightarrow> Inr (sid_subAuthorities g))))"

definition getCurrentProcessAppID :: "'s wfp \<Rightarrow> go_error + bytes" where
  "getCurrentProcessAppID W = (case processAppID W of Inl err \<Rightarrow> Inl (wrapErr err) | Inr b \<Rightarrow> Inr b)"

section \<open>Installing\<close>

definition addFilter :: "'s wfp \<Rightarrow> nat \<Rightarrow> wtFwpmFilter0 \<Rightarrow> ('s, unit) prog" where
  "addFilter W session f = wrapped (fwpmFilterAdd0 W session f)"

definition permitTunInterface :: "'s wfp \<Rightarrow> nat \<Rightarrow> baseObjects \<Rightarrow> u8 \<Rightarrow> u64 \<Rightarrow> ('s, unit) prog" where
  "permitTunInterface W session bo w ifLUID = peach (addFilter W session) (permitTunInterface_filters bo w ifLUID)"

definition permitWireGuardService :: "'s wfp \<Rightarrow> nat \<Rightarrow> baseObjects \<Rightarrow> u8 \<Rightarrow> ('s, unit) prog" where
  "permitWireGuardService W session bo w =
     (case getCurrentProcessAppID W of Inl err \<Rightarrow> pfail (wrapErr err)
      | Inr appID \<Rightarrow>
          (case getCurrentProcessSecurityDescriptor W of Inl err \<Rightarrow> pfail (wrapErr err)
           | Inr sd \<Rightarrow> peach (addFilter W session) (permitWireGuardService_filters bo w appID sd)))"

definition permitLoopback :: "'s wfp \<Rightarrow> nat \<Rightarrow> baseObjects \<Rightarrow> u8 \<Rightarrow> ('s, unit) prog" where
  "permitLoopback W session bo w = peach (addFilter W session) (permitLoopback_filters bo w)"

definition permitDHCPIPv4 :: "'s wfp \<Rightarrow> nat \<Rightarrow> baseObjects \<Rightarrow> u8 \<Rightarrow> ('s, unit) prog" where
  "permitDHCPIPv4 W session bo w = peach (addFilter W session) (permitDHCPIPv4_filters bo w)"

definition permitDHCPIPv6 :: "'s wfp \<Rightarrow> nat \<Rightarrow> baseObjects \<Rightarrow> u8 \<Rightarrow> ('s, unit) prog" where
  "permitDHCPIPv6 W session bo w = peach (addFilter W session) (permitDHCPIPv6_filters bo w)"

definition permitNdp :: "'s wfp \<Rightarrow> nat \<Rightarrow> baseObjects \<Rightarrow> u8 \<Rightarrow> ('s, unit) prog" where
  "permitNdp W session bo w = peach (addFilter W session) (permitNdp_filters bo w)"

definition permitHyperV :: "'s wfp \<Rightarrow> nat \<Rightarrow> baseObjects \<Rightarrow> u8 \<Rightarrow> ('s, unit) prog" where
  "permitHyperV W session bo w = peach (addFilter W session) (permitHyperV_filters bo w)"

definition blockAll :: "'s wfp \<Rightarrow> nat \<Rightarrow> baseObjects \<Rightarrow> u8 \<Rightarrow> ('s, unit) prog" where
  "blockAll W session bo w = peach (addFilter W session) (blockAll_filters bo w)"

definition blockDNS :: "'s wfp \<Rightarrow> Addr list \<Rightarrow> nat \<Rightarrow> baseObjects \<Rightarrow> u8 \<Rightarrow> u8 \<Rightarrow> ('s, unit) prog" where
  "blockDNS W except session bo weightAllow weightDeny =
     (if weightAllow \<le> weightDeny then pfail (ErrorString ''The allow weight must be greater than the deny weight'')
      else peach (addFilter W session) (blockDNS_filters except bo weightAllow weightDeny))"

definition createWfpSession :: "'s wfp \<Rightarrow> ('s, nat) prog" where
  "createWfpSession W = wrapped (fwpmEngineOpen0 W)"

definition registerBaseObjects :: "'s wfp \<Rightarrow> nat \<Rightarrow> ('s, baseObjects) prog" where
  "registerBaseObjects W session =
     pbind (wrapped (GenerateGUID W)) (\<lambda>prov.
     pbind (wrapped (GenerateGUID W)) (\<lambda>filt.
     pbind (wrapped (fwpmProviderAdd0 W session prov)) (\<lambda>_.
     pbind (wrapped (fwpmSubLayerAdd0 W session \<lparr>sub_key = filt, sub_provider = prov, sub_weight = not 0\<rparr>)) (\<lambda>_.
       preturn \<lparr>provider = prov, filters = filt\<rparr>))))"

definition objectInstaller :: "'s wfp \<Rightarrow> u64 \<Rightarrow> bool \<Rightarrow> Addr list \<Rightarrow> nat \<Rightarrow> ('s, unit) prog" where
  "objectInstaller W luid doNotRestrict restrictToDNSServers session =
     pbind (wrapped (registerBaseObjects W session)) (\<lambda>bo.
     pbind (wrapped (permitWireGuardService W session bo 15)) (\<lambda>_.
       if doNotRestrict then preturn ()
       else
         pbind (if restrictToDNSServers \<noteq> [] then wrapped (blockDNS W restrictToDNSServers session bo 15 14) else preturn ()) (\<lambda>_.
         pbind (wrapped (permitLoopback W session bo 13)) (\<lambda>_.
         pbind (wrapped (permitTunInterface W session bo 12 luid)) (\<lambda>_.
         pbind (wrapped (permitDHCPIPv4 W session bo 12)) (\<lambda>_.
         pbind (wrapped (permitDHCPIPv6 W session bo 12)) (\<lambda>_.
         pbind (wrapped (permitNdp W session bo 12)) (\<lambda>_.
         wrapped (blockAll W session bo 0)))))))))"

text \<open>The state of the package: the global \<open>wfpSession\<close>, 0 when there is none, and the engine's state.\<close>

definition EnableFirewall :: "'s wfp \<Rightarrow> u64 \<Rightarrow> bool \<Rightarrow> Addr list \<Rightarrow> nat \<times> 's \<Rightarrow> go_error option \<times> nat \<times> 's" where
  "EnableFirewall W luid doNotRestrict restrictToDNSServers st =
     (let (wfpSession, s) = st in
      if wfpSession \<noteq> 0 then (Some (ErrorString ''The firewall has already been enabled''), wfpSession, s)
      else
        case createWfpSession W s of (Inl err, s) \<Rightarrow> (Some (wrapErr err), wfpSession, s)
        | (Inr session, s) \<Rightarrow>
          (case runTransaction W session (objectInstaller W luid doNotRestrict restrictToDNSServers) s of
             (Inl err, s) \<Rightarrow> (Some (wrapErr err), wfpSession, fwpmEngineClose0 W session s)
           | (Inr _, s) \<Rightarrow> (None, session, s)))"

definition DisableFirewall :: "'s wfp \<Rightarrow> nat \<times> 's \<Rightarrow> nat \<times> 's" where
  "DisableFirewall W st =
     (let (wfpSession, s) = st in
      if wfpSession \<noteq> 0 then (0, fwpmEngineClose0 W wfpSession s) else (wfpSession, s))"


section \<open>What the platform promises\<close>

text \<open>
  \<open>active s\<close> are the filters in force, each with the session it belongs to, \<open>pending s\<close> those added in
  the open transaction. Opening a session gives a handle no filter in force belongs to; a
  transaction adds nothing until it is committed, and then all of it; closing a dynamic
  session deletes its filters and no other.
\<close>

type_synonym 's filter_view = "'s \<Rightarrow> (nat \<times> wtFwpmFilter0) list"

definition quiet :: "'s filter_view \<Rightarrow> 's filter_view \<Rightarrow> ('s, 'a) prog \<Rightarrow> bool" where
  "quiet active pending m \<longleftrightarrow> (\<forall>s r s'. m s = (r, s') \<longrightarrow> active s' = active s \<and> pending s' = pending s)"

definition wfp_laws :: "'s wfp \<Rightarrow> 's filter_view \<Rightarrow> 's filter_view \<Rightarrow> bool" where
  "wfp_laws W active pending \<longleftrightarrow>
     (\<forall>s r s'. fwpmEngineOpen0 W s = (r, s') \<longrightarrow> active s' = active s \<and> (\<forall>h. r = Inr h \<longrightarrow> h \<noteq> 0 \<and> h \<notin> fst ` set (active s))) \<and>
     (\<forall>h s. active (fwpmEngineClose0 W h s) = filter (\<lambda>(h', f). h' \<noteq> h) (active s)) \<and>
     (\<forall>h s r s'. fwpmTransactionBegin0 W h s = (r, s') \<longrightarrow> active s' = active s \<and> (r = Inr () \<longrightarrow> pending s' = [])) \<and>
     (\<forall>h s r s'. fwpmTransactionCommit0 W h s = (r, s') \<longrightarrow>
        active s' = (case r of Inl _ \<Rightarrow> active s | Inr _ \<Rightarrow> active s @ pending s)) \<and>
     (\<forall>h s. active (fwpmTransactionAbort0 W h s) = active s) \<and>
     (\<forall>h g. quiet active pending (fwpmProviderAdd0 W h g)) \<and> (\<forall>h sub. quiet active pending (fwpmSubLayerAdd0 W h sub)) \<and>
     quiet active pending (GenerateGUID W) \<and>
     (\<forall>h f s r s'. fwpmFilterAdd0 W h f s = (r, s') \<longrightarrow>
        active s' = active s \<and> pending s' = (case r of Inl _ \<Rightarrow> pending s | Inr _ \<Rightarrow> pending s @ [(h, f)]))"

text \<open>A program that changes nothing in force and, when it succeeds with \<open>x\<close>, adds filters \<open>fs\<close> with \<open>P x fs\<close>.\<close>

definition adds :: "'s filter_view \<Rightarrow> 's filter_view \<Rightarrow> nat \<Rightarrow> ('s, 'a) prog \<Rightarrow> ('a \<Rightarrow> wtFwpmFilter0 list \<Rightarrow> bool) \<Rightarrow> bool" where
  "adds active pending h m P \<longleftrightarrow>
     (\<forall>s r s'. m s = (r, s') \<longrightarrow> active s' = active s \<and>
        (\<forall>x. r = Inr x \<longrightarrow> (\<exists>fs. P x fs \<and> pending s' = pending s @ map (Pair h) fs)))"

lemma adds_return: "P x [] \<Longrightarrow> adds active pending h (preturn x) P"
  by (auto simp: adds_def preturn_def intro!: exI [of _ "[]"])

lemma adds_fail: "adds active pending h (pfail e) P"
  by (simp add: adds_def pfail_def)

lemma adds_wrapped: "adds active pending h m P \<Longrightarrow> adds active pending h (wrapped m) P"
  by (fastforce simp: adds_def wrapped_def pcatch_def split: prod.splits sum.splits)

lemma adds_quiet: "quiet active pending m \<Longrightarrow> (\<And>x. P x []) \<Longrightarrow> adds active pending h m P"
  by (fastforce simp: adds_def quiet_def)

lemma adds_bind:
  assumes "adds active pending h m P" "\<And>x fs. P x fs \<Longrightarrow> adds active pending h (f x) (\<lambda>y gs. Q y (fs @ gs))"
  shows "adds active pending h (pbind m f) Q"
  unfolding adds_def
proof (intro allI impI)
  fix s r s' assume b: "pbind m f s = (r, s')"
  obtain r1 s1 where m: "m s = (r1, s1)" by fastforce
  show "active s' = active s \<and> (\<forall>x. r = Inr x \<longrightarrow> (\<exists>fs. Q x fs \<and> pending s' = pending s @ map (Pair h) fs))"
  proof (cases r1)
    case (Inl e)
    with b m assms(1) show ?thesis by (auto simp: pbind_def adds_def)
  next
    case (Inr x)
    with m assms(1) obtain fs where 1: "active s1 = active s" "P x fs" "pending s1 = pending s @ map (Pair h) fs"
      by (fastforce simp: adds_def)
    have "f x s1 = (r, s')" using b m Inr by (simp add: pbind_def)
    with assms(2) [OF 1(2)] 1 show ?thesis by (fastforce simp: adds_def)
  qed
qed

lemma adds_weaken: "adds active pending h m P \<Longrightarrow> (\<And>x fs. P x fs \<Longrightarrow> Q x fs) \<Longrightarrow> adds active pending h m Q"
  by (fastforce simp: adds_def)

lemma adds_filters:
  assumes "wfp_laws W active pending"
  shows "adds active pending h (peach (addFilter W h) fs) (\<lambda>_ gs. gs = fs)"
proof (induction fs)
  case (Cons f fs)
  have "adds active pending h (fwpmFilterAdd0 W h f) (\<lambda>_ gs. gs = [f])"
    using assms by (auto simp: wfp_laws_def adds_def split: sum.splits)
  then have "adds active pending h (addFilter W h f) (\<lambda>_ gs. gs = [f])" unfolding addFilter_def by (rule adds_wrapped)
  then show ?case using Cons by (auto intro!: adds_bind elim: adds_weaken)
qed (simp add: adds_return)

lemma adds_seq:
  "adds active pending h m (\<lambda>_ gs. gs = fs) \<Longrightarrow> (\<And>x. adds active pending h (f x) (\<lambda>y gs. Q y (fs @ gs))) \<Longrightarrow>
     adds active pending h (pbind (wrapped m) f) Q"
  by (rule adds_bind [where P = "\<lambda>_ gs. gs = fs"]) (auto intro: adds_wrapped)

lemma adds_quiet_bind:
  "quiet active pending m \<Longrightarrow> (\<And>x. adds active pending h (f x) Q) \<Longrightarrow> adds active pending h (pbind (wrapped m) f) Q"
  by (rule adds_seq [where fs = "[]"]) (simp_all add: adds_quiet)

text \<open>The filters a successful call installs, in order.\<close>

definition firewall_filters :: "baseObjects \<Rightarrow> bytes \<Rightarrow> SID \<Rightarrow> u64 \<Rightarrow> bool \<Rightarrow> Addr list \<Rightarrow> wtFwpmFilter0 list" where
  "firewall_filters bo appID sd luid doNotRestrict dns =
     permitWireGuardService_filters bo 15 appID sd @
     (if doNotRestrict then []
      else (if dns \<noteq> [] then blockDNS_filters dns bo 15 14 else []) @ permitLoopback_filters bo 13 @
        permitTunInterface_filters bo 12 luid @ permitDHCPIPv4_filters bo 12 @ permitDHCPIPv6_filters bo 12 @
        permitNdp_filters bo 12 @ blockAll_filters bo 0)"

lemma adds_objectInstaller:
  assumes L: "wfp_laws W active pending"
  shows "adds active pending h (objectInstaller W luid dnr dns h)
    (\<lambda>_ fs. \<exists>bo appID sd. getCurrentProcessAppID W = Inr appID \<and> getCurrentProcessSecurityDescriptor W = Inr sd \<and>
       fs = firewall_filters bo appID sd luid dnr dns)" (is "adds _ _ _ _ ?Q")
proof -
  note add = adds_filters [OF L, of h]
  have "adds active pending h (registerBaseObjects W h) (\<lambda>bo fs. fs = [])"
    unfolding registerBaseObjects_def
    by (intro adds_quiet_bind adds_return refl) (use L in \<open>simp_all add: wfp_laws_def\<close>)
  note reg = adds_wrapped [OF this]
  have svc: "adds active pending h (wrapped (permitWireGuardService W h bo 15)) (\<lambda>_ fs. \<exists>appID sd. getCurrentProcessAppID W = Inr appID \<and>
      getCurrentProcessSecurityDescriptor W = Inr sd \<and> fs = permitWireGuardService_filters bo 15 appID sd)" for bo
    unfolding permitWireGuardService_def
    by (auto intro!: adds_wrapped adds_fail intro: adds_weaken [OF add] split: sum.splits)
  have dns: "adds active pending h (if dns \<noteq> [] then wrapped (blockDNS W dns h bo 15 14) else preturn ())
      (\<lambda>_ fs. fs = (if dns \<noteq> [] then blockDNS_filters dns bo 15 14 else []))" for bo
    unfolding blockDNS_def by (auto intro: adds_wrapped adds_return add)
  have rest: "adds active pending h
      (pbind (if dns \<noteq> [] then wrapped (blockDNS W dns h bo 15 14) else preturn ()) (\<lambda>_.
         pbind (wrapped (permitLoopback W h bo 13)) (\<lambda>_.
         pbind (wrapped (permitTunInterface W h bo 12 luid)) (\<lambda>_.
         pbind (wrapped (permitDHCPIPv4 W h bo 12)) (\<lambda>_.
         pbind (wrapped (permitDHCPIPv6 W h bo 12)) (\<lambda>_.
         pbind (wrapped (permitNdp W h bo 12)) (\<lambda>_.
         wrapped (blockAll W h bo 0)))))))) (\<lambda>_ gs. ?Q () (permitWireGuardService_filters bo 15 appID sd @ gs))"
    if "getCurrentProcessAppID W = Inr appID" "getCurrentProcessSecurityDescriptor W = Inr sd" "\<not> dnr" for bo appID sd
    unfolding permitLoopback_def permitTunInterface_def permitDHCPIPv4_def permitDHCPIPv6_def permitNdp_def blockAll_def
    apply (rule adds_bind [OF dns])
    apply (rule adds_seq [OF add])+
    apply (rule adds_weaken [OF adds_wrapped [OF add]])
    using that by (auto simp: firewall_filters_def)
  have "adds active pending h (preturn ()) (\<lambda>_ gs. ?Q () (permitWireGuardService_filters bo 15 appID sd @ gs))"
    if "getCurrentProcessAppID W = Inr appID" "getCurrentProcessSecurityDescriptor W = Inr sd" "dnr" for bo appID sd
    using that by (intro adds_return) (auto simp: firewall_filters_def)
  with rest show ?thesis
    unfolding objectInstaller_def
    by (intro adds_bind [OF reg] adds_bind [OF svc]) (auto split: if_splits)
qed


section \<open>All or nothing\<close>

lemma runTransaction_active:
  assumes L: "wfp_laws W active pending" and op: "adds active pending h (operation h) P"
    and run: "runTransaction W h operation s = (r, s')"
  shows "case r of Inl _ \<Rightarrow> active s' = active s | Inr _ \<Rightarrow> (\<exists>fs. P () fs \<and> active s' = active s @ map (Pair h) fs)"
proof -
  obtain r1 s1 where b: "fwpmTransactionBegin0 W h s = (r1, s1)" by fastforce
  have a1: "active s1 = active s" "r1 = Inr () \<Longrightarrow> pending s1 = []" using L b by (auto simp: wfp_laws_def)
  have ab: "active (fwpmTransactionAbort0 W h t) = active t" for t using L by (simp add: wfp_laws_def)
  obtain r2 s2 where o: "operation h s1 = (r2, s2)" by fastforce
  have a2: "active s2 = active s1" "r2 = Inr () \<Longrightarrow> \<exists>fs. P () fs \<and> pending s2 = pending s1 @ map (Pair h) fs"
    using op o by (auto simp: adds_def)
  obtain r3 s3 where c: "fwpmTransactionCommit0 W h s2 = (r3, s3)" by fastforce
  have a3: "active s3 = (case r3 of Inl _ \<Rightarrow> active s2 | Inr _ \<Rightarrow> active s2 @ pending s2)" using L c by (simp add: wfp_laws_def)
  show ?thesis
    using run b o c a1 a2 a3 ab
    by (auto simp: runTransaction_def pbind_def wrapped_def pcatch_def split: sum.splits)
qed

lemma EnableFirewall_cases:
  assumes L: "wfp_laws W active pending" and e: "EnableFirewall W luid dnr dns (sess, s) = (r, sess', s')"
  shows "case r of Some _ \<Rightarrow> sess' = sess \<and> active s' = active s
    | None \<Rightarrow> sess = 0 \<and> sess' \<noteq> 0 \<and> sess' \<notin> fst ` set (active s) \<and>
        (\<exists>bo appID sd. getCurrentProcessAppID W = Inr appID \<and> getCurrentProcessSecurityDescriptor W = Inr sd \<and>
           active s' = active s @ map (Pair sess') (firewall_filters bo appID sd luid dnr dns))"
proof (cases "sess = 0")
  case True
  obtain r1 s1 where o: "fwpmEngineOpen0 W s = (r1, s1)" by fastforce
  have a1: "active s1 = active s" "\<And>h. r1 = Inr h \<Longrightarrow> h \<noteq> 0 \<and> h \<notin> fst ` set (active s)" using L o by (auto simp: wfp_laws_def)
  show ?thesis
  proof (cases r1)
    case (Inl err)
    with e o a1 True show ?thesis by (auto simp: EnableFirewall_def createWfpSession_def wrapped_def pcatch_def)
  next
    case (Inr h)
    obtain r2 s2 where t: "runTransaction W h (objectInstaller W luid dnr dns) s1 = (r2, s2)" by fastforce
    have a2: "case r2 of Inl _ \<Rightarrow> active s2 = active s1 | Inr _ \<Rightarrow>
        (\<exists>fs. (\<exists>bo appID sd. getCurrentProcessAppID W = Inr appID \<and> getCurrentProcessSecurityDescriptor W = Inr sd \<and>
           fs = firewall_filters bo appID sd luid dnr dns) \<and> active s2 = active s1 @ map (Pair h) fs)"
      by (rule runTransaction_active [OF L adds_objectInstaller [OF L] t])
    have h: "h \<noteq> 0" "h \<notin> fst ` set (active s)" using a1(2) Inr by blast+
    then have "filter (\<lambda>(h', f). h' \<noteq> h) (active s) = active s" by (intro filter_True) force
    then have "active (fwpmEngineClose0 W h s2) = active s" if "active s2 = active s1"
      using L that a1(1) by (simp add: wfp_laws_def)
    with e o Inr t a1(1) a2 h True show ?thesis
      by (auto simp: EnableFirewall_def createWfpSession_def wrapped_def pcatch_def split: sum.splits)
  qed
qed (use e in \<open>auto simp: EnableFirewall_def\<close>)

lemma DisableFirewall_active:
  assumes "wfp_laws W active pending" "h \<noteq> 0" "h \<notin> fst ` set as" "active s = as @ map (Pair h) fs"
  shows "fst (DisableFirewall W (h, s)) = 0 \<and> active (snd (DisableFirewall W (h, s))) = as"
proof -
  have "filter (\<lambda>(h', f). h' \<noteq> h) as = as" using assms(3) by (intro filter_True) force
  moreover have "active (fwpmEngineClose0 W h s) = filter (\<lambda>(h', f). h' \<noteq> h) (active s)"
    using assms(1) by (simp add: wfp_laws_def)
  ultimately show ?thesis using assms(2,4) by (simp add: DisableFirewall_def filter_empty_conv)
qed

text \<open>C5. Enabling the firewall is all or nothing. When any step fails, the filters in force and the
  remembered session are as before. When it succeeds, exactly the filters of the rules were
  added, under a fresh session that was not set before, and disabling the firewall then
  restores the filters that were in force.\<close>

theorem EnableFirewall_all_or_nothing:
  assumes "wfp_laws W active pending" and "EnableFirewall W luid dnr dns (sess, s) = (r, sess', s')"
  shows "(r \<noteq> None \<longrightarrow> sess' = sess \<and> active s' = active s) \<and>
    (r = None \<longrightarrow> sess = 0 \<and> sess' \<noteq> 0 \<and>
       (\<exists>bo appID sd. getCurrentProcessAppID W = Inr appID \<and> getCurrentProcessSecurityDescriptor W = Inr sd \<and>
          active s' = active s @ map (Pair sess') (firewall_filters bo appID sd luid dnr dns)) \<and>
       fst (DisableFirewall W (sess', s')) = 0 \<and> active (snd (DisableFirewall W (sess', s'))) = active s)"
proof (cases r)
  case None
  with EnableFirewall_cases [OF assms] obtain bo appID sd where *: "sess = 0" "sess' \<noteq> 0" "sess' \<notin> fst ` set (active s)"
    "getCurrentProcessAppID W = Inr appID" "getCurrentProcessSecurityDescriptor W = Inr sd"
    "active s' = active s @ map (Pair sess') (firewall_filters bo appID sd luid dnr dns)" by auto
  from DisableFirewall_active [OF assms(1) *(2,3,6)] * None show ?thesis by auto
next
  case (Some e)
  with EnableFirewall_cases [OF assms] show ?thesis by simp
qed

section \<open>A concrete engine\<close>

record engine =
  e_active :: "(nat \<times> wtFwpmFilter0) list"
  e_pending :: "(nat \<times> wtFwpmFilter0) list"

definition new_guid :: GUID where
  "new_guid = \<lparr>Data1 = 1, Data2 = 2, Data3 = 3, Data4 = replicate 8 4\<rparr>"

definition sample_wfp :: "engine wfp" where
  "sample_wfp =
     \<lparr>fwpmEngineOpen0 = (\<lambda>s. (Inr (Suc (sum_list (map fst (e_active s)))), s)),
      fwpmEngineClose0 = (\<lambda>h s. s\<lparr>e_active := filter (\<lambda>(h', f). h' \<noteq> h) (e_active s)\<rparr>),
      fwpmTransactionBegin0 = (\<lambda>h s. (Inr (), s\<lparr>e_pending := []\<rparr>)),
      fwpmTransactionCommit0 = (\<lambda>h s. (Inr (), s\<lparr>e_active := e_active s @ e_pending s, e_pending := []\<rparr>)),
      fwpmTransactionAbort0 = (\<lambda>h s. s\<lparr>e_pending := []\<rparr>),
      fwpmProviderAdd0 = (\<lambda>h g s. (Inr (), s)), fwpmSubLayerAdd0 = (\<lambda>h sub s. (Inr (), s)),
      fwpmFilterAdd0 = (\<lambda>h f s. (Inr (), s\<lparr>e_pending := e_pending s @ [(h, f)]\<rparr>)),
      GenerateGUID = (\<lambda>s. (Inr new_guid, s)),
      processAppID = Inr ''wireguard.exe'',
      tokenGroups = Inr [\<lparr>Attributes = 14, sid_valid = True, sid_authority = 5, sid_subAuthorities = [80, 1, 2, 3, 4, 5]\<rparr>],
      buildDescriptor = Map.empty\<rparr>"

definition no_filters :: engine where
  "no_filters = \<lparr>e_active = [], e_pending = []\<rparr>"

lemma sample_wfp_laws: "wfp_laws sample_wfp e_active e_pending"
proof -
  have "x \<le> sum_list (map fst xs)" if "x \<in> fst ` set xs" for x and xs :: "(nat \<times> wtFwpmFilter0) list"
    using that member_le_sum_list [of x "map fst xs"] by simp
  then have "Suc (sum_list (map fst xs)) \<notin> fst ` set xs" for xs :: "(nat \<times> wtFwpmFilter0) list"
    by (meson Suc_n_not_le_n)
  then show ?thesis by (simp add: wfp_laws_def sample_wfp_def quiet_def)
qed

theorem EnableFirewall_all_or_nothing_witness:
  "\<exists>sess s. EnableFirewall sample_wfp 7 True [] (0, no_filters) = (None, sess, s) \<and>
     e_active (snd (DisableFirewall sample_wfp (sess, s))) = []"
proof -
  have "fst (EnableFirewall sample_wfp 7 True [] (0, no_filters)) = None"
    by (simp add: EnableFirewall_def createWfpSession_def wrapped_def pcatch_def runTransaction_def objectInstaller_def pbind_def
        registerBaseObjects_def preturn_def permitWireGuardService_def getCurrentProcessAppID_def
        getCurrentProcessSecurityDescriptor_def sample_wfp_def serviceGroup_def permitWireGuardService_filters_def addFilter_def Let_def)
  then obtain sess s where e: "EnableFirewall sample_wfp 7 True [] (0, no_filters) = (None, sess, s)" by (metis prod.collapse)
  from EnableFirewall_all_or_nothing [OF sample_wfp_laws e] e show ?thesis by (auto simp: no_filters_def)
qed

end
