(* ===== verification/FirewallVerdict.thy ===== *)
theory FirewallVerdict
  imports Firewall
begin

text \<open>
  What the installed filters let through. The arbitration inside a sublayer is the platform's,
  as documented and as the comments of rules.go rely on it: conditions on the same field are
  alternatives, conditions on different fields must all hold, and the matching filters of the
  greatest weight decide. Filters of equal weight are not ordered, so \<open>verdicts\<close> is the set of
  possible decisions; the theorem shows there is only one.
\<close>

section \<open>Packets and matching\<close>

record packet =
  pk_layer :: GUID
  pk_luid :: u64
  pk_protocol :: u8
  pk_local :: Addr
  pk_local_port :: u16
  pk_remote :: Addr
  pk_remote_port :: u16
  pk_flags :: u32
  pk_app :: bytes
  pk_sids :: "SID list"

fun address_value :: "Addr \<Rightarrow> wtFwpConditionValue0 option" where
  "address_value (Addr4 a) = Some (FWP_UINT32 a)"
| "address_value (Addr6 a _) = Some (FWP_BYTE_ARRAY16 a)"
| "address_value AddrInvalid = None"

definition field_value :: "packet \<Rightarrow> GUID \<Rightarrow> wtFwpConditionValue0 option" where
  "field_value pkt key =
     (if key = cFWPM_CONDITION_IP_LOCAL_INTERFACE then Some (FWP_UINT64 (pk_luid pkt))
      else if key = cFWPM_CONDITION_IP_PROTOCOL then Some (FWP_UINT8 (pk_protocol pkt))
      else if key = cFWPM_CONDITION_IP_LOCAL_PORT then Some (FWP_UINT16 (pk_local_port pkt))
      else if key = cFWPM_CONDITION_IP_REMOTE_PORT then Some (FWP_UINT16 (pk_remote_port pkt))
      else if key = cFWPM_CONDITION_IP_LOCAL_ADDRESS then address_value (pk_local pkt)
      else if key = cFWPM_CONDITION_IP_REMOTE_ADDRESS then address_value (pk_remote pkt)
      else if key = cFWPM_CONDITION_FLAGS then Some (FWP_UINT32 (pk_flags pkt))
      else if key = cFWPM_CONDITION_ALE_APP_ID then Some (FWP_BYTE_BLOB (pk_app pkt))
      else None)"

fun value_equal :: "wtFwpConditionValue0 \<Rightarrow> wtFwpConditionValue0 option \<Rightarrow> bool" where
  "value_equal (FWP_V6_ADDR_MASK a n) (Some (FWP_BYTE_ARRAY16 b)) = (mask_word n b = mask_word n a)"
| "value_equal (FWP_V6_ADDR_MASK a n) _ = False"
| "value_equal v w = (w = Some v)"

fun all_set :: "wtFwpConditionValue0 \<Rightarrow> wtFwpConditionValue0 option \<Rightarrow> bool" where
  "all_set (FWP_UINT32 f) (Some (FWP_UINT32 g)) = (and g f = f)"
| "all_set _ _ = False"

definition condition_holds :: "packet \<Rightarrow> wtFwpmFilterCondition0 \<Rightarrow> bool" where
  "condition_holds pkt c =
     (if fieldKey c = cFWPM_CONDITION_ALE_USER_ID then
        (case conditionValue c of FWP_SECURITY_DESCRIPTOR sid \<Rightarrow> sid \<in> set (pk_sids pkt) | _ \<Rightarrow> False)
      else case matchType c of
          FWP_MATCH_EQUAL \<Rightarrow> value_equal (conditionValue c) (field_value pkt (fieldKey c))
        | FWP_MATCH_FLAGS_ALL_SET \<Rightarrow> all_set (conditionValue c) (field_value pkt (fieldKey c)))"

definition filter_matches :: "packet \<Rightarrow> wtFwpmFilter0 \<Rightarrow> bool" where
  "filter_matches pkt f \<longleftrightarrow> layerKey f = pk_layer pkt \<and>
     list_all (\<lambda>c. list_ex (\<lambda>c'. fieldKey c' = fieldKey c \<and> condition_holds pkt c') (filterCondition f)) (filterCondition f)"

definition verdicts :: "wtFwpmFilter0 list \<Rightarrow> packet \<Rightarrow> wtFwpActionType set" where
  "verdicts fs pkt =
     (let ms = filter (filter_matches pkt) fs in filterAction ` {f \<in> set ms. \<forall>g \<in> set ms. weight g \<le> weight f})"

section \<open>Groups of filters\<close>

text \<open>The filters of one rule have one weight and one action; only whether one of them matches counts.\<close>

definition hits :: "packet \<Rightarrow> wtFwpmFilter0 list \<Rightarrow> bool" where
  "hits pkt fs \<longleftrightarrow> list_ex (filter_matches pkt) fs"

definition uniform :: "u8 \<times> wtFwpActionType \<times> wtFwpmFilter0 list \<Rightarrow> bool" where
  "uniform g \<longleftrightarrow> list_all (\<lambda>f. weight f = fst g \<and> filterAction f = fst (snd g)) (snd (snd g))"

lemma verdicts_groups:
  assumes "list_all uniform gs"
  shows "verdicts (concat (map (snd \<circ> snd) gs)) pkt =
    (let hs = filter (\<lambda>g. hits pkt (snd (snd g))) gs in (fst \<circ> snd) ` {g \<in> set hs. \<forall>g' \<in> set hs. fst g' \<le> fst g})"
proof -
  have u: "weight f = fst g \<and> filterAction f = fst (snd g)" if "g \<in> set gs" "f \<in> set (snd (snd g))" for f g
    using assms that by (auto simp: list_all_iff uniform_def)
  let ?hs = "filter (\<lambda>g. hits pkt (snd (snd g))) gs" and ?ms = "filter (filter_matches pkt) (concat (map (snd \<circ> snd) gs))"
  have mem: "f \<in> set ?ms \<longleftrightarrow> (\<exists>g \<in> set gs. f \<in> set (snd (snd g)) \<and> filter_matches pkt f)" for f by auto
  have hit: "g \<in> set ?hs \<longleftrightarrow> g \<in> set gs \<and> (\<exists>f \<in> set (snd (snd g)). filter_matches pkt f)" for g
    by (simp add: hits_def list_ex_iff)
  have top: "(\<forall>f' \<in> set ?ms. weight f' \<le> w) \<longleftrightarrow> (\<forall>g' \<in> set ?hs. fst g' \<le> w)" for w
    unfolding Ball_def mem hit using u by (metis (no_types, lifting))
  have "filterAction ` {f \<in> set ?ms. \<forall>f' \<in> set ?ms. weight f' \<le> weight f} =
      (fst \<circ> snd) ` {g \<in> set ?hs. \<forall>g' \<in> set ?hs. fst g' \<le> fst g}"
    unfolding top mem hit
  proof (intro equalityI subsetI)
    fix x assume "x \<in> filterAction ` {f. (\<exists>g \<in> set gs. f \<in> set (snd (snd g)) \<and> filter_matches pkt f) \<and> (\<forall>g' \<in> set ?hs. fst g' \<le> weight f)}"
    then obtain f g where "x = filterAction f" "g \<in> set gs" "f \<in> set (snd (snd g))" "filter_matches pkt f"
      "\<forall>g' \<in> set ?hs. fst g' \<le> weight f" by blast
    then show "x \<in> (fst \<circ> snd) ` {g. (g \<in> set gs \<and> (\<exists>f \<in> set (snd (snd g)). filter_matches pkt f)) \<and> (\<forall>g' \<in> set ?hs. fst g' \<le> fst g)}"
      using u [of g f] by (intro image_eqI [of _ _ g]) auto
  next
    fix x assume "x \<in> (fst \<circ> snd) ` {g. (g \<in> set gs \<and> (\<exists>f \<in> set (snd (snd g)). filter_matches pkt f)) \<and> (\<forall>g' \<in> set ?hs. fst g' \<le> fst g)}"
    then obtain f g where "x = fst (snd g)" "g \<in> set gs" "f \<in> set (snd (snd g))" "filter_matches pkt f"
      "\<forall>g' \<in> set ?hs. fst g' \<le> fst g" by auto
    then show "x \<in> filterAction ` {f. (\<exists>g \<in> set gs. f \<in> set (snd (snd g)) \<and> filter_matches pkt f) \<and> (\<forall>g' \<in> set ?hs. fst g' \<le> weight f)}"
      using u [of g f] by (intro image_eqI [of _ _ f]) auto
  qed
  then show ?thesis by (simp add: verdicts_def Let_def)
qed

section \<open>What each rule matches\<close>

definition ale_packet :: "packet \<Rightarrow> bool" where
  "ale_packet pkt \<longleftrightarrow>
     (if addr_Is4 (pk_remote pkt)
      then pk_layer pkt = cFWPM_LAYER_ALE_AUTH_CONNECT_V4 \<or> pk_layer pkt = cFWPM_LAYER_ALE_AUTH_RECV_ACCEPT_V4
      else addr_Is6 (pk_remote pkt) \<and>
        (pk_layer pkt = cFWPM_LAYER_ALE_AUTH_CONNECT_V6 \<or> pk_layer pkt = cFWPM_LAYER_ALE_AUTH_RECV_ACCEPT_V6))"

lemmas rule_defs = filter_matches_def condition_holds_def field_value_def equal_to_def new_filter_def hits_def Let_def

lemma ale_layers:
  assumes "ale_packet pkt"
  obtains "pk_layer pkt = cFWPM_LAYER_ALE_AUTH_CONNECT_V4" | "pk_layer pkt = cFWPM_LAYER_ALE_AUTH_RECV_ACCEPT_V4"
  | "pk_layer pkt = cFWPM_LAYER_ALE_AUTH_CONNECT_V6" | "pk_layer pkt = cFWPM_LAYER_ALE_AUTH_RECV_ACCEPT_V6"
  using assms by (auto simp: ale_packet_def split: if_splits)

lemma hits_tun: "ale_packet pkt \<Longrightarrow> hits pkt (permitTunInterface_filters bo w luid) \<longleftrightarrow> pk_luid pkt = luid"
  by (erule ale_layers; simp add: permitTunInterface_filters_def rule_defs; blast)

lemma hits_service:
  "ale_packet pkt \<Longrightarrow> hits pkt (permitWireGuardService_filters bo w appID sd) \<longleftrightarrow> pk_app pkt = appID \<and> sd \<in> set (pk_sids pkt)"
  by (erule ale_layers; simp add: permitWireGuardService_filters_def rule_defs; blast)

lemma hits_loopback: "ale_packet pkt \<Longrightarrow> hits pkt (permitLoopback_filters bo w) \<longleftrightarrow> and (pk_flags pkt) 1 = 1"
  by (erule ale_layers; simp add: permitLoopback_filters_def rule_defs cFWP_CONDITION_FLAG_IS_LOOPBACK_def)

lemma hits_blockAll: "ale_packet pkt \<Longrightarrow> hits pkt (blockAll_filters bo w)"
  by (erule ale_layers; simp add: blockAll_filters_def rule_defs)


text \<open>The traffic the remaining rules are meant for.\<close>

fun link_local :: "Addr \<Rightarrow> bool" where
  "link_local (Addr6 a _) = (mask_word 10 a = 0xfe800000000000000000000000000000)"
| "link_local _ = False"

fun is_addr6 :: "128 word \<Rightarrow> Addr \<Rightarrow> bool" where
  "is_addr6 a (Addr6 b _) = (a = b)"
| "is_addr6 a _ = False"

definition is_dhcp4 :: "packet \<Rightarrow> bool" where
  "is_dhcp4 pkt \<longleftrightarrow> pk_protocol pkt = cIPPROTO_UDP \<and> pk_local_port pkt = 68 \<and> pk_remote_port pkt = 67 \<and>
     (pk_layer pkt = cFWPM_LAYER_ALE_AUTH_CONNECT_V4 \<and> pk_remote pkt = Addr4 0xffffffff \<or>
      pk_layer pkt = cFWPM_LAYER_ALE_AUTH_RECV_ACCEPT_V4)"

definition is_dhcp6 :: "packet \<Rightarrow> bool" where
  "is_dhcp6 pkt \<longleftrightarrow> pk_protocol pkt = cIPPROTO_UDP \<and> pk_local_port pkt = 546 \<and> pk_remote_port pkt = 547 \<and>
     link_local (pk_local pkt) \<and>
     (pk_layer pkt = cFWPM_LAYER_ALE_AUTH_CONNECT_V6 \<and>
        (is_addr6 0xff020000000000000000000000010002 (pk_remote pkt) \<or> is_addr6 0xff050000000000000000000000010003 (pk_remote pkt)) \<or>
      pk_layer pkt = cFWPM_LAYER_ALE_AUTH_RECV_ACCEPT_V6 \<and> link_local (pk_remote pkt))"

text \<open>For ICMPv6 the local port holds the type and the remote port the code.\<close>

definition is_ndp :: "packet \<Rightarrow> bool" where
  "is_ndp pkt \<longleftrightarrow> pk_protocol pkt = cIPPROTO_ICMPV6 \<and> pk_remote_port pkt = 0 \<and>
     (pk_layer pkt = cFWPM_LAYER_ALE_AUTH_CONNECT_V6 \<and>
        (pk_local_port pkt = 133 \<and> is_addr6 0xff020000000000000000000000000002 (pk_remote pkt) \<or>
         pk_local_port pkt = 135 \<or> pk_local_port pkt = 136) \<or>
      pk_layer pkt = cFWPM_LAYER_ALE_AUTH_RECV_ACCEPT_V6 \<and>
        ((pk_local_port pkt = 134 \<or> pk_local_port pkt = 137) \<and> link_local (pk_remote pkt) \<or>
         pk_local_port pkt = 135 \<or> pk_local_port pkt = 136))"

definition is_dns :: "packet \<Rightarrow> bool" where
  "is_dns pkt \<longleftrightarrow> pk_remote_port pkt = 53 \<and> (pk_protocol pkt = cIPPROTO_UDP \<or> pk_protocol pkt = cIPPROTO_TCP)"

lemma mask_link_local: "mask_word 10 (0xfe800000000000000000000000000000 :: 128 word) = 0xfe800000000000000000000000000000"
  by (simp add: mask_word_def)

lemma address_value_simps:
  "address_value a = Some (FWP_UINT32 b) \<longleftrightarrow> a = Addr4 b"
  "address_value a = Some (FWP_BYTE_ARRAY16 c) \<longleftrightarrow> is_addr6 c a"
  by (cases a; auto)+

lemma value_equal_link_local:
  "value_equal (FWP_V6_ADDR_MASK 0xfe800000000000000000000000000000 10) (address_value a) = link_local a"
  by (cases a) (simp_all add: mask_link_local)

lemmas address_defs = linkLocal_def linkLocalDHCPMulticast_def siteLocalDHCPMulticast_def linkLocalRouterMulticast_def
  value_equal_link_local address_value_simps

lemma hits_dhcp4: "ale_packet pkt \<Longrightarrow> hits pkt (permitDHCPIPv4_filters bo w) \<longleftrightarrow> is_dhcp4 pkt"
  by (erule ale_layers; simp add: permitDHCPIPv4_filters_def rule_defs is_dhcp4_def address_defs; blast)

lemma hits_dhcp6: "ale_packet pkt \<Longrightarrow> hits pkt (permitDHCPIPv6_filters bo w) \<longleftrightarrow> is_dhcp6 pkt"
  by (erule ale_layers; simp add: permitDHCPIPv6_filters_def rule_defs is_dhcp6_def address_defs; blast)

lemma hits_ndp: "ale_packet pkt \<Longrightarrow> hits pkt (permitNdp_filters bo w) \<longleftrightarrow> is_ndp pkt"
  by (erule ale_layers; simp add: permitNdp_filters_def ndp133_def ndp134_def ndp135_def ndp136_def ndp137_def icmpv6_def
      cFWPM_CONDITION_ICMP_TYPE_def cFWPM_CONDITION_ICMP_CODE_def rule_defs is_ndp_def address_defs; blast)

lemma hits_dns_deny: "ale_packet pkt \<Longrightarrow> hits pkt (blockDNS_deny bo w) \<longleftrightarrow> is_dns pkt"
  by (erule ale_layers; simp add: blockDNS_deny_def denyConditions_def rule_defs is_dns_def; blast)


fun same_address :: "Addr \<Rightarrow> Addr \<Rightarrow> bool" where
  "same_address (Addr4 a) (Addr4 b) = (a = b)"
| "same_address (Addr6 a _) (Addr6 b _) = (a = b)"
| "same_address _ _ = False"

definition to_dns_server :: "Addr list \<Rightarrow> packet \<Rightarrow> bool" where
  "to_dns_server dns pkt \<longleftrightarrow> list_ex (\<lambda>a. same_address a (pk_remote pkt)) dns"

lemma matches_deny_and:
  assumes "list_all (\<lambda>c. fieldKey c = cFWPM_CONDITION_IP_REMOTE_ADDRESS) xs" "filterCondition f = denyConditions @ xs"
  shows "filter_matches pkt f \<longleftrightarrow> layerKey f = pk_layer pkt \<and> is_dns pkt \<and> (xs \<noteq> [] \<longrightarrow> list_ex (condition_holds pkt) xs)"
proof -
  have k: "fieldKey c = cFWPM_CONDITION_IP_REMOTE_ADDRESS" if "c \<in> set xs" for c using assms(1) that by (simp add: list_all_iff)
  have dk: "fieldKey c \<noteq> cFWPM_CONDITION_IP_REMOTE_ADDRESS" if "c \<in> set denyConditions" for c
    using that by (auto simp: denyConditions_def equal_to_def)
  have ra: "(\<exists>c' \<in> set (denyConditions @ xs). fieldKey c' = cFWPM_CONDITION_IP_REMOTE_ADDRESS \<and> condition_holds pkt c') \<longleftrightarrow>
      (\<exists>c \<in> set xs. condition_holds pkt c)"
    unfolding set_append bex_Un using k dk by (metis (no_types, lifting))
  have other: "(\<exists>c' \<in> set (denyConditions @ xs). fieldKey c' = fieldKey c \<and> condition_holds pkt c') \<longleftrightarrow>
      (\<exists>c' \<in> set denyConditions. fieldKey c' = fieldKey c \<and> condition_holds pkt c')" if "c \<in> set denyConditions" for c
    unfolding set_append bex_Un using k dk [OF that] by (metis (no_types, lifting))
  have "(\<forall>c \<in> set denyConditions. \<exists>c' \<in> set (denyConditions @ xs). fieldKey c' = fieldKey c \<and> condition_holds pkt c') \<longleftrightarrow>
      (\<forall>c \<in> set denyConditions. \<exists>c' \<in> set denyConditions. fieldKey c' = fieldKey c \<and> condition_holds pkt c')"
    using other by (simp cong: ball_cong)
  also have "\<dots> \<longleftrightarrow> is_dns pkt"
    by (simp add: denyConditions_def equal_to_def is_dns_def condition_holds_def field_value_def)
  finally have deny: "(\<forall>c \<in> set denyConditions. \<exists>c' \<in> set (denyConditions @ xs). fieldKey c' = fieldKey c \<and> condition_holds pkt c') \<longleftrightarrow> is_dns pkt" .
  have "(\<forall>c \<in> set xs. \<exists>c' \<in> set (denyConditions @ xs). fieldKey c' = fieldKey c \<and> condition_holds pkt c') \<longleftrightarrow>
      (xs \<noteq> [] \<longrightarrow> (\<exists>c \<in> set xs. condition_holds pkt c))"
  proof -
    have "(\<forall>c \<in> set xs. \<exists>c' \<in> set (denyConditions @ xs). fieldKey c' = fieldKey c \<and> condition_holds pkt c') \<longleftrightarrow>
        (\<forall>c \<in> set xs. \<exists>c' \<in> set (denyConditions @ xs). fieldKey c' = cFWPM_CONDITION_IP_REMOTE_ADDRESS \<and> condition_holds pkt c')"
      by (intro ball_cong refl) (simp only: k)
    then show ?thesis unfolding ra by (cases "xs = []") auto
  qed
  with deny show ?thesis
    unfolding filter_matches_def assms(2) list_all_iff list_ex_iff set_append ball_Un by simp
qed

lemma allow_conditions:
  "list_all (\<lambda>c. fieldKey c = cFWPM_CONDITION_IP_REMOTE_ADDRESS) (concat (map allowV4 dns))"
  "list_all (\<lambda>c. fieldKey c = cFWPM_CONDITION_IP_REMOTE_ADDRESS) (concat (map allowV6 dns))"
  "list_ex (condition_holds pkt) (concat (map allowV4 dns)) \<longleftrightarrow> (\<exists>a. Addr4 a \<in> set dns \<and> pk_remote pkt = Addr4 a)"
  "list_ex (condition_holds pkt) (concat (map allowV6 dns)) \<longleftrightarrow> (\<exists>a z. Addr6 a z \<in> set dns \<and> is_addr6 a (pk_remote pkt))"
proof -
  show "list_all (\<lambda>c. fieldKey c = cFWPM_CONDITION_IP_REMOTE_ADDRESS) (concat (map allowV4 dns))"
    "list_all (\<lambda>c. fieldKey c = cFWPM_CONDITION_IP_REMOTE_ADDRESS) (concat (map allowV6 dns))"
    by (induction dns; simp; case_tac a; simp add: equal_to_def)+
  show "list_ex (condition_holds pkt) (concat (map allowV4 dns)) \<longleftrightarrow> (\<exists>a. Addr4 a \<in> set dns \<and> pk_remote pkt = Addr4 a)"
    by (induction dns; simp; case_tac a; auto simp: equal_to_def condition_holds_def field_value_def address_value_simps)
  show "list_ex (condition_holds pkt) (concat (map allowV6 dns)) \<longleftrightarrow> (\<exists>a z. Addr6 a z \<in> set dns \<and> is_addr6 a (pk_remote pkt))"
    by (induction dns; simp; case_tac a; auto simp: equal_to_def condition_holds_def field_value_def address_value_simps)
qed

lemma to_dns_server_cases:
  "pk_remote pkt = Addr4 b \<Longrightarrow> to_dns_server dns pkt \<longleftrightarrow> Addr4 b \<in> set dns"
  "pk_remote pkt = Addr6 c z \<Longrightarrow> to_dns_server dns pkt \<longleftrightarrow> (\<exists>z. Addr6 c z \<in> set dns)"
proof -
  have "same_address a (Addr4 b) \<longleftrightarrow> a = Addr4 b" "same_address a (Addr6 c z) \<longleftrightarrow> (\<exists>z. a = Addr6 c z)" for a b c z
    by (cases a; auto)+
  then show "pk_remote pkt = Addr4 b \<Longrightarrow> to_dns_server dns pkt \<longleftrightarrow> Addr4 b \<in> set dns"
    "pk_remote pkt = Addr6 c z \<Longrightarrow> to_dns_server dns pkt \<longleftrightarrow> (\<exists>z. Addr6 c z \<in> set dns)"
    by (auto simp: to_dns_server_def list_ex_iff)
qed

lemma hits_dns_allow:
  assumes "ale_packet pkt"
  shows "hits pkt (blockDNS_allow dns bo w) \<longleftrightarrow> is_dns pkt \<and> to_dns_server dns pkt"
proof -
  have ne: "length denyConditions < length (allowConditionsV4 dns) \<longleftrightarrow> concat (map allowV4 dns) \<noteq> []"
    "length denyConditions < length (allowConditionsV6 dns) \<longleftrightarrow> concat (map allowV6 dns) \<noteq> []"
    by (simp_all add: allowConditionsV4_def allowConditionsV6_def)
  have m: "filter_matches pkt f \<longleftrightarrow> layerKey f = pk_layer pkt \<and> is_dns pkt \<and> (\<exists>a. Addr4 a \<in> set dns \<and> pk_remote pkt = Addr4 a)"
    if "filterCondition f = allowConditionsV4 dns" "concat (map allowV4 dns) \<noteq> []" for f
    using matches_deny_and [OF allow_conditions(1), of f dns pkt] that by (simp only: allowConditionsV4_def allow_conditions) simp
  have m6: "filter_matches pkt f \<longleftrightarrow> layerKey f = pk_layer pkt \<and> is_dns pkt \<and> (\<exists>a z. Addr6 a z \<in> set dns \<and> is_addr6 a (pk_remote pkt))"
    if "filterCondition f = allowConditionsV6 dns" "concat (map allowV6 dns) \<noteq> []" for f
    using matches_deny_and [OF allow_conditions(2), of f dns pkt] that by (simp only: allowConditionsV6_def allow_conditions) simp
  have e4: "concat (map allowV4 dns) = [] \<longleftrightarrow> (\<forall>a. Addr4 a \<notin> set dns)" by (induction dns; simp; case_tac a; auto)
  have e6: "concat (map allowV6 dns) = [] \<longleftrightarrow> (\<forall>a z. Addr6 a z \<notin> set dns)" by (induction dns; simp; case_tac a; auto)
  show ?thesis
  proof (cases "pk_remote pkt")
    case (Addr4 b)
    with assms show ?thesis
      unfolding blockDNS_allow_def Let_def ne
      by (auto simp: hits_def ale_packet_def to_dns_server_cases(1) [OF Addr4] m m6 e4 e6 new_filter_def simp del: concat_eq_Nil_conv)
  next
    case (Addr6 c z)
    with assms show ?thesis
      unfolding blockDNS_allow_def Let_def ne
      by (auto simp: hits_def ale_packet_def to_dns_server_cases(2) [OF Addr6] m m6 e4 e6 new_filter_def simp del: concat_eq_Nil_conv)
  qed (use assms in \<open>simp add: ale_packet_def\<close>)
qed


section \<open>The verdict\<close>

lemma hits_append: "hits pkt (a @ b) \<longleftrightarrow> hits pkt a \<or> hits pkt b" "\<not> hits pkt []"
  by (simp_all add: hits_def)

lemma uniform_rules:
  "uniform (w, FWP_ACTION_PERMIT, permitWireGuardService_filters bo w appID sd)"
  "uniform (w, FWP_ACTION_BLOCK, blockDNS_deny bo w)"
  "uniform (w, FWP_ACTION_PERMIT, blockDNS_allow dns bo w)"
  "uniform (w, FWP_ACTION_PERMIT, permitLoopback_filters bo w)"
  "uniform (w, FWP_ACTION_PERMIT, permitTunInterface_filters bo w luid @ permitDHCPIPv4_filters bo w @
     permitDHCPIPv6_filters bo w @ permitNdp_filters bo w)"
  "uniform (w, FWP_ACTION_BLOCK, blockAll_filters bo w)"
  by (simp_all add: uniform_def permitWireGuardService_filters_def blockDNS_deny_def blockDNS_allow_def permitLoopback_filters_def
      permitTunInterface_filters_def permitDHCPIPv4_filters_def permitDHCPIPv6_filters_def permitNdp_filters_def
      ndp133_def ndp134_def ndp135_def ndp136_def ndp137_def blockAll_filters_def new_filter_def Let_def)

definition permitted :: "bytes \<Rightarrow> SID \<Rightarrow> u64 \<Rightarrow> Addr list \<Rightarrow> packet \<Rightarrow> bool" where
  "permitted appID sd luid dns pkt \<longleftrightarrow>
     pk_app pkt = appID \<and> sd \<in> set (pk_sids pkt) \<or>
     (if dns \<noteq> [] \<and> is_dns pkt then to_dns_server dns pkt
      else and (pk_flags pkt) 1 = 1 \<or> pk_luid pkt = luid \<or> is_dhcp4 pkt \<or> is_dhcp6 pkt \<or> is_ndp pkt)"

lemma weights: "(14 :: u8) \<le> 15" "(13 :: u8) \<le> 15" "(12 :: u8) \<le> 15" "(13 :: u8) \<le> 14" "(12 :: u8) \<le> 14" "(12 :: u8) \<le> 13"
  "\<not> (15 :: u8) \<le> 14" "\<not> (15 :: u8) \<le> 13" "\<not> (15 :: u8) \<le> 12" "\<not> (14 :: u8) \<le> 13" "\<not> (14 :: u8) \<le> 12" "\<not> (13 :: u8) \<le> 12"
  "\<not> (15 :: u8) \<le> 0" "\<not> (14 :: u8) \<le> 0" "\<not> (13 :: u8) \<le> 0" "\<not> (12 :: u8) \<le> 0"
  by simp_all

lemma weighted_groups:
  assumes "hits pkt g3 \<Longrightarrow> hits pkt g2" "hits pkt g6"
  shows "(let hs = filter (\<lambda>g. hits pkt (snd (snd g))) [(15 :: u8, P, g1), (14, B, g2), (15, P, g3), (13, P, g4), (12, P, g5), (0, B, g6)]
     in (fst \<circ> snd) ` {g \<in> set hs. \<forall>g' \<in> set hs. fst g' \<le> fst g}) =
    {if hits pkt g1 \<or> (if hits pkt g2 then hits pkt g3 else hits pkt g4 \<or> hits pkt g5) then P else B}"
proof -
  have c: "{g. (g = a \<or> Q g) \<and> R g} = (if R a then insert a {g. Q g \<and> R g} else {g. Q g \<and> R g})"
    "{g. g = a \<and> R g} = (if R a then {a} else {})" for a :: "u8 \<times> 'b \<times> wtFwpmFilter0 list" and Q R by auto
  show ?thesis
    using assms by (cases "hits pkt g1"; cases "hits pkt g2"; cases "hits pkt g3"; cases "hits pkt g4"; cases "hits pkt g5")
      (simp_all add: c weights Let_def)
qed

lemma restricted_verdict:
  assumes "ale_packet pkt"
  shows "verdicts (firewall_filters bo appID sd luid False dns) pkt =
    {if permitted appID sd luid dns pkt then FWP_ACTION_PERMIT else FWP_ACTION_BLOCK}"
proof -
  let ?svc = "permitWireGuardService_filters bo 15 appID sd" and ?deny = "if dns \<noteq> [] then blockDNS_deny bo 14 else []"
    and ?allow = "if dns \<noteq> [] then blockDNS_allow dns bo 15 else []" and ?loop = "permitLoopback_filters bo 13"
    and ?net = "permitTunInterface_filters bo 12 luid @ permitDHCPIPv4_filters bo 12 @ permitDHCPIPv6_filters bo 12 @ permitNdp_filters bo 12"
    and ?all = "blockAll_filters bo 0"
  define gs where "gs = [(15 :: u8, FWP_ACTION_PERMIT, ?svc), (14, FWP_ACTION_BLOCK, ?deny), (15, FWP_ACTION_PERMIT, ?allow),
      (13, FWP_ACTION_PERMIT, ?loop), (12, FWP_ACTION_PERMIT, ?net), (0, FWP_ACTION_BLOCK, ?all)]"
  have fs: "firewall_filters bo appID sd luid False dns = concat (map (snd \<circ> snd) gs)"
    by (simp add: firewall_filters_def gs_def blockDNS_filters_def)
  have "uniform (w, a, [])" for w a by (simp add: uniform_def)
  then have "list_all uniform gs" unfolding gs_def by (simp add: uniform_rules)
  note v = verdicts_groups [OF this, of pkt, folded fs]
  have h: "hits pkt ?svc \<longleftrightarrow> pk_app pkt = appID \<and> sd \<in> set (pk_sids pkt)" "hits pkt ?deny \<longleftrightarrow> dns \<noteq> [] \<and> is_dns pkt"
    "hits pkt ?allow \<longleftrightarrow> dns \<noteq> [] \<and> is_dns pkt \<and> to_dns_server dns pkt" "hits pkt ?loop \<longleftrightarrow> and (pk_flags pkt) 1 = 1"
    "hits pkt ?net \<longleftrightarrow> pk_luid pkt = luid \<or> is_dhcp4 pkt \<or> is_dhcp6 pkt \<or> is_ndp pkt" "hits pkt ?all"
    using assms by (simp_all add: hits_service hits_dns_deny hits_dns_allow hits_loopback hits_append hits_tun hits_dhcp4 hits_dhcp6
        hits_ndp hits_blockAll)
  have "hits pkt ?deny" if "hits pkt ?allow" using that unfolding h by blast
  then have "verdicts (firewall_filters bo appID sd luid False dns) pkt =
      {if hits pkt ?svc \<or> (if hits pkt ?deny then hits pkt ?allow else hits pkt ?loop \<or> hits pkt ?net)
       then FWP_ACTION_PERMIT else FWP_ACTION_BLOCK}"
    unfolding v gs_def by (rule weighted_groups [OF _ h(6)])
  also have "hits pkt ?svc \<or> (if hits pkt ?deny then hits pkt ?allow else hits pkt ?loop \<or> hits pkt ?net) \<longleftrightarrow>
      permitted appID sd luid dns pkt"
    unfolding h permitted_def by argo
  finally show ?thesis .
qed


lemma unrestricted_verdict:
  assumes "ale_packet pkt"
  shows "verdicts (firewall_filters bo appID sd luid True dns) pkt =
    (if pk_app pkt = appID \<and> sd \<in> set (pk_sids pkt) then {FWP_ACTION_PERMIT} else {})"
  using verdicts_groups [of "[(15, FWP_ACTION_PERMIT, permitWireGuardService_filters bo 15 appID sd)]" pkt]
    hits_service [OF assms, of bo 15 appID sd]
  by (auto simp: firewall_filters_def uniform_rules Let_def)

text \<open>C2. The kill switch: with the restricting filters in place, every packet at the connection layers gets
  exactly one decision. It is permitted when it belongs to the tunnel service itself; otherwise
  DNS traffic is permitted to the configured servers only, even over loopback or the tunnel,
  and any other packet only on loopback, on the tunnel's interface, or as DHCP or neighbour
  discovery. Everything else is blocked.\<close>

theorem firewall_kill_switch:
  assumes "ale_packet pkt"
  shows "verdicts (firewall_filters bo appID sd luid False dns) pkt =
    {if pk_app pkt = appID \<and> sd \<in> set (pk_sids pkt) \<or>
        (if dns \<noteq> [] \<and> is_dns pkt then to_dns_server dns pkt
         else and (pk_flags pkt) 1 = 1 \<or> pk_luid pkt = luid \<or> is_dhcp4 pkt \<or> is_dhcp6 pkt \<or> is_ndp pkt)
     then FWP_ACTION_PERMIT else FWP_ACTION_BLOCK}"
  using restricted_verdict [OF assms] by (simp only: permitted_def)

text \<open>A TLS connection of a browser over the physical interface.\<close>

definition sample_packet :: packet where
  "sample_packet = \<lparr>pk_layer = cFWPM_LAYER_ALE_AUTH_CONNECT_V4, pk_luid = 6, pk_protocol = 6, pk_local = Addr4 0xc0a80002,
     pk_local_port = 50000, pk_remote = Addr4 0x08080808, pk_remote_port = 443, pk_flags = 0, pk_app = ''browser.exe'', pk_sids = []\<rparr>"

lemma sample_packet_ale: "ale_packet sample_packet"
  by (simp add: ale_packet_def sample_packet_def)

theorem firewall_kill_switch_witness:
  "verdicts (firewall_filters \<lparr>provider = new_guid, filters = new_guid\<rparr> ''wireguard.exe'' [80] 7 False [Addr4 0x01010101]) sample_packet = {FWP_ACTION_BLOCK}"
  unfolding firewall_kill_switch [OF sample_packet_ale]
  by (simp add: sample_packet_def is_dns_def is_dhcp4_def is_dhcp6_def is_ndp_def)

end
