(* ===== verification/AddressConfig.thy ===== *)
theory AddressConfig
  imports WinIPCfg FirewallVerdict ConfReload
begin

text \<open>
  Setting up the network interface of a tunnel (tunnel/addressconfig.go): routes, addresses, metric, MTU and DNS
  of one address family, with the retries at boot, and the decision whether the firewall restricts
  traffic. The order in which Go ranges over a map is the parameter \<open>order\<close>. Logging and the
  pause between two tries are left out.
\<close>

section \<open>Stale addresses\<close>

definition AddrFromSlice :: "bytes \<Rightarrow> Addr" where
  "AddrFromSlice bs =
     (if length bs = 4 then Addr4 (of_nat (be_nat bs)) else if length bs = 16 then Addr6 (of_nat (be_nat bs)) [] else AddrInvalid)"

definition cleanupAddress :: "'s netio \<Rightarrow> Prefix list \<Rightarrow> u64 \<Rightarrow> bytes \<times> u8 \<Rightarrow> 's \<Rightarrow> 's" where
  "cleanupAddress N addresses luid address s =
     (let ip = AddrFromSlice (fst address) in
      if ip \<in> set (map prefix_addr addresses)
      then snd (DeleteIPAddress N luid (netip_PrefixFrom ip (uint (snd address))) s) else s)"

definition cleanupInterface :: "'s netio \<Rightarrow> Prefix list \<Rightarrow> IPAdapterAddresses \<Rightarrow> 's \<Rightarrow> 's" where
  "cleanupInterface N addresses iface s =
     (if aa_OperStatus iface = IfOperStatusUp then s else fold (cleanupAddress N addresses (aa_LUID iface)) (aa_Unicast iface) s)"

definition cleanupAddressesOnDisconnectedInterfaces :: "'s netio \<Rightarrow> u16 \<Rightarrow> Prefix list \<Rightarrow> 's \<Rightarrow> 's" where
  "cleanupAddressesOnDisconnectedInterfaces N family addresses s =
     (if addresses = [] then s
      else case GetAdaptersAddresses N family s of
             (Inl _, s) \<Rightarrow> s
           | (Inr interfaces, s) \<Rightarrow> fold (cleanupInterface N addresses) interfaces s)"

section \<open>One try\<close>

definition allowedRoute :: "Prefix \<Rightarrow> RouteData" where
  "allowedRoute allowedip =
     \<lparr>Destination = prefix_Masked allowedip,
      NextHop = (if addr_Is4 (prefix_addr allowedip) then Addr4 0 else if addr_Is6 (prefix_addr allowedip) then Addr6 0 [] else AddrInvalid),
      Metric = 0\<rparr>"

definition allAllowedIPs :: "Config \<Rightarrow> Prefix list" where
  "allAllowedIPs conf = concat (map AllowedIPs (Peers conf))"

definition deduplicatedRoutes :: "(RouteData list \<Rightarrow> RouteData list) \<Rightarrow> Config \<Rightarrow> RouteData list" where
  "deduplicatedRoutes order conf = order (remdups (map allowedRoute (allAllowedIPs conf)))"

text \<open>\<open>found family as\<close>: one of the flags \<open>foundRoute4\<close>, \<open>foundRoute6\<close>, \<open>foundAddress4\<close>, \<open>foundAddress6\<close> that the test against the family
  selects; \<open>foundDefault\<close> likewise.\<close>

definition found :: "u16 \<Rightarrow> Prefix list \<Rightarrow> bool" where
  "found family ps \<longleftrightarrow>
     list_ex (\<lambda>p. addr_Is4 (prefix_addr p)) ps \<and> family = AF_INET \<or> list_ex (\<lambda>p. addr_Is6 (prefix_addr p)) ps \<and> family = AF_INET6"

definition foundDefault :: "u16 \<Rightarrow> Prefix list \<Rightarrow> bool" where
  "foundDefault family ps \<longleftrightarrow>
     family = AF_INET \<and> list_ex (\<lambda>p. addr_Is4 (prefix_addr p) \<and> prefix_bits p = 0) ps \<or>
     family = AF_INET6 \<and> list_ex (\<lambda>p. addr_Is6 (prefix_addr p) \<and> prefix_bits p = 0) ps"

text \<open>How a try ends early: \<open>goto startOver\<close> or \<open>return err\<close>.\<close>

datatype exit = StartOver | Return go_error

definition orRetry :: "bool \<Rightarrow> string \<Rightarrow> ('s, 'a) prog \<Rightarrow> ('s, exit, 'a) eprog" where
  "orRetry retryOnFailure what = pcatch (\<lambda>err. if err = ERROR_NOT_FOUND \<and> retryOnFailure then StartOver else Return (Wrapped what err))"

definition setAddresses :: "'s netio \<Rightarrow> u16 \<Rightarrow> Prefix list \<Rightarrow> u64 \<Rightarrow> ('s, unit) prog" where
  "setAddresses N family addresses luid s =
     (case SetIPAddressesForFamily N luid family addresses s of
        (Inr _, s) \<Rightarrow> (Inr (), s)
      | (Inl err, s) \<Rightarrow>
          if err = ERROR_OBJECT_ALREADY_EXISTS
          then SetIPAddressesForFamily N luid family addresses (cleanupAddressesOnDisconnectedInterfaces N family addresses s)
          else (Inl err, s))"

definition interfaceSettings :: "u16 \<Rightarrow> Config \<Rightarrow> MibIPInterfaceRow \<Rightarrow> MibIPInterfaceRow" where
  "interfaceSettings family conf ipif =
     (let ipif = ipif\<lparr>ip_RouterDiscoveryBehavior := RouterDiscoveryDisabled, ip_DadTransmits := 0,
            ip_ManagedAddressConfigurationSupported := False, ip_OtherStatefulConfigurationSupported := False\<rparr>;
          ipif = (if 0 < MTU (cInterface conf) \<and> (found family (Addresses (cInterface conf)) \<or> found family (allAllowedIPs conf))
                  then ipif\<lparr>ip_NLMTU := ucast (MTU (cInterface conf))\<rparr> else ipif)
      in if foundDefault family (allAllowedIPs conf) then ipif\<lparr>ip_UseAutomaticMetric := False, ip_Metric := 0\<rparr> else ipif)"

definition configureOnce :: "'s netio \<Rightarrow> (RouteData list \<Rightarrow> RouteData list) \<Rightarrow> u16 \<Rightarrow> Config \<Rightarrow> u64 \<Rightarrow> bool \<Rightarrow> ('s, exit, unit) eprog" where
  "configureOnce N order family conf luid retryOnFailure =
     (let i = cInterface conf in
      pbind (pwhen (\<not> TableOff i \<and> found family (allAllowedIPs conf))
        (orRetry retryOnFailure ''unable to set routes'' (SetRoutesForFamily N luid family (deduplicatedRoutes order conf)))) (\<lambda>_.
      pbind (pwhen (found family (Addresses i))
        (orRetry retryOnFailure ''unable to set ips'' (setAddresses N family (Addresses i) luid))) (\<lambda>_.
      pbind (pcatch Return (IPInterface N luid family)) (\<lambda>ipif.
      pbind (orRetry retryOnFailure ''unable to set metric and MTU'' (setIPInterfaceEntry N (interfaceSettings family conf ipif))) (\<lambda>_.
        orRetry retryOnFailure ''unable to set DNS'' (SetDNS N luid family (DNS i) (DNSSearch i)))))))"

section \<open>The retries\<close>

lemma pbind_StartOver:
  "pbind m f s = (Inl StartOver, s') \<Longrightarrow> m s = (Inl StartOver, s') \<or> (\<exists>x s1. f x s1 = (Inl StartOver, s'))"
  by (auto simp: pbind_def split: prod.splits sum.splits)

lemma orRetry_StartOver: "orRetry False what m s \<noteq> (Inl StartOver, s')"
  by (auto simp: orRetry_def pcatch_def split: prod.splits sum.splits)

lemma configureOnce_StartOver: "configureOnce N order family conf luid False s \<noteq> (Inl StartOver, s')"
  by (auto simp: configureOnce_def Let_def pwhen_def preturn_def orRetry_StartOver pcatch_def dest!: pbind_StartOver
      split: if_splits prod.splits sum.splits)

lemma configureOnce_retry: "(Inl StartOver, s') = configureOnce N order family conf luid retry s \<Longrightarrow> retry"
  using configureOnce_StartOver [of N order family conf luid s s'] by (cases retry) auto

function configureLoop :: "'s netio \<Rightarrow> (RouteData list \<Rightarrow> RouteData list) \<Rightarrow> u16 \<Rightarrow> Config \<Rightarrow> u64 \<Rightarrow> bool \<Rightarrow> nat \<Rightarrow> ('s, unit) prog" where
  "configureLoop N order family conf luid retryOnFailure tryTimes s =
     (let retryOnFailure = (if 0 < tryTimes then retryOnFailure \<and> tryTimes < 15 else retryOnFailure) in
      case configureOnce N order family conf luid retryOnFailure s of
        (Inr _, s) \<Rightarrow> (Inr (), s)
      | (Inl (Return err), s) \<Rightarrow> (Inl err, s)
      | (Inl StartOver, s) \<Rightarrow> configureLoop N order family conf luid retryOnFailure (tryTimes + 1) s)"
  by pat_completeness auto
termination
  by (relation "measure (\<lambda>(N, order, family, conf, luid, retry, tryTimes, s). 15 - tryTimes)")
    (auto split: if_splits dest!: configureOnce_retry)

declare configureLoop.simps [simp del]

definition configureInterface :: "'s netio \<Rightarrow> (RouteData list \<Rightarrow> RouteData list) \<Rightarrow> bool \<Rightarrow> u16 \<Rightarrow> Config \<Rightarrow> u64 \<Rightarrow> ('s, unit) prog" where
  "configureInterface N order startedAtBoot family conf luid = configureLoop N order family conf luid startedAtBoot 0"

section \<open>The firewall\<close>

definition doNotRestrict :: "Config \<Rightarrow> bool" where
  "doNotRestrict conf \<longleftrightarrow>
     \<not> (length (Peers conf) = 1 \<and> \<not> TableOff (cInterface conf) \<and>
        list_ex (\<lambda>allowedip. prefix_bits allowedip = 0 \<and> allowedip = prefix_Masked allowedip) (AllowedIPs (Peers conf ! 0)))"

definition enableFirewall :: "'s wfp \<Rightarrow> Config \<Rightarrow> u64 \<Rightarrow> nat \<times> 's \<Rightarrow> go_error option \<times> nat \<times> 's" where
  "enableFirewall W conf luid st = EnableFirewall W luid (doNotRestrict conf) (DNS (cInterface conf)) st"

section \<open>Programs that respect an order on views\<close>

text \<open>
  What a program may change, on every path including its errors, is a reflexive and transitive relation
  between the views before and after; the rules of the locale follow the structure of the
  program. \<open>address_order\<close> is such a relation that allows to change the addresses of one interface and to delete
  the addresses \<open>as\<close> anywhere: what \<open>setAddresses\<close> does.
\<close>

definition obeys :: "(netview \<Rightarrow> netview \<Rightarrow> bool) \<Rightarrow> ('s \<Rightarrow> netview) \<Rightarrow> ('s, 'e, 'a) eprog \<Rightarrow> bool" where
  "obeys R view m \<longleftrightarrow> (\<forall>s. R (view s) (view (snd (m s))))"

lemma obeysD: "obeys R view m \<Longrightarrow> m s = (r, s') \<Longrightarrow> R (view s) (view s')"
  by (metis obeys_def snd_conv)

lemma adaptersLoop_view:
  assumes "\<And>sz. keeps view (sysGetAdaptersAddresses N family sz)"
  shows "view (snd (adaptersLoop N family sz s)) = view s"
  using assms
proof (induction N family sz s rule: adaptersLoop.induct)
  case (1 N family sz s)
  obtain r s1 where g: "sysGetAdaptersAddresses N family sz s = (r, s1)" by fastforce
  have v: "view s1 = view s" using keepsD [OF 1(2) g] .
  show ?case
  proof (cases r)
    case (Inl e)
    obtain err size' where e: "e = (err, size')" by fastforce
    show ?thesis
    proof (cases "err \<noteq> ERROR_BUFFER_OVERFLOW \<or> size' \<le> sz")
      case True
      then show ?thesis using g Inl e v by (simp add: adaptersLoop.simps)
    next
      case False
      then have "view (snd (adaptersLoop N family size' s1)) = view s1" using 1 g Inl e by simp
      then show ?thesis using g Inl e v False by (simp add: adaptersLoop.simps [of _ _ sz])
    qed
  qed (use g v in \<open>simp add: adaptersLoop.simps\<close>)
qed

lemma keeps_GetAdaptersAddresses: "address_laws N view \<Longrightarrow> keeps view (GetAdaptersAddresses N family)"
  by (simp add: keeps_def GetAdaptersAddresses_def adaptersLoop_view address_laws_def)

lemma scoped_AddrFromSlice: "scoped (prefix_addr (netip_PrefixFrom (AddrFromSlice bs) n)) = AddrFromSlice bs"
  by (simp add: AddrFromSlice_def netip_PrefixFrom_def scoped_no_zone)

locale view_order =
  fixes R :: "netview \<Rightarrow> netview \<Rightarrow> bool"
  assumes order_refl: "R v v" and order_trans: "R v v' \<Longrightarrow> R v' v'' \<Longrightarrow> R v v''"
begin

lemma r_keeps: "keeps view m \<Longrightarrow> obeys R view m"
  by (simp add: obeys_def keeps_def order_refl)

lemma r_updates: "updates view m f \<Longrightarrow> (\<And>v. R v (f v)) \<Longrightarrow> obeys R view m"
  by (simp add: obeys_def updates_cases order_refl split: sum.split)

lemma r_return: "obeys R view (preturn x)"
  by (simp add: obeys_def preturn_def order_refl)

lemma r_fail: "obeys R view (pfail x)"
  by (simp add: obeys_def pfail_def order_refl)

lemma r_lift: "obeys R view (plift x)"
  by (simp add: obeys_def plift_def order_refl)

lemma r_bind_result:
  assumes "obeys R view m" "\<And>s x s1. m s = (Inr x, s1) \<Longrightarrow> obeys R view (f x)"
  shows "obeys R view (pbind m f)"
  unfolding obeys_def
proof
  fix s
  obtain r s1 where m: "m s = (r, s1)" by fastforce
  have 1: "R (view s) (view s1)" using obeysD [OF assms(1) m] .
  show "R (view s) (view (snd (pbind m f s)))"
  proof (cases r)
    case (Inr x)
    have "R (view s1) (view (snd (f x s1)))" using assms(2) [OF m [unfolded Inr]] by (simp add: obeys_def)
    with 1 Inr m show ?thesis by (simp add: pbind_def order_trans)
  qed (use 1 m in \<open>simp add: pbind_def\<close>)
qed

lemma r_bind: "obeys R view m \<Longrightarrow> (\<And>x. obeys R view (f x)) \<Longrightarrow> obeys R view (pbind m f)"
  by (rule r_bind_result)

lemma r_catch: "obeys R view m \<Longrightarrow> obeys R view (pcatch h m)"
  by (simp add: obeys_def pcatch_def split: prod.split sum.split) (metis snd_conv)

lemma r_when: "obeys R view m \<Longrightarrow> obeys R view (pwhen b m)"
  by (simp add: pwhen_def r_return)

lemma r_if: "obeys R view m \<Longrightarrow> obeys R view m' \<Longrightarrow> obeys R view (if b then m else m')"
  by simp

lemma r_each: "(\<And>x. obeys R view (f x)) \<Longrightarrow> obeys R view (peach f xs)"
  by (induction xs) (simp_all add: r_return r_bind)

lemmas r_rules = r_return r_fail r_lift r_bind r_catch r_when r_if r_each

lemma r_tables:
  "route_laws N view \<Longrightarrow> obeys R view (getIPForwardTable2 N family)"
  "address_laws N view \<Longrightarrow> obeys R view (getUnicastIPAddressTable N family)"
  "interface_laws N view guid_of \<Longrightarrow> obeys R view (getIPInterfaceEntry N r)"
  "interface_laws N view guid_of \<Longrightarrow> obeys R view (convertInterfaceLUIDToGUID N luid)"
  "interface_laws N view guid_of \<Longrightarrow> obeys R view (registry_CreateKey N p)"
  by (auto simp: route_laws_def address_laws_def interface_laws_def intro: r_keeps)

lemma r_fold: "(\<And>x s. R (view s) (view (f x s))) \<Longrightarrow> R (view s) (view (fold f xs s))"
  by (induction xs arbitrary: s) (auto intro: order_refl order_trans)

end

locale address_order = view_order +
  fixes luid :: u64 and as :: "Addr set"
  assumes add_own: "R v (v_addrs_update (insert (luid, y)) v)"
    and delete_some: "(\<And>e. k e = (k0 :: u64 \<times> Addr) \<Longrightarrow> fst e = luid \<or> fst (snd e) \<in> as) \<Longrightarrow>
      R v (v_addrs_update (\<lambda>A. {e \<in> A. k e \<noteq> k0}) v)"
begin

lemma r_AddIPAddress: "address_laws N view \<Longrightarrow> obeys R view (AddIPAddress N luid p)"
  by (rule r_updates [OF AddIPAddress_updates]) (simp_all add: add_own)

lemma r_deleteAddresses: "address_laws N view \<Longrightarrow> obeys R view (deleteAddresses N luid t)"
proof (induction t)
  case (Cons r t)
  have "obeys R view (deleteUnicastIPAddressEntry N r)" if "ua_InterfaceLUID r = luid"
    by (rule r_updates [OF delete_address [OF Cons.prems refl] delete_some]) (auto simp: addr_entry_def that)
  then show ?case
    using Cons unfolding obeys_def by (auto intro: order_trans)
qed (simp add: obeys_def order_refl)

lemma r_SetIPAddressesForFamily: "address_laws N view \<Longrightarrow> obeys R view (SetIPAddressesForFamily N luid family ps)"
  unfolding SetIPAddressesForFamily_def FlushIPAddresses_def
  by (intro r_rules r_tables r_deleteAddresses r_AddIPAddress)

lemma r_cleanup:
  assumes "address_laws N view" "as = prefix_addr ` set ps"
  shows "R (view s) (view (cleanupAddressesOnDisconnectedInterfaces N family ps s))"
proof -
  have "obeys R view (DeleteIPAddress N l (netip_PrefixFrom (AddrFromSlice bs) n))" if "AddrFromSlice bs \<in> as" for l bs n
    by (rule r_updates [OF DeleteIPAddress_updates [OF assms(1)] delete_some]) (use that in \<open>auto simp: scoped_AddrFromSlice\<close>)
  then have "R (view s) (view (cleanupAddress N ps l a s))" for l a s
    by (simp add: cleanupAddress_def Let_def obeys_def order_refl assms(2))
  then have "R (view s) (view (cleanupInterface N ps i s))" for i s
    by (simp add: cleanupInterface_def r_fold order_refl)
  then have 3: "R (view s) (view (fold (cleanupInterface N ps) ifs s))" for ifs s by (rule r_fold)
  obtain r s1 where g: "GetAdaptersAddresses N family s = (r, s1)" by fastforce
  then have "view s1 = view s" using keepsD [OF keeps_GetAdaptersAddresses [OF assms(1)]] by blast
  with 3 [of s1] g show ?thesis by (simp add: cleanupAddressesOnDisconnectedInterfaces_def order_refl split: sum.split)
qed

lemma r_setAddresses:
  assumes "address_laws N view" "as = prefix_addr ` set ps"
  shows "obeys R view (setAddresses N family ps luid)"
  unfolding obeys_def
proof
  fix s
  note a = r_SetIPAddressesForFamily [OF assms(1), unfolded obeys_def, rule_format]
  obtain r s1 where g: "SetIPAddressesForFamily N luid family ps s = (r, s1)" by fastforce
  have "R (view s) (view s1)" using a [of s family ps] g by simp
  then show "R (view s) (view (snd (setAddresses N family ps luid s)))"
    using g a [of "cleanupAddressesOnDisconnectedInterfaces N family ps s1" family ps] r_cleanup [OF assms, of s1 family]
    by (auto simp: setAddresses_def split: sum.split intro: order_trans)
qed

end

text \<open>Nothing but addresses changes.\<close>

definition only_addresses :: "netview \<Rightarrow> netview \<Rightarrow> bool" where
  "only_addresses v v' \<longleftrightarrow> v_addrs_update (\<lambda>_. {}) v' = v_addrs_update (\<lambda>_. {}) v"

interpretation adr: address_order only_addresses luid as for luid as
  by unfold_locales (simp_all add: only_addresses_def)

section \<open>Other interfaces are left alone\<close>

text \<open>
  \<open>isolated luid as v v'\<close>: from \<open>v\<close> to \<open>v'\<close> no route and no setting of another interface changed, no other
  interface got an address, and one lost an address only if it is among \<open>as\<close>.
\<close>

definition isolated :: "u64 \<Rightarrow> Addr set \<Rightarrow> netview \<Rightarrow> netview \<Rightarrow> bool" where
  "isolated luid as v v' \<longleftrightarrow>
     (\<forall>e. fst e \<noteq> luid \<longrightarrow> (e \<in> v_routes v' \<longleftrightarrow> e \<in> v_routes v)) \<and>
     (\<forall>e. fst e \<noteq> luid \<longrightarrow> e \<in> v_addrs v' \<longrightarrow> e \<in> v_addrs v) \<and>
     (\<forall>e. fst e \<noteq> luid \<longrightarrow> fst (snd e) \<notin> as \<longrightarrow> e \<in> v_addrs v \<longrightarrow> e \<in> v_addrs v') \<and>
     (\<forall>l f. l \<noteq> luid \<longrightarrow> v_ipif v' (l, f) = v_ipif v (l, f))"

lemma isolated_refl [simp]: "isolated luid as v v"
  by (simp add: isolated_def)

lemma isolated_trans: "isolated luid as v v' \<Longrightarrow> isolated luid as v' v'' \<Longrightarrow> isolated luid as v v''"
  unfolding isolated_def by (elim conjE, intro conjI) (blast, blast, blast, metis)

lemma isolated_steps:
  "isolated luid as v (v_routes_update (insert (luid, x)) v)"
  "isolated luid as v (v_addrs_update (insert (luid, y)) v)"
  "(\<And>e. k e = k0 \<Longrightarrow> fst e = luid) \<Longrightarrow> isolated luid as v (v_routes_update (\<lambda>A. {e \<in> A. k e \<noteq> k0}) v)"
  "(\<And>e. k' e = k0' \<Longrightarrow> fst e = luid \<or> fst (snd e) \<in> as) \<Longrightarrow> isolated luid as v (v_addrs_update (\<lambda>A. {e \<in> A. k' e \<noteq> k0'}) v)"
  "isolated luid as v (v_ipif_update (\<lambda>m. m((luid, f) := r)) v)"
  "isolated luid as v (v_dns_update d v)"
  "isolated luid as v (v_reg_update g v)"
  by (auto simp: isolated_def) (metis fst_conv snd_conv)+

interpretation iso: address_order "isolated luid as" luid as for luid as
  by unfold_locales (use isolated_trans in \<open>blast intro: isolated_refl isolated_steps\<close>)+

abbreviation isolates :: "('s \<Rightarrow> netview) \<Rightarrow> u64 \<Rightarrow> Addr set \<Rightarrow> ('s, 'e, 'a) eprog \<Rightarrow> bool" where
  "isolates view luid as m \<equiv> obeys (isolated luid as) view m"

lemma isolates_AddRoute: "route_laws N view \<Longrightarrow> isolates view luid as (AddRoute N luid d h m)"
  by (rule iso.r_updates [OF AddRoute_updates]) (simp_all add: isolated_steps)

lemma isolates_deleteRoutes: "route_laws N view \<Longrightarrow> isolates view luid as (deleteRoutes N luid t err)"
proof (induction t arbitrary: err)
  case (Cons r t)
  have d: "isolates view luid as (deleteIPForwardEntry2 N r)" if "fr_InterfaceLUID r = luid"
    by (rule iso.r_updates [OF delete_route [OF Cons.prems refl] isolated_steps(3)]) (auto simp: route_entry_def that)
  show ?case
    unfolding obeys_def
  proof
    fix s
    obtain q s1 where q: "deleteIPForwardEntry2 N r s = (q, s1)" by fastforce
    have "isolated luid as (view s) (view s1)" if "fr_InterfaceLUID r = luid" using d [OF that] q by (metis obeys_def snd_conv)
    moreover have "isolated luid as (view s') (view (snd (deleteRoutes N luid t err' s')))" for err' s'
      using Cons by (simp add: obeys_def)
    ultimately show "isolated luid as (view s) (view (snd (deleteRoutes N luid (r # t) err s)))"
      using q by (auto split: sum.splits intro: isolated_trans)
  qed
qed (simp add: obeys_def split: option.splits)

lemma isolates_SetRoutesForFamily:
  "route_laws N view \<Longrightarrow> isolates view luid as (SetRoutesForFamily N luid family rds)"
  unfolding SetRoutesForFamily_def FlushRoutes_def addRouteData_def
  by (intro iso.r_rules iso.r_tables isolates_deleteRoutes isolates_AddRoute)

lemma isolates_SetDNS:
  assumes L: "interface_laws N view guid_of"
  shows "isolates view luid as (SetDNS N luid family servers domains)"
proof -
  have set: "isolates view luid as (registry_SetStringValue N p n x)" for p n x
    by (rule iso.r_updates [where f = "v_reg_update (\<lambda>m. m((p, n) := x))"]) (use L in \<open>simp_all add: interface_laws_def isolated_steps\<close>)
  have "isolates view luid as (\<lambda>s. (Inr (), notifyDnscache N s))"
    using L by (simp add: obeys_def interface_laws_def)
  then have reg: "isolates view luid as (setDNSRegistry N family g x y)" for g x y
    unfolding setDNSRegistry_def Let_def by (intro iso.r_rules iso.r_tables(3-5) [OF L] set)
  have "isolates view luid as (setInterfaceDnsSettings N g (dnsSettings family x y))" for g x y
    by (rule iso.r_updates [OF setInterfaceDnsSettings_updates [OF L] isolated_steps(6)])
  then have "isolates view luid as (\<lambda>s. case setInterfaceDnsSettings N g (dnsSettings family x y) s of
            (Inr _, s) \<Rightarrow> (Inr (), s)
          | (Inl err, s) \<Rightarrow> if err \<noteq> ERROR_PROC_NOT_FOUND then (Inl err, s) else setDNSRegistry N family g x y s)" for g x y
    using reg unfolding obeys_def by (auto split: prod.split sum.split) (metis isolated_trans snd_conv)+
  then show ?thesis unfolding SetDNS_def by (intro iso.r_rules iso.r_tables(3-5) [OF L])
qed

lemma interfaceSettings_luid [simp]:
  "ip_InterfaceLUID (interfaceSettings family conf r) = ip_InterfaceLUID r" "ip_Family (interfaceSettings family conf r) = ip_Family r"
  by (simp_all add: interfaceSettings_def Let_def)

lemma isolates_configureOnce:
  assumes L: "route_laws N view" "address_laws N view" "interface_laws N view guid_of"
  shows "isolates view luid (prefix_addr ` set (Addresses (cInterface conf))) (configureOnce N order family conf luid retry)"
proof -
  have set: "isolates view luid as (setIPInterfaceEntry N r)" if "ip_InterfaceLUID r = luid" for as r
    by (rule iso.r_updates [OF set_ip_interface [OF L(3)]]) (simp add: that isolated_steps)
  have get: "isolates view luid as (IPInterface N luid family)" for as
    unfolding IPInterface_def ipInterfaceRow_get_def by (intro iso.r_rules iso.r_tables(3-5) [OF L(3)])
  have luid: "ip_InterfaceLUID r = luid" if "pcatch Return (IPInterface N luid family) s = (Inr r, s')" for r s s'
    using that IPInterface_luid [OF L(3)] by (fastforce simp: pcatch_def split: prod.splits sum.splits)
  have "isolates view luid as (pbind (pcatch Return (IPInterface N luid family)) (\<lambda>ipif.
      pbind (pcatch h (setIPInterfaceEntry N (interfaceSettings family conf ipif))) (\<lambda>_.
        pcatch h' (SetDNS N luid family servers domains))))" for as h h' servers domains
    by (rule iso.r_bind_result [OF iso.r_catch [OF get]])
      (intro iso.r_bind iso.r_catch set isolates_SetDNS [OF L(3)], simp add: luid)
  note tail = this
  show ?thesis
    unfolding configureOnce_def Let_def orRetry_def
    by (rule iso.r_bind, rule iso.r_when, rule iso.r_catch, rule isolates_SetRoutesForFamily [OF L(1)],
        rule iso.r_bind, rule iso.r_when, rule iso.r_catch, rule iso.r_setAddresses [OF L(2) refl], rule tail)
qed

lemma isolated_configureLoop:
  assumes L: "route_laws N view" "address_laws N view" "interface_laws N view guid_of"
  shows "isolated luid (prefix_addr ` set (Addresses (cInterface conf))) (view s)
    (view (snd (configureLoop N order family conf luid retry tries s)))"
  using L
proof (induction N order family conf luid retry tries s rule: configureLoop.induct)
  case (1 N order family conf luid retry tries s)
  define retry' where "retry' = (if 0 < tries then retry \<and> tries < 15 else retry)"
  obtain r s1 where c: "configureOnce N order family conf luid retry' s = (r, s1)" by fastforce
  let ?as = "prefix_addr ` set (Addresses (cInterface conf))"
  have i: "isolated luid ?as (view s) (view s1)"
    using isolates_configureOnce [OF 1(2-4), of luid conf order family retry'] c by (metis obeys_def snd_conv)
  show ?case
  proof (cases "r = Inl StartOver")
    case True
    have "isolated luid ?as (view s1) (view (snd (configureLoop N order family conf luid retry' (tries + 1) s1)))"
      using 1(1) [OF retry'_def c [symmetric] _ _ 1(2-4)] True by simp
    with i have "isolated luid ?as (view s) (view (snd (configureLoop N order family conf luid retry' (tries + 1) s1)))"
      by (rule isolated_trans)
    then show ?thesis unfolding configureLoop.simps [of _ _ _ _ _ _ _ s] Let_def retry'_def [symmetric] c
      by (simp add: True)
  next
    case False
    then show ?thesis unfolding configureLoop.simps [of _ _ _ _ _ _ _ s] Let_def retry'_def [symmetric] c
      using i by (auto split: sum.split exit.split)
  qed
qed

section \<open>The interface is configured\<close>

lemma pvalid_view:
  assumes "\<And>v. R v \<Longrightarrow> pvalid (\<lambda>s. view s = v) m Q E"
  shows "pvalid (\<lambda>s. R (view s)) m Q E"
  unfolding pvalid_def using assms [unfolded pvalid_def] by simp

definition own_routes :: "netview \<Rightarrow> u64 \<Rightarrow> u16 \<Rightarrow> route_entry set" where
  "own_routes v luid family = {e \<in> v_routes v. fst e = luid \<and> in_family family (fst (snd e))}"

definition own_addresses :: "netview \<Rightarrow> u64 \<Rightarrow> u16 \<Rightarrow> addr_entry set" where
  "own_addresses v luid family = {e \<in> v_addrs v. fst e = luid \<and> in_family family (fst (snd e))}"

definition of_family :: "u16 \<Rightarrow> Prefix list \<Rightarrow> Prefix set" where
  "of_family family ps = {p \<in> set ps. in_family family (prefix_addr p)}"

definition unspecified :: "u16 \<Rightarrow> Addr" where
  "unspecified family = (if family = AF_INET then Addr4 0 else Addr6 0 [])"

definition routes_set :: "u16 \<Rightarrow> Config \<Rightarrow> u64 \<Rightarrow> netview \<Rightarrow> bool" where
  "routes_set family conf luid v \<longleftrightarrow>
     (\<not> TableOff (cInterface conf) \<and> of_family family (allAllowedIPs conf) \<noteq> {} \<longrightarrow>
      own_routes v luid family =
        (\<lambda>p. (luid, prefix_addr (prefix_Masked p), of_int (prefix_bits p), unspecified family, 0)) ` of_family family (allAllowedIPs conf))"

definition addresses_set :: "u16 \<Rightarrow> Config \<Rightarrow> u64 \<Rightarrow> netview \<Rightarrow> bool" where
  "addresses_set family conf luid v \<longleftrightarrow>
     (of_family family (Addresses (cInterface conf)) \<noteq> {} \<longrightarrow>
      own_addresses v luid family =
        (\<lambda>p. (luid, prefix_addr p, of_int (prefix_bits p))) ` of_family family (Addresses (cInterface conf)))"

definition settings_set :: "u16 \<Rightarrow> Config \<Rightarrow> MibIPInterfaceRow \<Rightarrow> bool" where
  "settings_set family conf r \<longleftrightarrow>
     ip_RouterDiscoveryBehavior r = RouterDiscoveryDisabled \<and> ip_DadTransmits r = 0 \<and>
     \<not> ip_ManagedAddressConfigurationSupported r \<and> \<not> ip_OtherStatefulConfigurationSupported r \<and>
     (0 < MTU (cInterface conf) \<and> of_family family (Addresses (cInterface conf)) \<union> of_family family (allAllowedIPs conf) \<noteq> {} \<longrightarrow>
        unat (ip_NLMTU r) = unat (MTU (cInterface conf))) \<and>
     ((\<exists>p \<in> of_family family (allAllowedIPs conf). prefix_bits p = 0) \<longrightarrow> \<not> ip_UseAutomaticMetric r \<and> ip_Metric r = 0)"

definition dns_is_set :: "'s netio \<Rightarrow> u16 \<Rightarrow> Config \<Rightarrow> GUID \<Rightarrow> netview \<Rightarrow> bool" where
  "dns_is_set N family conf guid v \<longleftrightarrow>
     (let servers = familyServers family (DNS (cInterface conf)); domains = strings_Join (DNSSearch (cInterface conf)) '','' in
      v_dns v (guid, family = AF_INET6) = (servers, domains) \<or>
      v_reg v (dnsRegPath N family guid, ''NameServer'') = servers \<and> v_reg v (dnsRegPath N family guid, ''SearchList'') = domains)"

lemma of_family_cases:
  assumes "family = AF_INET \<or> family = AF_INET6"
  shows "found family ps \<longleftrightarrow> of_family family ps \<noteq> {}" "foundDefault family ps \<longleftrightarrow> (\<exists>p \<in> of_family family ps. prefix_bits p = 0)"
  using assms by (auto simp: found_def foundDefault_def of_family_def in_family_def list_ex_iff AF_INET_def AF_INET6_def AF_UNSPEC_def)

lemma masked_fields:
  assumes "wf_prefix p"
  shows "prefix_addr (prefix_Masked p) = addr_mask (nat (prefix_bits p)) (prefix_addr p)" "prefix_bits (prefix_Masked p) = prefix_bits p"
proof -
  have z: "addr_withoutZone (addr_mask n a) = addr_mask n a" if "addr_Zone a = []" for n a using that by (cases a) auto
  have v: "addr_mask n a \<noteq> AddrInvalid" "addr_BitLen (addr_mask n a) = addr_BitLen a" if "a \<noteq> AddrInvalid" for n a
    using that by (cases a; simp)+
  have "prefix_Masked p = netip_PrefixFrom (addr_mask (nat (prefix_bits p)) (prefix_addr p)) (prefix_bits p)"
    using assms by (simp add: wf_prefix_def prefix_Masked_def)
  then show "prefix_addr (prefix_Masked p) = addr_mask (nat (prefix_bits p)) (prefix_addr p)"
    "prefix_bits (prefix_Masked p) = prefix_bits p"
    using assms by (simp_all add: wf_prefix_def netip_PrefixFrom_def z v)
qed

lemma addr_mask_family: "in_family family (addr_mask n a) = in_family family a" "addr_Zone (addr_mask n a) = addr_Zone a"
  by (cases a; simp add: in_family_def)+

lemma masked_family:
  assumes "wf_prefix p"
  shows "in_family family (prefix_addr (prefix_Masked p)) = in_family family (prefix_addr p)"
    "scoped (prefix_addr (prefix_Masked p)) = prefix_addr (prefix_Masked p)"
  using assms by (simp_all add: masked_fields addr_mask_family scoped_no_zone wf_prefix_def)

lemma Is4_Is6: "addr_Is6 a \<Longrightarrow> \<not> addr_Is4 a"
  by (cases a) simp_all

lemma route_of_allowedRoute:
  assumes "wf_prefix p" "in_family family (prefix_addr p)" "family = AF_INET \<or> family = AF_INET6"
  shows "route_of luid (allowedRoute p) = (luid, prefix_addr (prefix_Masked p), of_int (prefix_bits p), unspecified family, 0)"
  using assms
  by (auto simp: route_of_def allowedRoute_def masked_fields(2) masked_family unspecified_def Is4_Is6 in_family_def scoped_no_zone AF_INET_def AF_INET6_def AF_UNSPEC_def)

lemma dedup_routes:
  assumes w: "\<And>p. p \<in> set (allAllowedIPs conf) \<Longrightarrow> wf_prefix p" and f: "family = AF_INET \<or> family = AF_INET6"
    and o: "\<And>xs. set (order xs) = set xs"
  shows "route_of luid ` {rd \<in> set (deduplicatedRoutes order conf). \<not> skipFamily family (prefix_addr (Destination rd))} =
    (\<lambda>p. (luid, prefix_addr (prefix_Masked p), of_int (prefix_bits p), unspecified family, 0)) ` of_family family (allAllowedIPs conf)"
proof -
  have "set (deduplicatedRoutes order conf) = allowedRoute ` set (allAllowedIPs conf)"
    unfolding deduplicatedRoutes_def by (simp add: o)
  then have "{rd \<in> set (deduplicatedRoutes order conf). \<not> skipFamily family (prefix_addr (Destination rd))} =
      allowedRoute ` of_family family (allAllowedIPs conf)"
    using w by (auto simp: not_skipFamily [OF f] of_family_def masked_family allowedRoute_def)
  moreover have "route_of luid ` allowedRoute ` of_family family (allAllowedIPs conf) =
      (\<lambda>p. (luid, prefix_addr (prefix_Masked p), of_int (prefix_bits p), unspecified family, 0)) ` of_family family (allAllowedIPs conf)"
    unfolding image_image by (intro image_cong refl route_of_allowedRoute [OF w _ f]) (auto simp: of_family_def)
  ultimately show ?thesis by simp
qed

lemma set_routes_triple:
  assumes L: "route_laws N view" and w: "\<And>p. p \<in> set (allAllowedIPs conf) \<Longrightarrow> wf_prefix p"
    and f: "family = AF_INET \<or> family = AF_INET6" and o: "\<And>xs. set (order xs) = set xs"
  shows "pvalid (\<lambda>s. view s = v) (SetRoutesForFamily N luid family (deduplicatedRoutes order conf))
    (\<lambda>_ s. routes_set family conf luid (view s)) (\<lambda>_ _. True)"
proof (rule pvalid_weaken [OF SetRoutesForFamily_triple [OF L]])
  fix s assume "view s = v_routes_update (\<lambda>A. {e \<in> A. \<not> (fst e = luid \<and> in_family family (fst (snd e)))} \<union>
      route_of luid ` {rd \<in> set (deduplicatedRoutes order conf). \<not> skipFamily family (prefix_addr (Destination rd))}) v"
  then have "own_routes (view s) luid family =
      route_of luid ` {rd \<in> set (deduplicatedRoutes order conf). \<not> skipFamily family (prefix_addr (Destination rd))}"
    by (auto simp: own_routes_def route_of_def not_skipFamily [OF f])
  also have "\<dots> = (\<lambda>p. (luid, prefix_addr (prefix_Masked p), of_int (prefix_bits p), unspecified family, 0)) ` of_family family (allAllowedIPs conf)"
    by (rule dedup_routes [OF w f o])
  finally show "routes_set family conf luid (view s)" unfolding routes_set_def by (rule impI)
qed auto

lemma set_addresses_triple:
  assumes L: "address_laws N view" "deletes_allowed N view" and w: "\<And>p. p \<in> set (Addresses (cInterface conf)) \<Longrightarrow> wf_prefix p"
    and f: "family = AF_INET \<or> family = AF_INET6"
  shows "pvalid (\<lambda>s. view s = v) (SetIPAddressesForFamily N luid family (Addresses (cInterface conf)))
    (\<lambda>_ s. addresses_set family conf luid (view s)) (\<lambda>_ _. True)"
proof (rule pvalid_weaken [OF SetIPAddressesForFamily_triple [OF L]])
  let ?as = "Addresses (cInterface conf)"
  fix s assume "view s = v_addrs_update (\<lambda>A. {e \<in> A. \<not> (fst e = luid \<and> in_family family (fst (snd e)))} \<union>
      address_of luid ` {a \<in> set ?as. \<not> skipFamily family (prefix_addr a)}) v"
  then have "own_addresses (view s) luid family = address_of luid ` of_family family ?as"
    by (auto simp: own_addresses_def of_family_def address_of_def not_skipFamily [OF f])
  also have "\<dots> = (\<lambda>p. (luid, prefix_addr p, of_int (prefix_bits p))) ` of_family family ?as"
    using w by (intro image_cong) (auto simp: address_of_def of_family_def wf_prefix_def scoped_no_zone)
  finally show "addresses_set family conf luid (view s)" by (simp add: addresses_set_def)
qed auto

lemma setAddresses_triple:
  assumes L: "address_laws N view" "deletes_allowed N view" and w: "\<And>p. p \<in> set (Addresses (cInterface conf)) \<Longrightarrow> wf_prefix p"
    and f: "family = AF_INET \<or> family = AF_INET6"
  shows "pvalid (\<lambda>s. view s = v) (setAddresses N family (Addresses (cInterface conf)) luid)
    (\<lambda>_ s. only_addresses v (view s) \<and> addresses_set family conf luid (view s)) (\<lambda>_ _. True)"
proof (rule pvalidI)
  let ?as = "Addresses (cInterface conf)"
  fix s x s' assume v: "view s = v" and r: "setAddresses N family ?as luid s = (Inr x, s')"
  have "only_addresses v (view s')"
    using obeysD [OF adr.r_setAddresses [OF L(1) refl] r] v by simp
  moreover have "addresses_set family conf luid (view s')"
  proof -
    have set: "SetIPAddressesForFamily N luid family ?as s1 = (Inr y, s2) \<Longrightarrow> addresses_set family conf luid (view s2)" for s1 s2 y
      using pvalid_Inr [OF set_addresses_triple [OF L w f]] by blast
    obtain q s1 where "SetIPAddressesForFamily N luid family ?as s = (q, s1)" by fastforce
    with r show ?thesis by (cases q) (auto simp: setAddresses_def split: if_splits dest: set)
  qed
  ultimately show "only_addresses v (view s') \<and> addresses_set family conf luid (view s')" ..
qed simp

lemma unat_ucast_16_32: "unat (ucast (x :: u16) :: u32) = unat x"
  using unsigned_less [of x, where ?'a = nat] by (simp add: unsigned_ucast_eq take_bit_eq_mod)

lemma interfaceSettings_set:
  assumes "family = AF_INET \<or> family = AF_INET6"
  shows "settings_set family conf (interfaceSettings family conf r)"
  by (auto simp: settings_set_def interfaceSettings_def Let_def of_family_cases [OF assms] unat_ucast_16_32)

lemma only_addresses_views:
  "only_addresses v v' \<Longrightarrow> v_routes v' = v_routes v \<and> v_ipif v' = v_ipif v \<and> v_dns v' = v_dns v \<and> v_reg v' = v_reg v"
  by (cases v; cases v') (simp add: only_addresses_def)

lemma other_views [simp]:
  "routes_set family conf luid (v_ipif_update g v) = routes_set family conf luid v"
  "routes_set family conf luid (v_dns_update d v) = routes_set family conf luid v"
  "routes_set family conf luid (v_reg_update r v) = routes_set family conf luid v"
  "addresses_set family conf luid (v_ipif_update g v) = addresses_set family conf luid v"
  "addresses_set family conf luid (v_dns_update d v) = addresses_set family conf luid v"
  "addresses_set family conf luid (v_reg_update r v) = addresses_set family conf luid v"
  by (simp_all add: routes_set_def own_routes_def addresses_set_def own_addresses_def)

lemma keeps_IPInterface: "interface_laws N view guid_of \<Longrightarrow> keeps view (IPInterface N luid family)"
  by (auto simp: keeps_def IPInterface_def ipInterfaceRow_get_def pbind_def preturn_def interface_laws_def split: prod.split sum.split)
    (metis snd_conv)+

lemma configureOnce_triple:
  assumes L: "route_laws N view" "address_laws N view" "interface_laws N view guid_of" "deletes_allowed N view"
    and w: "\<And>p. p \<in> set (allAllowedIPs conf) \<Longrightarrow> wf_prefix p" "\<And>p. p \<in> set (Addresses (cInterface conf)) \<Longrightarrow> wf_prefix p"
    and f: "family = AF_INET \<or> family = AF_INET6" and o: "\<And>xs. set (order xs) = set xs"
  shows "pvalid (\<lambda>_. True) (configureOnce N order family conf luid retry)
    (\<lambda>_ s. routes_set family conf luid (view s) \<and> addresses_set family conf luid (view s) \<and>
       settings_set family conf (v_ipif (view s) (luid, family)) \<and> dns_is_set N family conf (guid_of luid) (view s)) (\<lambda>_ _. True)"
proof -
  let ?R = "routes_set family conf luid" and ?A = "addresses_set family conf luid"
    and ?S = "\<lambda>v. settings_set family conf (v_ipif v (luid, family))" and ?D = "dns_is_set N family conf (guid_of luid)"
  have routes: "pvalid (\<lambda>_. True) (pwhen (\<not> TableOff (cInterface conf) \<and> found family (allAllowedIPs conf))
      (orRetry retry m (SetRoutesForFamily N luid family (deduplicatedRoutes order conf)))) (\<lambda>_ s. ?R (view s)) (\<lambda>_ _. True)" for m
    unfolding orRetry_def of_family_cases [OF f]
    by (rule pvalid_when, rule pvalid_catch, rule pvalid_view [where R = "\<lambda>_. True"], rule set_routes_triple [OF L(1) w(1) f o])
      (auto simp: routes_set_def)
  have addresses: "pvalid (\<lambda>s. ?R (view s)) (pwhen (found family (Addresses (cInterface conf)))
      (orRetry retry m (setAddresses N family (Addresses (cInterface conf)) luid))) (\<lambda>_ s. ?R (view s) \<and> ?A (view s)) (\<lambda>_ _. True)" for m
    unfolding orRetry_def of_family_cases [OF f]
    by (rule pvalid_when, rule pvalid_catch, rule pvalid_view, rule pvalid_weaken [OF setAddresses_triple [OF L(2,4) w(2) f]])
      (auto simp: routes_set_def own_routes_def addresses_set_def dest!: only_addresses_views)
  have get: "pvalid (\<lambda>s. ?R (view s) \<and> ?A (view s)) (pcatch Return (IPInterface N luid family))
      (\<lambda>r s. (?R (view s) \<and> ?A (view s)) \<and> ip_InterfaceLUID r = luid \<and> ip_Family r = family) (\<lambda>_ _. True)"
  proof (rule pvalid_catch, rule pvalidI)
    fix s r s' assume v: "?R (view s) \<and> ?A (view s)" and g: "IPInterface N luid family s = (Inr r, s')"
    show "(?R (view s') \<and> ?A (view s')) \<and> ip_InterfaceLUID r = luid \<and> ip_Family r = family"
      unfolding keepsD [OF keeps_IPInterface [OF L(3)] g] using v IPInterface_luid [OF L(3) g] by blast
  qed simp
  have set: "pvalid (\<lambda>s. ?R (view s) \<and> ?A (view s)) (orRetry retry m (setIPInterfaceEntry N (interfaceSettings family conf r)))
      (\<lambda>_ s. ?R (view s) \<and> ?A (view s) \<and> ?S (view s)) (\<lambda>_ _. True)"
    if "ip_InterfaceLUID r = luid \<and> ip_Family r = family" for m r
    unfolding orRetry_def
    by (rule pvalid_catch, rule pvalid_view [where R = "\<lambda>v. ?R v \<and> ?A v"],
        rule pvalid_weaken [OF updates_triple [OF set_ip_interface [OF L(3)]]])
      (use that interfaceSettings_set [OF f] in auto)
  have dns: "pvalid (\<lambda>s. ?R (view s) \<and> ?A (view s) \<and> ?S (view s))
      (orRetry retry m (SetDNS N luid family (DNS (cInterface conf)) (DNSSearch (cInterface conf))))
      (\<lambda>_ s. ?R (view s) \<and> ?A (view s) \<and> ?S (view s) \<and> ?D (view s)) (\<lambda>_ _. True)" for m
    unfolding orRetry_def
    by (rule pvalid_catch, rule pvalid_view [where R = "\<lambda>v. ?R v \<and> ?A v \<and> ?S v"],
        rule pvalid_weaken [OF SetDNS_triple [OF L(3) f]])
      (auto simp: dns_set_def dns_is_set_def Let_def)
  show ?thesis
    unfolding configureOnce_def Let_def
    by (rule pvalid_bind [OF routes], rule pvalid_bind [OF addresses], rule pvalid_bind [OF get], rule pvalid_pure,
        rule pvalid_bind [OF set dns])
qed

lemma configureLoop_triple:
  assumes o: "\<And>retry. pvalid (\<lambda>_. True) (configureOnce N order family conf luid retry) (\<lambda>_ s. Q s) (\<lambda>_ _. True)"
    and r: "configureLoop N order family conf luid retry tries s = (Inr x, s')"
  shows "Q s'"
  using assms
proof (induction N order family conf luid retry tries s rule: configureLoop.induct)
  case (1 N order family conf luid retry tries s)
  define retry' where "retry' = (if 0 < tries then retry \<and> tries < 15 else retry)"
  obtain q s1 where c: "configureOnce N order family conf luid retry' s = (q, s1)" by fastforce
  note run = 1(3) [unfolded configureLoop.simps [of _ _ _ _ _ _ _ s] Let_def retry'_def [symmetric] c]
  show ?case
  proof (cases "q = Inl StartOver")
    case True
    then show ?thesis using 1(1) [OF retry'_def c [symmetric] _ _ 1(2)] run by simp
  next
    case False
    then show ?thesis using run c pvalid_Inr [OF 1(2)] by (auto split: sum.splits exit.splits)
  qed
qed



lemma SetAddr_zero: "a \<noteq> AddrInvalid \<Longrightarrow> \<exists>raw. SetAddr a zeroSockaddr = Inr raw"
  using SetAddrPort_reads [of a zeroSockaddr 0] by (auto simp: SetAddr_def zeroSockaddr_def)

lemma sample_calls:
  "succeeds (getUnicastIPAddressTable sample_net f)" "succeeds (createUnicastIPAddressEntry sample_net u)"
  "succeeds (getIPForwardTable2 sample_net f)" "succeeds (createIPForwardEntry2 sample_net r)"
  "succeeds (getIPInterfaceEntry sample_net i)" "succeeds (setIPInterfaceEntry sample_net i)"
  "succeeds (convertInterfaceLUIDToGUID sample_net l)"
  by (simp_all add: sample_net_def succeeds_def)

lemma sample_addresses:
  assumes "\<And>p. p \<in> set ps \<Longrightarrow> prefix_addr p \<noteq> AddrInvalid"
  shows "succeeds (setAddresses sample_net family ps luid)"
proof -
  have "succeeds (AddIPAddress sample_net luid p)" if p: "prefix_addr p \<noteq> AddrInvalid" for p
  proof -
    obtain raw where "SetAddr (prefix_addr p) zeroSockaddr = Inr raw" using SetAddr_zero [OF p] ..
    then have "SetAddr (prefix_addr p) (ua_Address (initUnicastRow sample_net)) = Inr raw"
      by (simp add: sample_net_def zeroUnicastRow_def)
    then show ?thesis unfolding AddIPAddress_def by (simp add: succeeds_rules sample_calls)
  qed
  moreover have "succeeds (deleteAddresses sample_net luid t)" for t
  proof -
    have "\<exists>s'. deleteAddresses sample_net luid t s = (Inr (), s')" for s by (induction t arbitrary: s) auto
    then show ?thesis by (auto simp: succeeds_def)
  qed
  ultimately have "succeeds (SetIPAddressesForFamily sample_net luid family ps)"
    unfolding SetIPAddressesForFamily_def FlushIPAddresses_def using assms
    by (intro succeeds_rules succeeds_each sample_calls) blast+
  then have "\<exists>x s'. SetIPAddressesForFamily sample_net luid family ps s = (Inr x, s')" for s by (simp add: succeeds_def)
  then have "\<exists>s'. setAddresses sample_net family ps luid s = (Inr (), s')" for s
    unfolding setAddresses_def by (metis (no_types, lifting) case_prod_conv sum.case(2))
  then show ?thesis by (auto simp: succeeds_def)
qed

lemma sample_routes:
  assumes "\<And>r. r \<in> set rds \<Longrightarrow> prefix_addr (Destination r) \<noteq> AddrInvalid \<and> NextHop r \<noteq> AddrInvalid"
  shows "succeeds (SetRoutesForFamily sample_net luid family rds)"
proof -
  have "succeeds (addRouteData sample_net luid r)" if r: "prefix_addr (Destination r) \<noteq> AddrInvalid \<and> NextHop r \<noteq> AddrInvalid" for r
  proof -
    obtain row where "routeRow sample_net luid (Destination r) (NextHop r) = Inr row"
      using SetAddr_zero [of "prefix_addr (Destination r)"] SetAddr_zero [of "NextHop r"] r
      by (auto simp: routeRow_def SetPrefix_def sample_net_def zeroForwardRow_def)
    then show ?thesis unfolding addRouteData_def AddRoute_def by (simp add: succeeds_rules sample_calls)
  qed
  moreover have "succeeds (deleteRoutes sample_net luid t None)" for t
  proof -
    have "\<exists>s'. deleteRoutes sample_net luid t None s = (Inr (), s')" for s
      by (induction t arbitrary: s) (auto simp: sample_net_def)
    then show ?thesis by (auto simp: succeeds_def)
  qed
  ultimately show ?thesis
    unfolding SetRoutesForFamily_def FlushRoutes_def using assms
    by (intro succeeds_rules succeeds_each sample_calls) blast+
qed

lemma sample_configures:
  assumes w: "wf_config G conf" and f: "family = AF_INET \<or> family = AF_INET6" and o: "\<And>xs. set (order xs) = set xs"
    and n: "CHR 0x00 \<notin> set (familyServers family (DNS (cInterface conf)))" "CHR 0x00 \<notin> set (strings_Join (DNSSearch (cInterface conf)) '','')"
  shows "\<exists>s'. configureInterface sample_net order boot family conf luid s = (Inr (), s')"
proof -
  have wf: "wf_prefix p" if "p \<in> set (allAllowedIPs conf) \<or> p \<in> set (Addresses (cInterface conf))" for p
    using w that by (auto simp: wf_config_def interface_inv_def peer_inv_def allAllowedIPs_def list_all_iff)
  have "prefix_addr (prefix_Masked p) \<noteq> AddrInvalid \<and> NextHop (allowedRoute p) \<noteq> AddrInvalid" if "wf_prefix p" for p
    using that masked_fields(1) [OF that] by (cases "prefix_addr p") (auto simp: wf_prefix_def allowedRoute_def)
  then have routes: "succeeds (SetRoutesForFamily sample_net luid family (deduplicatedRoutes order conf))"
    using wf by (intro sample_routes) (auto simp: deduplicatedRoutes_def o, auto simp: allowedRoute_def)
  have addresses: "succeeds (setAddresses sample_net family (Addresses (cInterface conf)) luid)"
    using wf by (intro sample_addresses) (auto simp: wf_prefix_def)
  have get: "succeeds (IPInterface sample_net luid family)"
    unfolding IPInterface_def ipInterfaceRow_get_def by (intro succeeds_rules sample_calls)
  have dns: "succeeds (SetDNS sample_net luid family (DNS (cInterface conf)) (DNSSearch (cInterface conf)))"
    using f n by (auto simp: SetDNS_def UTF16PtrFromString_def succeeds_def sample_net_def plift_def pbind_def)
  have "succeeds (configureOnce sample_net order family conf luid retry)" for retry
    unfolding configureOnce_def Let_def orRetry_def by (intro succeeds_rules routes addresses get dns sample_calls)
  then obtain x s' where "configureOnce sample_net order family conf luid boot s = (Inr x, s')" by (rule succeedsE)
  then show ?thesis unfolding configureInterface_def by (simp add: configureLoop.simps)
qed

lemma sample_tunnel_configures: "\<exists>s'. configureInterface sample_net (\<lambda>xs. xs) False AF_INET sample_tunnel 7 no_network = (Inr (), s')"
  by (rule sample_configures [OF sample_tunnel_wf]) (simp_all add: familyServers_def sample_tunnel_def zeroConfig_def zeroInterface_def)



section \<open>The kill switch\<close>

text \<open>The filters in force that belong to a session.\<close>

definition session_filters :: "'s filter_view \<Rightarrow> nat \<Rightarrow> 's \<Rightarrow> wtFwpmFilter0 list" where
  "session_filters active h s = map snd (filter (\<lambda>(h', f). h' = h) (active s))"

lemma enableFirewall_filters:
  assumes "wfp_laws W active pending" "enableFirewall W conf luid (sess, s) = (None, sess', s')"
  obtains bo appID sd where "getCurrentProcessAppID W = Inr appID" "getCurrentProcessSecurityDescriptor W = Inr sd"
    "session_filters active sess' s' = firewall_filters bo appID sd luid (doNotRestrict conf) (DNS (cInterface conf))"
proof -
  from EnableFirewall_cases [OF assms(1) assms(2) [unfolded enableFirewall_def]] obtain bo appID sd
    where *: "getCurrentProcessAppID W = Inr appID" "getCurrentProcessSecurityDescriptor W = Inr sd" "sess' \<notin> fst ` set (active s)"
      "active s' = active s @ map (Pair sess') (firewall_filters bo appID sd luid (doNotRestrict conf) (DNS (cInterface conf)))"
    by auto
  have "filter (\<lambda>(h', f). h' = sess') (active s) = []" using *(3) by (force simp: filter_empty_conv)
  then have "session_filters active sess' s' = firewall_filters bo appID sd luid (doNotRestrict conf) (DNS (cInterface conf))"
    by (simp add: session_filters_def *(4) filter_map comp_def)
  with * that show thesis by blast
qed

text \<open>C15. A tunnel that takes all traffic turns the kill switch on. When the firewall was enabled for a tunnel with a single
  peer whose allowed IPs contain \<open>0.0.0.0/0\<close> or \<open>::/0\<close>, with its table not off, the installed filters block every packet
  at the connection layers except those of the tunnel service, those on loopback or the tunnel,
  DHCP and neighbour discovery, and DNS goes to the configured servers only. For any other tunnel
  the installed filters block nothing.\<close>

theorem enableFirewall_kill_switch:
  assumes "wfp_laws W active pending" and "enableFirewall W conf luid (sess, s) = (None, sess', s')" and "ale_packet pkt"
  shows "\<exists>appID sd. getCurrentProcessAppID W = Inr appID \<and> getCurrentProcessSecurityDescriptor W = Inr sd \<and>
    (if \<not> TableOff (cInterface conf) \<and> (\<exists>p a. Peers conf = [p] \<and> a \<in> set (AllowedIPs p) \<and> (a = Prefix (Addr4 0) 0 \<or> a = Prefix (Addr6 0 []) 0))
     then verdicts (session_filters active sess' s') pkt =
       {if permitted appID sd luid (DNS (cInterface conf)) pkt then FWP_ACTION_PERMIT else FWP_ACTION_BLOCK}
     else FWP_ACTION_BLOCK \<notin> verdicts (session_filters active sess' s') pkt)"
proof -
  obtain bo appID sd where f: "getCurrentProcessAppID W = Inr appID" "getCurrentProcessSecurityDescriptor W = Inr sd"
    "session_filters active sess' s' = firewall_filters bo appID sd luid (doNotRestrict conf) (DNS (cInterface conf))"
    by (rule enableFirewall_filters [OF assms(1,2)])
  have "prefix_bits a = 0 \<and> a = prefix_Masked a \<longleftrightarrow> a = Prefix (Addr4 0) 0 \<or> a = Prefix (Addr6 0 []) 0" for a
    by (cases a; cases "prefix_addr a") (auto simp: prefix_Masked_def netip_PrefixFrom_def mask_word_def)
  then have canonical: "(\<lambda>a. prefix_bits a = 0 \<and> a = prefix_Masked a) = (\<lambda>a. a = Prefix (Addr4 0) 0 \<or> a = Prefix (Addr6 0 []) 0)"
    by (rule ext)
  have "\<not> doNotRestrict conf \<longleftrightarrow> \<not> TableOff (cInterface conf) \<and>
      (\<exists>p a. Peers conf = [p] \<and> a \<in> set (AllowedIPs p) \<and> (a = Prefix (Addr4 0) 0 \<or> a = Prefix (Addr6 0 []) 0))"
  proof (cases "Peers conf")
    case (Cons p ps)
    then show ?thesis unfolding doNotRestrict_def canonical by (cases ps) (simp_all add: Bex_set [symmetric], blast)
  qed (simp add: doNotRestrict_def)
  then show ?thesis
    using f restricted_verdict [OF assms(3), of bo appID sd luid "DNS (cInterface conf)"]
      unrestricted_verdict [OF assms(3), of bo appID sd luid "DNS (cInterface conf)"]
    by (cases "doNotRestrict conf") auto
qed

lemma sample_installs: "succeeds (objectInstaller sample_wfp luid dnr dns h)"
proof -
  have add: "succeeds (wrapped (peach (addFilter sample_wfp h) fs))" for fs
    unfolding wrapped_def addFilter_def by (intro succeeds_rules succeeds_each) (simp add: sample_wfp_def succeeds_def)
  have base: "succeeds (wrapped (registerBaseObjects sample_wfp h))"
    unfolding wrapped_def registerBaseObjects_def by (intro succeeds_rules) (simp_all add: sample_wfp_def succeeds_def)
  have service: "succeeds (wrapped (permitWireGuardService sample_wfp h bo w))" for bo w
    using add by (simp add: permitWireGuardService_def getCurrentProcessAppID_def getCurrentProcessSecurityDescriptor_def
        sample_wfp_def serviceGroup_def)
  have block: "succeeds (wrapped (blockDNS sample_wfp dns h bo 15 14))" for bo
    using add by (simp add: blockDNS_def)
  show ?thesis
    unfolding objectInstaller_def permitLoopback_def permitTunInterface_def permitDHCPIPv4_def permitDHCPIPv6_def permitNdp_def blockAll_def
    by (intro succeeds_bind succeeds_if succeeds_return add base service block)
qed

lemma succeeds_runTransaction:
  assumes "succeeds (fwpmTransactionBegin0 W h)" "succeeds (fwpmTransactionCommit0 W h)" "succeeds (operation h)"
  shows "succeeds (runTransaction W h operation)"
  unfolding runTransaction_def wrapped_def
proof (intro succeeds_bind succeeds_catch assms(1))
  show "succeeds (\<lambda>s. case operation h s of
         (Inl err, s) \<Rightarrow> (Inl (wrapErr err), fwpmTransactionAbort0 W h s)
       | (Inr _, s) \<Rightarrow>
           (case fwpmTransactionCommit0 W h s of
              (Inl err, s) \<Rightarrow> (Inl (wrapErr err), fwpmTransactionAbort0 W h s)
            | (Inr _, s) \<Rightarrow> (Inr (), s)))"
    unfolding succeeds_def
  proof
    fix s
    obtain x s1 where "operation h s = (Inr x, s1)" using assms(3) by (rule succeedsE)
    moreover obtain y s2 where "fwpmTransactionCommit0 W h s1 = (Inr y, s2)" using assms(2) by (rule succeedsE)
    ultimately show "\<exists>x s'. (case operation h s of
         (Inl err, s) \<Rightarrow> (Inl (wrapErr err), fwpmTransactionAbort0 W h s)
       | (Inr _, s) \<Rightarrow>
           (case fwpmTransactionCommit0 W h s of
              (Inl err, s) \<Rightarrow> (Inl (wrapErr err), fwpmTransactionAbort0 W h s)
            | (Inr _, s) \<Rightarrow> (Inr (), s))) = (Inr x, s')" by simp
  qed
qed

lemma sample_enables: "fst (EnableFirewall sample_wfp luid dnr dns (0, s)) = None"
proof -
  obtain h s1 where o: "createWfpSession sample_wfp s = (Inr h, s1)"
    by (simp add: createWfpSession_def wrapped_def pcatch_def sample_wfp_def)
  have "succeeds (runTransaction sample_wfp h (objectInstaller sample_wfp luid dnr dns))"
    by (rule succeeds_runTransaction) (simp_all add: sample_installs, simp_all add: sample_wfp_def succeeds_def)
  then obtain x s2 where "runTransaction sample_wfp h (objectInstaller sample_wfp luid dnr dns) s1 = (Inr x, s2)" by (rule succeedsE)
  with o show ?thesis by (simp add: EnableFirewall_def)
qed

theorem enableFirewall_kill_switch_witness:
  "\<exists>sess s. enableFirewall sample_wfp sample_tunnel 7 (0, no_filters) = (None, sess, s) \<and>
     verdicts (session_filters e_active sess s) sample_packet = {FWP_ACTION_BLOCK}"
proof -
  have "fst (enableFirewall sample_wfp sample_tunnel 7 (0, no_filters)) = None"
    unfolding enableFirewall_def by (rule sample_enables)
  then obtain sess s where e: "enableFirewall sample_wfp sample_tunnel 7 (0, no_filters) = (None, sess, s)" by (metis prod.collapse)
  have "\<not> TableOff (cInterface sample_tunnel) \<and> (\<exists>p a. Peers sample_tunnel = [p] \<and> a \<in> set (AllowedIPs p) \<and> (a = Prefix (Addr4 0) 0 \<or> a = Prefix (Addr6 0 []) 0))"
    by (simp add: sample_tunnel_def zeroConfig_def zeroInterface_def)
  with enableFirewall_kill_switch [OF sample_wfp_laws e sample_packet_ale]
  obtain appID sd where "getCurrentProcessAppID sample_wfp = Inr appID"
    "verdicts (session_filters e_active sess s) sample_packet =
       {if permitted appID sd 7 (DNS (cInterface sample_tunnel)) sample_packet then FWP_ACTION_PERMIT else FWP_ACTION_BLOCK}" by auto
  moreover have "\<not> permitted ''wireguard.exe'' sd 7 [] sample_packet"
    by (simp add: permitted_def sample_packet_def is_dns_def is_dhcp4_def is_dhcp6_def is_ndp_def)
  ultimately show ?thesis
    using e by (auto simp: getCurrentProcessAppID_def sample_wfp_def sample_tunnel_def zeroInterface_def)
qed

end
