(* ===== verification/Ringlogger.thy ===== *)
theory Ringlogger
  imports GoProg
begin

text \<open>
  The log of all processes (ringlogger/ringlogger.go): a ring of 2048 lines of 512 bytes in a shared file mapping.
  The memory is the record \<open>logMem\<close>; a logger whose log was closed has None. Each operation is one step: the
  races between concurrent writers, which the source describes in its comments, are outside the
  model. \<open>log_entries\<close> abstracts the ring to the list of its entries, oldest first, and the operations are
  shown to implement a list that keeps the last 2048 entries.
\<close>

section \<open>The ring\<close>

definition maxLogLineLength :: nat where "maxLogLineLength = 512"
definition maxTagLength :: nat where "maxTagLength = 5"
definition maxLines :: nat where "maxLines = 2048"
definition logMagic :: u32 where "logMagic = 0xbadbabe"

record logLine =
  timeNs :: int
  line :: bytes

record logMem =
  log_magic :: u32
  nextIndex :: u32
  lines :: "logLine list"

record Ringlogger =
  tag :: string
  logFile :: bool
  mapping :: u64
  log :: "logMem option"
  readOnly :: bool

definition zeroLine :: logLine where
  "zeroLine = \<lparr>timeNs = 0, line = replicate maxLogLineLength (CHR 0x00)\<rparr>"

definition zeroMem :: logMem where
  "zeroMem = \<lparr>log_magic = 0, nextIndex = 0, lines = replicate maxLines zeroLine\<rparr>"

text \<open>
  The results of the calls of the operating system are arguments: the mapped memory or the error of \<open>MapViewOfFile\<close>, and
  for a new file the errors of opening, sizing and mapping it. A mapping without the magic number is cleared; through a read-only
  view that is an access violation.
\<close>

definition newRingloggerFromMappingHandle :: "go_error + logMem \<Rightarrow> u64 \<Rightarrow> string \<Rightarrow> bool \<Rightarrow> go_error + Ringlogger" where
  "newRingloggerFromMappingHandle mapped mappingHandle tagName writable =
     rbind mapped (\<lambda>view.
       rbind (if log_magic view = logMagic then Inr view
              else if writable then Inr (zeroMem\<lparr>log_magic := logMagic\<rparr>) else Inl (Panic ''access violation'')) (\<lambda>m.
         Inr \<lparr>tag = tagName, logFile = False, mapping = mappingHandle, log = Some m, readOnly = \<not> writable\<rparr>))"

definition ERROR_LABEL_TOO_LONG :: go_error where "ERROR_LABEL_TOO_LONG = Errno 154"

definition NewRinglogger ::
    "go_error option \<Rightarrow> go_error option \<Rightarrow> u64 \<times> go_error option \<Rightarrow> go_error + logMem \<Rightarrow> string \<Rightarrow> go_error + Ringlogger" where
  "NewRinglogger openErr truncErr mappingRes mapped tagName =
     (if maxTagLength < length tagName then Inl ERROR_LABEL_TOO_LONG
      else case openErr of Some err \<Rightarrow> Inl err | None \<Rightarrow>
      case truncErr of Some err \<Rightarrow> Inl err | None \<Rightarrow>
      (let (mappingHandle, mapErr) = mappingRes in
      case mapErr of
        Some err \<Rightarrow> if err = ERROR_ALREADY_EXISTS
          then rbind (newRingloggerFromMappingHandle mapped mappingHandle tagName True) (\<lambda>rl. Inr (rl\<lparr>logFile := True\<rparr>))
          else Inl err
      | None \<Rightarrow> rbind (newRingloggerFromMappingHandle mapped mappingHandle tagName True) (\<lambda>rl. Inr (rl\<lparr>logFile := True\<rparr>))))"

definition NewRingloggerFromInheritedMappingHandle :: "(u64 \<Rightarrow> go_error + logMem) \<Rightarrow> string \<Rightarrow> string \<Rightarrow> go_error + Ringlogger" where
  "NewRingloggerFromInheritedMappingHandle map_view handleStr tagName =
     rbind (strconv_ParseUint handleStr 64) (\<lambda>handle. newRingloggerFromMappingHandle (map_view (of_nat handle)) (of_nat handle) tagName False)"

section \<open>Writing\<close>

text \<open>\<open>copy(dst[off:], src)\<close>.\<close>

definition copy_at :: "nat \<Rightarrow> bytes \<Rightarrow> bytes \<Rightarrow> bytes" where
  "copy_at off src dst = take off dst @ take (length dst - off) src @ drop (off + length src) dst"

definition fillLine :: "string \<Rightarrow> bytes \<Rightarrow> bytes \<Rightarrow> bytes" where
  "fillLine tagName p buf =
     (let buf = map (\<lambda>_. CHR 0x00) buf;
          textLen = 3 + length p + length tagName;
          (p, textLen) = (if maxLogLineLength - 1 < textLen
             then (take (maxLogLineLength - 1 - 3 - length tagName) p, maxLogLineLength - 1) else (p, textLen));
          buf = buf[textLen := CHR 0x00];
          buf = buf[0 := CHR 0x00];
          buf = copy_at 1 tagName buf;
          buf = buf[1 + length tagName := CHR '']''];
          buf = buf[2 + length tagName := CHR '' ''];
          buf = copy_at (3 + length tagName) p buf
      in buf[0 := CHR ''[''])"

definition appendLine :: "string \<Rightarrow> bytes \<Rightarrow> int \<Rightarrow> logMem \<Rightarrow> logMem" where
  "appendLine tagName p ts m =
     (let m = m\<lparr>nextIndex := nextIndex m + 1\<rparr>;
          index = nextIndex m - 1;
          slot = unat index mod maxLines;
          l = lines m ! slot
      in m\<lparr>lines := (lines m)[slot := \<lparr>timeNs = ts, line = fillLine tagName p (line l)\<rparr>]\<rparr>)"

definition WriteWithTimestamp :: "Ringlogger \<Rightarrow> bytes \<Rightarrow> int \<Rightarrow> (go_error + nat) \<times> Ringlogger" where
  "WriteWithTimestamp rl p ts =
     (if readOnly rl then (Inl (ErrorString ''short write''), rl)
      else if strings_TrimSpace p = [] then (Inr (length p), rl)
      else case log rl of
        None \<Rightarrow> (Inl EOF, rl)
      | Some m \<Rightarrow> (Inr (length p), rl\<lparr>log := Some (appendLine (tag rl) (strings_TrimSpace p) ts m)\<rparr>))"

section \<open>Reading\<close>

text \<open>\<open>line.line[:index]\<close> for the position \<open>index\<close> of the first zero byte; None where \<open>index < 1\<close>.\<close>

definition lineText :: "logLine \<Rightarrow> string option" where
  "lineText l = (case strings_IndexByte (line l) (CHR 0x00) of None \<Rightarrow> None
     | Some index \<Rightarrow> if index < 1 then None else Some (take index (line l)))"

text \<open>
  \<open>WriteTo\<close> prints to a writer that may fail; the writer and the formatting of the time are the argument \<open>emit\<close>, which
  returns the number of bytes written.
\<close>

fun writeToLoop :: "(int \<Rightarrow> string \<Rightarrow> 's \<Rightarrow> (go_error + nat) \<times> 's) \<Rightarrow> logMem \<Rightarrow> u32 \<Rightarrow> nat list \<Rightarrow> nat \<Rightarrow> 's \<Rightarrow> nat \<times> go_error option \<times> 's" where
  "writeToLoop emit m i [] n s = (n, None, s)"
| "writeToLoop emit m i (l # ls) n s =
     (let x = lines m ! (unat (i + of_nat l) mod maxLines) in
      if timeNs x = 0 then writeToLoop emit m i ls n s
      else case lineText x of
        None \<Rightarrow> writeToLoop emit m i ls n s
      | Some t \<Rightarrow>
          case emit (timeNs x) t s of
            (Inl err, s) \<Rightarrow> (n, Some err, s)
          | (Inr k, s) \<Rightarrow> writeToLoop emit m i ls (n + k) s)"

definition WriteTo :: "(int \<Rightarrow> string \<Rightarrow> 's \<Rightarrow> (go_error + nat) \<times> 's) \<Rightarrow> Ringlogger \<Rightarrow> 's \<Rightarrow> nat \<times> go_error option \<times> 's" where
  "WriteTo emit rl s =
     (case log rl of None \<Rightarrow> (0, Some EOF, s) | Some m \<Rightarrow> writeToLoop emit m (nextIndex m) [0..<maxLines] 0 s)"

definition CursorAll :: u32 where "CursorAll = -1"

type_synonym FollowLine = "int \<times> string"

fun followLoop :: "nat \<Rightarrow> logMem \<Rightarrow> u32 \<Rightarrow> u32 \<Rightarrow> FollowLine list \<Rightarrow> u32 \<Rightarrow> FollowLine list \<times> u32" where
  "followLoop 0 m cursor i followLines nextCursor = (followLines, nextCursor)"
| "followLoop (Suc n) m cursor i followLines nextCursor =
     (let x = lines m ! (unat i mod maxLines) in
      if cursor \<noteq> CursorAll \<and> unat i mod maxLines = unat (nextIndex m) mod maxLines then (followLines, nextCursor)
      else if timeNs x = 0 then
        (if cursor = CursorAll then followLoop n m cursor (i + 1) followLines nextCursor else (followLines, nextCursor))
      else followLoop n m cursor (i + 1)
        (case lineText x of None \<Rightarrow> followLines | Some t \<Rightarrow> followLines @ [(timeNs x, t)])
        (of_nat (unat (i + 1) mod maxLines)))"

definition FollowFromCursor :: "Ringlogger \<Rightarrow> u32 \<Rightarrow> FollowLine list \<times> u32" where
  "FollowFromCursor rl cursor =
     (case log rl of None \<Rightarrow> ([], cursor)
      | Some m \<Rightarrow> followLoop maxLines m cursor (if cursor = CursorAll then nextIndex m else cursor) [] cursor)"

definition ring_Close :: "Ringlogger \<Rightarrow> Ringlogger" where
  "ring_Close rl = rl\<lparr>logFile := False, log := None, mapping := 0\<rparr>"

section \<open>The ring as a list\<close>

text \<open>The slots from the oldest to the newest.\<close>

definition ring :: "logMem \<Rightarrow> logLine list" where
  "ring m = rotate (unat (nextIndex m)) (lines m)"

definition log_entries :: "logMem \<Rightarrow> FollowLine list" where
  "log_entries m = map (\<lambda>l. (timeNs l, the (lineText l))) (filter (\<lambda>l. timeNs l \<noteq> 0) (ring m))"

text \<open>The ring holds 2048 lines of 512 bytes; the unused ones come first, the used ones have a text.\<close>

definition ring_ok :: "logMem \<Rightarrow> bool" where
  "ring_ok m \<longleftrightarrow> length (lines m) = maxLines \<and> (\<forall>l\<in>set (lines m). length (line l) = maxLogLineLength) \<and>
     (\<exists>es fs. ring m = es @ fs \<and> (\<forall>l\<in>set es. timeNs l = 0) \<and> (\<forall>l\<in>set fs. timeNs l \<noteq> 0 \<and> lineText l \<noteq> None))"

text \<open>What a line shows of a write: the tag and the trimmed text, cut to 511 bytes and at the first zero byte.\<close>

definition shown :: "string \<Rightarrow> bytes \<Rightarrow> string" where
  "shown tagName p = takeWhile (\<lambda>c. c \<noteq> CHR 0x00) (take 511 (''['' @ tagName @ ''] '' @ p))"

definition keep_last :: "nat \<Rightarrow> 'a list \<Rightarrow> 'a list" where
  "keep_last n xs = drop (length xs - n) xs"

lemma rotate_update:
  assumes "xs \<noteq> []"
  shows "rotate (Suc k) (xs[k mod length xs := y]) = tl (rotate k xs) @ [y]"
proof -
  let ?i = "k mod length xs"
  have i: "?i < length xs" using assms by simp
  have "rotate k (xs[?i := y]) = y # tl (rotate k xs)"
    using i by (simp add: rotate_drop_take drop_update_swap [symmetric] Cons_nth_drop_Suc [symmetric] take_update_cancel)
  then have "rotate1 (rotate k (xs[?i := y])) = tl (rotate k xs) @ [y]" by simp
  then show ?thesis by simp
qed

lemma unat_Suc_mod: "unat (n + 1 :: u32) mod maxLines = Suc (unat n) mod maxLines"
proof -
  have "unat (n + 1) mod maxLines = (unat n + 1) mod 2 ^ 32 mod 2048" by (simp add: unat_word_ariths maxLines_def)
  also have "\<dots> = (unat n + 1) mod 2048" by (rule mod_mod_cancel) simp
  finally show ?thesis by (simp add: maxLines_def)
qed

lemma IndexByte_takeWhile: "c \<in> set s \<Longrightarrow> strings_IndexByte s c = Some (length (takeWhile (\<lambda>x. x \<noteq> c) s))"
  by (induction s) auto

lemma copy_at_zeros:
  "length pre = off \<Longrightarrow> length src \<le> n \<Longrightarrow> copy_at off src (pre @ replicate n z) = pre @ src @ replicate (n - length src) z"
  by (simp add: copy_at_def)

lemma fillLine_text:
  assumes "length buf = maxLogLineLength" "length tagName \<le> maxTagLength"
  shows "\<exists>k>0. fillLine tagName p buf = take 511 (''['' @ tagName @ ''] '' @ p) @ replicate k (CHR 0x00)"
proof -
  let ?z = "CHR 0x00" and ?t = "length tagName"
  define r where "r = 508 - ?t"
  define q where "q = (if 511 < 3 + length p + ?t then take r p else p)"
  have t: "?t \<le> 5" using assms(2) by (simp add: maxTagLength_def)
  then have sums: "510 - ?t = Suc (Suc r)" "511 - ?t = Suc (Suc (Suc r))" "509 - ?t = Suc r" by (simp_all add: r_def)
  have q: "length q \<le> r" using t by (auto simp: q_def r_def)
  have cut: "take 511 (''['' @ tagName @ ''] '' @ p) = ''['' @ tagName @ ''] '' @ q"
    using t by (auto simp: q_def sums r_def)
  have zeros: "map (\<lambda>_. ?z) buf = replicate 512 ?z" using assms(1) by (simp add: map_replicate_const maxLogLineLength_def)
  have upd: "(replicate 512 ?z)[i := ?z] = replicate 512 ?z" for i
    by (metis list_update_id list_update_beyond length_replicate not_le nth_replicate)
  have "replicate 512 ?z = [?z] @ replicate 511 ?z" by (simp add: numeral_eq_Suc)
  then have tagged: "copy_at 1 tagName (replicate 512 ?z) = [?z] @ tagName @ replicate (Suc (Suc (Suc r))) ?z"
    using copy_at_zeros [of "[?z]" 1 tagName 511 ?z] t sums by simp
  have marks: "(([?z] @ tagName @ replicate (Suc (Suc (Suc r))) ?z)[1 + ?t := CHR '']''])[2 + ?t := CHR '' ''] =
      ([?z] @ tagName @ ''] '') @ replicate (Suc r) ?z"
    by (simp add: list_update_append)
  have copied: "copy_at (3 + ?t) q (([?z] @ tagName @ ''] '') @ replicate (Suc r) ?z) =
      ([?z] @ tagName @ ''] '') @ q @ replicate (Suc r - length q) ?z"
    using q by (intro copy_at_zeros) simp_all
  have pair: "(if maxLogLineLength - 1 < 3 + length p + ?t then (take (maxLogLineLength - 1 - 3 - ?t) p, maxLogLineLength - 1)
      else (p, 3 + length p + ?t)) = (q, min 511 (3 + length p + ?t))"
    by (simp add: q_def r_def maxLogLineLength_def)
  have "fillLine tagName p buf = ''['' @ tagName @ ''] '' @ q @ replicate (Suc r - length q) ?z"
    unfolding fillLine_def Let_def pair prod.case zeros upd tagged marks copied by simp
  with cut q show ?thesis by (intro exI [of _ "Suc r - length q"]) simp
qed

lemma lineText_fill:
  assumes "length buf = maxLogLineLength" "length tagName \<le> maxTagLength"
  shows "lineText \<lparr>timeNs = ts, line = fillLine tagName p buf\<rparr> = Some (shown tagName p)"
proof -
  obtain k where k: "0 < k" "fillLine tagName p buf = take 511 (''['' @ tagName @ ''] '' @ p) @ replicate k (CHR 0x00)"
    using fillLine_text [OF assms, of p] by blast
  let ?b = "fillLine tagName p buf"
  have tw: "takeWhile (\<lambda>x. x \<noteq> CHR 0x00) ?b = shown tagName p"
    unfolding k(2) shown_def by (subst takeWhile_append) (use k(1) in \<open>auto simp: takeWhile_eq_all_conv [THEN iffD2] gr0_conv_Suc\<close>)
  moreover have "CHR 0x00 \<in> set ?b" using k by simp
  moreover have "shown tagName p \<noteq> []" by (simp add: shown_def)
  moreover have "take (length (shown tagName p)) ?b = shown tagName p"
    using takeWhile_eq_take [of "\<lambda>x. x \<noteq> CHR 0x00" ?b] by (simp add: tw)
  ultimately show ?thesis by (simp add: lineText_def IndexByte_takeWhile)
qed

lemma length_copy_at [simp]: "length (copy_at off src dst) = length dst"
  by (auto simp: copy_at_def min_def)

lemma length_fillLine: "length (fillLine tagName p buf) = length buf"
  by (simp add: fillLine_def Let_def)

text \<open>A write moves the ring on by one line.\<close>

lemma ring_append:
  assumes "lines m \<noteq> []" "length (lines m) = maxLines"
  shows "ring (appendLine tagName p ts m) =
    tl (ring m) @ [\<lparr>timeNs = ts, line = fillLine tagName p (line (lines m ! (unat (nextIndex m) mod maxLines)))\<rparr>]"
proof -
  have "rotate (unat (nextIndex m + 1)) xs = rotate (Suc (unat (nextIndex m))) xs" if "length xs = maxLines" for xs :: "logLine list"
    using rotate_conv_mod [of "unat (nextIndex m + 1)" xs] rotate_conv_mod [of "Suc (unat (nextIndex m))" xs] that
    by (simp add: unat_Suc_mod)
  then show ?thesis
    using rotate_update [OF assms(1), of "unat (nextIndex m)"] assms(2) by (simp add: ring_def appendLine_def Let_def)
qed

lemma keep_last_snoc:
  assumes "length xs \<le> n" "0 < n"
  shows "keep_last n (xs @ [x]) = (if length xs = n then tl xs else xs) @ [x]"
  using assms by (cases xs) (auto simp: keep_last_def)

lemma set_ring [simp]: "set (ring m) = set (lines m)"
  by (simp add: ring_def)

lemma length_ring [simp]: "length (ring m) = length (lines m)"
  by (simp add: ring_def)

lemma log_entries_split:
  assumes "ring m = es @ fs" "\<forall>l\<in>set es. timeNs l = 0" "\<forall>l\<in>set fs. timeNs l \<noteq> 0"
  shows "log_entries m = map (\<lambda>l. (timeNs l, the (lineText l))) fs"
  using assms by (simp add: log_entries_def)

lemma appendLine_ok:
  assumes "ring_ok m" "ts \<noteq> 0" "length tagName \<le> maxTagLength"
  shows "ring_ok (appendLine tagName p ts m) \<and>
    log_entries (appendLine tagName p ts m) = keep_last maxLines (log_entries m @ [(ts, shown tagName p)])"
proof -
  let ?old = "lines m ! (unat (nextIndex m) mod maxLines)" and ?m = "appendLine tagName p ts m"
  let ?new = "\<lparr>timeNs = ts, line = fillLine tagName p (line ?old)\<rparr>"
  have len: "length (lines m) = maxLines" "0 < maxLines" using assms(1) by (simp_all add: ring_ok_def maxLines_def)
  then have ne: "lines m \<noteq> []" by auto
  have "?old \<in> set (lines m)" using len by (intro nth_mem) simp
  then have old: "length (line ?old) = maxLogLineLength" using assms(1) by (simp add: ring_ok_def)
  obtain es fs where r: "ring m = es @ fs" "\<forall>l\<in>set es. timeNs l = 0" "\<forall>l\<in>set fs. timeNs l \<noteq> 0 \<and> lineText l \<noteq> None"
    using assms(1) by (auto simp: ring_ok_def)
  define es' where "es' = tl es"
  define fs' where "fs' = (if es = [] then tl fs else fs) @ [?new]"
  have r': "ring ?m = es' @ fs'"
    using ring_append [OF ne len(1), of tagName p ts] r(1) by (cases es) (simp_all add: es'_def fs'_def)
  have es': "\<forall>l\<in>set es'. timeNs l = 0" using r(2) by (cases es) (simp_all add: es'_def)
  have new: "lineText ?new = Some (shown tagName p)" by (rule lineText_fill [OF old assms(3)])
  have fs': "\<forall>l\<in>set fs'. timeNs l \<noteq> 0 \<and> lineText l \<noteq> None"
    using r(3) assms(2) new by (cases fs) (auto simp: fs'_def)
  have lines': "lines ?m = (lines m)[unat (nextIndex m) mod maxLines := ?new]" by (simp add: appendLine_def Let_def)
  have "\<forall>l\<in>set (lines ?m). length (line l) = maxLogLineLength"
  proof
    fix l assume "l \<in> set (lines ?m)"
    then have "l \<in> insert ?new (set (lines m))" unfolding lines' using set_update_subset_insert by fast
    then show "length (line l) = maxLogLineLength" using assms(1) old by (auto simp: ring_ok_def length_fillLine)
  qed
  then have "ring_ok ?m" unfolding ring_ok_def using r' es' fs' len by (auto simp: lines')
  moreover have "length es + length fs = maxLines" using r(1) len(1) length_ring [of m] by simp
  then have "keep_last maxLines (log_entries m @ [(ts, shown tagName p)]) = log_entries ?m"
    using keep_last_snoc [of "log_entries m" maxLines "(ts, shown tagName p)"] len(2)
      log_entries_split [OF r(1,2)] log_entries_split [OF r' es'] r(3) fs' new
    by (cases es) (auto simp: fs'_def map_tl)
  ultimately show ?thesis by simp
qed

section \<open>Reading the ring\<close>

lemma unat_add_mod: "unat (i + of_nat l :: u32) mod maxLines = (unat i + l) mod maxLines"
proof -
  have "unat (i + of_nat l) mod maxLines = (unat i + l) mod 2 ^ 32 mod 2048"
    by (simp add: unat_word_ariths unat_of_nat maxLines_def mod_add_right_eq)
  also have "\<dots> = (unat i + l) mod 2048" by (rule mod_mod_cancel) simp
  finally show ?thesis by (simp add: maxLines_def)
qed

lemma ring_nth:
  assumes "length (lines m) = maxLines" "l < maxLines"
  shows "lines m ! ((unat (nextIndex m) + l) mod maxLines) = ring m ! l"
  using assms nth_rotate [of l "lines m" "unat (nextIndex m)"] by (simp add: ring_def)

definition entry :: "logLine \<Rightarrow> FollowLine" where
  "entry l = (timeNs l, the (lineText l))"

definition used :: "logLine list \<Rightarrow> FollowLine list" where
  "used ls = map entry (filter (\<lambda>l. timeNs l \<noteq> 0) ls)"

lemma log_entries_used: "log_entries m = used (ring m)"
  by (simp add: log_entries_def used_def entry_def [abs_def])

lemma used_simps [simp]: "used [] = []" "used (l # ls) = (if timeNs l = 0 then used ls else entry l # used ls)"
  "used (ls @ ls') = used ls @ used ls'"
  by (simp_all add: used_def)

lemma ring_text:
  assumes "ring_ok m" "l \<in> set (ring m)" "timeNs l \<noteq> 0"
  shows "lineText l = Some (snd (entry l))"
proof -
  obtain es fs where "ring m = es @ fs" "\<forall>l\<in>set es. timeNs l = 0" "\<forall>l\<in>set fs. timeNs l \<noteq> 0 \<and> lineText l \<noteq> None"
    using assms(1) by (auto simp: ring_ok_def)
  with assms(2,3) show ?thesis by (auto simp: entry_def)
qed

text \<open>Printing a list of entries to a writer that may fail.\<close>

fun emit_entries :: "(int \<Rightarrow> string \<Rightarrow> 's \<Rightarrow> (go_error + nat) \<times> 's) \<Rightarrow> FollowLine list \<Rightarrow> nat \<Rightarrow> 's \<Rightarrow> nat \<times> go_error option \<times> 's" where
  "emit_entries emit [] n s = (n, None, s)"
| "emit_entries emit ((ts, t) # es) n s =
     (case emit ts t s of (Inl err, s) \<Rightarrow> (n, Some err, s) | (Inr k, s) \<Rightarrow> emit_entries emit es (n + k) s)"

lemma writeToLoop_entries:
  assumes "ring_ok m" "l \<le> maxLines"
  shows "writeToLoop emit m (nextIndex m) [l..<maxLines] n s = emit_entries emit (used (drop l (ring m))) n s"
  using assms(2)
proof (induction "maxLines - l" arbitrary: l n s)
  case (Suc k)
  have len: "length (lines m) = maxLines" using assms(1) by (simp add: ring_ok_def)
  from Suc.hyps(2) have l: "l < maxLines" by simp
  let ?x = "ring m ! l"
  have x: "lines m ! (unat (nextIndex m + of_nat l) mod maxLines) = ?x" using ring_nth [OF len l] by (simp add: unat_add_mod)
  have d: "drop l (ring m) = ?x # drop (Suc l) (ring m)" using l len by (simp add: Cons_nth_drop_Suc)
  have "?x \<in> set (ring m)" using l len by (intro nth_mem) simp
  note t = ring_text [OF assms(1) this]
  have IH: "writeToLoop emit m (nextIndex m) [Suc l..<maxLines] n s = emit_entries emit (used (drop (Suc l) (ring m))) n s" for n s
    using Suc l by (intro Suc.hyps(1)) simp_all
  show ?case
  proof (cases "timeNs ?x = 0")
    case False
    then obtain shown_text where lt: "lineText ?x = Some shown_text" using t by blast
    then have "entry ?x = (timeNs ?x, shown_text)" by (simp add: entry_def)
    with lt False l show ?thesis
      by (cases "emit (timeNs ?x) shown_text s"; cases "fst (emit (timeNs ?x) shown_text s)") (auto simp: upt_conv_Cons x d Let_def IH)
  qed (simp add: upt_conv_Cons l x d Let_def IH)
qed (use assms(1) in \<open>simp add: ring_ok_def\<close>)

lemma followLoop_all:
  assumes "ring_ok m" "l \<le> maxLines"
  shows "followLoop (maxLines - l) m CursorAll (nextIndex m + of_nat l) acc c =
    (acc @ used (drop l (ring m)), if used (drop l (ring m)) = [] then c else of_nat (unat (nextIndex m) mod maxLines))"
  using assms(2)
proof (induction "maxLines - l" arbitrary: l acc c)
  case (Suc k)
  have len: "length (lines m) = maxLines" using assms(1) by (simp add: ring_ok_def)
  from Suc.hyps(2) have l: "l < maxLines" by simp
  let ?x = "ring m ! l"
  have x: "lines m ! (unat (nextIndex m + of_nat l) mod maxLines) = ?x" using ring_nth [OF len l] by (simp add: unat_add_mod)
  have d: "drop l (ring m) = ?x # drop (Suc l) (ring m)" using l len by (simp add: Cons_nth_drop_Suc)
  have "?x \<in> set (ring m)" using l len by (intro nth_mem) simp
  note t = ring_text [OF assms(1) this]
  have IH: "followLoop k m CursorAll (nextIndex m + of_nat (Suc l)) acc c =
      (acc @ used (drop (Suc l) (ring m)), if used (drop (Suc l) (ring m)) = [] then c else of_nat (unat (nextIndex m) mod maxLines))" for acc c
  proof -
    have "k = maxLines - Suc l" using Suc.hyps(2) by simp
    then show ?thesis using Suc.hyps(1) [of "Suc l" acc c] l by simp
  qed
  have step: "nextIndex m + of_nat l + 1 = nextIndex m + of_nat (Suc l)" by (simp add: algebra_simps)
  have k: "maxLines - l = Suc k" using Suc.hyps(2) by simp
  show ?case
  proof (cases "timeNs ?x = 0")
    case True
    then show ?thesis unfolding k by (simp add: x d Let_def step IH del: of_nat_Suc)
  next
    case False
    have last: "of_nat (unat (nextIndex m + of_nat (Suc l)) mod maxLines) = (of_nat (unat (nextIndex m) mod maxLines) :: u32)"
      if "used (drop (Suc l) (ring m)) = []"
    proof -
      have "drop (Suc l) (ring m) = []"
      proof (rule ccontr)
        assume ne: "drop (Suc l) (ring m) \<noteq> []"
        obtain es fs where r: "ring m = es @ fs" "\<forall>l\<in>set es. timeNs l = 0" "\<forall>l\<in>set fs. timeNs l \<noteq> 0 \<and> lineText l \<noteq> None"
          using assms(1) by (auto simp: ring_ok_def)
        have "length es \<le> l"
        proof (rule ccontr)
          assume "\<not> length es \<le> l"
          then have "?x \<in> set es" using r(1) by (simp add: nth_append)
          with r(2) False show False by simp
        qed
        then have "drop (Suc l) (ring m) = drop (Suc l - length es) fs" using r(1) by simp
        then have "set (drop (Suc l) (ring m)) \<subseteq> set fs" by (metis set_drop_subset)
        with r(3) that have "drop (Suc l) (ring m) = []" by (cases "drop (Suc l) (ring m)") (auto split: if_splits)
        with ne show False ..
      qed
      then have "Suc l = maxLines" using l len by simp
      then show ?thesis unfolding unat_add_mod by simp
    qed
    obtain shown_text where lt: "lineText ?x = Some shown_text" using t [OF False] by blast
    then have "entry ?x = (timeNs ?x, shown_text)" by (simp add: entry_def)
    then show ?thesis using False lt last unfolding k by (simp add: x d Let_def step IH del: of_nat_Suc)
  qed
qed (use assms(1) in \<open>simp add: ring_ok_def\<close>)

lemma unat_cursor: "unat c < maxLines \<Longrightarrow> c \<noteq> CursorAll"
  by (auto simp: CursorAll_def maxLines_def unsigned_minus_1_eq_mask mask_eq_exp_minus_1)

lemma followLoop_cursor:
  assumes "ring_ok m" "ring m = old @ new" "length new < maxLines" "\<forall>l\<in>set new. timeNs l \<noteq> 0"
    and "unat c < maxLines" "(unat c + length new) mod maxLines = unat (nextIndex m) mod maxLines" "j \<le> length new"
  shows "followLoop (maxLines - j) m c (c + of_nat j) acc nc =
    (acc @ used (drop j new), if drop j new = [] then nc else of_nat (unat (nextIndex m) mod maxLines))"
  using assms(7)
proof (induction "length new - j" arbitrary: j acc nc)
  case 0
  then have "j = length new" by simp
  then obtain n where "maxLines - j = Suc n" using assms(3) by (metis Suc_diff_Suc)
  with \<open>j = length new\<close> show ?case
    using assms(6) unat_cursor [OF assms(5)] by (simp add: unat_add_mod Let_def)
next
  case (Suc k)
  have len: "length (lines m) = maxLines" using assms(1) by (simp add: ring_ok_def)
  then have total: "length old + length new = maxLines" using assms(2) length_ring [of m] by simp
  from Suc.hyps(2) have j: "j < length new" by simp
  let ?x = "new ! j"
  have pos: "unat (c + of_nat j) mod maxLines = (unat (nextIndex m) + (length old + j)) mod maxLines"
  proof -
    have "(unat (nextIndex m) + (length old + j)) mod maxLines = (unat (nextIndex m) mod maxLines + (length old + j)) mod maxLines"
      by (simp add: mod_add_left_eq)
    also have "\<dots> = (unat c + length new + (length old + j)) mod maxLines"
      unfolding assms(6) [symmetric] by (simp add: mod_add_left_eq)
    also have "unat c + length new + (length old + j) = unat c + j + maxLines" using total by simp
    finally show ?thesis by (simp add: unat_add_mod)
  qed
  have x: "lines m ! (unat (c + of_nat j) mod maxLines) = ?x"
    unfolding pos using ring_nth [OF len, of "length old + j"] assms(2) total j by (simp add: nth_append)
  have other: "unat (c + of_nat j) mod maxLines \<noteq> unat (nextIndex m) mod maxLines"
  proof
    assume "unat (c + of_nat j) mod maxLines = unat (nextIndex m) mod maxLines"
    then have "(unat c + length new) mod maxLines = (unat c + j) mod maxLines" using assms(6) by (simp add: unat_add_mod)
    then have "maxLines dvd length new - j" using j mod_eq_dvd_iff_nat [of "unat c + j" "unat c + length new" maxLines] by simp
    with j assms(3) show False by (auto dest: dvd_imp_le)
  qed
  have d: "drop j new = ?x # drop (Suc j) new" using j by (simp add: Cons_nth_drop_Suc)
  have xr: "?x \<in> set (ring m)" "timeNs ?x \<noteq> 0" using assms(2,4) j by simp_all
  then obtain shown_text where lt: "lineText ?x = Some shown_text" using ring_text [OF assms(1)] by blast
  then have e: "entry ?x = (timeNs ?x, shown_text)" by (simp add: entry_def)
  obtain n where n: "maxLines - j = Suc n" "n = maxLines - Suc j" using j assms(3) by (metis Suc_diff_Suc less_trans)
  have step: "c + of_nat j + 1 = c + of_nat (Suc j)" by (simp add: algebra_simps)
  have IH: "followLoop n m c (c + of_nat (Suc j)) acc nc =
      (acc @ used (drop (Suc j) new), if drop (Suc j) new = [] then nc else of_nat (unat (nextIndex m) mod maxLines))" for acc nc
    unfolding n(2) using Suc.hyps j by (intro Suc.hyps(1)) simp_all
  have fin: "unat (c + of_nat (Suc j)) mod maxLines = unat (nextIndex m) mod maxLines" if "drop (Suc j) new = []"
  proof -
    have "Suc j = length new" using j that by simp
    then show ?thesis unfolding unat_add_mod using assms(6) by simp
  qed
  show ?case
    unfolding n(1) using other unat_cursor [OF assms(5)] xr(2) lt e fin
    by (simp add: x d Let_def step IH del: of_nat_Suc)
qed

section \<open>Histories\<close>

definition writes :: "Ringlogger \<Rightarrow> (bytes \<times> int) list \<Rightarrow> Ringlogger" where
  "writes rl ws = foldl (\<lambda>rl (p, ts). snd (WriteWithTimestamp rl p ts)) rl ws"

text \<open>The abstract log: what the writes add to it.\<close>

definition log_lines :: "string \<Rightarrow> (bytes \<times> int) list \<Rightarrow> FollowLine list" where
  "log_lines tagName ws = map (\<lambda>(p, ts). (ts, shown tagName (strings_TrimSpace p))) (filter (\<lambda>(p, ts). strings_TrimSpace p \<noteq> []) ws)"

definition opened :: "Ringlogger \<Rightarrow> logMem \<Rightarrow> bool" where
  "opened rl m \<longleftrightarrow> log rl = Some m \<and> \<not> readOnly rl \<and> length (tag rl) \<le> maxTagLength \<and> ring_ok m"

lemma keep_last_append: "keep_last n (keep_last n xs @ ys) = keep_last n (xs @ ys)"
  by (cases "length xs \<le> n") (auto simp: keep_last_def add.commute)

lemma ring_push:
  assumes "ring_ok m" "length tagName \<le> maxTagLength" "ts \<noteq> 0"
  obtains x where "ring (appendLine tagName p ts m) = keep_last maxLines (ring m @ [x])" "timeNs x \<noteq> 0" "entry x = (ts, shown tagName p)"
proof -
  let ?old = "lines m ! (unat (nextIndex m) mod maxLines)"
  have len: "length (lines m) = maxLines" "0 < maxLines" using assms(1) by (simp_all add: ring_ok_def maxLines_def)
  then have ne: "lines m \<noteq> []" by auto
  have "?old \<in> set (lines m)" using len by (intro nth_mem) simp
  then have old: "length (line ?old) = maxLogLineLength" using assms(1) by (simp add: ring_ok_def)
  show thesis
  proof (rule that)
    show "ring (appendLine tagName p ts m) = keep_last maxLines (ring m @ [\<lparr>timeNs = ts, line = fillLine tagName p (line ?old)\<rparr>])"
      using keep_last_snoc [of "ring m" maxLines] ring_append [OF ne len(1)] len by simp
  qed (use assms(3) lineText_fill [OF old assms(2), of ts p] in \<open>simp_all add: entry_def\<close>)
qed

lemma writes_ok:
  assumes "opened rl m" "\<forall>(p, ts)\<in>set ws. ts \<noteq> 0"
  shows "\<exists>m' nl. opened (writes rl ws) m' \<and> tag (writes rl ws) = tag rl \<and> (\<forall>l\<in>set nl. timeNs l \<noteq> 0) \<and>
    map entry nl = log_lines (tag rl) ws \<and> ring m' = keep_last maxLines (ring m @ nl) \<and> nextIndex m' = nextIndex m + of_nat (length nl)"
  using assms
proof (induction ws arbitrary: rl m)
  case Nil
  then have "length (ring m) = maxLines" by (simp add: opened_def ring_ok_def)
  with Nil show ?case by (intro exI [of _ m] exI [of _ "[]"]) (simp add: writes_def log_lines_def keep_last_def)
next
  case (Cons w ws)
  obtain p ts where w: "w = (p, ts)" by fastforce
  have ts: "ts \<noteq> 0" "\<forall>(p, ts)\<in>set ws. ts \<noteq> 0" using Cons.prems(2) w by auto
  show ?case
  proof (cases "strings_TrimSpace p = []")
    case True
    then have "snd (WriteWithTimestamp rl p ts) = rl" by (simp add: WriteWithTimestamp_def)
    then have "writes rl (w # ws) = writes rl ws" "log_lines (tag rl) (w # ws) = log_lines (tag rl) ws"
      using True by (simp_all add: writes_def log_lines_def w)
    with Cons.IH [OF Cons.prems(1) ts(2)] show ?thesis by simp
  next
    case False
    let ?p = "strings_TrimSpace p" and ?m = "appendLine (tag rl) (strings_TrimSpace p) ts m"
    have o: "log rl = Some m" "\<not> readOnly rl" "length (tag rl) \<le> maxTagLength" "ring_ok m" using Cons.prems(1) by (simp_all add: opened_def)
    define rl1 where "rl1 = rl\<lparr>log := Some ?m\<rparr>"
    have rl1: "snd (WriteWithTimestamp rl p ts) = rl1" using o False by (simp add: WriteWithTimestamp_def rl1_def)
    have "opened rl1 ?m" using o appendLine_ok [OF o(4) ts(1) o(3)] by (simp add: opened_def rl1_def)
    from Cons.IH [OF this ts(2)] obtain m' nl where m': "opened (writes rl1 ws) m'" "tag (writes rl1 ws) = tag rl1" "\<forall>l\<in>set nl. timeNs l \<noteq> 0"
      "map entry nl = log_lines (tag rl1) ws" "ring m' = keep_last maxLines (ring ?m @ nl)" "nextIndex m' = nextIndex ?m + of_nat (length nl)" by blast
    obtain x where x: "ring ?m = keep_last maxLines (ring m @ [x])" "timeNs x \<noteq> 0" "entry x = (ts, shown (tag rl) ?p)"
      by (rule ring_push [OF o(4,3) ts(1)])
    have "writes rl (w # ws) = writes rl1 ws" by (simp add: writes_def w rl1)
    moreover have "log_lines (tag rl) (w # ws) = entry x # log_lines (tag rl1) ws" using False x(3) by (simp add: log_lines_def w rl1_def)
    moreover have "nextIndex ?m = nextIndex m + 1" by (simp add: appendLine_def Let_def)
    ultimately show ?thesis
      using m' x(2) keep_last_append [of maxLines "ring m @ [x]" nl]
      by (intro exI [of _ m'] exI [of _ "x # nl"]) (simp add: x(1) rl1_def)
  qed
qed

lemma used_keep_last:
  assumes "ring_ok m" "\<forall>l\<in>set nl. timeNs l \<noteq> 0"
  shows "used (keep_last maxLines (ring m @ nl)) = keep_last maxLines (log_entries m @ map entry nl)"
proof -
  obtain es fs where r: "ring m = es @ fs" "\<forall>l\<in>set es. timeNs l = 0" "\<forall>l\<in>set fs. timeNs l \<noteq> 0 \<and> lineText l \<noteq> None"
    using assms(1) by (auto simp: ring_ok_def)
  have all: "used ls = map entry ls" if "\<forall>l\<in>set ls. timeNs l \<noteq> 0" for ls using that by (simp add: used_def)
  have none: "used es = []" using r(2) by (simp add: used_def)
  have fs: "used fs = map entry fs" using r(3) by (intro all) simp
  have "length es + length fs = maxLines" using assms(1) r(1) length_ring [of m] by (simp add: ring_ok_def)
  then have k: "length (ring m @ nl) - maxLines = length nl" "length (fs @ nl) - maxLines = length nl - length es" by (simp_all add: r(1))
  have "used (drop (length nl) es) = []" using r(2) by (auto simp: used_def filter_empty_conv dest: in_set_dropD)
  then have "used (keep_last maxLines (ring m @ nl)) = used (drop (length nl - length es) (fs @ nl))"
    unfolding keep_last_def k(1) by (simp add: r(1))
  also have "\<dots> = map entry (drop (length nl - length es) (fs @ nl))"
    using r(3) assms(2) by (intro all) (auto dest: in_set_dropD)
  also have "\<dots> = keep_last maxLines (map entry (fs @ nl))" unfolding keep_last_def using k(2) by (simp only: drop_map length_map)
  finally show ?thesis using none fs by (simp add: log_entries_used r(1))
qed

text \<open>C12. The ring is a list that keeps its last 2048 entries: whatever was written, with any lengths and blank writes in between and also
  past the wrap-around of the 32-bit index, \<open>WriteTo\<close> prints and \<open>FollowFromCursor(CursorAll)\<close> returns exactly the
  entries before the writes followed by one entry per non-blank write, cut to the last 2048.\<close>

theorem Ringlogger_refines_list:
  assumes "opened rl m" "\<forall>(p, ts)\<in>set ws. ts \<noteq> 0"
  defines "es \<equiv> keep_last maxLines (log_entries m @ log_lines (tag rl) ws)"
  shows "WriteTo emit (writes rl ws) s = emit_entries emit es 0 s \<and> fst (FollowFromCursor (writes rl ws) CursorAll) = es"
proof -
  obtain m' nl where m': "opened (writes rl ws) m'" "\<forall>l\<in>set nl. timeNs l \<noteq> 0" "map entry nl = log_lines (tag rl) ws"
    "ring m' = keep_last maxLines (ring m @ nl)" using writes_ok [OF assms(1,2)] by blast
  have ok: "ring_ok m" "ring_ok m'" "log (writes rl ws) = Some m'" using assms(1) m'(1) by (simp_all add: opened_def)
  have es: "used (ring m') = es" using used_keep_last [OF ok(1) m'(2)] m'(3,4) by (simp add: es_def)
  show ?thesis
    using writeToLoop_entries [OF ok(2), of 0 emit 0 s] followLoop_all [OF ok(2), of 0 "[]" CursorAll] es
    by (simp add: WriteTo_def FollowFromCursor_def ok(3))
qed

text \<open>A cursor that has seen everything.\<close>

definition caught_up :: "Ringlogger \<Rightarrow> u32 \<Rightarrow> bool" where
  "caught_up rl c \<longleftrightarrow> (\<exists>m. log rl = Some m \<and>
     (if c = CursorAll then log_entries m = [] else unat c = unat (nextIndex m) mod maxLines))"

lemma caught_up_next:
  "log rl = Some m \<Longrightarrow> caught_up rl (of_nat (unat (nextIndex m) mod maxLines))"
proof -
  assume "log rl = Some m"
  moreover have "unat (of_nat (unat (nextIndex m) mod maxLines) :: u32) = unat (nextIndex m) mod maxLines"
    by (simp add: unat_of_nat maxLines_def)
  moreover from this have "of_nat (unat (nextIndex m) mod maxLines) \<noteq> CursorAll" by (intro unat_cursor) (simp add: maxLines_def)
  ultimately show ?thesis by (simp add: caught_up_def)
qed

text \<open>C40. A reader that follows the log sees every entry exactly once and in order: from a cursor that has seen everything, the next
  call returns precisely the entries written since, if these are fewer than 2048, and a cursor that has seen
  everything again.\<close>

theorem FollowFromCursor_exactly_once:
  assumes "opened rl m" "caught_up rl c" "\<forall>(p, ts)\<in>set ws. ts \<noteq> 0" "length (log_lines (tag rl) ws) < maxLines"
  shows "\<exists>c'. FollowFromCursor (writes rl ws) c = (log_lines (tag rl) ws, c') \<and> caught_up (writes rl ws) c'"
proof -
  obtain m' nl where m': "opened (writes rl ws) m'" "\<forall>l\<in>set nl. timeNs l \<noteq> 0" "map entry nl = log_lines (tag rl) ws"
    "ring m' = keep_last maxLines (ring m @ nl)" "nextIndex m' = nextIndex m + of_nat (length nl)" using writes_ok [OF assms(1,3)] by blast
  have ok: "ring_ok m" "ring_ok m'" "log rl = Some m" "log (writes rl ws) = Some m'" using assms(1) m'(1) by (simp_all add: opened_def)
  have nl: "length nl < maxLines" "used nl = log_lines (tag rl) ws" using m'(2) assms(4) by (simp_all add: used_def flip: m'(3))
  show ?thesis
  proof (cases "c = CursorAll")
    case True
    have "used (ring m') = log_lines (tag rl) ws"
      using used_keep_last [OF ok(1) m'(2)] m'(3,4) assms(2,4) True ok(3) by (simp add: caught_up_def keep_last_def)
    then show ?thesis
      using followLoop_all [OF ok(2), of 0 "[]" CursorAll] caught_up_next [OF ok(4)] True
      by (auto simp: FollowFromCursor_def ok(4) caught_up_def log_entries_used)
  next
    case False
    have c: "unat c = unat (nextIndex m) mod maxLines" using assms(2) False ok(3) by (simp add: caught_up_def)
    then have small: "unat c < maxLines" by (simp add: maxLines_def)
    have "length (ring m) = maxLines" using ok(1) by (simp add: ring_ok_def)
    then have split: "ring m' = drop (length nl) (ring m) @ nl" using m'(4) nl(1) by (simp add: keep_last_def)
    have pos: "(unat c + length nl) mod maxLines = unat (nextIndex m') mod maxLines"
      unfolding m'(5) unat_add_mod c by (simp add: mod_add_left_eq)
    note loop = followLoop_cursor [OF ok(2) split nl(1) m'(2) small pos, of 0 "[]" c]
    have "caught_up (writes rl ws) c" if "nl = []" using that c m'(5) False ok(4) by (simp add: caught_up_def)
    then show ?thesis using loop nl(2) False caught_up_next [OF ok(4)] by (auto simp: FollowFromCursor_def ok(4))
  qed
qed

section \<open>A fresh log\<close>

definition fresh_logger :: Ringlogger where
  "fresh_logger = \<lparr>tag = ''TUN'', logFile = True, mapping = 64, log = Some (zeroMem\<lparr>log_magic := logMagic\<rparr>), readOnly = False\<rparr>"

lemma NewRinglogger_fresh: "NewRinglogger None None (64, None) (Inr zeroMem) ''TUN'' = Inr fresh_logger"
  by (simp add: NewRinglogger_def newRingloggerFromMappingHandle_def maxTagLength_def fresh_logger_def zeroMem_def logMagic_def)

lemma fresh_opened: "opened fresh_logger (zeroMem\<lparr>log_magic := logMagic\<rparr>)" "log_entries (zeroMem\<lparr>log_magic := logMagic\<rparr>) = []"
proof -
  let ?m = "zeroMem\<lparr>log_magic := logMagic\<rparr>"
  have r: "ring ?m = replicate maxLines zeroLine @ []" by (simp add: ring_def zeroMem_def)
  have z: "timeNs zeroLine = 0" "length (line zeroLine) = maxLogLineLength" by (simp_all add: zeroLine_def)
  have "\<exists>es fs. ring ?m = es @ fs \<and> (\<forall>l\<in>set es. timeNs l = 0) \<and> (\<forall>l\<in>set fs. timeNs l \<noteq> 0 \<and> lineText l \<noteq> None)"
    by (intro exI conjI, rule r) (simp_all add: z)
  then have "ring_ok ?m" unfolding ring_ok_def by (simp add: zeroMem_def z)
  then show "opened fresh_logger ?m" by (simp add: opened_def fresh_logger_def maxTagLength_def)
  show "log_entries ?m = []" using r by (simp add: log_entries_def z)
qed

lemma sample_lines: "log_lines ''TUN'' [(''Starting'', 5), ('' '', 6), (''up'', 7)] = [(5, ''[TUN] Starting''), (7, ''[TUN] up'')]"
  by code_simp

theorem Ringlogger_refines_list_witness:
  "fst (FollowFromCursor (writes fresh_logger [(''Starting'', 5), ('' '', 6), (''up'', 7)]) CursorAll) =
     [(5, ''[TUN] Starting''), (7, ''[TUN] up'')]"
  using Ringlogger_refines_list [OF fresh_opened(1), of "[(''Starting'', 5), ('' '', 6), (''up'', 7)]" "\<lambda>ts t s. (Inr 0, s)" "()"] sample_lines
  by (simp add: fresh_opened(2) keep_last_def maxLines_def fresh_logger_def)

theorem FollowFromCursor_exactly_once_witness:
  "fst (FollowFromCursor (writes fresh_logger [(''Starting'', 5), ('' '', 6), (''up'', 7)]) CursorAll) =
     [(5, ''[TUN] Starting''), (7, ''[TUN] up'')] \<and> caught_up fresh_logger CursorAll"
proof -
  have "caught_up fresh_logger CursorAll" using fresh_opened by (simp add: caught_up_def opened_def)
  moreover have "tag fresh_logger = ''TUN''" by (simp add: fresh_logger_def)
  ultimately show ?thesis
    using FollowFromCursor_exactly_once [OF fresh_opened(1), of CursorAll "[(''Starting'', 5), ('' '', 6), (''up'', 7)]"] sample_lines
    by (auto simp: maxLines_def)
qed

end
