(* ===== verification/GoPath.thy ===== *)
theory GoPath
  imports GoStrings
begin

text \<open>
  Go's \<open>path/filepath\<close> on Windows, as far as the program uses it: \<open>VolumeName\<close>, \<open>IsAbs\<close>, \<open>Base\<close>, \<open>Ext\<close>, \<open>Dir\<close>,
  \<open>Clean\<close> and \<open>Join\<close>. For a directory on a drive (\<open>local_dir\<close>) and a plain file name, \<open>Join\<close> only puts a separator
  between them, and \<open>Base\<close> and \<open>Dir\<close> take the result apart again.
\<close>

definition sep :: char where "sep = CHR 0x5C"

definition is_sep :: "char \<Rightarrow> bool" where
  "is_sep c \<longleftrightarrow> c = sep \<or> c = CHR ''/''"

definition filepath_FromSlash :: "string \<Rightarrow> string" where
  "filepath_FromSlash path = map (\<lambda>c. if c = CHR ''/'' then sep else c) path"

definition filepath_ToSlash :: "string \<Rightarrow> string" where
  "filepath_ToSlash path = map (\<lambda>c. if c = sep then CHR ''/'' else c) path"

definition filepath_Ext :: "string \<Rightarrow> string" where
  "filepath_Ext path =
     (let t = takeWhile (\<lambda>c. \<not> is_sep c) (rev path) in
      if CHR ''.'' \<in> set t then CHR ''.'' # rev (takeWhile (\<lambda>c. c \<noteq> CHR ''.'') t) else [])"

section \<open>Volumes\<close>

definition pathHasPrefixFold :: "string \<Rightarrow> string \<Rightarrow> bool" where
  "pathHasPrefixFold s p \<longleftrightarrow> length p \<le> length s \<and>
     list_all2 (\<lambda>c d. if is_sep d then is_sep c else lower_ascii c = lower_ascii d) (take (length p) s) p \<and>
     (length p < length s \<longrightarrow> is_sep (s ! length p))"

fun uncEnd :: "nat \<Rightarrow> string \<Rightarrow> nat" where
  "uncEnd count [] = 0"
| "uncEnd count (c # s) = (if is_sep c then if count = 1 then 0 else Suc (uncEnd (Suc count) s) else Suc (uncEnd count s))"

definition uncLen :: "string \<Rightarrow> nat \<Rightarrow> nat" where
  "uncLen path prefixLen = (if length path \<le> prefixLen then length path else prefixLen + uncEnd 0 (drop prefixLen path))"

definition volumeNameLen :: "string \<Rightarrow> nat" where
  "volumeNameLen path =
     (if 2 \<le> length path \<and> path ! 1 = CHR '':'' then 2
      else if path = [] \<or> \<not> is_sep (hd path) then 0
      else if pathHasPrefixFold path ([sep, sep, CHR ''.'', sep] @ ''UNC'') then uncLen path 8
      else if pathHasPrefixFold path [sep, sep, CHR ''.''] \<or> pathHasPrefixFold path [sep, sep, CHR ''?''] \<or>
          pathHasPrefixFold path [sep, CHR ''?'', CHR ''?''] then
        (if length path = 3 then 3 else 4 + length (takeWhile (\<lambda>c. \<not> is_sep c) (drop 4 path)))
      else if 2 \<le> length path \<and> is_sep (path ! 1) then uncLen path 2
      else 0)"

definition filepath_VolumeName :: "string \<Rightarrow> string" where
  "filepath_VolumeName path = filepath_FromSlash (take (volumeNameLen path) path)"

definition filepath_IsAbs :: "string \<Rightarrow> bool" where
  "filepath_IsAbs path =
     (let l = volumeNameLen path in
      if l = 0 then False
      else if is_sep (path ! 0) \<and> is_sep (path ! 1) then True
      else drop l path \<noteq> [] \<and> is_sep (hd (drop l path)))"

definition filepath_Base :: "string \<Rightarrow> string" where
  "filepath_Base path =
     (if path = [] then ''.''
      else let path = rev (dropWhile is_sep (rev path));
               path = drop (length (filepath_VolumeName path)) path;
               path = rev (takeWhile (\<lambda>c. \<not> is_sep c) (rev path))
           in if path = [] then [sep] else path)"

section \<open>Clean, Dir and Join\<close>

text \<open>
  The buffer of \<open>Clean\<close>: the output, and whether it has left the input (\<open>lazybuf.buf \<noteq> nil\<close>), which happens at the first
  byte appended that is not the byte of the input at that position.
\<close>

definition lazy_append :: "string \<Rightarrow> string \<Rightarrow> string \<times> bool \<Rightarrow> string \<times> bool" where
  "lazy_append path = fold (\<lambda>c (out, alloc). (out @ [c], alloc \<or> \<not> (length out < length path \<and> path ! length out = c)))"

fun backtrack :: "nat \<Rightarrow> string \<Rightarrow> string" where
  "backtrack dotdot out =
     (if out = [] then [] else
      let w = butlast out in if dotdot < length w \<and> \<not> is_sep (last out) then backtrack dotdot w else w)"

declare backtrack.simps [simp del]

function cleanLoop :: "string \<Rightarrow> bool \<Rightarrow> string \<Rightarrow> string \<times> bool \<Rightarrow> nat \<Rightarrow> string \<times> bool" where
  "cleanLoop path rooted rest out dotdot =
     (case rest of [] \<Rightarrow> out
      | c # r \<Rightarrow>
          if is_sep c then cleanLoop path rooted r out dotdot
          else if c = CHR ''.'' \<and> (r = [] \<or> is_sep (hd r)) then cleanLoop path rooted r out dotdot
          else if c = CHR ''.'' \<and> hd r = CHR ''.'' \<and> (tl r = [] \<or> is_sep (hd (tl r))) then
            (if dotdot < length (fst out) then cleanLoop path rooted (tl r) (backtrack dotdot (fst out), snd out) dotdot
             else if \<not> rooted then
               (let out = lazy_append path ((if fst out = [] then [] else [sep]) @ ''..'') out in
                cleanLoop path rooted (tl r) out (length (fst out)))
             else cleanLoop path rooted (tl r) out dotdot)
          else
            (let out = lazy_append path ((if rooted \<and> length (fst out) \<noteq> 1 \<or> \<not> rooted \<and> fst out \<noteq> [] then [sep] else []) @
                   takeWhile (\<lambda>c. \<not> is_sep c) rest) out in
             cleanLoop path rooted (dropWhile (\<lambda>c. \<not> is_sep c) rest) out dotdot))"
  by pat_completeness auto
termination
proof (relation "measure (\<lambda>(path, rooted, rest, out, dotdot). length rest)")
  fix path :: string and rest :: string and c r out dotdot x and rooted :: bool
  assume "rest = c # r" "\<not> is_sep c"
  then show "((path, rooted, dropWhile (\<lambda>c. \<not> is_sep c) rest, x, dotdot), path, rooted, rest, out, dotdot) \<in>
      measure (\<lambda>(path, rooted, rest, out, dotdot). length rest)"
    by (simp add: le_imp_less_Suc length_dropWhile_le)
qed auto

declare cleanLoop.simps [simp del]

definition postClean :: "nat \<Rightarrow> string \<times> bool \<Rightarrow> string" where
  "postClean volLen out =
     (let (buf, alloc) = out in
      if volLen \<noteq> 0 \<or> \<not> alloc then buf
      else if CHR '':'' \<in> set (takeWhile (\<lambda>c. \<not> is_sep c) buf) then CHR ''.'' # sep # buf
      else if 3 \<le> length buf \<and> is_sep (buf ! 0) \<and> buf ! 1 = CHR ''?'' \<and> buf ! 2 = CHR ''?'' then sep # CHR ''.'' # buf
      else buf)"

definition filepath_Clean :: "string \<Rightarrow> string" where
  "filepath_Clean originalPath =
     (let volLen = volumeNameLen originalPath; path = drop volLen originalPath in
      if path = [] then
        (if 1 < volLen \<and> is_sep (originalPath ! 0) \<and> is_sep (originalPath ! 1) then filepath_FromSlash originalPath
         else originalPath @ ''.'')
      else
        let rooted = is_sep (hd path);
            out = (if rooted then cleanLoop path True (tl path) (lazy_append path [sep] ([], False)) 1
                   else cleanLoop path False path ([], False) 0);
            out = (if fst out = [] then lazy_append path ''.'' out else out)
        in filepath_FromSlash (take volLen originalPath @ postClean volLen out))"

definition filepath_Dir :: "string \<Rightarrow> string" where
  "filepath_Dir path =
     (let vol = filepath_VolumeName path;
          dir = filepath_Clean (rev (dropWhile (\<lambda>c. \<not> is_sep c) (rev (drop (length vol) path))))
      in if dir = ''.'' \<and> 2 < length vol then vol else vol @ dir)"

fun joinElems :: "string \<Rightarrow> string list \<Rightarrow> string" where
  "joinElems b [] = b"
| "joinElems b (e # es) =
     (if b = [] then joinElems e es
      else if is_sep (last b) then
        (let e = dropWhile is_sep e in
         joinElems (b @ (if length b = 1 \<and> strings_HasPrefix e ''??'' \<and> (length e = 2 \<or> is_sep (e ! 2)) then [CHR ''.'', sep] else []) @ e) es)
      else if last b = CHR '':'' then joinElems (b @ e) es
      else joinElems (b @ sep # e) es)"

definition filepath_Join :: "string list \<Rightarrow> string" where
  "filepath_Join elems = (let b = joinElems [] elems in if b = [] then [] else filepath_Clean b)"

section \<open>Directories on a drive\<close>

definition plain_elem :: "string \<Rightarrow> bool" where
  "plain_elem e \<longleftrightarrow> e \<noteq> [] \<and> e \<noteq> ''.'' \<and> e \<noteq> ''..'' \<and> (\<forall>c\<in>set e. \<not> is_sep c \<and> c \<noteq> CHR '':'' \<and> c \<noteq> CHR ''?'')"

definition elems :: "string list \<Rightarrow> string" where
  "elems es = concat (map (\<lambda>e. sep # e) es)"

definition local_dir :: "string \<Rightarrow> bool" where
  "local_dir d \<longleftrightarrow> (\<exists>drive es. d = drive # CHR '':'' # elems es \<and> drive \<noteq> CHR ''/'' \<and> es \<noteq> [] \<and> (\<forall>e\<in>set es. plain_elem e))"

lemma is_sep_sep [simp]: "is_sep sep" "is_sep (CHR ''/'')"
  by (simp_all add: is_sep_def)

lemma lazy_append_input:
  "path = out @ cs @ ds \<Longrightarrow> lazy_append path cs (out, False) = (out @ cs, False)"
proof (induction cs arbitrary: out)
  case (Cons c cs)
  then have "lazy_append path cs (out @ [c], False) = ((out @ [c]) @ cs, False)" by (intro Cons.IH) simp
  then show ?case using Cons.prems by (simp add: lazy_append_def nth_append)
qed (simp add: lazy_append_def)

lemma plain_takeWhile:
  "plain_elem e \<Longrightarrow> takeWhile (\<lambda>c. \<not> is_sep c) (e @ elems es) = e"
  "plain_elem e \<Longrightarrow> dropWhile (\<lambda>c. \<not> is_sep c) (e @ elems es) = elems es"
  by (cases es; simp add: plain_elem_def elems_def takeWhile_append dropWhile_append)+

lemma plain_cases:
  assumes "plain_elem e"
  obtains c r where "e = c # r" "\<not> is_sep c" "\<not> (c = CHR ''.'' \<and> r = [])" "\<not> (c = CHR ''.'' \<and> r \<noteq> [] \<and> is_sep (hd r))"
    "\<not> (c = CHR ''.'' \<and> r = ''.'')" "r = [] \<or> \<not> is_sep (hd r)" "tl r = [] \<or> \<not> is_sep (hd (tl r))"
proof (cases e)
  case (Cons c r)
  then have "\<forall>x\<in>set r. \<not> is_sep x" "\<not> is_sep c" using assms by (simp_all add: plain_elem_def)
  moreover have "tl r \<noteq> [] \<Longrightarrow> hd (tl r) \<in> set r" by (cases r) auto
  moreover have "\<not> (c = CHR ''.'' \<and> r = [])" "\<not> (c = CHR ''.'' \<and> r = ''.'')" using assms Cons by (auto simp: plain_elem_def)
  ultimately show thesis using that [OF Cons] by (metis hd_in_set)
qed (use assms in \<open>simp add: plain_elem_def\<close>)

lemma cleanLoop_elem:
  assumes "plain_elem e" "t = [] \<or> is_sep (hd t)" "path = out @ (if length out = 1 then [] else [sep]) @ e @ t"
  shows "cleanLoop path True (e @ t) (out, False) dd =
    cleanLoop path True t (out @ (if length out = 1 then [] else [sep]) @ e, False) dd"
proof -
  obtain c r where e: "e = c # r" "\<not> is_sep c" "\<not> (c = CHR ''.'' \<and> r = [])" "\<not> (c = CHR ''.'' \<and> r \<noteq> [] \<and> is_sep (hd r))"
    "\<not> (c = CHR ''.'' \<and> r = ''.'')" "r = [] \<or> \<not> is_sep (hd r)" "tl r = [] \<or> \<not> is_sep (hd (tl r))" by (rule plain_cases [OF assms(1)])
  have tw: "takeWhile (\<lambda>c. \<not> is_sep c) (e @ t) = e" "dropWhile (\<lambda>c. \<not> is_sep c) (e @ t) = t"
    using assms(1,2) by (cases t; simp add: plain_elem_def takeWhile_append dropWhile_append)+
  have one: "\<not> (c = CHR ''.'' \<and> (r @ t = [] \<or> is_sep (hd (r @ t))))" using e by (cases r) auto
  have two: "\<not> (c = CHR ''.'' \<and> hd (r @ t) = CHR ''.'' \<and> (tl (r @ t) = [] \<or> is_sep (hd (tl (r @ t)))))"
  proof
    assume *: "c = CHR ''.'' \<and> hd (r @ t) = CHR ''.'' \<and> (tl (r @ t) = [] \<or> is_sep (hd (tl (r @ t))))"
    with e(3) obtain d r' where r: "r = d # r'" by (cases r) auto
    with * e(5) have "r' \<noteq> []" by auto
    with * r e(7) show False by (cases r') auto
  qed
  have "lazy_append path ((if length out = 1 then [] else [sep]) @ e) (out, False) = (out @ (if length out = 1 then [] else [sep]) @ e, False)"
    using assms(3) by (intro lazy_append_input [where ds = t]) simp
  moreover have "cleanLoop path True (e @ t) (out, False) dd =
      (let o' = lazy_append path ((if length out = 1 then [] else [sep]) @ takeWhile (\<lambda>c. \<not> is_sep c) (e @ t)) (out, False) in
       cleanLoop path True (dropWhile (\<lambda>c. \<not> is_sep c) (e @ t)) o' dd)"
    unfolding e(1) append_Cons by (subst cleanLoop.simps, simp only: list.case if_not_P [OF e(2)] if_not_P [OF one] if_not_P [OF two]) simp
  ultimately show ?thesis by (simp only: tw Let_def)
qed

lemma hd_elems: "t = [] \<or> t = [sep] \<Longrightarrow> elems es @ t = [] \<or> is_sep (hd (elems es @ t))"
  by (cases es) (auto simp: elems_def)

lemma cleanLoop_elems:
  assumes "\<forall>e\<in>set es. plain_elem e" "t = [] \<or> t = [sep]" "1 < length out" "path = out @ elems es @ t"
  shows "cleanLoop path True (elems es @ t) (out, False) dd = (out @ elems es, False)"
  using assms
proof (induction es arbitrary: out)
  case Nil
  then show ?case by (auto simp: elems_def cleanLoop.simps)
next
  case (Cons e es)
  have "cleanLoop path True (elems (e # es) @ t) (out, False) dd = cleanLoop path True (e @ elems es @ t) (out, False) dd"
    by (subst cleanLoop.simps) (simp add: elems_def)
  also have "\<dots> = cleanLoop path True (elems es @ t) (out @ [sep] @ e, False) dd"
    using Cons.prems hd_elems [OF assms(2), of es] by (subst cleanLoop_elem) (simp_all add: elems_def)
  also have "\<dots> = ((out @ [sep] @ e) @ elems es, False)" using Cons.prems by (intro Cons.IH) (auto simp: elems_def)
  finally show ?case by (simp add: elems_def)
qed

lemma clean_rooted:
  assumes "\<forall>e\<in>set es. plain_elem e" "es \<noteq> []" "t = [] \<or> t = [sep]"
  defines "path \<equiv> elems es @ t"
  shows "cleanLoop path True (tl path) (lazy_append path [sep] ([], False)) 1 = (elems es, False)"
proof -
  obtain e es' where es: "es = e # es'" using assms(2) by (cases es) auto
  have p: "path = [sep] @ e @ elems es' @ t" by (simp add: path_def es elems_def)
  have "lazy_append path [sep] ([], False) = ([sep], False)" using lazy_append_input [of path "[]" "[sep]"] p by simp
  then have "cleanLoop path True (tl path) (lazy_append path [sep] ([], False)) 1 = cleanLoop path True (e @ elems es' @ t) ([sep], False) 1"
    by (simp add: p)
  also have "\<dots> = cleanLoop path True (elems es' @ t) ([sep] @ e, False) 1"
    using assms(1) p es hd_elems [OF assms(3), of es'] by (subst cleanLoop_elem) simp_all
  also have "\<dots> = (([sep] @ e) @ elems es', False)"
    using assms(1,3) p es by (intro cleanLoop_elems) (auto simp: plain_elem_def Suc_lessI)
  finally show ?thesis by (simp add: es elems_def)
qed

lemma elems_FromSlash: "\<forall>e\<in>set es. plain_elem e \<Longrightarrow> filepath_FromSlash (elems es) = elems es"
proof -
  assume "\<forall>e\<in>set es. plain_elem e"
  then have "\<forall>c\<in>set (elems es). c \<noteq> CHR ''/''" by (auto simp: elems_def plain_elem_def is_sep_def sep_def)
  then show ?thesis by (simp add: filepath_FromSlash_def map_idI)
qed

lemma volume_elems:
  assumes "\<forall>e\<in>set es. plain_elem e" "es \<noteq> []"
  shows "volumeNameLen (elems es @ t) = 0"
proof -
  obtain c r es' where es: "es = (c # r) # es'" "\<not> is_sep c" "c \<noteq> CHR '':''" "c \<noteq> CHR ''?''"
    using assms by (cases es; cases "hd es") (auto simp: plain_elem_def)
  have "lower_ascii (CHR ''?'') = CHR ''?''" by code_simp
  then have "lower_ascii c \<noteq> lower_ascii (CHR ''?'')" using es(4) lower_ascii_inj_lower [of c "CHR ''?''"] by auto
  moreover have "\<not> is_sep (CHR ''?'')" by (simp add: is_sep_def sep_def)
  ultimately show ?thesis using es by (simp add: volumeNameLen_def elems_def pathHasPrefixFold_def)
qed

text \<open>\<open>Clean\<close> keeps a directory on a drive, and drops a separator at its end.\<close>

lemma filepath_Clean_local:
  assumes "\<forall>e\<in>set es. plain_elem e" "es \<noteq> []" "t = [] \<or> t = [sep]" "drive \<noteq> CHR ''/''"
  shows "filepath_Clean (drive # CHR '':'' # elems es @ t) = drive # CHR '':'' # elems es" "filepath_Clean (elems es @ t) = elems es"
proof -
  have ne: "elems es \<noteq> []" "is_sep (hd (elems es))" using assms(2) by (cases es; simp add: elems_def)+
  show "filepath_Clean (drive # CHR '':'' # elems es @ t) = drive # CHR '':'' # elems es"
    using clean_rooted [OF assms(1-3)] ne elems_FromSlash [OF assms(1)] assms(4)
    by (simp add: filepath_Clean_def volumeNameLen_def Let_def postClean_def) (simp add: filepath_FromSlash_def)
  show "filepath_Clean (elems es @ t) = elems es"
    using clean_rooted [OF assms(1-3)] ne elems_FromSlash [OF assms(1)]
    by (simp add: filepath_Clean_def volume_elems [OF assms(1,2)] Let_def postClean_def)
qed

lemma elems_snoc: "elems es @ sep # n = elems (es @ [n])"
  by (simp add: elems_def)

lemma last_elems: "es \<noteq> [] \<Longrightarrow> \<forall>e\<in>set es. plain_elem e \<Longrightarrow> \<not> is_sep (last (elems es)) \<and> last (elems es) \<noteq> CHR '':''"
proof -
  assume "es \<noteq> []" "\<forall>e\<in>set es. plain_elem e"
  then obtain es' e where "es = es' @ [e]" "plain_elem e" by (metis in_set_conv_decomp last_in_set append_butlast_last_id)
  moreover from this have "last e \<in> set e" by (simp add: plain_elem_def)
  ultimately show ?thesis by (auto simp: elems_def plain_elem_def)
qed

lemma local_dir_join:
  assumes "local_dir d" "plain_elem n"
  shows "filepath_Join [d, n] = d @ sep # n" "local_dir (d @ sep # n)"
proof -
  obtain drive es where d: "d = drive # CHR '':'' # elems es" "es \<noteq> []" "\<forall>e\<in>set es. plain_elem e" "drive \<noteq> CHR ''/''"
    using assms(1) by (auto simp: local_dir_def)
  have es: "\<forall>e\<in>set (es @ [n]). plain_elem e" using d(3) assms(2) by simp
  have "joinElems [] [d, n] = drive # CHR '':'' # elems (es @ [n]) @ []"
    using last_elems [OF d(2,3)] d(1,2) by (auto simp: elems_snoc [symmetric] elems_def)
  moreover have "filepath_Clean (drive # CHR '':'' # elems (es @ [n]) @ []) = drive # CHR '':'' # elems (es @ [n])"
    using es d(4) by (intro filepath_Clean_local) simp_all
  ultimately show "filepath_Join [d, n] = d @ sep # n" by (simp add: filepath_Join_def Let_def d(1) elems_snoc)
  show "local_dir (d @ sep # n)" unfolding local_dir_def d(1)
    using es d(4) by (intro exI [of _ drive] exI [of _ "es @ [n]"]) (simp add: elems_snoc)
qed

lemma local_dir_base:
  assumes "local_dir d" "plain_elem n"
  shows "filepath_Base (d @ sep # n) = n" "filepath_Dir (d @ sep # n) = d"
proof -
  obtain drive es where d: "d = drive # CHR '':'' # elems es" "es \<noteq> []" "\<forall>e\<in>set es. plain_elem e" "drive \<noteq> CHR ''/''"
    using assms(1) by (auto simp: local_dir_def)
  have n: "\<forall>c\<in>set n. \<not> is_sep c" "n \<noteq> []" using assms(2) by (simp_all add: plain_elem_def)
  then have tw: "takeWhile (\<lambda>c. \<not> is_sep c) (rev n @ sep # x) = rev n" "dropWhile (\<lambda>c. \<not> is_sep c) (rev n @ sep # x) = sep # x" for x
    by (simp_all add: takeWhile_append dropWhile_append)
  have vol: "filepath_VolumeName (drive # CHR '':'' # x) = [drive, CHR '':'']" for x
    using d(4) by (simp add: filepath_VolumeName_def volumeNameLen_def filepath_FromSlash_def)
  have "\<not> is_sep (last n)" using n by simp
  then have "dropWhile is_sep (rev n @ y) = rev n @ y" for y using n(2) by (cases n rule: rev_cases) auto
  then show "filepath_Base (d @ sep # n) = n" using n(2) by (simp add: filepath_Base_def Let_def d(1) vol tw)
  have "filepath_Clean (elems es @ [sep]) = elems es" using d by (intro filepath_Clean_local) simp_all
  then show "filepath_Dir (d @ sep # n) = d" by (simp add: filepath_Dir_def Let_def d(1) vol tw)
qed

end
