(* ===== verification/WSTLSNames.thy ===== *)
theory WSTLSNames
  imports ConfName Conf GoPath "HOL-Library.Word"
begin

text \<open>
  The names of the TLS files of WebSocket peers in the store (\<open>conf/wstls.go\<close>): which names are valid, how a name
  is derived from a path and how it is made unique.
\<close>

unbundle bit_operations_syntax

section \<open>File names\<close>

definition MaxWSTLSFileSize :: nat where "MaxWSTLSFileSize = 2 ^ 20"
definition MaxWSTLSFiles :: nat where "MaxWSTLSFiles = 64"
definition wsTLSFileNameFallback :: string where "wsTLSFileNameFallback = ''ws-tls''"
definition wsTLSFileNameMaxLen :: nat where "wsTLSFileNameMaxLen = 64"

text \<open>The regular expression \<open>^[a-zA-Z0-9_-][a-zA-Z0-9_.-]{0,63}$\<close>.\<close>

definition wsTLSNameChar :: "char \<Rightarrow> bool" where
  "wsTLSNameChar c \<longleftrightarrow>
     97 \<le> ord c \<and> ord c \<le> 122 \<or> 65 \<le> ord c \<and> ord c \<le> 90 \<or> 48 \<le> ord c \<and> ord c \<le> 57 \<or> c \<in> set ''_.-''"

definition allowedWSTLSFileNameFormat :: "string \<Rightarrow> bool" where
  "allowedWSTLSFileNameFormat s \<longleftrightarrow> 1 \<le> length s \<and> length s \<le> 64 \<and> hd s \<noteq> CHR ''.'' \<and> list_all wsTLSNameChar s"

definition WSTLSFileNameIsValid :: "string \<Rightarrow> bool" where
  "WSTLSFileNameIsValid name \<longleftrightarrow> allowedWSTLSFileNameFormat name \<and> \<not> strings_HasSuffix name ''.'' \<and> \<not> isReserved name"

definition isAlphabetic :: "char \<Rightarrow> bool" where
  "isAlphabetic c = (let b = (of_nat (ord c) :: 8 word) OR 32 in 97 \<le> b \<and> b \<le> 122)"

definition IsWSTLSLocalPath :: "string \<Rightarrow> bool" where
  "IsWSTLSLocalPath path \<longleftrightarrow> 3 \<le> length path \<and> isAlphabetic (path ! 0) \<and> path ! 1 = CHR '':'' \<and>
     (path ! 2 = sep \<or> path ! 2 = CHR ''/'')"

definition sanitizeRune :: "nat \<Rightarrow> char" where
  "sanitizeRune r =
     (if r < 0x80 \<and> (isAlphabetic (char_of r) \<or> 48 \<le> r \<and> r \<le> 57 \<or> r = ord (CHR ''_'') \<or> r = ord (CHR ''-'') \<or> r = ord (CHR ''.''))
      then char_of r else CHR ''_'')"

definition sanitizeWSTLSFileName :: "string \<Rightarrow> string" where
  "sanitizeWSTLSFileName base =
     (let name = strings_Trim (map sanitizeRune (runes base)) ''.'' in
      if name = [] then wsTLSFileNameFallback
      else let name = (if isReserved name then ''_'' @ name else name) in
        if wsTLSFileNameMaxLen < length name then
          (let ext = filepath_Ext name;
               ext = (if wsTLSFileNameMaxLen div 2 < length ext then [] else ext)
           in strings_TrimRight (take (wsTLSFileNameMaxLen - length ext) name) ''.'' @ ext)
        else name)"

text \<open>
  The loop of \<open>uniqueWSTLSFileName\<close>; \<open>taken\<close> lists the keys of the map. The slice panics when suffix and extension alone
  are longer than a name, which bounds the loop.
\<close>

definition candidate :: "string \<Rightarrow> string \<Rightarrow> nat \<Rightarrow> go_error + string" where
  "candidate stem ext i =
     (let suffix = ''-'' @ nat_str i in
      if wsTLSFileNameMaxLen < length stem + length suffix + length ext then
        (if wsTLSFileNameMaxLen < length suffix + length ext then Inl (Panic ''slice bounds out of range'')
         else Inr (take (wsTLSFileNameMaxLen - length suffix - length ext) stem @ suffix @ ext))
      else Inr (stem @ suffix @ ext))"

lemma nat_str_bound: "n < 10 ^ length (nat_str n)"
proof (induction n rule: nat_str.induct)
  case (1 n)
  show ?case
  proof (cases "n < 10")
    case False
    then have "n div 10 < 10 ^ length (nat_str (n div 10))" using 1 by blast
    then have "n < 10 * 10 ^ length (nat_str (n div 10))" by linarith
    with False show ?thesis by (subst nat_str.simps) simp
  qed (subst nat_str.simps, simp)
qed

lemma candidate_bound: "candidate stem ext i = Inr c \<Longrightarrow> i < 10 ^ 64"
proof -
  assume "candidate stem ext i = Inr c"
  then have "length (nat_str i) \<le> 64" by (auto simp: candidate_def Let_def wsTLSFileNameMaxLen_def split: if_splits)
  then have "(10 :: nat) ^ length (nat_str i) \<le> 10 ^ 64" by (intro power_increasing) simp_all
  with nat_str_bound [of i] show ?thesis by linarith
qed

function uniqueLoop :: "(nat \<Rightarrow> nat) \<Rightarrow> string list \<Rightarrow> string \<Rightarrow> string \<Rightarrow> nat \<Rightarrow> go_error + string" where
  "uniqueLoop ul taken stem ext i =
     (case candidate stem ext i of
        Inl err \<Rightarrow> Inl err
      | Inr c \<Rightarrow> if strings_ToLower ul c \<in> set taken then uniqueLoop ul taken stem ext (Suc i) else Inr c)"
  by pat_completeness auto
termination
  by (relation "measure (\<lambda>(ul, taken, stem, ext, i). 10 ^ 64 - i)") (auto dest!: candidate_bound)

declare uniqueLoop.simps [simp del]

definition uniqueWSTLSFileName :: "(nat \<Rightarrow> nat) \<Rightarrow> string \<Rightarrow> string list \<Rightarrow> go_error + string" where
  "uniqueWSTLSFileName ul name taken =
     (if strings_ToLower ul name \<notin> set taken then Inr name
      else let ext = filepath_Ext name;
               ext = (if wsTLSFileNameMaxLen div 2 < length ext then [] else ext)
           in uniqueLoop ul taken (strings_TrimSuffix name ext) ext 2)"

section \<open>The names are valid\<close>

lemma isAlphabetic_iff: "isAlphabetic c \<longleftrightarrow> 97 \<le> ord c \<and> ord c \<le> 122 \<or> 65 \<le> ord c \<and> ord c \<le> 90"
proof -
  have "\<forall>c :: char. isAlphabetic c \<longleftrightarrow> 97 \<le> ord c \<and> ord c \<le> 122 \<or> 65 \<le> ord c \<and> ord c \<le> 90" by code_simp
  then show ?thesis by blast
qed

lemma isReserved_first: "isReserved s \<longleftrightarrow> list_ex (strings_EqualFold (takeWhile (\<lambda>c. c \<noteq> CHR ''.'') s)) reservedNames"
  by (simp add: isReserved_def strings_Cut_char split: prod.split)

lemma reserved_short:
  assumes "list_ex (strings_EqualFold f) reservedNames"
  shows "length f \<le> 4" "CHR ''-'' \<notin> set f" "CHR ''_'' \<notin> set f"
proof -
  obtain r where r: "r \<in> set reservedNames" "map lower_ascii f = map lower_ascii r"
    using assms by (auto simp: list_ex_iff strings_EqualFold_def)
  have "\<forall>r\<in>set reservedNames. length r \<le> 4 \<and> CHR ''-'' \<notin> set (map lower_ascii r) \<and> CHR ''_'' \<notin> set (map lower_ascii r)"
    by code_simp
  with r have "length r \<le> 4" "CHR ''-'' \<notin> set (map lower_ascii f)" "CHR ''_'' \<notin> set (map lower_ascii f)" by auto
  moreover have "lower_ascii (CHR ''-'') = CHR ''-''" "lower_ascii (CHR ''_'') = CHR ''_''" by code_simp+
  ultimately show "CHR ''-'' \<notin> set f" "CHR ''_'' \<notin> set f" by force+
  show "length f \<le> 4" using r(2) \<open>length r \<le> 4\<close> by (metis length_map)
qed

lemma first_part_keeps:
  assumes "takeWhile (\<lambda>c. c \<noteq> CHR ''.'') s = takeWhile (\<lambda>c. c \<noteq> CHR ''.'') t"
  shows "isReserved s = isReserved t"
  using assms by (simp add: isReserved_first)

lemma valid_iff:
  "WSTLSFileNameIsValid s \<longleftrightarrow>
     s \<noteq> [] \<and> length s \<le> 64 \<and> hd s \<noteq> CHR ''.'' \<and> last s \<noteq> CHR ''.'' \<and> (\<forall>c\<in>set s. wsTLSNameChar c) \<and> \<not> isReserved s"
proof -
  have "strings_HasSuffix s ''.'' \<longleftrightarrow> s \<noteq> [] \<and> last s = CHR ''.''"
    by (cases s rule: rev_cases) (auto simp: strings_HasSuffix_def suffix_def)
  then show ?thesis
    by (cases s) (auto simp: WSTLSFileNameIsValid_def allowedWSTLSFileNameFormat_def list_all_iff)
qed

lemma wsTLSNameChar_plain: "wsTLSNameChar c \<Longrightarrow> \<not> is_sep c \<and> c \<noteq> CHR '':'' \<and> c \<noteq> CHR ''?'' \<and> ord c < 128"
  by (auto simp: wsTLSNameChar_def is_sep_def sep_def)

lemma valid_plain: assumes "WSTLSFileNameIsValid s" shows "plain_elem s" "is_ascii s"
proof -
  have v: "s \<noteq> []" "hd s \<noteq> CHR ''.''" "\<forall>c\<in>set s. wsTLSNameChar c" using assms by (simp_all add: valid_iff)
  from v(2) have "s \<noteq> ''.''" "s \<noteq> ''..''" by auto
  with v(1,3) show "plain_elem s" "is_ascii s" using wsTLSNameChar_plain by (simp_all add: plain_elem_def is_ascii_def)
qed

lemma filepath_Ext_split:
  assumes "\<forall>c\<in>set s. \<not> is_sep c"
  obtains "filepath_Ext s = []" | st e where "s = st @ CHR ''.'' # e" "filepath_Ext s = CHR ''.'' # e" "CHR ''.'' \<notin> set e"
proof (cases "CHR ''.'' \<in> set s")
  case True
  then obtain st e where s: "s = st @ CHR ''.'' # e" "CHR ''.'' \<notin> set e" using split_list_last by metis
  have tw: "takeWhile (\<lambda>c. \<not> is_sep c) (rev s) = rev s" using assms by simp
  have "filepath_Ext s = CHR ''.'' # e" unfolding filepath_Ext_def Let_def tw using s by simp
  with s that(2) show thesis by blast
next
  case False
  then have "CHR ''.'' \<notin> set (takeWhile (\<lambda>c. \<not> is_sep c) (rev s))" using set_takeWhileD by fastforce
  then show thesis using that(1) by (simp add: filepath_Ext_def Let_def)
qed

text \<open>The extension kept by the two functions: a proper suffix that starts with a dot.\<close>

definition shortExt :: "string \<Rightarrow> string" where
  "shortExt name = (let ext = filepath_Ext name in if wsTLSFileNameMaxLen div 2 < length ext then [] else ext)"

lemma shortExt_split:
  assumes "\<forall>c\<in>set s. \<not> is_sep c" "s \<noteq> []" "hd s \<noteq> CHR ''.''" "last s \<noteq> CHR ''.''"
  obtains st where "s = st @ shortExt s" "st \<noteq> []" "hd st = hd s" "length (shortExt s) \<le> 32"
    "shortExt s = [] \<or> hd (shortExt s) = CHR ''.'' \<and> last (shortExt s) = last s"
  using filepath_Ext_split [OF assms(1)]
proof cases
  case 1
  then show thesis using assms that [of s] by (simp add: shortExt_def)
next
  case (2 st e)
  show thesis
  proof (cases "32 < length (CHR ''.'' # e)")
    case True
    then show thesis using 2 assms that [of s] by (simp add: shortExt_def wsTLSFileNameMaxLen_def)
  next
    case False
    then have "shortExt s = CHR ''.'' # e" using 2 by (simp add: shortExt_def wsTLSFileNameMaxLen_def)
    moreover have "st \<noteq> []" using 2(1) assms(3) by auto
    ultimately show thesis using 2 False that [of st] by (cases st) auto
  qed
qed

lemma TrimRight_dots:
  obtains n where "s = strings_TrimRight s ''.'' @ replicate n (CHR ''.'')"
    "strings_TrimRight s ''.'' = [] \<or> last (strings_TrimRight s ''.'') \<noteq> CHR ''.''"
proof -
  have tw: "takeWhile (\<lambda>c. c = CHR ''.'') (rev s) = replicate (length (takeWhile (\<lambda>c. c = CHR ''.'') (rev s))) (CHR ''.'')"
    by (intro replicate_eqI) (auto dest: set_takeWhileD)
  have "rev s = takeWhile (\<lambda>c. c = CHR ''.'') (rev s) @ dropWhile (\<lambda>c. c = CHR ''.'') (rev s)" by simp
  then have "s = rev (dropWhile (\<lambda>c. c = CHR ''.'') (rev s)) @ rev (takeWhile (\<lambda>c. c = CHR ''.'') (rev s))"
    by (metis rev_append rev_rev_ident)
  then have "s = strings_TrimRight s ''.'' @ replicate (length (takeWhile (\<lambda>c. c = CHR ''.'') (rev s))) (CHR ''.'')"
    using tw by (simp add: strings_TrimRight_def) (metis rev_replicate)
  moreover have "dropWhile (\<lambda>c. c = CHR ''.'') (rev s) \<noteq> [] \<Longrightarrow> hd (dropWhile (\<lambda>c. c = CHR ''.'') (rev s)) \<noteq> CHR ''.''"
    by (rule hd_dropWhile)
  ultimately show thesis using that by (simp add: strings_TrimRight_def last_rev) blast
qed

lemma takeWhile_prefix:
  "d \<in> set s \<Longrightarrow> takeWhile (\<lambda>c. c \<noteq> d) (s @ t) = takeWhile (\<lambda>c. c \<noteq> d) s"
  by (rule takeWhile_append1) auto

lemma sanitizeRune_char: "wsTLSNameChar (sanitizeRune r)"
proof -
  have "char_of (95 :: nat) = CHR ''_''" "char_of (45 :: nat) = CHR ''-''" "char_of (46 :: nat) = CHR ''.''" by code_simp+
  then show ?thesis by (auto simp: sanitizeRune_def wsTLSNameChar_def isAlphabetic_iff)
qed

lemma Trim_ends:
  assumes "strings_Trim s ''.'' \<noteq> []"
  shows "hd (strings_Trim s ''.'') \<noteq> CHR ''.''" "last (strings_Trim s ''.'') \<noteq> CHR ''.''" "set (strings_Trim s ''.'') \<subseteq> set s"
proof -
  let ?d = "dropWhile (\<lambda>c. c = CHR ''.'') s"
  have t: "strings_Trim s ''.'' = strings_TrimRight ?d ''.''" by (simp add: strings_Trim_def)
  obtain n where d: "?d = strings_TrimRight ?d ''.'' @ replicate n (CHR ''.'')"
    "strings_TrimRight ?d ''.'' = [] \<or> last (strings_TrimRight ?d ''.'') \<noteq> CHR ''.''" by (rule TrimRight_dots)
  have ne: "?d \<noteq> []" using assms d(1) unfolding t by (metis append_is_Nil_conv)
  then have "hd ?d \<noteq> CHR ''.''" by (rule hd_dropWhile)
  moreover have "hd ?d = hd (strings_TrimRight ?d ''.'')" using assms d(1) unfolding t by (metis hd_append2)
  ultimately show "hd (strings_Trim s ''.'') \<noteq> CHR ''.''" unfolding t by simp
  show "last (strings_Trim s ''.'') \<noteq> CHR ''.''" using assms d(2) unfolding t by blast
  have "set (strings_TrimRight ?d ''.'') \<subseteq> set ?d" by (subst (2) d(1)) simp
  then show "set (strings_Trim s ''.'') \<subseteq> set s" unfolding t using set_dropWhileD by fastforce
qed

text \<open>Cutting a name to 64 bytes keeps it valid.\<close>

lemma truncated_valid:
  assumes "\<forall>c\<in>set s. wsTLSNameChar c" "hd s \<noteq> CHR ''.''" "last s \<noteq> CHR ''.''" "\<not> isReserved s" "64 < length s"
  shows "WSTLSFileNameIsValid (strings_TrimRight (take (64 - length (shortExt s)) s) ''.'' @ shortExt s)"
proof -
  have "s \<noteq> []" using assms(5) by auto
  moreover have "\<forall>c\<in>set s. \<not> is_sep c" using assms(1) wsTLSNameChar_plain by blast
  ultimately obtain st where st: "s = st @ shortExt s" "length (shortExt s) \<le> 32"
    "shortExt s = [] \<or> hd (shortExt s) = CHR ''.'' \<and> last (shortExt s) = last s"
    using shortExt_split [OF _ _ assms(2,3)] by metis
  define ext where "ext = shortExt s"
  define t where "t = take (64 - length ext) s"
  obtain n where tr: "t = strings_TrimRight t ''.'' @ replicate n (CHR ''.'')"
    "strings_TrimRight t ''.'' = [] \<or> last (strings_TrimRight t ''.'') \<noteq> CHR ''.''" by (rule TrimRight_dots)
  define r where "r = strings_TrimRight t ''.''"
  have t: "t = r @ replicate n (CHR ''.'')" "r = [] \<or> last r \<noteq> CHR ''.''" using tr by (simp_all add: r_def)
  have len: "length t = 64 - length ext" "32 \<le> length t" using assms(5) st(2) by (simp_all add: t_def ext_def)
  have hdt: "hd t = hd s" using len(2) assms(5) by (cases s) (auto simp: t_def)
  have "r \<noteq> []" using t(1) len(2) hdt assms(2) by (cases n) auto
  then have hd: "hd r = hd s" using t(1) hdt by simp
  have ext: "ext = [] \<or> hd ext = CHR ''.'' \<and> last ext = last s" using st(3) by (simp add: ext_def)
  have "set r \<subseteq> set s" using t(1) set_take_subset [of "64 - length ext" s] by (auto simp: t_def)
  moreover have "set ext \<subseteq> set s" unfolding ext_def by (subst (2) st(1)) simp
  moreover have "length r \<le> length t" using t(1) by simp
  moreover have "\<not> isReserved (r @ ext)"
  proof (cases "CHR ''.'' \<in> set t")
    case True
    then have "takeWhile (\<lambda>c. c \<noteq> CHR ''.'') s = takeWhile (\<lambda>c. c \<noteq> CHR ''.'') t"
      using takeWhile_prefix [OF True, of "drop (64 - length ext) s"] by (simp add: t_def)
    also have "\<dots> = takeWhile (\<lambda>c. c \<noteq> CHR ''.'') (r @ ext)"
      using ext True t(1) by (cases "CHR ''.'' \<in> set r"; cases n; cases ext) (auto simp: takeWhile_prefix)
    finally show ?thesis using assms(4) first_part_keeps by metis
  next
    case False
    then have "n = 0" using t(1) by (cases n) auto
    then have "t = r" using t(1) by simp
    then have "takeWhile (\<lambda>c. c \<noteq> CHR ''.'') (r @ ext) = r" using False ext by (cases ext) auto
    then show ?thesis using reserved_short(1) [of r] len(2) \<open>t = r\<close> by (auto simp: isReserved_first)
  qed
  ultimately show ?thesis
    using \<open>r \<noteq> []\<close> hd assms(1-3) len t(2) ext st(2) unfolding ext_def [symmetric] t_def [symmetric] r_def [symmetric]
    by (auto simp: valid_iff last_append)
qed

lemma sanitize_valid: "WSTLSFileNameIsValid (sanitizeWSTLSFileName base)"
proof -
  define name where "name = strings_Trim (map sanitizeRune (runes base)) ''.''"
  show ?thesis
  proof (cases "name = []")
    case True
    then have "sanitizeWSTLSFileName base = ''ws-tls''" by (simp add: sanitizeWSTLSFileName_def name_def [symmetric] wsTLSFileNameFallback_def)
    moreover have "WSTLSFileNameIsValid ''ws-tls''" by code_simp
    ultimately show ?thesis by simp
  next
    case False
    note ends = Trim_ends [of "map sanitizeRune (runes base)", folded name_def, OF False]
    define s where "s = (if isReserved name then ''_'' @ name else name)"
    have s: "\<forall>c\<in>set s. wsTLSNameChar c" "hd s \<noteq> CHR ''.''" "last s \<noteq> CHR ''.''" "s \<noteq> []"
      using ends sanitizeRune_char False by (auto simp: s_def wsTLSNameChar_def [of "CHR ''_''"])
    have nr: "\<not> isReserved s"
      using reserved_short(3) [of "takeWhile (\<lambda>c. c \<noteq> CHR ''.'') (''_'' @ name)"] by (auto simp: s_def isReserved_first)
    have "sanitizeWSTLSFileName base =
        (if 64 < length s then strings_TrimRight (take (64 - length (shortExt s)) s) ''.'' @ shortExt s else s)"
      using False by (simp add: sanitizeWSTLSFileName_def name_def [symmetric] s_def [symmetric] shortExt_def wsTLSFileNameMaxLen_def Let_def)
    then show ?thesis using truncated_valid [OF s(1-3) nr] s nr by (simp add: valid_iff)
  qed
qed

end
