(* ===== verification/WSTLSReader.thy ===== *)
theory WSTLSReader
  imports WSTLSNames
begin

text \<open>
  The reader of TLS files (\<open>WSTLSFileReader\<close> of \<open>conf/wstls.go\<close>). The files of the machine are two arguments, the size
  \<open>os.Stat\<close> reports for a path and what \<open>os.ReadFile\<close> reads from it, so that a reader that never touches a path gives the same
  result whatever is there.
\<close>

definition WSTLSFileReader ::
    "(string \<Rightarrow> go_error + nat) \<Rightarrow> (string \<Rightarrow> go_error + bytes) \<Rightarrow> (string \<rightharpoonup> bytes) \<Rightarrow> string \<Rightarrow> string \<Rightarrow> go_error + bytes" where
  "WSTLSFileReader os_Stat os_ReadFile known baseDir ref =
     (case known (filepath_ToSlash ref) of
        Some data \<Rightarrow> Inr data
      | None \<Rightarrow>
          if filepath_IsAbs ref \<and> \<not> IsWSTLSLocalPath ref then Inl (ErrorString ''the path must be on a local drive'')
          else if \<not> filepath_IsAbs ref \<and> baseDir = [] then
            Inl (ErrorString ''the path must be absolute or the name of a file stored with the tunnel'')
          else
            (let path = (if filepath_IsAbs ref then ref else filepath_Join [baseDir, ref]) in
             rbind (os_Stat path) (\<lambda>size.
               if MaxWSTLSFileSize < size then Inl (ErrorString ''the file is too large'') else os_ReadFile path)))"

section \<open>Joined paths stay on the drive\<close>

lemma fst_lazy_append: "fst (lazy_append path cs out) = fst out @ cs"
proof (induction cs arbitrary: out)
  case (Cons c cs)
  show ?case using Cons [of "(fst out @ [c], snd out \<or> \<not> (length (fst out) < length path \<and> path ! length (fst out) = c))"]
    by (cases out) (simp add: lazy_append_def)
qed (simp add: lazy_append_def)

lemma backtrack_prefix: "d < length out \<Longrightarrow> prefix (backtrack d out) out \<and> d \<le> length (backtrack d out)"
proof (induction d out rule: backtrack.induct)
  case (1 d out)
  show ?case
  proof (cases "d < length (butlast out) \<and> \<not> is_sep (last out)")
    case True
    then have "prefix (backtrack d (butlast out)) (butlast out) \<and> d \<le> length (backtrack d (butlast out))" using 1 by (cases out rule: rev_cases) auto
    moreover have "backtrack d out = backtrack d (butlast out)" using True 1(2) by (subst backtrack.simps) auto
    ultimately show ?thesis using prefixeq_butlast prefix_order.trans by metis
  next
    case False
    then have "backtrack d out = butlast out" using 1(2) by (subst backtrack.simps) auto
    then show ?thesis using 1(2) by (simp add: prefixeq_butlast)
  qed
qed

lemma cleanLoop_rooted:
  "rooted \<Longrightarrow> 1 \<le> dd \<Longrightarrow> prefix [sep] (fst out) \<Longrightarrow> prefix [sep] (fst (cleanLoop path rooted rest out dd))"
proof (induction path rooted rest out dd rule: cleanLoop.induct)
  case (1 path rooted rest out dd)
  have bt: "prefix [sep] (backtrack dd (fst out))" if "dd < length (fst out)"
    using backtrack_prefix [OF that] "1.prems"(2,3) by (cases "backtrack dd (fst out)") (auto simp: prefix_def)
  have app: "prefix [sep] (fst (lazy_append path cs out))" for cs using "1.prems"(3) by (simp add: fst_lazy_append prefix_prefix)
  note IH = "1.IH" and pr = "1.prems"
  show ?case
  proof (cases rest)
    case Nil
    then show ?thesis using pr(3) by (subst cleanLoop.simps) simp
  next
    case (Cons c r)
    let ?dot = "c = CHR ''.'' \<and> (r = [] \<or> is_sep (hd r))" and ?dots = "c = CHR ''.'' \<and> hd r = CHR ''.'' \<and> (tl r = [] \<or> is_sep (hd (tl r)))"
    consider "is_sep c" | "\<not> is_sep c" ?dot | "\<not> is_sep c" "\<not> ?dot" ?dots | "\<not> is_sep c" "\<not> ?dot" "\<not> ?dots" by blast
    then show ?thesis
    proof cases
      case 1
      then show ?thesis using IH(1) [OF Cons 1 pr] by (subst cleanLoop.simps) (simp only: Cons list.case if_P)
    next
      case 2
      then show ?thesis using IH(2) [OF Cons 2 pr] by (subst cleanLoop.simps) (simp only: Cons list.case if_P if_not_P simp_thms)
    next
      case 3
      have "cleanLoop path rooted rest out dd =
          (if dd < length (fst out) then cleanLoop path rooted (tl r) (backtrack dd (fst out), snd out) dd else cleanLoop path rooted (tl r) out dd)"
        using pr(1) by (subst cleanLoop.simps) (simp only: Cons list.case if_not_P [OF 3(1)] if_not_P [OF 3(2)] if_P [OF 3(3)], simp)
      then show ?thesis
        using IH(3) [OF Cons 3 _ pr(1,2)] IH(5) [OF Cons 3 _ _ pr] pr(1) bt by (cases "dd < length (fst out)") simp_all
    next
      case 4
      define o' where "o' = lazy_append path ((if rooted \<and> length (fst out) \<noteq> 1 \<or> \<not> rooted \<and> fst out \<noteq> [] then [sep] else []) @
          takeWhile (\<lambda>c. \<not> is_sep c) rest) out"
      have "cleanLoop path rooted rest out dd = cleanLoop path rooted (dropWhile (\<lambda>c. \<not> is_sep c) rest) o' dd"
        unfolding o'_def by (subst cleanLoop.simps) (simp only: Cons list.case if_not_P [OF 4(1)] if_not_P [OF 4(2)] if_not_P [OF 4(3)] Let_def)
      moreover have "prefix [sep] (fst o')" unfolding o'_def by (rule app)
      ultimately show ?thesis using IH(6) [OF Cons 4 o'_def pr(1,2)] by simp
    qed
  qed
qed

lemma joinElems_prefix: "b \<noteq> [] \<Longrightarrow> prefix b (joinElems b es)"
proof (induction es arbitrary: b)
  case (Cons e es)
  have "prefix b (joinElems (b @ x) es)" for x
    using Cons.IH [of "b @ x"] Cons.prems append_prefixD by blast
  with Cons.prems show ?case by (simp add: Let_def)
qed simp

lemma filepath_Join_local:
  assumes "IsWSTLSLocalPath d"
  shows "IsWSTLSLocalPath (filepath_Join [d, ref])"
proof -
  obtain x y t where d: "d = x # CHR '':'' # y # t" "isAlphabetic x" "is_sep y"
    using assms by (cases d rule: remdups_adj.cases; cases "tl (tl d)") (auto simp: IsWSTLSLocalPath_def is_sep_def)
  define b where "b = joinElems [] [d, ref]"
  have "prefix d b" using joinElems_prefix [of d "[ref]"] d(1) by (simp add: b_def)
  then obtain u where b: "b = x # CHR '':'' # y # t @ u" using d(1) by (auto simp: prefix_def)
  define path where "path = y # t @ u"
  have vol: "volumeNameLen b = 2" "drop 2 b = path" "take 2 b = [x, CHR '':'']" by (simp_all add: volumeNameLen_def b path_def)
  have "prefix [sep] (fst (cleanLoop path True (tl path) (lazy_append path [sep] ([], False)) 1))"
    by (rule cleanLoop_rooted) (simp_all add: fst_lazy_append)
  then obtain v alloc where v: "cleanLoop path True (tl path) (lazy_append path [sep] ([], False)) 1 = (sep # v, alloc)"
    by (cases "cleanLoop path True (tl path) (lazy_append path [sep] ([], False)) 1") (auto simp: prefix_def)
  have "path \<noteq> []" "is_sep (hd path)" using d(3) by (simp_all add: path_def)
  then have "filepath_Clean b = filepath_FromSlash ([x, CHR '':''] @ sep # v)"
    unfolding filepath_Clean_def Let_def vol by (simp add: v [simplified] postClean_def)
  moreover have "b \<noteq> []" using b by simp
  ultimately have "filepath_Join [d, ref] = filepath_FromSlash ([x, CHR '':''] @ sep # v)"
    unfolding filepath_Join_def Let_def b_def [symmetric] by simp
  moreover have "x \<noteq> CHR ''/''" using d(2) by (auto simp: isAlphabetic_iff)
  ultimately have "filepath_Join [d, ref] = x # CHR '':'' # sep # filepath_FromSlash v"
    by (simp add: filepath_FromSlash_def sep_def)
  then show ?thesis using d(2) by (simp add: IsWSTLSLocalPath_def)
qed



end
