(* ===== verification/Storage.thy ===== *)
theory Storage
  imports ConfName GoCodec GoPath GoProg
begin

text \<open>
  What the configuration store uses of Windows, and writing a file in one step (\<open>conf/filewriter_windows.go\<close>,
  \<open>conf/path_windows.go\<close>, \<open>conf/dpapi\<close>). The calls of the operating system are the fields of a record over an
  arbitrary platform state; what Microsoft documents about them is stated as laws over a view of that state: the files by path, the open
  handles and the handles marked for deletion.
\<close>

section \<open>Calls\<close>

record dirent =
  de_name :: string
  de_regular :: bool
  de_perm :: "nat option"

record 'p storage =
  initRootDirectory :: "bool \<Rightarrow> ('p, string) prog"
  os_Mkdir :: "string \<Rightarrow> ('p, unit) prog"
  os_MkdirAll :: "string \<Rightarrow> ('p, unit) prog"
  os_ReadFile :: "string \<Rightarrow> ('p, bytes) prog"
  os_ReadDir :: "string \<Rightarrow> ('p, dirent list) prog"
  os_Remove :: "string \<Rightarrow> ('p, unit) prog"
  os_RemoveAll :: "string \<Rightarrow> ('p, unit) prog"
  CryptProtectData :: "bytes \<Rightarrow> string \<Rightarrow> ('p, bytes) prog"
  CryptUnprotectData :: "bytes \<Rightarrow> ('p, bytes \<times> string option) prog"
  rand_Read :: "'p \<Rightarrow> bytes \<times> 'p"
  SecurityDescriptorFromString :: "string \<Rightarrow> ('p, nat) prog"
  CreateFile :: "string \<Rightarrow> nat \<Rightarrow> ('p, u64) prog"
  WriteHandle :: "u64 \<Rightarrow> bytes \<Rightarrow> ('p, nat) prog"
  FlushFileBuffers :: "u64 \<Rightarrow> ('p, unit) prog"
  SetFileDisposition :: "u64 \<Rightarrow> ('p, unit) prog"
  SetFileRename :: "u64 \<Rightarrow> bool \<Rightarrow> string \<Rightarrow> ('p, unit) prog"
  CloseHandle :: "u64 \<Rightarrow> 'p \<Rightarrow> 'p"

text \<open>The package variables of \<open>conf\<close> beside the state of the platform.\<close>

record 'p store =
  cachedConfigFileDir :: string
  cachedRootDir :: string
  encryptedFileSd :: "nat option"
  plat :: 'p

definition onPlat :: "('p, 'a) prog \<Rightarrow> ('p store, 'a) prog" where
  "onPlat m s = (let (r, p) = m (plat s) in (r, s\<lparr>plat := p\<rparr>))"

section \<open>Directories\<close>

definition RootDirectory :: "'p storage \<Rightarrow> bool \<Rightarrow> ('p store, string) prog" where
  "RootDirectory S create s =
     (if cachedRootDir s \<noteq> [] then (Inr (cachedRootDir s), s)
      else pbind (onPlat (initRootDirectory S create)) (\<lambda>root s.
        (Inr root, if create then s\<lparr>cachedRootDir := root\<rparr> else s)) s)"

definition os_IsExist :: "go_error \<Rightarrow> bool" where
  "os_IsExist err \<longleftrightarrow> err = Errno 183 \<or> err = Errno 145 \<or> err = Errno 80"

definition tunnelConfigurationsDirectory :: "'p storage \<Rightarrow> ('p store, string) prog" where
  "tunnelConfigurationsDirectory S s =
     (if cachedConfigFileDir s \<noteq> [] then (Inr (cachedConfigFileDir s), s)
      else pbind (RootDirectory S True) (\<lambda>root s.
        let c = filepath_Join [root, ''Configurations''] in
        case onPlat (os_Mkdir S c) s of
          (Inl err, s) \<Rightarrow> if os_IsExist err then (Inr c, s\<lparr>cachedConfigFileDir := c\<rparr>) else (Inl err, s)
        | (Inr _, s) \<Rightarrow> (Inr c, s\<lparr>cachedConfigFileDir := c\<rparr>)) s)"

definition LogFile :: "'p storage \<Rightarrow> bool \<Rightarrow> ('p store, string) prog" where
  "LogFile S createRoot = pbind (RootDirectory S createRoot) (\<lambda>root. preturn (filepath_Join [root, ''log.bin'']))"

section \<open>DPAPI\<close>

definition dpapi_Encrypt :: "'p storage \<Rightarrow> bytes \<Rightarrow> string \<Rightarrow> ('p store, bytes) prog" where
  "dpapi_Encrypt S data name =
     (if CHR 0x00 \<in> set name then pfail (Panic ''syscall: string with NUL passed to StringToUTF16'')
      else pcatch (Wrapped ''unable to encrypt DPAPI protected data'') (onPlat (CryptProtectData S data name)))"

text \<open>The comparison of two strings that end with NUL.\<close>

fun differs :: "string \<Rightarrow> string \<Rightarrow> bool" where
  "differs (x # a) (y # b) = (if x \<noteq> y then True else if x = CHR 0x00 \<or> y = CHR 0x00 then False else differs a b)"
| "differs _ _ = True"

definition dpapi_Decrypt :: "'p storage \<Rightarrow> bytes \<Rightarrow> string \<Rightarrow> ('p store, bytes) prog" where
  "dpapi_Decrypt S data name =
     pbind (plift (UTF16PtrFromString name)) (\<lambda>utf16Name.
     pbind (pcatch (Wrapped ''unable to decrypt DPAPI protected data'') (onPlat (CryptUnprotectData S data))) (\<lambda>(ret, outName).
        case outName of
          None \<Rightarrow> pfail (ErrorString ''decrypted data has no associated name'')
        | Some outName \<Rightarrow>
            if differs (outName @ [CHR 0x00]) (utf16Name @ [CHR 0x00]) then pfail (ErrorString ''input name does not match the stored name'')
            else preturn ret))"

section \<open>Writing a file\<close>

definition randomFileName :: "'p storage \<Rightarrow> 'p store \<Rightarrow> string \<times> 'p store" where
  "randomFileName S s = (let (b, p) = rand_Read S (plat s) in (hex_EncodeToString b @ ''.tmp'', s\<lparr>plat := p\<rparr>))"

text \<open>The number of UTF-16 code units of a string.\<close>

definition utf16_len :: "string \<Rightarrow> nat" where
  "utf16_len s = sum_list (map (\<lambda>r. if 0x10000 \<le> r then 2 else 1) (runes s))"

definition ERROR_IO_INCOMPLETE :: go_error where "ERROR_IO_INCOMPLETE = Errno 996"
definition MAX_PATH :: nat where "MAX_PATH = 260"

text \<open>\<open>if err != nil { deleteIt(); return err }\<close>; whether the file can be marked for deletion is not looked at.\<close>

definition orDelete :: "'p storage \<Rightarrow> u64 \<Rightarrow> ('p, 'a) prog \<Rightarrow> ('p, 'a) prog" where
  "orDelete S handle m p = (case m p of (Inl err, p) \<Rightarrow> (Inl err, snd (SetFileDisposition S handle p)) | (Inr x, p) \<Rightarrow> (Inr x, p))"

definition fillAndRename :: "'p storage \<Rightarrow> u64 \<Rightarrow> string \<Rightarrow> bool \<Rightarrow> bytes \<Rightarrow> ('p, unit) prog" where
  "fillAndRename S handle destination overwrite contents =
     pbind (orDelete S handle (WriteHandle S handle contents)) (\<lambda>n.
     pbind (orDelete S handle (if n \<noteq> length contents then pfail ERROR_IO_INCOMPLETE else preturn ())) (\<lambda>_.
     pbind (orDelete S handle (FlushFileBuffers S handle)) (\<lambda>_.
     pbind (orDelete S handle (if MAX_PATH < utf16_len destination + 1 then pfail ERROR_BUFFER_OVERFLOW else preturn ())) (\<lambda>_.
       orDelete S handle (SetFileRename S handle overwrite destination)))))"

definition fileSd :: "'p storage \<Rightarrow> ('p store, nat) prog" where
  "fileSd S s = (case encryptedFileSd s of
       Some sd \<Rightarrow> (Inr sd, s)
     | None \<Rightarrow> pbind (onPlat (SecurityDescriptorFromString S ''O:SYG:SYD:PAI(A;;FA;;;SY)(A;;SD;;;BA)'')) (\<lambda>sd s.
         (Inr sd, s\<lparr>encryptedFileSd := Some sd\<rparr>)) s)"

definition writeLockedDownFile :: "'p storage \<Rightarrow> string \<Rightarrow> bool \<Rightarrow> bytes \<Rightarrow> ('p store, unit) prog" where
  "writeLockedDownFile S destination overwrite contents =
     pbind (fileSd S) (\<lambda>sd.
     pbind (plift (UTF16PtrFromString destination)) (\<lambda>destination16.
     pbind (\<lambda>s. let (name, s) = randomFileName S s in (Inr (filepath_Join [filepath_Dir destination, name]), s)) (\<lambda>tmpDestination.
     pbind (plift (UTF16PtrFromString tmpDestination)) (\<lambda>tmpDestination16.
       onPlat (pbind (CreateFile S tmpDestination16 sd) (\<lambda>handle p.
         let (r, p) = fillAndRename S handle destination16 overwrite contents p in (r, CloseHandle S handle p)))))))"

section \<open>What Windows documents\<close>

record fsview =
  v_files :: "string \<rightharpoonup> bytes"
  v_open :: "u64 \<rightharpoonup> string"
  v_doomed :: "u64 set"

text \<open>
  A new file is empty and its handle is new; a write appends the bytes it reports, a failed one may leave anything in that file; a
  rename replaces a file only when asked to, and changes nothing when it fails; closing a handle deletes the file when it was marked.
\<close>

definition handle_laws :: "'p storage \<Rightarrow> ('p \<Rightarrow> fsview) \<Rightarrow> bool" where
  "handle_laws S view \<longleftrightarrow>
     (\<forall>path sd v. pvalid (\<lambda>p. view p = v) (CreateFile S path sd)
        (\<lambda>h p. v_open v h = None \<and> h \<notin> v_doomed v \<and> view p = v\<lparr>v_files := (v_files v)(path \<mapsto> []), v_open := (v_open v)(h \<mapsto> path)\<rparr>)
        (\<lambda>_ p. view p = v)) \<and>
     (\<forall>h path data v. v_open v h = Some path \<longrightarrow> pvalid (\<lambda>p. view p = v) (WriteHandle S h data)
        (\<lambda>n p. n \<le> length data \<and> view p = v\<lparr>v_files := (v_files v)(path \<mapsto> the (v_files v path) @ take n data)\<rparr>)
        (\<lambda>_ p. \<exists>x. view p = v\<lparr>v_files := (v_files v)(path := x)\<rparr>)) \<and>
     (\<forall>h v. pvalid (\<lambda>p. view p = v) (FlushFileBuffers S h) (\<lambda>_ p. view p = v) (\<lambda>_ p. view p = v)) \<and>
     (\<forall>h p. view (snd (SetFileDisposition S h p)) = view p \<or>
        view (snd (SetFileDisposition S h p)) = (view p)\<lparr>v_doomed := insert h (v_doomed (view p))\<rparr>) \<and>
     (\<forall>h path replace destination v. v_open v h = Some path \<longrightarrow> pvalid (\<lambda>p. view p = v) (SetFileRename S h replace destination)
        (\<lambda>_ p. (replace \<or> v_files v destination = None) \<and>
           view p = v\<lparr>v_files := (v_files v)(path := None, destination := v_files v path), v_open := (v_open v)(h \<mapsto> destination)\<rparr>)
        (\<lambda>_ p. view p = v)) \<and>
     (\<forall>h path p. v_open (view p) h = Some path \<longrightarrow> view (CloseHandle S h p) = (view p)\<lparr>
        v_files := (if h \<in> v_doomed (view p) then (v_files (view p))(path := None) else v_files (view p)),
        v_open := (v_open (view p))(h := None), v_doomed := v_doomed (view p) - {h}\<rparr>) \<and>
     (\<forall>p. view (snd (rand_Read S p)) = view p) \<and>
     (\<forall>str p. view (snd (SecurityDescriptorFromString S str p)) = view p)"

text \<open>The view after an error: the temporary file may hold anything and be marked for deletion.\<close>

definition tainted :: "string \<Rightarrow> u64 \<Rightarrow> fsview \<Rightarrow> fsview \<Rightarrow> bool" where
  "tainted tmp h v v' \<longleftrightarrow> (\<exists>x D. v' = v\<lparr>v_files := (v_files v)(tmp := x), v_doomed := D\<rparr> \<and> (D = v_doomed v \<or> D = insert h (v_doomed v)))"

lemma tainted_files: "tainted tmp h v (v\<lparr>v_files := (v_files v)(tmp := x)\<rparr>)" "tainted tmp h v v"
  unfolding tainted_def
  by (rule exI [of _ x], rule exI [of _ "v_doomed v"], simp) (rule exI [of _ "v_files v tmp"], rule exI [of _ "v_doomed v"], simp)

lemma tainted_doom: "tainted tmp h v v' \<Longrightarrow> tainted tmp h v (v'\<lparr>v_doomed := insert h (v_doomed v')\<rparr>)"
proof -
  assume "tainted tmp h v v'"
  then obtain x where "v'\<lparr>v_doomed := insert h (v_doomed v')\<rparr> = v\<lparr>v_files := (v_files v)(tmp := x), v_doomed := insert h (v_doomed v)\<rparr>"
    by (auto simp: tainted_def)
  then show ?thesis unfolding tainted_def by blast
qed

lemma orDelete_triple:
  assumes "handle_laws S view" "pvalid P m Q (\<lambda>_ p. tainted tmp h v (view p))"
  shows "pvalid P (orDelete S h m) Q (\<lambda>_ p. tainted tmp h v (view p))"
proof (rule pvalidI)
  fix p x p'
  assume "P p" "orDelete S h m p = (Inr x, p')"
  then show "Q x p'" using assms(2) pvalid_Inr by (fastforce simp: orDelete_def split: prod.splits sum.splits)
next
  fix p e p'
  assume P: "P p" and "orDelete S h m p = (Inl e, p')"
  then obtain p1 where "m p = (Inl e, p1)" and p': "p' = snd (SetFileDisposition S h p1)"
    by (auto simp: orDelete_def split: prod.splits sum.splits)
  with P assms(2) have t: "tainted tmp h v (view p1)" using pvalid_Inl by fastforce
  have "view p' = view p1 \<or> view p' = (view p1)\<lparr>v_doomed := insert h (v_doomed (view p1))\<rparr>"
    using assms(1) unfolding handle_laws_def p' by blast
  with t tainted_doom show "tainted tmp h v (view p')" by metis
qed

lemma rename_law:
  assumes "handle_laws S view" "v_open v h = Some path" "v_files v path = Some x"
  shows "pvalid (\<lambda>p. view p = v) (SetFileRename S h replace destination)
    (\<lambda>_ p. (replace \<or> v_files v destination = None) \<and>
       view p = v\<lparr>v_files := (v_files v)(path := None, destination \<mapsto> x), v_open := (v_open v)(h \<mapsto> destination)\<rparr>)
    (\<lambda>_ p. view p = v)"
proof -
  have "pvalid (\<lambda>p. view p = v) (SetFileRename S h replace destination)
    (\<lambda>_ p. (replace \<or> v_files v destination = None) \<and>
       view p = v\<lparr>v_files := (v_files v)(path := None, destination := v_files v path), v_open := (v_open v)(h \<mapsto> destination)\<rparr>)
    (\<lambda>_ p. view p = v)" using assms(1,2) unfolding handle_laws_def by (elim conjE) blast
  then show ?thesis unfolding assms(3) .
qed

lemma fillAndRename_triple:
  assumes "handle_laws S view" "v_open v h = Some tmp" "v_files v tmp = Some []" "tmp \<noteq> destination"
  shows "pvalid (\<lambda>p. view p = v) (fillAndRename S h destination overwrite contents)
    (\<lambda>_ p. (overwrite \<or> v_files v destination = None) \<and>
       view p = v\<lparr>v_files := (v_files v)(tmp := None, destination \<mapsto> contents), v_open := (v_open v)(h \<mapsto> destination)\<rparr>)
    (\<lambda>_ p. tainted tmp h v (view p))"
proof -
  define full where "full x = v\<lparr>v_files := (v_files v)(tmp \<mapsto> x)\<rparr>" for x
  have t: "tainted tmp h v (full x)" for x unfolding full_def by (rule tainted_files)
  have "pvalid (\<lambda>p. view p = v) (WriteHandle S h contents) (\<lambda>n p. n \<le> length contents \<and> view p = full (take n contents))
      (\<lambda>_ p. tainted tmp h v (view p))"
  proof (rule pvalid_weaken)
    show "pvalid (\<lambda>p. view p = v) (WriteHandle S h contents)
        (\<lambda>n p. n \<le> length contents \<and> view p = v\<lparr>v_files := (v_files v)(tmp \<mapsto> the (v_files v tmp) @ take n contents)\<rparr>)
        (\<lambda>_ p. \<exists>x. view p = v\<lparr>v_files := (v_files v)(tmp := x)\<rparr>)" using assms(1,2) by (simp add: handle_laws_def)
  qed (use assms(3) tainted_files(1) in \<open>auto simp: full_def\<close>)
  note fill = orDelete_triple [OF assms(1) this]
  have check: "pvalid (\<lambda>p. n \<le> length contents \<and> view p = full (take n contents))
      (orDelete S h (if n \<noteq> length contents then pfail ERROR_IO_INCOMPLETE else preturn ())) (\<lambda>_ p. view p = full contents)
      (\<lambda>_ p. tainted tmp h v (view p))" for n
    by (rule orDelete_triple [OF assms(1)]) (auto simp: pvalid_def pfail_def preturn_def t)
  have "pvalid (\<lambda>p. view p = full contents) (FlushFileBuffers S h) (\<lambda>_ p. view p = full contents) (\<lambda>_ p. view p = full contents)"
    using assms(1) by (simp add: handle_laws_def)
  then have flush: "pvalid (\<lambda>p. view p = full contents) (orDelete S h (FlushFileBuffers S h)) (\<lambda>_ p. view p = full contents) (\<lambda>_ p. tainted tmp h v (view p))"
    by (intro orDelete_triple [OF assms(1)], elim pvalid_weaken) (simp_all add: t)
  have len: "pvalid (\<lambda>p. view p = full contents) (orDelete S h (if MAX_PATH < utf16_len destination + 1 then pfail ERROR_BUFFER_OVERFLOW else preturn ()))
      (\<lambda>_ p. view p = full contents) (\<lambda>_ p. tainted tmp h v (view p))"
    by (rule orDelete_triple [OF assms(1)]) (auto simp: pvalid_def pfail_def preturn_def t)
  have "v_open (full contents) h = Some tmp" "v_files (full contents) tmp = Some contents" using assms(2) by (simp_all add: full_def)
  from rename_law [OF assms(1) this, of overwrite destination] have "pvalid (\<lambda>p. view p = full contents) (SetFileRename S h overwrite destination)
      (\<lambda>_ p. (overwrite \<or> v_files (full contents) destination = None) \<and> view p = (full contents)\<lparr>
         v_files := (v_files (full contents))(tmp := None, destination \<mapsto> contents), v_open := (v_open (full contents))(h \<mapsto> destination)\<rparr>)
      (\<lambda>_ p. view p = full contents)" .
  then have rename: "pvalid (\<lambda>p. view p = full contents) (orDelete S h (SetFileRename S h overwrite destination))
      (\<lambda>_ p. (overwrite \<or> v_files v destination = None) \<and>
         view p = v\<lparr>v_files := (v_files v)(tmp := None, destination \<mapsto> contents), v_open := (v_open v)(h \<mapsto> destination)\<rparr>)
      (\<lambda>_ p. tainted tmp h v (view p))"
    by (intro orDelete_triple [OF assms(1)], elim pvalid_weaken) (simp_all add: t, simp add: full_def assms(4) assms(4) [symmetric])
  show ?thesis unfolding fillAndRename_def
    by (rule pvalid_bind [OF fill pvalid_bind [OF check pvalid_bind [OF flush pvalid_bind [OF len rename]]]])
qed

lemma hex_plain: "plain_elem (hex_EncodeToString b @ ''.tmp'')"
proof -
  have nib: "\<not> is_sep (hex_char d) \<and> hex_char d \<noteq> CHR '':'' \<and> hex_char d \<noteq> CHR ''?''" if "d < 16" for d
  proof -
    have "\<forall>d\<in>set [0..<16]. \<not> is_sep (hex_char d) \<and> hex_char d \<noteq> CHR '':'' \<and> hex_char d \<noteq> CHR ''?''" by code_simp
    with that show ?thesis by simp
  qed
  have "ord c div 16 < 16" for c :: char using nat_of_char_less_256 [of c] by (simp add: less_mult_imp_div_less)
  then have "\<forall>c\<in>set (hex_EncodeToString b). \<not> is_sep c \<and> c \<noteq> CHR '':'' \<and> c \<noteq> CHR ''?''" by (induction b) (auto simp: nib)
  moreover have "\<forall>c\<in>set ''.tmp''. \<not> is_sep c \<and> c \<noteq> CHR '':'' \<and> c \<noteq> CHR ''?''" by (simp add: is_sep_def sep_def)
  moreover have "length (hex_EncodeToString b @ ''.tmp'') \<noteq> length ''.''" "length (hex_EncodeToString b @ ''.tmp'') \<noteq> length ''..''" by simp_all
  ultimately show ?thesis unfolding plain_elem_def set_append by (metis UnE append_is_Nil_conv list.distinct(1))
qed

lemma fileSd_keeps:
  assumes "handle_laws S view" "fileSd S s = (r, s')"
  shows "view (plat s') = view (plat s)" "cachedConfigFileDir s' = cachedConfigFileDir s" "cachedRootDir s' = cachedRootDir s"
proof -
  have "view (snd (SecurityDescriptorFromString S str p)) = view p" for str p using assms(1) by (simp add: handle_laws_def)
  then have sd: "view p' = view p" if "SecurityDescriptorFromString S str p = (x, p')" for str p x p' using that by (metis snd_conv)
  show "view (plat s') = view (plat s)" "cachedConfigFileDir s' = cachedConfigFileDir s" "cachedRootDir s' = cachedRootDir s"
    using assms(2) sd by (auto simp: fileSd_def pbind_def onPlat_def split: option.splits prod.splits sum.splits)
qed

lemma close_law:
  assumes "handle_laws S view" "v_open (view p) h = Some path"
  shows "view (CloseHandle S h p) = (view p)\<lparr>
    v_files := (if h \<in> v_doomed (view p) then (v_files (view p))(path := None) else v_files (view p)),
    v_open := (v_open (view p))(h := None), v_doomed := v_doomed (view p) - {h}\<rparr>"
  using assms unfolding handle_laws_def by (elim conjE) blast

text \<open>Creating, filling and closing the temporary file.\<close>

lemma create_triple:
  assumes "handle_laws S view" "tmp \<noteq> destination"
    and run: "pbind (CreateFile S tmp sd) (\<lambda>h p. let (r, p) = fillAndRename S h destination overwrite contents p in (r, CloseHandle S h p)) p = (r, p')"
  shows "v_open (view p') = v_open (view p)"
    "case r of Inr _ \<Rightarrow> (overwrite \<or> v_files (view p) destination = None) \<and>
         v_files (view p') = (v_files (view p))(tmp := None, destination \<mapsto> contents)
     | Inl _ \<Rightarrow> \<exists>y. v_files (view p') = (v_files (view p))(tmp := y)"
proof -
  define v where "v = view p"
  have create: "pvalid (\<lambda>p. view p = v) (CreateFile S tmp sd)
      (\<lambda>h p. v_open v h = None \<and> h \<notin> v_doomed v \<and> view p = v\<lparr>v_files := (v_files v)(tmp \<mapsto> []), v_open := (v_open v)(h \<mapsto> tmp)\<rparr>)
      (\<lambda>_ p. view p = v)" using assms(1) by (simp add: handle_laws_def)
  have "v_open (view p') = v_open v \<and> (case r of Inr _ \<Rightarrow> (overwrite \<or> v_files v destination = None) \<and>
         v_files (view p') = (v_files v)(tmp := None, destination \<mapsto> contents) | Inl _ \<Rightarrow> \<exists>y. v_files (view p') = (v_files v)(tmp := y))"
  proof (cases "CreateFile S tmp sd p")
    case (Pair c p1)
    show ?thesis
    proof (cases c)
      case (Inl e)
      have p1: "view p1 = v" using pvalid_Inl [OF create] Pair Inl v_def by blast
      have r: "r = Inl e" "p' = p1" using run Pair Inl by (simp_all add: pbind_def)
      have "\<exists>y. v_files v = (v_files v)(tmp := y)" by (rule exI [of _ "v_files v tmp"]) simp
      then show ?thesis unfolding r p1 sum.case by blast
    next
      case (Inr h)
      define w where "w = v\<lparr>v_files := (v_files v)(tmp \<mapsto> []), v_open := (v_open v)(h \<mapsto> tmp)\<rparr>"
      from pvalid_Inr [OF create v_def [symmetric] Pair [unfolded Inr]]
      have p1: "v_open v h = None" "h \<notin> v_doomed v" "view p1 = w" unfolding w_def by blast+
      obtain r2 p2 where fr: "fillAndRename S h destination overwrite contents p1 = (r2, p2)" by fastforce
      have r: "r = r2" "p' = CloseHandle S h p2" using run Pair Inr fr by (simp_all add: pbind_def)
      have w: "v_open w h = Some tmp" "v_files w tmp = Some []" "v_files w destination = v_files v destination" using assms(2) by (simp_all add: w_def)
      note ft = fillAndRename_triple [OF assms(1) w(1,2) assms(2), of overwrite contents]
      have close: "v_open (view p') = (v_open (view p2))(h := None)"
        "v_files (view p') = (if h \<in> v_doomed (view p2) then (v_files (view p2))(path := None) else v_files (view p2))"
        if "v_open (view p2) h = Some path" for path using close_law [OF assms(1) that] by (simp_all add: r(2))
      have closed: "(v_open v)(h := None) = v_open v" using p1(1) by auto
      show ?thesis
      proof (cases r2)
        case (Inl e)
        then obtain x D where "view p2 = w\<lparr>v_files := (v_files w)(tmp := x), v_doomed := D\<rparr>"
          using pvalid_Inl [OF ft p1(3) fr [unfolded Inl]] unfolding tainted_def by blast
        with close [of tmp] Inl r(1) closed show ?thesis by (auto simp: w_def)
      next
        case (Inr u)
        note q = pvalid_Inr [OF ft p1(3) fr [unfolded Inr]]
        from conjunct1 [OF q] conjunct2 [OF q] close [of destination] Inr r(1) closed p1(2) w(3) show ?thesis by (auto simp: w_def)
      qed
    qed
  qed
  then show "v_open (view p') = v_open (view p)"
    "case r of Inr _ \<Rightarrow> (overwrite \<or> v_files (view p) destination = None) \<and>
         v_files (view p') = (v_files (view p))(tmp := None, destination \<mapsto> contents)
     | Inl _ \<Rightarrow> \<exists>y. v_files (view p') = (v_files (view p))(tmp := y)" unfolding v_def by (rule conjunct1, rule conjunct2)
qed

lemma write_file:
  assumes "handle_laws S view" "local_dir d" "plain_elem n" "\<not> suffix ''.tmp'' n"
    and run: "writeLockedDownFile S (d @ sep # n) overwrite contents s = (r, s')"
  shows "\<exists>x. v_open (view (plat s')) = v_open (view (plat s)) \<and> cachedConfigFileDir s' = cachedConfigFileDir s \<and> cachedRootDir s' = cachedRootDir s \<and>
    (case r of
       Inr _ \<Rightarrow> (overwrite \<or> v_files (view (plat s)) (d @ sep # n) = None) \<and>
         v_files (view (plat s')) = (v_files (view (plat s)))(d @ sep # x @ ''.tmp'' := None, d @ sep # n \<mapsto> contents)
     | Inl _ \<Rightarrow> \<exists>y. v_files (view (plat s')) = (v_files (view (plat s)))(d @ sep # x @ ''.tmp'' := y))"
proof -
  obtain r1 s1 where sd: "fileSd S s = (r1, s1)" by fastforce
  obtain b p2 where rnd: "rand_Read S (plat s1) = (b, p2)" by fastforce
  define x where "x = hex_EncodeToString b"
  define tmp where "tmp = d @ sep # x @ ''.tmp''"
  have "filepath_Join [filepath_Dir (d @ sep # n), x @ ''.tmp''] = tmp"
    using local_dir_join [OF assms(2)] local_dir_base [OF assms(2,3)] hex_plain by (simp add: tmp_def x_def)
  then have rest: "writeLockedDownFile S (d @ sep # n) overwrite contents s =
      (case r1 of Inl e \<Rightarrow> (Inl e, s1) | Inr sd' \<Rightarrow>
       case UTF16PtrFromString (d @ sep # n) of Inl e \<Rightarrow> (Inl e, s1) | Inr dest \<Rightarrow>
       case UTF16PtrFromString tmp of Inl e \<Rightarrow> (Inl e, s1\<lparr>plat := p2\<rparr>) | Inr tmp' \<Rightarrow>
       onPlat (pbind (CreateFile S tmp' sd') (\<lambda>handle p.
         let (r, p) = fillAndRename S handle dest overwrite contents p in (r, CloseHandle S handle p))) (s1\<lparr>plat := p2\<rparr>))"
    by (simp add: writeLockedDownFile_def pbind_def plift_def randomFileName_def sd rnd x_def Let_def split: sum.split)
  note k = fileSd_keeps [OF assms(1) sd]
  have k2: "view p2 = view (plat s1)" using assms(1) rnd unfolding handle_laws_def by (metis snd_conv)
  have ne: "tmp \<noteq> d @ sep # n" using assms(4) by (auto simp: tmp_def suffix_def)
  have same: "\<exists>y. v_files (view (plat s)) = (v_files (view (plat s)))(tmp := y)" by (rule exI [of _ "v_files (view (plat s)) tmp"]) simp
  consider e where "r = Inl e" "s' = s1" | e where "r = Inl e" "s' = s1\<lparr>plat := p2\<rparr>"
    | sd' p3 where "pbind (CreateFile S tmp sd') (\<lambda>handle p.
         let (r, p) = fillAndRename S handle (d @ sep # n) overwrite contents p in (r, CloseHandle S handle p)) p2 = (r, p3)" "s' = s1\<lparr>plat := p3\<rparr>"
    using run rest by (auto simp: UTF16PtrFromString_def onPlat_def split: sum.splits if_splits prod.splits)
  then show ?thesis
  proof cases
    case 3
    have s': "plat s' = p3" "cachedConfigFileDir s' = cachedConfigFileDir s" "cachedRootDir s' = cachedRootDir s" using 3(2) k by simp_all
    from create_triple [OF assms(1) ne 3(1)] show ?thesis unfolding s' tmp_def k2 k by blast
  qed (use same k k2 in \<open>intro exI [of _ x], simp add: tmp_def\<close>)+
qed

text \<open>C13. A stored file is written in one step or not at all: on success the destination holds exactly the contents, and was not there
  before unless overwriting was asked for; after any error it is what it was. No other file changes but one with a random name and the
  extension \<open>.tmp\<close> in the same directory, which is gone on success, and no handle stays open.\<close>

theorem writeLockedDownFile_all_or_nothing:
  assumes "handle_laws S view" "local_dir d" "plain_elem n" "\<not> suffix ''.tmp'' n"
    and "writeLockedDownFile S (d @ sep # n) overwrite contents s = (r, s')"
  shows "\<exists>x. v_open (view (plat s')) = v_open (view (plat s)) \<and>
    (case r of
       Inr _ \<Rightarrow> (overwrite \<or> v_files (view (plat s)) (d @ sep # n) = None) \<and>
         v_files (view (plat s')) = (v_files (view (plat s)))(d @ sep # x @ ''.tmp'' := None, d @ sep # n \<mapsto> contents)
     | Inl _ \<Rightarrow> \<exists>y. v_files (view (plat s')) = (v_files (view (plat s)))(d @ sep # x @ ''.tmp'' := y))"
  using write_file [OF assms] by blast

section \<open>A platform\<close>

text \<open>A machine whose state is its view: one handle at a time, no errors but those that follow from the view.\<close>

definition sample_storage :: "fsview storage" where
  "sample_storage = \<lparr>initRootDirectory = (\<lambda>create v. (Inr [CHR ''C'', CHR '':'', sep, CHR ''D''], v)),
     os_Mkdir = (\<lambda>path v. (Inr (), v)), os_MkdirAll = (\<lambda>path v. (Inr (), v)),
     os_ReadFile = (\<lambda>path v. (case v_files v path of None \<Rightarrow> Inl (Errno 2) | Some b \<Rightarrow> Inr b, v)),
     os_ReadDir = (\<lambda>path v. (Inr [], v)),
     os_Remove = (\<lambda>path v. if v_files v path = None then (Inl (Errno 2), v) else (Inr (), v\<lparr>v_files := (v_files v)(path := None)\<rparr>)),
     os_RemoveAll = (\<lambda>path v. (Inr (), v\<lparr>v_files := (\<lambda>f. if prefix (path @ [sep]) f then None else v_files v f)\<rparr>)),
     CryptProtectData = (\<lambda>data name v. (if CHR 0x00 \<in> set name then Inl EINVAL else Inr (name @ CHR 0x00 # data), v)),
     CryptUnprotectData = (\<lambda>blob v. (Inr (tl (dropWhile (\<lambda>c. c \<noteq> CHR 0x00) blob), Some (takeWhile (\<lambda>c. c \<noteq> CHR 0x00) blob)), v)),
     rand_Read = (\<lambda>v. (replicate 32 (CHR 0x00), v)), SecurityDescriptorFromString = (\<lambda>str v. (Inr 7, v)),
     CreateFile = (\<lambda>path sd v. if v_open v 4 = None \<and> 4 \<notin> v_doomed v
       then (Inr 4, v\<lparr>v_files := (v_files v)(path \<mapsto> []), v_open := (v_open v)(4 \<mapsto> path)\<rparr>) else (Inl (Errno 5), v)),
     WriteHandle = (\<lambda>h data v. case v_open v h of None \<Rightarrow> (Inl (Errno 6), v)
       | Some path \<Rightarrow> (Inr (length data), v\<lparr>v_files := (v_files v)(path \<mapsto> the (v_files v path) @ data)\<rparr>)),
     FlushFileBuffers = (\<lambda>h v. (Inr (), v)),
     SetFileDisposition = (\<lambda>h v. (Inr (), v\<lparr>v_doomed := insert h (v_doomed v)\<rparr>)),
     SetFileRename = (\<lambda>h replace destination v. case v_open v h of None \<Rightarrow> (Inl (Errno 6), v)
       | Some path \<Rightarrow> if replace \<or> v_files v destination = None
           then (Inr (), v\<lparr>v_files := (v_files v)(path := None, destination := v_files v path), v_open := (v_open v)(h \<mapsto> destination)\<rparr>)
           else (Inl (Errno 183), v)),
     CloseHandle = (\<lambda>h v. case v_open v h of None \<Rightarrow> v
       | Some path \<Rightarrow> v\<lparr>v_files := (if h \<in> v_doomed v then (v_files v)(path := None) else v_files v),
           v_open := (v_open v)(h := None), v_doomed := v_doomed v - {h}\<rparr>)\<rparr>"

definition empty_store :: "fsview store" where
  "empty_store = \<lparr>cachedConfigFileDir = [], cachedRootDir = [], encryptedFileSd = None,
     plat = \<lparr>v_files = Map.empty, v_open = Map.empty, v_doomed = {}\<rparr>\<rparr>"

lemma sample_handle_laws: "handle_laws sample_storage id"
  unfolding handle_laws_def
  by (intro conjI allI impI; simp add: pvalid_def sample_storage_def)

definition sample_dir :: string where
  "sample_dir = [CHR ''C'', CHR '':'', sep, CHR ''D'']"

lemma sample_local_dir: "local_dir sample_dir"
  unfolding local_dir_def sample_dir_def
  by (rule exI [of _ "CHR ''C''"], rule exI [of _ "[''D'']"]) (simp add: elems_def plain_elem_def is_sep_def sep_def)

lemma sample_write:
  assumes "local_dir d" "plain_elem n" "\<not> suffix ''.tmp'' n" "CHR 0x00 \<notin> set (d @ sep # n)" "utf16_len (d @ sep # n) < MAX_PATH"
    and "v_open (plat s) = Map.empty" "v_doomed (plat s) = {}" "v_files (plat s) (d @ sep # n) = None"
  shows "\<exists>s'. writeLockedDownFile sample_storage (d @ sep # n) overwrite contents s = (Inr (), s')"
proof -
  have "hex_char 0 = CHR ''0''" by code_simp
  then have "hex_EncodeToString (replicate k (CHR 0x00)) = replicate (2 * k) (CHR ''0'')" for k
    by (induction k) simp_all
  from this [of 32] have "hex_EncodeToString (replicate 32 (CHR 0x00)) = replicate 64 (CHR ''0'')" by simp
  then have "filepath_Join [filepath_Dir (d @ sep # n), hex_EncodeToString (replicate 32 (CHR 0x00)) @ ''.tmp''] = d @ sep # replicate 64 (CHR ''0'') @ ''.tmp''"
    using local_dir_join(1) [OF assms(1) hex_plain, of "replicate 32 (CHR 0x00)"] local_dir_base(2) [OF assms(1,2)] by simp
  moreover have "CHR 0x00 \<notin> set (d @ sep # replicate 64 (CHR ''0'') @ ''.tmp'')" using assms(4) by auto
  moreover have "d @ sep # n \<noteq> d @ sep # replicate 64 (CHR ''0'') @ ''.tmp''" using assms(3) by (auto simp: suffix_def)
  moreover have "\<not> MAX_PATH < utf16_len (d @ sep # n) + 1" using assms(5) by simp
  ultimately show ?thesis
    using assms(4,6,7,8) by (cases "encryptedFileSd s") (simp_all add: writeLockedDownFile_def fileSd_def pbind_def plift_def onPlat_def randomFileName_def
        UTF16PtrFromString_def fillAndRename_def orDelete_def preturn_def sample_storage_def del: set_append)
qed

theorem writeLockedDownFile_all_or_nothing_witness:
  "\<exists>s. writeLockedDownFile sample_storage (sample_dir @ sep # ''a'') False ''hello'' empty_store = (Inr (), s) \<and>
     v_open (plat s) = Map.empty \<and> v_files (plat s) (sample_dir @ sep # ''a'') = Some ''hello''"
proof -
  have n: "plain_elem ''a''" "\<not> suffix ''.tmp'' ''a''" by (simp_all add: plain_elem_def is_sep_def sep_def suffix_def)
  have "CHR 0x00 \<notin> set (sample_dir @ sep # ''a'')" by (simp add: sample_dir_def sep_def)
  moreover have "utf16_len (sample_dir @ sep # ''a'') < MAX_PATH" by (simp add: utf16_len_def sample_dir_def sep_def MAX_PATH_def)
  ultimately obtain s where w: "writeLockedDownFile sample_storage (sample_dir @ sep # ''a'') False ''hello'' empty_store = (Inr (), s)"
    using sample_write [OF sample_local_dir n, of empty_store] by (auto simp: empty_store_def)
  then show ?thesis
    using writeLockedDownFile_all_or_nothing [OF sample_handle_laws sample_local_dir n w] by (auto simp: empty_store_def)
qed

end
