(* ===== verification/WSTLS.thy ===== *)
theory WSTLS
  imports WSTLSNames
begin

text \<open>
  The TLS files of WebSocket peers (\<open>conf/wstls.go\<close>): a name is made unique in a loop that ends, and the files a
  configuration refers to are collected into the configuration, checked and read.
\<close>

section \<open>References\<close>

text \<open>A pointer to one of the three references of a peer.\<close>

datatype wsTLSField = RefCA | RefCert | RefKey

type_synonym wsTLSRef = "nat \<times> wsTLSField"

fun fieldOf :: "wsTLSField \<Rightarrow> Peer \<Rightarrow> string" where
  "fieldOf RefCA p = WSTLSCA p"
| "fieldOf RefCert p = WSTLSCert p"
| "fieldOf RefKey p = WSTLSKey p"

fun setField :: "wsTLSField \<Rightarrow> string \<Rightarrow> Peer \<Rightarrow> Peer" where
  "setField RefCA v p = p\<lparr>WSTLSCA := v\<rparr>"
| "setField RefCert v p = p\<lparr>WSTLSCert := v\<rparr>"
| "setField RefKey v p = p\<lparr>WSTLSKey := v\<rparr>"

definition deref :: "Config \<Rightarrow> wsTLSRef \<Rightarrow> string" where
  "deref config r = fieldOf (snd r) (Peers config ! fst r)"

definition assign :: "wsTLSRef \<Rightarrow> string \<Rightarrow> Config \<Rightarrow> Config" where
  "assign r v config = config\<lparr>Peers := (Peers config)[fst r := setField (snd r) v (Peers config ! fst r)]\<rparr>"

definition wsTLSReferences :: "Config \<Rightarrow> wsTLSRef list" where
  "wsTLSReferences config =
     concat (map (\<lambda>i. filter (\<lambda>r. deref config r \<noteq> []) [(i, RefCA), (i, RefCert), (i, RefKey)]) [0..<length (Peers config)])"

definition WSTLSStoredFileNames :: "Config \<Rightarrow> string list" where
  "WSTLSStoredFileNames config =
     sort_key (map ord) (remdups (filter WSTLSFileNameIsValid (map (deref config) (wsTLSReferences config))))"

section \<open>Collecting and checking\<close>

text \<open>The names claimed for references that are stored file names: the first spelling of each.\<close>

fun claimNames :: "(nat \<Rightarrow> nat) \<Rightarrow> string list \<Rightarrow> (string \<rightharpoonup> string) \<Rightarrow> (string \<rightharpoonup> string) \<Rightarrow> string list \<Rightarrow> (string \<rightharpoonup> string) \<times> string list" where
  "claimNames ul [] spellings names taken = (names, taken)"
| "claimNames ul (ref # refs) spellings names taken =
     (if WSTLSFileNameIsValid ref then
        (let lower = strings_ToLower ul ref;
             spellings = (case spellings lower of None \<Rightarrow> spellings(lower \<mapsto> ref) | Some _ \<Rightarrow> spellings)
         in claimNames ul refs spellings (names(ref := spellings lower)) (lower # taken))
      else claimNames ul refs spellings names taken)"

text \<open>The name of a reference, new ones added to the maps, and the files with the contents of a new name.\<close>

definition nameOf :: "(nat \<Rightarrow> nat) \<Rightarrow> string \<Rightarrow> (string \<rightharpoonup> string) \<Rightarrow> string list \<Rightarrow> go_error + string \<times> (string \<rightharpoonup> string) \<times> string list" where
  "nameOf ul ref names taken =
     (case names ref of
        Some name \<Rightarrow> Inr (name, names, taken)
      | None \<Rightarrow> rbind (uniqueWSTLSFileName ul (sanitizeWSTLSFileName (filepath_Base ref)) taken) (\<lambda>name.
          Inr (name, names(ref \<mapsto> name), strings_ToLower ul name # taken)))"

definition addFile :: "(string \<Rightarrow> go_error + bytes) \<Rightarrow> string \<Rightarrow> string \<Rightarrow> (string \<times> bytes) list \<Rightarrow> go_error + (string \<times> bytes) list" where
  "addFile read ref name files =
     (if name \<in> fst ` set files then Inr files
      else case read ref of
        Inl err \<Rightarrow> Inl (Wrapped (''Unable to read TLS file '' @ ref) err)
      | Inr data \<Rightarrow> if MaxWSTLSFileSize < length data then Inl (ParseError ''TLS file is too large'' ref) else Inr (files @ [(name, data)]))"

fun collectLoop :: "(nat \<Rightarrow> nat) \<Rightarrow> (string \<Rightarrow> go_error + bytes) \<Rightarrow> wsTLSRef list \<Rightarrow> Config \<Rightarrow> (string \<rightharpoonup> string) \<Rightarrow> string list \<Rightarrow>
    (string \<rightharpoonup> string) \<Rightarrow> (string \<times> bytes) list \<Rightarrow> (go_error + (string \<rightharpoonup> string) \<times> (string \<times> bytes) list) \<times> Config" where
  "collectLoop ul read [] config names taken stored files = (Inr (stored, files), config)"
| "collectLoop ul read (r # refs) config names taken stored files =
     (let ref = deref config r in
      case nameOf ul ref names taken of
        Inl err \<Rightarrow> (Inl err, config)
      | Inr (name, names, taken) \<Rightarrow>
          (case addFile read ref name files of
             Inl err \<Rightarrow> (Inl err, config)
           | Inr files \<Rightarrow> collectLoop ul read refs (assign r name config) names taken (stored(ref \<mapsto> name)) files))"

definition CollectWSTLSFiles :: "(nat \<Rightarrow> nat) \<Rightarrow> (string \<Rightarrow> go_error + bytes) \<Rightarrow> Config \<Rightarrow> (go_error + (string \<rightharpoonup> string)) \<times> Config" where
  "CollectWSTLSFiles ul read config =
     (let refs = wsTLSReferences config;
          (names, taken) = claimNames ul (map (deref config) refs) Map.empty Map.empty []
      in case collectLoop ul read refs config names taken Map.empty [] of
        (Inl err, config) \<Rightarrow> (Inl err, config)
      | (Inr (stored, files), config) \<Rightarrow>
          if MaxWSTLSFiles < length files then (Inl (ParseError ''Too many TLS files'' (nat_str (length files))), config)
          else (Inr stored, config\<lparr>WSTLSFiles := files\<rparr>))"

text \<open>
  The loops of \<open>ValidateWSTLSFiles\<close>. Go visits the map of files in no fixed order; only which of several errors is returned
  depends on it.
\<close>

fun validateRefs :: "(string \<times> bytes) list \<Rightarrow> string list \<Rightarrow> string list \<Rightarrow> go_error + string list" where
  "validateRefs files [] referenced = Inr referenced"
| "validateRefs files (ref # refs) referenced =
     (if WSTLSFileNameIsValid ref then
        (if ref \<in> fst ` set files then validateRefs files refs (ref # referenced)
         else Inl (ParseError ''Missing contents of stored TLS file'' ref))
      else if \<not> IsWSTLSLocalPath ref then Inl (ParseError ''TLS file must be a stored file name or an absolute local path'' ref)
      else validateRefs files refs referenced)"

fun validateFiles :: "(nat \<Rightarrow> nat) \<Rightarrow> string list \<Rightarrow> (string \<times> bytes) list \<Rightarrow> string list \<Rightarrow> go_error option" where
  "validateFiles ul referenced [] lowerNames = None"
| "validateFiles ul referenced ((name, data) # files) lowerNames =
     (if strings_ToLower ul name \<in> set lowerNames then Some (ParseError ''Stored TLS file names must differ in more than letter case'' name)
      else if \<not> WSTLSFileNameIsValid name \<or> name \<notin> set referenced then Some (ParseError ''Unexpected stored TLS file'' name)
      else if MaxWSTLSFileSize < length data then Some (ParseError ''TLS file is too large'' name)
      else validateFiles ul referenced files (strings_ToLower ul name # lowerNames))"

definition ValidateWSTLSFiles :: "(nat \<Rightarrow> nat) \<Rightarrow> Config \<Rightarrow> go_error option" where
  "ValidateWSTLSFiles ul config =
     (case validateRefs (WSTLSFiles config) (map (deref config) (wsTLSReferences config)) [] of
        Inl err \<Rightarrow> Some err
      | Inr referenced \<Rightarrow>
          if MaxWSTLSFiles < length (WSTLSFiles config)
          then Some (ParseError ''Too many TLS files'' (nat_str (length (WSTLSFiles config))))
          else validateFiles ul referenced (WSTLSFiles config) [])"

section \<open>Unique names\<close>

lemma nat_str_length: "n < 10 ^ k \<Longrightarrow> 0 < k \<Longrightarrow> length (nat_str n) \<le> k"
proof (induction n arbitrary: k rule: nat_str.induct)
  case (1 n)
  show ?case
  proof (cases "n < 10")
    case False
    then have "k \<noteq> 1" using 1(2) by auto
    then obtain k' where k: "k = Suc k'" "0 < k'" using 1(3) by (cases k) auto
    have "n div 10 < 10 ^ k'" using 1(2) k(1) by auto
    then have "length (nat_str (n div 10)) \<le> k'" using 1(1) False k(2) by blast
    with False k show ?thesis by (subst nat_str.simps) simp
  qed (use 1(3) in \<open>subst nat_str.simps, simp\<close>)
qed

lemma nat_str_inj: "nat_str m = nat_str n \<Longrightarrow> m = n"
proof -
  assume "nat_str m = nat_str n"
  moreover have "parse_digits (max m n) 0 (nat_str m) = Inr m" "parse_digits (max m n) 0 (nat_str n) = Inr n"
    by (intro parse_digits_nat_str; simp)+
  ultimately have "(Inr m :: num_err + nat) = Inr n" by metis
  then show ?thesis by (simp only: sum.inject)
qed

lemma lower_nat_str: "map lower_ascii (nat_str n) = nat_str n"
  by (intro map_idI) (auto simp: lower_ascii_def is_digit_def dest!: nat_str_digits)

lemma candidateE:
  assumes "candidate stem ext i = Inr c"
  obtains p where "c = p @ CHR ''-'' # nat_str i @ ext" "prefix p stem" "length c \<le> 64"
  using assms that [of stem] that [of "take (wsTLSFileNameMaxLen - length (''-'' @ nat_str i) - length ext) stem"]
  by (auto simp: candidate_def Let_def wsTLSFileNameMaxLen_def take_is_prefix split: if_splits)

lemma candidate_ok:
  assumes "i < 10 ^ 31" "length ext \<le> 32"
  obtains c where "candidate stem ext i = Inr c"
proof -
  have "length (nat_str i) \<le> 31" using nat_str_length [OF assms(1)] by simp
  then have "\<exists>c. candidate stem ext i = Inr c" using assms(2) by (simp add: candidate_def Let_def wsTLSFileNameMaxLen_def)
  then show thesis using that by blast
qed

lemma candidate_inj:
  assumes "candidate stem ext i = Inr c" "candidate stem ext j = Inr d" "map lower_ascii c = map lower_ascii d"
  shows "i = j"
proof -
  obtain p q where c: "c = p @ CHR ''-'' # nat_str i @ ext" "d = q @ CHR ''-'' # nat_str j @ ext"
    using assms(1,2) by (metis candidateE)
  have "lower_ascii (CHR ''-'') = CHR ''-''" by code_simp
  with assms(3) have "map lower_ascii p @ CHR ''-'' # nat_str i = map lower_ascii q @ CHR ''-'' # nat_str j"
    unfolding c by (simp add: lower_nat_str)
  then have "takeWhile (\<lambda>x. x \<noteq> CHR ''-'') (rev (map lower_ascii p @ CHR ''-'' # nat_str i)) =
      takeWhile (\<lambda>x. x \<noteq> CHR ''-'') (rev (map lower_ascii q @ CHR ''-'' # nat_str j))" by simp
  moreover have "CHR ''-'' \<notin> set (nat_str n)" for n by (rule nat_str_notin) (simp add: is_digit_def)
  ultimately have "nat_str i = nat_str j" by simp
  then show ?thesis by (rule nat_str_inj)
qed

lemma candidate_valid:
  assumes "WSTLSFileNameIsValid (stem @ ext)" "stem \<noteq> []" "ext = [] \<or> hd ext = CHR ''.''" "candidate stem ext i = Inr c"
  shows "WSTLSFileNameIsValid c"
proof -
  obtain p where c: "c = p @ CHR ''-'' # nat_str i @ ext" "prefix p stem" "length c \<le> 64" using assms(4) by (rule candidateE)
  obtain q where q: "stem = p @ q" using c(2) by (auto simp: prefix_def)
  have v: "hd (stem @ ext) \<noteq> CHR ''.''" "last (stem @ ext) \<noteq> CHR ''.''" "\<forall>x\<in>set (stem @ ext). wsTLSNameChar x" "\<not> isReserved (stem @ ext)"
    using assms(1) by (simp_all add: valid_iff)
  have d: "\<forall>x\<in>set (nat_str i). wsTLSNameChar x \<and> x \<noteq> CHR ''.''" by (auto simp: wsTLSNameChar_def is_digit_def dest!: nat_str_digits)
  have "hd c \<noteq> CHR ''.''" using v(1) c(1) q by (cases p) auto
  moreover have "last c \<noteq> CHR ''.''" using v(2) d c(1) by (cases "ext = []") auto
  moreover have "\<forall>x\<in>set c. wsTLSNameChar x" using v(3) d q c(1) by (auto simp: wsTLSNameChar_def [of "CHR ''-''"])
  moreover have "\<not> isReserved c"
  proof (cases "CHR ''.'' \<in> set p")
    case True
    then have "takeWhile (\<lambda>x. x \<noteq> CHR ''.'') c = takeWhile (\<lambda>x. x \<noteq> CHR ''.'') (stem @ ext)"
      using q c(1) takeWhile_prefix [OF True] by simp
    with v(4) show ?thesis using first_part_keeps by metis
  next
    case False
    have "CHR ''.'' \<notin> set (p @ CHR ''-'' # nat_str i)" using False d by auto
    then have "takeWhile (\<lambda>x. x \<noteq> CHR ''.'') ((p @ CHR ''-'' # nat_str i) @ ext) = (p @ CHR ''-'' # nat_str i) @ takeWhile (\<lambda>x. x \<noteq> CHR ''.'') ext"
      by (intro takeWhile_append2) auto
    moreover have "takeWhile (\<lambda>x. x \<noteq> CHR ''.'') ext = []" using assms(3) by (cases ext) auto
    ultimately have "takeWhile (\<lambda>x. x \<noteq> CHR ''.'') c = p @ CHR ''-'' # nat_str i" using c(1) by simp
    then show ?thesis using reserved_short(2) [of "p @ CHR ''-'' # nat_str i"] by (auto simp: isReserved_first)
  qed
  ultimately show ?thesis using c(1,3) by (simp add: valid_iff)
qed

lemma uniqueLoop_finds:
  assumes "\<And>k. k \<le> j \<Longrightarrow> \<exists>c. candidate stem ext k = Inr c" "candidate stem ext j = Inr c" "strings_ToLower ul c \<notin> set taken" "i \<le> j"
  shows "\<exists>k u. k \<le> j \<and> uniqueLoop ul taken stem ext i = Inr u \<and> candidate stem ext k = Inr u \<and> strings_ToLower ul u \<notin> set taken"
  using assms(4)
proof (induction "j - i" arbitrary: i)
  case 0
  then have "i = j" by simp
  then show ?case using assms(2,3) by (auto simp: uniqueLoop.simps intro!: exI [of _ j])
next
  case (Suc n)
  obtain d where d: "candidate stem ext i = Inr d" using assms(1) Suc.prems by blast
  show ?case
  proof (cases "strings_ToLower ul d \<in> set taken")
    case True
    have "n = j - Suc i" "Suc i \<le> j" using Suc.hyps(2) by simp_all
    with Suc.hyps(1) [of "Suc i"] True d show ?thesis by (simp add: uniqueLoop.simps [of ul taken stem ext i])
  next
    case False
    with d Suc.prems show ?thesis by (auto simp: uniqueLoop.simps [of ul taken stem ext i] intro!: exI [of _ i])
  qed
qed

text \<open>Among one more candidate than there are names taken, one is free.\<close>

lemma candidate_free:
  assumes "WSTLSFileNameIsValid (stem @ ext)" "stem \<noteq> []" "ext = [] \<or> hd ext = CHR ''.''" "length ext \<le> 32" "length taken < 10 ^ 30"
  obtains j c where "j \<in> {2..length taken + 2}" "candidate stem ext j = Inr c" "strings_ToLower ul c \<notin> set taken"
proof -
  define f where "f j = strings_ToLower ul (projr (candidate stem ext j))" for j
  have ok: "\<exists>c. candidate stem ext j = Inr c \<and> f j = map lower_ascii c" if "j \<in> {2..length taken + 2}" for j
  proof -
    have "j < 10 ^ 31" using that assms(5) by simp
    then obtain c where "candidate stem ext j = Inr c" using candidate_ok assms(4) by blast
    moreover have "is_ascii c" using candidate_valid [OF assms(1-3) calculation] by (rule valid_plain(2))
    ultimately show ?thesis by (simp add: f_def strings_ToLower_ascii)
  qed
  have "inj_on f {2..length taken + 2}" by (intro inj_onI) (metis ok candidate_inj)
  then have "card (f ` {2..length taken + 2}) = Suc (length taken)" by (simp add: card_image)
  then have "\<not> f ` {2..length taken + 2} \<subseteq> set taken"
    using card_mono [of "set taken" "f ` {2..length taken + 2}"] card_length [of taken] by auto
  then obtain j where j: "j \<in> {2..length taken + 2}" "f j \<notin> set taken" by blast
  with ok [OF j(1)] that show thesis by (auto simp: f_def)
qed

lemma unique_name:
  assumes "WSTLSFileNameIsValid name" "length taken < 10 ^ 30"
  shows "\<exists>u. uniqueWSTLSFileName ul name taken = Inr u \<and> WSTLSFileNameIsValid u \<and> strings_ToLower ul u \<notin> set taken \<and>
    (u = name \<or> (\<exists>i \<le> length taken + 2. candidate (strings_TrimSuffix name (shortExt name)) (shortExt name) i = Inr u))"
proof (cases "strings_ToLower ul name \<in> set taken")
  case True
  have v: "\<forall>c\<in>set name. \<not> is_sep c" "name \<noteq> []" "hd name \<noteq> CHR ''.''" "last name \<noteq> CHR ''.''"
    using assms(1) wsTLSNameChar_plain by (auto simp: valid_iff)
  define ext where "ext = shortExt name"
  obtain st where st: "name = st @ ext" "st \<noteq> []" "length ext \<le> 32" "ext = [] \<or> hd ext = CHR ''.''"
    using shortExt_split [OF v] by (metis ext_def)
  have stem: "strings_TrimSuffix name ext = st" using st(1) by simp
  have "WSTLSFileNameIsValid (st @ ext)" using assms(1) st(1) by simp
  note sv = this st(2,4)
  obtain j c where j: "j \<in> {2..length taken + 2}" "candidate st ext j = Inr c" "strings_ToLower ul c \<notin> set taken"
    using candidate_free [OF sv st(3) assms(2)] by blast
  have "\<exists>c. candidate st ext k = Inr c" if "k \<le> j" for k
  proof -
    have "k < 10 ^ 31" using that j(1) assms(2) by simp
    then show ?thesis using candidate_ok [OF _ st(3)] by blast
  qed
  then obtain k u where u: "k \<le> j" "uniqueLoop ul taken st ext 2 = Inr u" "candidate st ext k = Inr u" "strings_ToLower ul u \<notin> set taken"
    using uniqueLoop_finds [OF _ j(2,3), of 2] j(1) by auto
  have "uniqueWSTLSFileName ul name taken = Inr u"
    using True u(2) stem by (simp add: uniqueWSTLSFileName_def Let_def ext_def shortExt_def)
  moreover have "WSTLSFileNameIsValid u" using candidate_valid [OF sv u(3)] .
  ultimately show ?thesis using u j(1) stem unfolding ext_def [symmetric] by (metis atLeastAtMost_iff le_trans)
qed (use assms in \<open>simp add: uniqueWSTLSFileName_def\<close>)

text \<open>C22. The search for an unused name ends: with \<open>n\<close> names taken it looks at no more than \<open>n + 1\<close> candidates, never
  cuts out of range, and returns a valid file name that differs from all taken ones in more than letter case. That holds for the name derived from any path.\<close>

theorem uniqueWSTLSFileName_terminates:
  fixes path :: string
  assumes "length taken < 10 ^ 30"
  defines "name \<equiv> sanitizeWSTLSFileName (filepath_Base path)"
  shows "\<exists>u. uniqueWSTLSFileName ul name taken = Inr u \<and> WSTLSFileNameIsValid u \<and> strings_ToLower ul u \<notin> set taken \<and>
    (u = name \<or> (\<exists>i \<le> length taken + 2. candidate (strings_TrimSuffix name (shortExt name)) (shortExt name) i = Inr u))"
  using unique_name [OF sanitize_valid assms(1)] by (simp add: name_def)

theorem uniqueWSTLSFileName_terminates_witness:
  "\<exists>u. uniqueWSTLSFileName id ''ca.pem'' [''ca.pem'', ''ca-2.pem''] = Inr u \<and> WSTLSFileNameIsValid u"
proof -
  have "sanitizeWSTLSFileName (filepath_Base ''C:/certs/ca.pem'') = ''ca.pem''" by code_simp
  then show ?thesis using uniqueWSTLSFileName_terminates [where taken = "[''ca.pem'', ''ca-2.pem'']" and path = "''C:/certs/ca.pem''" and ul = id] by auto
qed

section \<open>Collected files pass the check\<close>

lemma fieldOf_setField [simp]: "fieldOf f (setField g v p) = (if f = g then v else fieldOf f p)"
  by (cases f; cases g) simp_all

lemma deref_assign:
  "fst r < length (Peers c) \<Longrightarrow> deref (assign r v c) r' = (if r' = r then v else deref c r')"
  by (cases r; cases r') (auto simp: deref_def assign_def nth_list_update)

lemma length_assign [simp]: "length (Peers (assign r v c)) = length (Peers c)"
  by (simp add: assign_def)

lemma wsTLSReferences_filter:
  "wsTLSReferences c = filter (\<lambda>r. deref c r \<noteq> []) (concat (map (\<lambda>i. [(i, RefCA), (i, RefCert), (i, RefKey)]) [0..<length (Peers c)]))"
  unfolding wsTLSReferences_def filter_concat map_map comp_def ..

lemma set_wsTLSReferences: "r \<in> set (wsTLSReferences c) \<longleftrightarrow> fst r < length (Peers c) \<and> deref c r \<noteq> []"
proof -
  have "r \<in> set (concat (map (\<lambda>i. [(i, RefCA), (i, RefCert), (i, RefKey)]) [0..<n])) \<longleftrightarrow> fst r < n" for n
    by (cases r, cases "snd r") auto
  then show ?thesis unfolding wsTLSReferences_filter set_filter by blast
qed

lemma distinct_wsTLSReferences: "distinct (wsTLSReferences c)"
proof -
  have "distinct (concat (map (\<lambda>i. [(i, RefCA), (i, RefCert), (i, RefKey)]) [0..<n]))" for n
    by (induction n) auto
  then show ?thesis unfolding wsTLSReferences_filter by (rule distinct_filter)
qed

lemma wsTLSReferences_cong:
  assumes "length (Peers c) = length (Peers d)" "\<And>r. fst r < length (Peers c) \<Longrightarrow> deref c r = [] \<longleftrightarrow> deref d r = []"
  shows "wsTLSReferences c = wsTLSReferences d"
  unfolding wsTLSReferences_filter assms(1) [symmetric] by (intro filter_cong refl) (auto simp: assms(2))

text \<open>Everything of a configuration but its references.\<close>

definition noRefs :: "Config \<Rightarrow> Config" where
  "noRefs c = c\<lparr>Peers := map (\<lambda>p. p\<lparr>WSTLSCA := [], WSTLSCert := [], WSTLSKey := []\<rparr>) (Peers c)\<rparr>"

lemma noRefs_assign [simp]: "noRefs (assign r v c) = noRefs c"
proof -
  have clear: "(setField f v p)\<lparr>WSTLSCA := [], WSTLSCert := [], WSTLSKey := []\<rparr> = p\<lparr>WSTLSCA := [], WSTLSCert := [], WSTLSKey := []\<rparr>" for f p
    by (cases f) simp_all
  have "map (\<lambda>p. p\<lparr>WSTLSCA := [], WSTLSCert := [], WSTLSKey := []\<rparr>) ((Peers c)[fst r := setField (snd r) v (Peers c ! fst r)]) =
      map (\<lambda>p. p\<lparr>WSTLSCA := [], WSTLSCert := [], WSTLSKey := []\<rparr>) (Peers c)"
  proof (intro nth_equalityI)
    fix i
    assume "i < length (map (\<lambda>p. p\<lparr>WSTLSCA := [], WSTLSCert := [], WSTLSKey := []\<rparr>) ((Peers c)[fst r := setField (snd r) v (Peers c ! fst r)]))"
    then show "map (\<lambda>p. p\<lparr>WSTLSCA := [], WSTLSCert := [], WSTLSKey := []\<rparr>) ((Peers c)[fst r := setField (snd r) v (Peers c ! fst r)]) ! i =
        map (\<lambda>p. p\<lparr>WSTLSCA := [], WSTLSCert := [], WSTLSKey := []\<rparr>) (Peers c) ! i"
      by (cases "fst r = i") (simp_all add: clear)
  qed simp
  then show ?thesis by (simp add: noRefs_def assign_def)
qed

lemma uniqueLoop_sound:
  "uniqueLoop ul taken stem ext i = Inr u \<Longrightarrow> (\<exists>k. candidate stem ext k = Inr u) \<and> strings_ToLower ul u \<notin> set taken"
proof (induction ul taken stem ext i rule: uniqueLoop.induct)
  case (1 ul taken stem ext i)
  then show ?case by (subst (asm) (2) uniqueLoop.simps) (auto split: sum.splits if_splits)
qed

lemma unique_sound:
  assumes "uniqueWSTLSFileName ul name taken = Inr u" "WSTLSFileNameIsValid name"
  shows "WSTLSFileNameIsValid u" "strings_ToLower ul u \<notin> set taken"
proof -
  have v: "\<forall>c\<in>set name. \<not> is_sep c" "name \<noteq> []" "hd name \<noteq> CHR ''.''" "last name \<noteq> CHR ''.''"
    using assms(2) wsTLSNameChar_plain by (auto simp: valid_iff)
  obtain st where st: "name = st @ shortExt name" "st \<noteq> []" "shortExt name = [] \<or> hd (shortExt name) = CHR ''.''"
    using shortExt_split [OF v] by metis
  then have stem: "strings_TrimSuffix name (shortExt name) = st" by (metis strings_TrimSuffix_append)
  have sv: "WSTLSFileNameIsValid (st @ shortExt name)" using assms(2) st(1) by simp
  have "u = name \<and> strings_ToLower ul name \<notin> set taken \<or> uniqueLoop ul taken st (shortExt name) 2 = Inr u"
    using assms(1) stem by (auto simp: uniqueWSTLSFileName_def Let_def shortExt_def split: if_splits)
  then show "WSTLSFileNameIsValid u" "strings_ToLower ul u \<notin> set taken"
    using assms(2) uniqueLoop_sound candidate_valid [OF sv st(2,3)] by blast+
qed

text \<open>
  The names given so far: all valid and taken, and two references share a name, up to case, only when both are
  stored file names that differ in case at most.
\<close>

definition names_ok :: "(nat \<Rightarrow> nat) \<Rightarrow> (string \<rightharpoonup> string) \<Rightarrow> string list \<Rightarrow> bool" where
  "names_ok ul names taken \<longleftrightarrow>
     (\<forall>r n. names r = Some n \<longrightarrow> WSTLSFileNameIsValid n \<and> strings_ToLower ul n \<in> set taken) \<and>
     (\<forall>r1 r2 n1 n2. names r1 = Some n1 \<longrightarrow> names r2 = Some n2 \<longrightarrow> strings_ToLower ul n1 = strings_ToLower ul n2 \<longrightarrow>
        n1 = n2 \<and> (r1 = r2 \<or> WSTLSFileNameIsValid r1 \<and> WSTLSFileNameIsValid r2 \<and> strings_ToLower ul r1 = strings_ToLower ul r2))"

definition spellings_ok :: "(nat \<Rightarrow> nat) \<Rightarrow> (string \<rightharpoonup> string) \<Rightarrow> (string \<rightharpoonup> string) \<Rightarrow> string list \<Rightarrow> bool" where
  "spellings_ok ul spellings names taken \<longleftrightarrow>
     (\<forall>l s. spellings l = Some s \<longrightarrow> WSTLSFileNameIsValid s \<and> strings_ToLower ul s = l) \<and>
     (\<forall>r n. names r = Some n \<longrightarrow> WSTLSFileNameIsValid r \<and> spellings (strings_ToLower ul r) = Some n \<and> strings_ToLower ul r \<in> set taken)"

lemma names_okI:
  assumes "\<And>r n. names r = Some n \<Longrightarrow> WSTLSFileNameIsValid n \<and> strings_ToLower ul n \<in> set taken"
    and "\<And>r1 r2 n1 n2. names r1 = Some n1 \<Longrightarrow> names r2 = Some n2 \<Longrightarrow> strings_ToLower ul n1 = strings_ToLower ul n2 \<Longrightarrow>
      n1 = n2 \<and> (r1 = r2 \<or> WSTLSFileNameIsValid r1 \<and> WSTLSFileNameIsValid r2 \<and> strings_ToLower ul r1 = strings_ToLower ul r2)"
  shows "names_ok ul names taken"
  unfolding names_ok_def using assms by blast

lemma names_okD:
  assumes "names_ok ul names taken" "names r = Some n"
  shows "WSTLSFileNameIsValid n" "strings_ToLower ul n \<in> set taken"
  using assms by (auto simp: names_ok_def)

lemma names_okD2:
  assumes "names_ok ul names taken" "names r1 = Some n1" "names r2 = Some n2" "strings_ToLower ul n1 = strings_ToLower ul n2"
  shows "n1 = n2" "r1 = r2 \<or> WSTLSFileNameIsValid r1 \<and> WSTLSFileNameIsValid r2 \<and> strings_ToLower ul r1 = strings_ToLower ul r2"
  using assms unfolding names_ok_def by blast+

lemma names_ok_insert:
  assumes "names_ok ul names taken" "WSTLSFileNameIsValid u" "strings_ToLower ul u \<notin> set taken"
  shows "names_ok ul (names(ref \<mapsto> u)) (strings_ToLower ul u # taken)"
proof (rule names_okI)
  fix r n
  assume "(names(ref \<mapsto> u)) r = Some n"
  then show "WSTLSFileNameIsValid n \<and> strings_ToLower ul n \<in> set (strings_ToLower ul u # taken)"
    using assms(2) names_okD [OF assms(1)] by (cases "r = ref") auto
next
  fix r1 r2 n1 n2
  assume n: "(names(ref \<mapsto> u)) r1 = Some n1" "(names(ref \<mapsto> u)) r2 = Some n2" "strings_ToLower ul n1 = strings_ToLower ul n2"
  have fresh: "strings_ToLower ul n \<noteq> strings_ToLower ul u" if "names r = Some n" for r n
    using names_okD(2) [OF assms(1) that] assms(3) by metis
  show "n1 = n2 \<and> (r1 = r2 \<or> WSTLSFileNameIsValid r1 \<and> WSTLSFileNameIsValid r2 \<and> strings_ToLower ul r1 = strings_ToLower ul r2)"
  proof (cases "r1 = ref \<or> r2 = ref")
    case True
    then show ?thesis using n fresh by (cases "r1 = ref"; cases "r2 = ref") auto
  next
    case False
    then show ?thesis using n names_okD2 [OF assms(1)] by (metis fun_upd_other)
  qed
qed

lemma claimNames_ok:
  assumes "claimNames ul refs spellings names taken = (names', taken')" "spellings_ok ul spellings names taken"
  shows "names_ok ul names' taken'"
  using assms
proof (induction refs arbitrary: spellings names taken)
  case Nil
  then have sp: "WSTLSFileNameIsValid s" "strings_ToLower ul s = l" if "spellings l = Some s" for l s
    using that by (simp_all add: spellings_ok_def)
  from Nil have nm: "WSTLSFileNameIsValid r" "spellings (strings_ToLower ul r) = Some n" "strings_ToLower ul r \<in> set taken'" if "names' r = Some n" for r n
    using that by (simp_all add: spellings_ok_def)
  show ?case
  proof (rule names_okI)
    fix r n
    assume "names' r = Some n"
    then show "WSTLSFileNameIsValid n \<and> strings_ToLower ul n \<in> set taken'" using sp [OF nm(2)] nm(3) by simp
  next
    fix r1 r2 n1 n2
    assume n: "names' r1 = Some n1" "names' r2 = Some n2" "strings_ToLower ul n1 = strings_ToLower ul n2"
    then have "strings_ToLower ul r1 = strings_ToLower ul r2" using sp(2) [OF nm(2)] by metis
    with n nm show "n1 = n2 \<and> (r1 = r2 \<or> WSTLSFileNameIsValid r1 \<and> WSTLSFileNameIsValid r2 \<and> strings_ToLower ul r1 = strings_ToLower ul r2)"
      by (metis option.inject)
  qed
next
  case (Cons ref refs)
  show ?case
  proof (cases "WSTLSFileNameIsValid ref")
    case True
    define sp where "sp = (case spellings (strings_ToLower ul ref) of None \<Rightarrow> spellings(strings_ToLower ul ref \<mapsto> ref) | Some _ \<Rightarrow> spellings)"
    have sp: "\<exists>s. sp (strings_ToLower ul ref) = Some s" "\<And>l. l \<noteq> strings_ToLower ul ref \<Longrightarrow> sp l = spellings l"
      "\<And>l s. spellings l = Some s \<Longrightarrow> sp l = Some s"
      by (auto simp: sp_def split: option.split)
    have "\<forall>l s. sp l = Some s \<longrightarrow> WSTLSFileNameIsValid s \<and> strings_ToLower ul s = l"
      using Cons.prems(2) True by (auto simp: sp_def spellings_ok_def split: option.splits if_splits)
    then have "spellings_ok ul sp (names(ref := sp (strings_ToLower ul ref))) (strings_ToLower ul ref # taken)"
      using Cons.prems(2) True sp(3) by (auto simp: spellings_ok_def)
    with Cons.IH Cons.prems(1) True show ?thesis by (simp add: Let_def sp_def)
  qed (use Cons in simp)
qed

lemma nameOf_ok:
  assumes "nameOf ul ref names taken = Inr (name, names', taken')" "names_ok ul names taken"
  shows "names_ok ul names' taken'" "names' ref = Some name" "names \<subseteq>\<^sub>m names'"
proof (atomize (full), cases "names ref")
  case None
  then obtain u where u: "uniqueWSTLSFileName ul (sanitizeWSTLSFileName (filepath_Base ref)) taken = Inr u"
    "name = u" "names' = names(ref \<mapsto> u)" "taken' = strings_ToLower ul u # taken" using assms(1) by (auto simp: nameOf_def rbind_eq_Inr)
  note fresh = unique_sound [OF u(1) sanitize_valid]
  have "names_ok ul names' taken'" unfolding u(3,4) by (rule names_ok_insert [OF assms(2) fresh])
  with None u show "names_ok ul names' taken' \<and> names' ref = Some name \<and> names \<subseteq>\<^sub>m names'" by (auto simp: map_le_def)
qed (use assms in \<open>simp add: nameOf_def\<close>)

text \<open>The files read so far, for the references \<open>R\<close>.\<close>

definition files_ok :: "(string \<Rightarrow> go_error + bytes) \<Rightarrow> (string \<rightharpoonup> string) \<Rightarrow> string set \<Rightarrow> (string \<times> bytes) list \<Rightarrow> bool" where
  "files_ok read names R files \<longleftrightarrow> distinct (map fst files) \<and>
     (\<forall>n d. (n, d) \<in> set files \<longrightarrow> length d \<le> MaxWSTLSFileSize \<and> (\<exists>ref\<in>R. names ref = Some n \<and> read ref = Inr d))"

lemma addFile_ok:
  assumes "addFile read ref name files = Inr files'" "files_ok read names R files" "names \<subseteq>\<^sub>m names'" "names' ref = Some name"
  shows "files_ok read names' (insert ref R) files'" "fst ` set files' = insert name (fst ` set files)"
proof (atomize (full), cases "name \<in> fst ` set files")
  case True
  then have "files' = files" using assms(1) by (simp add: addFile_def)
  with True assms(2,3) show "files_ok read names' (insert ref R) files' \<and> fst ` set files' = insert name (fst ` set files)"
    by (fastforce simp: files_ok_def map_le_def dom_def)
next
  case False
  then obtain d where d: "read ref = Inr d" "length d \<le> MaxWSTLSFileSize" "files' = files @ [(name, d)]"
    using assms(1) by (auto simp: addFile_def split: sum.splits if_splits)
  have old: "\<exists>ref\<in>R. names' ref = Some n \<and> read ref = Inr e" "length e \<le> MaxWSTLSFileSize" if "(n, e) \<in> set files" for n e
    using assms(2,3) that by (fastforce simp: files_ok_def map_le_def dom_def)+
  have "distinct (map fst files')" using False assms(2) d(3) by (simp add: files_ok_def)
  moreover have "length e \<le> MaxWSTLSFileSize \<and> (\<exists>r\<in>insert ref R. names' r = Some n \<and> read r = Inr e)" if "(n, e) \<in> set files'" for n e
    using that d old [of n e] assms(4) by auto
  ultimately show "files_ok read names' (insert ref R) files' \<and> fst ` set files' = insert name (fst ` set files)"
    using d(3) by (simp add: files_ok_def)
qed

lemma collectLoop_ok:
  assumes "collectLoop ul read refs c names taken stored files = (Inr (stored', files'), c')"
    and "names_ok ul names taken" "files_ok read names R files" "distinct refs" "\<forall>r\<in>set refs. fst r < length (Peers c)"
  shows "\<exists>names' taken'. names_ok ul names' taken' \<and> files_ok read names' (R \<union> deref c ` set refs) files' \<and> names \<subseteq>\<^sub>m names' \<and>
    length (Peers c') = length (Peers c) \<and> noRefs c' = noRefs c \<and>
    (\<forall>r\<in>set refs. names' (deref c r) = Some (deref c' r)) \<and> (\<forall>r. r \<notin> set refs \<longrightarrow> deref c' r = deref c r) \<and>
    fst ` set files' = fst ` set files \<union> deref c' ` set refs \<and>
    (\<forall>ref. stored' ref = (if ref \<in> deref c ` set refs then names' ref else stored ref))"
  using assms
proof (induction refs arbitrary: c names taken stored files R)
  case (Cons r refs)
  let ?ref = "deref c r"
  obtain name names1 taken1 files1 where step: "nameOf ul ?ref names taken = Inr (name, names1, taken1)" "addFile read ?ref name files = Inr files1"
    "collectLoop ul read refs (assign r name c) names1 taken1 (stored(?ref \<mapsto> name)) files1 = (Inr (stored', files'), c')"
    using Cons.prems(1) by (auto simp: Let_def split: sum.splits)
  note n = nameOf_ok [OF step(1) Cons.prems(2)]
  note f = addFile_ok [OF step(2) Cons.prems(3) n(3,2)]
  have ix: "fst r < length (Peers c)" using Cons.prems(5) by simp
  note da = deref_assign [OF ix, of name]
  have "distinct refs" "\<forall>r\<in>set refs. fst r < length (Peers (assign r name c))" "r \<notin> set refs" using Cons.prems(4,5) by auto
  moreover have "\<forall>x\<in>set refs. fst x < length (Peers (assign r name c))" using Cons.prems(5) by simp
  moreover have eq: "deref (assign r name c) x = deref c x" if "x \<in> set refs" for x using that \<open>r \<notin> set refs\<close> da by auto
  ultimately obtain names' taken' where IH: "names_ok ul names' taken'" "files_ok read names' (insert ?ref R \<union> deref c ` set refs) files'" "names1 \<subseteq>\<^sub>m names'"
    "length (Peers c') = length (Peers c)" "noRefs c' = noRefs c"
    "\<forall>x\<in>set refs. names' (deref c x) = Some (deref c' x)" "\<forall>x. x \<notin> set refs \<longrightarrow> deref c' x = deref (assign r name c) x"
    "fst ` set files' = fst ` set files1 \<union> deref c' ` set refs"
    "\<forall>ref. stored' ref = (if ref \<in> deref c ` set refs then names' ref else (stored(?ref \<mapsto> name)) ref)"
    using Cons.IH [OF step(3) n(1) f(1)] by (auto simp: image_def cong: ball_cong bex_cong)
  have "deref c' r = deref (assign r name c) r" using IH(7) \<open>r \<notin> set refs\<close> by blast
  then have r: "deref c' r = name" "names' ?ref = Some name" using da IH(3) n(2) by (simp_all add: map_le_def dom_def)
  have "names \<subseteq>\<^sub>m names'" using n(3) IH(3) by (rule map_le_trans)
  moreover have "insert ?ref R \<union> deref c ` set refs = R \<union> deref c ` set (r # refs)" by auto
  moreover have "\<forall>x. x \<notin> set (r # refs) \<longrightarrow> deref c' x = deref c x" using IH(7) da by (metis list.set_intros)
  moreover have "fst ` set files' = fst ` set files \<union> deref c' ` set (r # refs)" using IH(8) f(2) r(1) by auto
  moreover have "\<forall>ref. stored' ref = (if ref \<in> deref c ` set (r # refs) then names' ref else stored ref)" using IH(9) r(2) by auto
  ultimately show ?case using IH(1,2,4-6) r by (intro exI [of _ names'] exI [of _ taken']) simp
qed auto

lemma validateRefs_ok:
  "\<forall>ref\<in>set refs. WSTLSFileNameIsValid ref \<and> ref \<in> fst ` set files \<Longrightarrow> validateRefs files refs rs = Inr (rev refs @ rs)"
  by (induction refs arbitrary: rs) auto

lemma validateFiles_ok:
  assumes "distinct (map (strings_ToLower ul \<circ> fst) files)" "\<forall>(n, d)\<in>set files. strings_ToLower ul n \<notin> set ls"
    "\<forall>(n, d)\<in>set files. WSTLSFileNameIsValid n \<and> n \<in> set referenced \<and> length d \<le> MaxWSTLSFileSize"
  shows "validateFiles ul referenced files ls = None"
  using assms
proof (induction files arbitrary: ls)
  case (Cons nd files)
  obtain n d where nd: "nd = (n, d)" by fastforce
  have "validateFiles ul referenced files (strings_ToLower ul n # ls) = None"
    using Cons.prems nd by (intro Cons.IH) (force simp: comp_def)+
  with Cons.prems nd show ?case by (simp add: not_less)
qed simp

lemma collect_result:
  assumes "CollectWSTLSFiles ul read c = (Inr stored, c')"
  obtains names taken files where "names_ok ul names taken" "files_ok read names (deref c ` set (wsTLSReferences c)) files"
    "length (Peers c') = length (Peers c)" "noRefs (c'\<lparr>WSTLSFiles := WSTLSFiles c\<rparr>) = noRefs c"
    "\<forall>r\<in>set (wsTLSReferences c). names (deref c r) = Some (deref c' r)"
    "\<forall>r. r \<notin> set (wsTLSReferences c) \<longrightarrow> deref c' r = deref c r" "fst ` set files = deref c' ` set (wsTLSReferences c)"
    "\<forall>ref. stored ref = (if ref \<in> deref c ` set (wsTLSReferences c) then names ref else None)"
    "WSTLSFiles c' = files" "length files \<le> MaxWSTLSFiles"
proof -
  let ?refs = "wsTLSReferences c"
  obtain names taken where cl: "claimNames ul (map (deref c) ?refs) Map.empty Map.empty [] = (names, taken)" by fastforce
  obtain files d where lp: "collectLoop ul read ?refs c names taken Map.empty [] = (Inr (stored, files), d)"
    "length files \<le> MaxWSTLSFiles" "c' = d\<lparr>WSTLSFiles := files\<rparr>"
    using assms by (auto simp: CollectWSTLSFiles_def cl split: sum.splits prod.splits if_splits)
  have "names_ok ul names taken" using claimNames_ok [OF cl] by (simp add: spellings_ok_def)
  moreover have "files_ok read names {} []" by (simp add: files_ok_def)
  moreover have "\<forall>r\<in>set ?refs. fst r < length (Peers c)" by (simp add: set_wsTLSReferences)
  ultimately obtain names' taken' where ok: "names_ok ul names' taken'" "files_ok read names' (deref c ` set ?refs) files"
    "length (Peers d) = length (Peers c)" "noRefs d = noRefs c" "\<forall>r\<in>set ?refs. names' (deref c r) = Some (deref d r)"
    "\<forall>r. r \<notin> set ?refs \<longrightarrow> deref d r = deref c r" "fst ` set files = deref d ` set ?refs"
    "\<forall>ref. stored ref = (if ref \<in> deref c ` set ?refs then names' ref else None)"
    using collectLoop_ok [OF lp(1) _ _ distinct_wsTLSReferences, of "{}"] by auto
  have "deref c' = deref d" "Peers c' = Peers d" "WSTLSFiles c' = files" by (simp_all add: lp(3) fun_eq_iff deref_def)
  moreover have "noRefs (c'\<lparr>WSTLSFiles := WSTLSFiles c\<rparr>) = noRefs c"
    using ok(4) unfolding lp(3) by (cases c; cases d) (simp add: noRefs_def)
  ultimately show thesis using that [OF ok(1,2)] ok(3-8) lp(2) by simp
qed

lemma collect_validates:
  assumes "CollectWSTLSFiles ul read c = (Inr stored, c')"
  shows "ValidateWSTLSFiles ul c' = None"
  using assms
proof (rule collect_result)
  fix names taken files
  let ?refs = "wsTLSReferences c"
  assume ok: "names_ok ul names taken" "files_ok read names (deref c ` set ?refs) files" "length (Peers c') = length (Peers c)"
    "\<forall>r\<in>set ?refs. names (deref c r) = Some (deref c' r)" "\<forall>r. r \<notin> set ?refs \<longrightarrow> deref c' r = deref c r"
    "fst ` set files = deref c' ` set ?refs" "WSTLSFiles c' = files" "length files \<le> MaxWSTLSFiles"
  have valid: "WSTLSFileNameIsValid (deref c' r)" if "r \<in> set ?refs" for r using ok(1,4) that names_okD(1) by blast
  then have "deref c' r \<noteq> []" if "r \<in> set ?refs" for r using that by (auto simp: valid_iff)
  then have refs: "wsTLSReferences c' = ?refs" using ok(3,5) by (intro wsTLSReferences_cong) (auto simp: set_wsTLSReferences)
  have "inj_on (strings_ToLower ul) (deref c' ` set ?refs)" using ok(1,4) names_okD2(1) by (intro inj_onI) blast
  then have "distinct (map (strings_ToLower ul) (map fst files))"
    using ok(2,6) by (subst distinct_map) (simp add: files_ok_def)
  moreover have "\<forall>(n, x)\<in>set files. WSTLSFileNameIsValid n \<and> n \<in> set (rev (map (deref c') ?refs)) \<and> length x \<le> MaxWSTLSFileSize"
  proof (clarify, intro conjI)
    fix n x
    assume nx: "(n, x) \<in> set files"
    then obtain r where "r \<in> set ?refs" "n = deref c' r" using ok(6) by (metis fst_conv image_iff)
    with valid show "WSTLSFileNameIsValid n" "n \<in> set (rev (map (deref c') ?refs))" by auto
    show "length x \<le> MaxWSTLSFileSize" using nx ok(2) by (auto simp: files_ok_def)
  qed
  ultimately have "validateFiles ul (rev (map (deref c') ?refs)) files [] = None" by (intro validateFiles_ok) (simp_all add: comp_def)
  moreover have "validateRefs files (map (deref c') ?refs) [] = Inr (rev (map (deref c') ?refs))"
    using valid ok(6) by (subst validateRefs_ok) auto
  ultimately show ?thesis using ok(7,8) by (simp add: ValidateWSTLSFiles_def refs)
qed

text \<open>C23. When collecting the TLS files of a configuration succeeds, the result passes \<open>ValidateWSTLSFiles\<close>, nothing but the
  references and the files has changed, and each reference now names a stored file that holds what was read for the reference itself, or for a
  stored file name equal to it up to letter case.\<close>

theorem CollectWSTLSFiles_valid:
  assumes "CollectWSTLSFiles ul read c = (Inr stored, c')"
  shows "ValidateWSTLSFiles ul c' = None \<and> noRefs (c'\<lparr>WSTLSFiles := WSTLSFiles c\<rparr>) = noRefs c \<and>
    (\<forall>r\<in>set (wsTLSReferences c). stored (deref c r) = Some (deref c' r) \<and>
       (\<exists>ref d. map_of (WSTLSFiles c') (deref c' r) = Some d \<and> read ref = Inr d \<and>
          (ref = deref c r \<or> WSTLSFileNameIsValid ref \<and> WSTLSFileNameIsValid (deref c r) \<and> strings_ToLower ul ref = strings_ToLower ul (deref c r))))"
  using assms
proof (rule collect_result)
  fix names taken files
  assume ok: "names_ok ul names taken" "files_ok read names (deref c ` set (wsTLSReferences c)) files"
    "noRefs (c'\<lparr>WSTLSFiles := WSTLSFiles c\<rparr>) = noRefs c" "\<forall>r\<in>set (wsTLSReferences c). names (deref c r) = Some (deref c' r)"
    "fst ` set files = deref c' ` set (wsTLSReferences c)"
    "\<forall>ref. stored ref = (if ref \<in> deref c ` set (wsTLSReferences c) then names ref else None)" "WSTLSFiles c' = files"
  have "stored (deref c r) = Some (deref c' r) \<and> (\<exists>ref d. map_of (WSTLSFiles c') (deref c' r) = Some d \<and> read ref = Inr d \<and>
      (ref = deref c r \<or> WSTLSFileNameIsValid ref \<and> WSTLSFileNameIsValid (deref c r) \<and> strings_ToLower ul ref = strings_ToLower ul (deref c r)))"
    if r: "r \<in> set (wsTLSReferences c)" for r
  proof -
    obtain x where x: "(deref c' r, x) \<in> set files" using ok(5) r by (metis imageE image_eqI prod.collapse)
    then obtain ref where ref: "names ref = Some (deref c' r)" "read ref = Inr x" using ok(2) by (auto simp: files_ok_def)
    have "map_of files (deref c' r) = Some x" using x ok(2) by (simp add: files_ok_def)
    moreover have "names (deref c r) = Some (deref c' r)" using ok(4) r by blast
    moreover from this ref(1) have "ref = deref c r \<or> WSTLSFileNameIsValid ref \<and> WSTLSFileNameIsValid (deref c r) \<and>
        strings_ToLower ul ref = strings_ToLower ul (deref c r)" using names_okD2(2) [OF ok(1)] by metis
    ultimately show ?thesis using ok(6,7) r ref(2) by auto
  qed
  with collect_validates [OF assms] ok(3) show ?thesis by blast
qed

definition tls_config :: Config where
  "tls_config = zeroConfig\<lparr>Peers := [zeroPeer\<lparr>WSTLSCA := ''a.pem'', WSTLSCert := ''A.pem'', WSTLSKey := ''b.pem''\<rparr>]\<rparr>"

theorem CollectWSTLSFiles_valid_witness:
  "\<exists>stored c. CollectWSTLSFiles id Inr tls_config = (Inr stored, c) \<and> ValidateWSTLSFiles id c = None \<and>
     map WSTLSCert (Peers c) = [''a.pem''] \<and> WSTLSFiles c = [(''a.pem'', ''a.pem''), (''b.pem'', ''b.pem'')]"
proof -
  have v: "WSTLSFileNameIsValid ''a.pem''" "WSTLSFileNameIsValid ''A.pem''" "WSTLSFileNameIsValid ''b.pem''" by code_simp+
  have "lower_ascii (CHR ''A'') = CHR ''a''" by code_simp
  then have l: "strings_ToLower id ''a.pem'' = ''a.pem''" "strings_ToLower id ''A.pem'' = ''a.pem''" "strings_ToLower id ''b.pem'' = ''b.pem''"
    by (simp_all add: strings_ToLower_def lower_ascii_def)
  have cl: "claimNames id [''a.pem'', ''A.pem'', ''b.pem''] Map.empty Map.empty [] =
     ([''a.pem'' \<mapsto> ''a.pem'', ''A.pem'' \<mapsto> ''a.pem'', ''b.pem'' \<mapsto> ''b.pem''], [''b.pem'', ''a.pem'', ''a.pem''])"
    by (simp add: v l Let_def)
  have refs: "wsTLSReferences tls_config = [(0, RefCA), (0, RefCert), (0, RefKey)]"
    "map (deref tls_config) [(0, RefCA), (0, RefCert), (0, RefKey)] = [''a.pem'', ''A.pem'', ''b.pem'']"
    by (simp_all add: wsTLSReferences_def deref_def tls_config_def)
  have "\<exists>stored c. CollectWSTLSFiles id Inr tls_config = (Inr stored, c) \<and> map WSTLSCert (Peers c) = [''a.pem''] \<and>
      WSTLSFiles c = [(''a.pem'', ''a.pem''), (''b.pem'', ''b.pem'')]"
    unfolding CollectWSTLSFiles_def refs Let_def cl
    by (simp add: deref_def tls_config_def assign_def nameOf_def addFile_def MaxWSTLSFileSize_def MaxWSTLSFiles_def Let_def)
  then obtain stored c where c: "CollectWSTLSFiles id Inr tls_config = (Inr stored, c)" "map WSTLSCert (Peers c) = [''a.pem'']"
    "WSTLSFiles c = [(''a.pem'', ''a.pem''), (''b.pem'', ''b.pem'')]" by (elim exE conjE)
  show ?thesis
  proof (intro exI conjI)
    show "ValidateWSTLSFiles id c = None" using CollectWSTLSFiles_valid [OF c(1)] by (rule conjunct1)
  qed (rule c)+
qed

end
