(* ===== verification/Store.thy ===== *)
theory Store
  imports Storage WSTLS ConfReload
begin

text \<open>
  The configuration store (\<open>conf/store.go\<close>, \<open>conf/wstls_store.go\<close>): tunnels and their TLS files, encrypted under names
  derived from the tunnel's, and the migration of plain files into it (\<open>conf/migration_windows.go\<close>).
\<close>

section \<open>Tunnels\<close>

definition configFileSuffix :: string where "configFileSuffix = ''.conf.dpapi''"
definition configFileUnencryptedSuffix :: string where "configFileUnencryptedSuffix = ''.conf''"

definition invalidName :: go_error where "invalidName = ErrorString ''Tunnel name is not valid''"

definition NameFromPath :: "string \<Rightarrow> go_error + string" where
  "NameFromPath path =
     (let name = filepath_Base path in
      if \<not> (length configFileSuffix < length name \<and> strings_HasSuffix name configFileSuffix \<or>
             length configFileUnencryptedSuffix < length name \<and> strings_HasSuffix name configFileUnencryptedSuffix)
      then Inl (ErrorString (''Path must end in either '' @ configFileSuffix @ '' or '' @ configFileUnencryptedSuffix))
      else
        let name = strings_TrimSuffix name (if strings_HasSuffix path configFileSuffix then configFileSuffix else configFileUnencryptedSuffix)
        in if TunnelNameIsValid name then Inr name else Inl invalidName)"

definition PathIsEncrypted :: "string \<Rightarrow> bool" where
  "PathIsEncrypted path = strings_HasSuffix (filepath_Base path) configFileSuffix"

text \<open>\<open>info.Mode().Perm() & 0o444\<close> on the permission bits.\<close>

definition readable :: "nat \<Rightarrow> bool" where
  "readable perm \<longleftrightarrow> perm div 4 mod 2 = 1 \<or> perm div 32 mod 2 = 1 \<or> perm div 256 mod 2 = 1"

definition listed :: "dirent \<Rightarrow> string option" where
  "listed file = (case NameFromPath (de_name file) of
       Inl _ \<Rightarrow> None
     | Inr name \<Rightarrow> if \<not> de_regular file then None
         else case de_perm file of None \<Rightarrow> None | Some perm \<Rightarrow> if readable perm then Some name else None)"

definition ListConfigNames :: "'p storage \<Rightarrow> ('p store, string list) prog" where
  "ListConfigNames S =
     pbind (tunnelConfigurationsDirectory S) (\<lambda>configFileDir.
     pbind (onPlat (os_ReadDir S configFileDir)) (\<lambda>files. preturn (List.map_filter listed files)))"

definition LoadFromPath :: "'p storage \<Rightarrow> golib \<Rightarrow> string \<Rightarrow> ('p store, Config) prog" where
  "LoadFromPath S L path =
     pbind (plift (NameFromPath path)) (\<lambda>name.
     pbind (onPlat (os_ReadFile S path)) (\<lambda>bytes.
     pbind (if strings_HasSuffix path configFileSuffix then dpapi_Decrypt S bytes name else preturn bytes) (\<lambda>bytes.
       plift (FromWgQuickWithUnknownEncoding L bytes name))))"

definition LoadFromName :: "'p storage \<Rightarrow> golib \<Rightarrow> string \<Rightarrow> ('p store, Config) prog" where
  "LoadFromName S L name =
     (if \<not> TunnelNameIsValid name then pfail invalidName
      else pbind (tunnelConfigurationsDirectory S) (\<lambda>configFileDir.
        LoadFromPath S L (filepath_Join [configFileDir, name @ configFileSuffix])))"

definition Save :: "'p storage \<Rightarrow> Config \<Rightarrow> bool \<Rightarrow> ('p store, unit) prog" where
  "Save S config overwrite =
     (if \<not> TunnelNameIsValid (Name config) then pfail invalidName
      else pbind (tunnelConfigurationsDirectory S) (\<lambda>configFileDir.
        let filename = filepath_Join [configFileDir, Name config @ configFileSuffix] in
        pbind (dpapi_Encrypt S (ToWgQuick config) (Name config)) (\<lambda>bytes.
          writeLockedDownFile S filename overwrite bytes)))"

definition config_Path :: "'p storage \<Rightarrow> Config \<Rightarrow> ('p store, string) prog" where
  "config_Path S config =
     (if \<not> TunnelNameIsValid (Name config) then pfail invalidName
      else pbind (tunnelConfigurationsDirectory S) (\<lambda>configFileDir.
        preturn (filepath_Join [configFileDir, Name config @ configFileSuffix])))"

section \<open>TLS files\<close>

definition wsTLSDirectoryName :: string where "wsTLSDirectoryName = ''WebSocketTLS''"
definition wsTLSRuntimeDirectoryName :: string where "wsTLSRuntimeDirectoryName = ''$runtime''"
definition wsTLSEncryptedSuffix :: string where "wsTLSEncryptedSuffix = ''.dpapi''"

definition wsTLSDirectory :: "'p storage \<Rightarrow> bool \<Rightarrow> string list \<Rightarrow> ('p store, string) prog" where
  "wsTLSDirectory S create elem =
     pbind (RootDirectory S True) (\<lambda>root.
       let dir = filepath_Join ([root, wsTLSDirectoryName] @ elem) in
       pbind (pwhen create (onPlat (os_MkdirAll S dir))) (\<lambda>_. preturn dir))"

definition wsTLSDescription :: "string \<Rightarrow> string \<Rightarrow> string" where
  "wsTLSDescription tunnelName fileName = tunnelName @ ''/'' @ fileName"

definition removeWSTLSRuntimeFiles :: "'p storage \<Rightarrow> string \<Rightarrow> ('p store, unit) prog" where
  "removeWSTLSRuntimeFiles S tunnelName =
     pbind (wsTLSDirectory S False [wsTLSRuntimeDirectoryName, tunnelName]) (\<lambda>dir. onPlat (os_RemoveAll S dir))"

definition DeleteWSTLSFiles :: "'p storage \<Rightarrow> string \<Rightarrow> ('p store, unit) prog" where
  "DeleteWSTLSFiles S tunnelName =
     (if \<not> TunnelNameIsValid tunnelName then pfail invalidName
      else pbind (wsTLSDirectory S False [tunnelName]) (\<lambda>dir.
        pbind (onPlat (os_RemoveAll S dir)) (\<lambda>_. removeWSTLSRuntimeFiles S tunnelName)))"

definition saveWSTLSFile :: "'p storage \<Rightarrow> string \<Rightarrow> string \<Rightarrow> string \<times> bytes \<Rightarrow> ('p store, unit) prog" where
  "saveWSTLSFile S tunnelName dir file =
     (let (name, data) = file in
      if \<not> WSTLSFileNameIsValid name then pfail (ParseError ''Unexpected stored TLS file'' name)
      else pbind (dpapi_Encrypt S data (wsTLSDescription tunnelName name)) (\<lambda>encrypted.
        writeLockedDownFile S (filepath_Join [dir, name @ wsTLSEncryptedSuffix]) True encrypted))"

definition removeUnexpected :: "'p storage \<Rightarrow> string \<Rightarrow> (string \<times> bytes) list \<Rightarrow> dirent \<Rightarrow> ('p store, unit) prog" where
  "removeUnexpected S dir files entry =
     (if strings_HasSuffix (de_name entry) wsTLSEncryptedSuffix \<and>
         strings_TrimSuffix (de_name entry) wsTLSEncryptedSuffix \<in> fst ` set files
      then preturn () else onPlat (os_Remove S (filepath_Join [dir, de_name entry])))"

definition SaveWSTLSFiles :: "'p storage \<Rightarrow> string \<Rightarrow> (string \<times> bytes) list \<Rightarrow> ('p store, unit) prog" where
  "SaveWSTLSFiles S tunnelName files =
     (if \<not> TunnelNameIsValid tunnelName then pfail invalidName
      else if files = [] then DeleteWSTLSFiles S tunnelName
      else pbind (wsTLSDirectory S True [tunnelName]) (\<lambda>dir.
        pbind (peach (saveWSTLSFile S tunnelName dir) files) (\<lambda>_.
        pbind (onPlat (os_ReadDir S dir)) (\<lambda>entries. peach (removeUnexpected S dir files) entries))))"

definition loadWSTLSFile :: "'p storage \<Rightarrow> string \<Rightarrow> string \<Rightarrow> ('p store, bytes) prog" where
  "loadWSTLSFile S tunnelName fileName =
     (if \<not> TunnelNameIsValid tunnelName \<or> \<not> WSTLSFileNameIsValid fileName then pfail (ErrorString ''TLS file name is not valid'')
      else pbind (wsTLSDirectory S False [tunnelName]) (\<lambda>dir.
        pbind (onPlat (os_ReadFile S (filepath_Join [dir, fileName @ wsTLSEncryptedSuffix]))) (\<lambda>encrypted.
          dpapi_Decrypt S encrypted (wsTLSDescription tunnelName fileName))))"

fun loadWSTLSNames :: "'p storage \<Rightarrow> string \<Rightarrow> string list \<Rightarrow> ('p store, (string \<times> bytes) list) prog" where
  "loadWSTLSNames S tunnelName [] = preturn []"
| "loadWSTLSNames S tunnelName (name # names) =
     pbind (pcatch (Wrapped (''Unable to load stored TLS file '' @ name)) (loadWSTLSFile S tunnelName name)) (\<lambda>data.
     pbind (loadWSTLSNames S tunnelName names) (\<lambda>files. preturn ((name, data) # files)))"

definition LoadWSTLSFiles :: "'p storage \<Rightarrow> Config \<Rightarrow> ('p store, Config) prog" where
  "LoadWSTLSFiles S config =
     (let names = WSTLSStoredFileNames config in
      if names = [] then preturn (config\<lparr>WSTLSFiles := []\<rparr>)
      else pbind (loadWSTLSNames S (Name config) names) (\<lambda>files. preturn (config\<lparr>WSTLSFiles := files\<rparr>)))"

definition DeleteName :: "'p storage \<Rightarrow> string \<Rightarrow> ('p store, unit) prog" where
  "DeleteName S name =
     (if \<not> TunnelNameIsValid name then pfail invalidName
      else pbind (tunnelConfigurationsDirectory S) (\<lambda>configFileDir.
        pbind (onPlat (os_Remove S (filepath_Join [configFileDir, name @ configFileSuffix]))) (\<lambda>_. DeleteWSTLSFiles S name)))"

definition config_Delete :: "'p storage \<Rightarrow> Config \<Rightarrow> ('p store, unit) prog" where
  "config_Delete S config = DeleteName S (Name config)"

section \<open>Saving and loading\<close>

text \<open>
  What is documented about the remaining calls: the data directory is a directory on a drive, reading returns the contents of the file,
  and unprotecting what was protected returns the data and the description, or fails.
\<close>

definition store_laws :: "'p storage \<Rightarrow> ('p \<Rightarrow> fsview) \<Rightarrow> bool" where
  "store_laws S view \<longleftrightarrow> handle_laws S view \<and>
     (\<forall>create v. pvalid (\<lambda>p. view p = v) (initRootDirectory S create) (\<lambda>d p. local_dir d \<and> view p = v) (\<lambda>_ p. view p = v)) \<and>
     (\<forall>path p. view (snd (os_Mkdir S path p)) = view p) \<and>
     (\<forall>path v. pvalid (\<lambda>p. view p = v) (os_ReadFile S path) (\<lambda>b p. v_files v path = Some b \<and> view p = v) (\<lambda>_ p. view p = v)) \<and>
     (\<forall>data name v. pvalid (\<lambda>p. view p = v) (CryptProtectData S data name)
        (\<lambda>blob p. view p = v \<and> (\<forall>w. pvalid (\<lambda>p. view p = w) (CryptUnprotectData S blob)
           (\<lambda>x p. x = (data, Some name) \<and> view p = w) (\<lambda>_ p. view p = w)))
        (\<lambda>_ p. view p = v))"

definition dirs_ok :: "'p store \<Rightarrow> bool" where
  "dirs_ok s \<longleftrightarrow> (cachedConfigFileDir s \<noteq> [] \<longrightarrow> local_dir (cachedConfigFileDir s)) \<and> (cachedRootDir s \<noteq> [] \<longrightarrow> local_dir (cachedRootDir s))"

lemma local_dir_not_Nil: "local_dir d \<Longrightarrow> d \<noteq> []"
  by (auto simp: local_dir_def)

lemma RootDirectory_ok:
  assumes "store_laws S view" "dirs_ok s" "RootDirectory S True s = (r, s')"
  shows "view (plat s') = view (plat s)" "cachedConfigFileDir s' = cachedConfigFileDir s" "dirs_ok s'" "\<forall>d. r = Inr d \<longrightarrow> local_dir d"
proof -
  have i: "pvalid (\<lambda>p. view p = v) (initRootDirectory S True) (\<lambda>d p. local_dir d \<and> view p = v) (\<lambda>_ p. view p = v)" for v
    using assms(1) by (simp add: store_laws_def)
  have "view (plat s') = view (plat s) \<and> cachedConfigFileDir s' = cachedConfigFileDir s \<and> dirs_ok s' \<and> (\<forall>d. r = Inr d \<longrightarrow> local_dir d)"
  proof (cases "cachedRootDir s = []")
    case True
    obtain x p where x: "initRootDirectory S True (plat s) = (x, p)" by fastforce
    show ?thesis
    proof (cases x)
      case (Inl e)
      then have "view p = view (plat s)" using pvalid_Inl [OF i refl] x by blast
      with True x Inl assms(2,3) show ?thesis by (auto simp: RootDirectory_def pbind_def onPlat_def dirs_ok_def)
    next
      case (Inr d)
      then have "view p = view (plat s)" "local_dir d" using pvalid_Inr [OF i refl] x by blast+
      with True x Inr assms(2,3) show ?thesis by (auto simp: RootDirectory_def pbind_def onPlat_def dirs_ok_def)
    qed
  qed (use assms(2,3) in \<open>auto simp: RootDirectory_def dirs_ok_def\<close>)
  then show "view (plat s') = view (plat s)" "cachedConfigFileDir s' = cachedConfigFileDir s" "dirs_ok s'" "\<forall>d. r = Inr d \<longrightarrow> local_dir d" by blast+
qed

lemma plain_words: "plain_elem ''Configurations''" "plain_elem ''WebSocketTLS''" "plain_elem ''$runtime''"
  by (simp_all add: plain_elem_def is_sep_def sep_def)

lemma tunnelConfigurationsDirectory_ok:
  assumes "store_laws S view" "dirs_ok s" "tunnelConfigurationsDirectory S s = (r, s')"
  shows "view (plat s') = view (plat s)" "dirs_ok s'" "\<forall>d. r = Inr d \<longrightarrow> local_dir d \<and> cachedConfigFileDir s' = d"
proof -
  have "view (plat s') = view (plat s) \<and> dirs_ok s' \<and> (\<forall>d. r = Inr d \<longrightarrow> local_dir d \<and> cachedConfigFileDir s' = d)"
  proof (cases "cachedConfigFileDir s = []")
    case True
    obtain x s1 where x: "RootDirectory S True s = (x, s1)" by fastforce
    note root = RootDirectory_ok [OF assms(1,2) x]
    show ?thesis
    proof (cases x)
      case (Inl e)
      with True x root assms(3) show ?thesis by (auto simp: tunnelConfigurationsDirectory_def pbind_def)
    next
      case (Inr d)
      define c where "c = filepath_Join [d, ''Configurations'']"
      have "local_dir d" using root(4) Inr by blast
      then have c: "local_dir c" using local_dir_join [OF _ plain_words(1)] by (simp add: c_def)
      obtain y p where y: "os_Mkdir S c (plat s1) = (y, p)" by fastforce
      have "view (snd (os_Mkdir S c (plat s1))) = view (plat s1)" using assms(1) by (simp add: store_laws_def)
      then have "view p = view (plat s)" using y root(1) by simp
      moreover have "(r, s') = (case y of Inl err \<Rightarrow> if os_IsExist err then (Inr c, s1\<lparr>plat := p, cachedConfigFileDir := c\<rparr>) else (Inl err, s1\<lparr>plat := p\<rparr>)
          | Inr _ \<Rightarrow> (Inr c, s1\<lparr>plat := p, cachedConfigFileDir := c\<rparr>))"
        using assms(3) True x Inr y by (simp add: tunnelConfigurationsDirectory_def pbind_def onPlat_def c_def [symmetric] split: sum.split)
      ultimately show ?thesis using root(3) c by (auto simp: dirs_ok_def split: sum.splits if_splits)
    qed
  qed (use assms(2,3) in \<open>auto simp: tunnelConfigurationsDirectory_def dirs_ok_def\<close>)
  then show "view (plat s') = view (plat s)" "dirs_ok s'" "\<forall>d. r = Inr d \<longrightarrow> local_dir d \<and> cachedConfigFileDir s' = d" by blast+
qed

lemma tunnel_file_plain:
  assumes "TunnelNameIsValid name"
  shows "plain_elem (name @ configFileSuffix)" "\<not> suffix ''.tmp'' (name @ configFileSuffix)" "CHR 0x00 \<notin> set name"
proof -
  have ok: "list_all allowedNameChar name" using valid_nameD(3) [OF assms] by (simp add: allowedNameFormat_def)
  then have name: "\<forall>c\<in>set name. \<not> is_sep c \<and> c \<noteq> CHR '':'' \<and> c \<noteq> CHR ''?'' \<and> c \<noteq> CHR 0x00"
    by (auto simp: list_all_iff allowedNameChar_def is_sep_def sep_def)
  then show "CHR 0x00 \<notin> set name" by blast
  have "\<forall>c\<in>set configFileSuffix. \<not> is_sep c \<and> c \<noteq> CHR '':'' \<and> c \<noteq> CHR ''?''" by (simp add: configFileSuffix_def is_sep_def sep_def)
  moreover have "length (name @ configFileSuffix) \<noteq> length ''.''" "length (name @ configFileSuffix) \<noteq> length ''..''" by (simp_all add: configFileSuffix_def)
  moreover have "configFileSuffix \<noteq> []" by (simp add: configFileSuffix_def)
  ultimately show "plain_elem (name @ configFileSuffix)" unfolding plain_elem_def set_append using name by (metis UnE append_is_Nil_conv)
  show "\<not> suffix ''.tmp'' (name @ configFileSuffix)" by (simp add: configFileSuffix_def suffix_to_prefix)
qed

lemma NameFromPath_stored:
  assumes "TunnelNameIsValid name" "local_dir d"
  shows "NameFromPath (d @ sep # name @ configFileSuffix) = Inr name"
proof -
  have "name \<noteq> []" using valid_nameD(3) [OF assms(1)] by (auto simp: allowedNameFormat_def)
  moreover have "strings_HasSuffix (x @ configFileSuffix) configFileSuffix" for x by (simp add: strings_HasSuffix_def suffix_def)
  moreover from this [of "d @ sep # name"] have "strings_HasSuffix (d @ sep # name @ configFileSuffix) configFileSuffix" by simp
  ultimately show ?thesis
    using assms(1) local_dir_base(1) [OF assms(2) tunnel_file_plain(1) [OF assms(1)]] by (simp add: NameFromPath_def Let_def)
qed

lemma differs_same: "CHR 0x00 \<notin> set n \<Longrightarrow> \<not> differs (n @ [CHR 0x00]) (n @ [CHR 0x00])"
  by (induction n) auto

text \<open>A stored blob that can only be unprotected to the given data and description.\<close>

definition protects :: "'p storage \<Rightarrow> ('p \<Rightarrow> fsview) \<Rightarrow> bytes \<Rightarrow> bytes \<Rightarrow> string \<Rightarrow> bool" where
  "protects S view blob data name \<longleftrightarrow> (\<forall>w. pvalid (\<lambda>p. view p = w) (CryptUnprotectData S blob)
     (\<lambda>x p. x = (data, Some name) \<and> view p = w) (\<lambda>_ p. view p = w))"

lemma Encrypt_ok:
  assumes "store_laws S view" "dpapi_Encrypt S data name s = (Inr blob, s')"
  shows "protects S view blob data name" "view (plat s') = view (plat s)" "s' = s\<lparr>plat := plat s'\<rparr>"
proof -
  have c: "pvalid (\<lambda>p. view p = v) (CryptProtectData S data name)
        (\<lambda>blob p. view p = v \<and> (\<forall>w. pvalid (\<lambda>p. view p = w) (CryptUnprotectData S blob)
           (\<lambda>x p. x = (data, Some name) \<and> view p = w) (\<lambda>_ p. view p = w))) (\<lambda>_ p. view p = v)" for v
    using assms(1) by (simp add: store_laws_def)
  obtain p where p: "CryptProtectData S data name (plat s) = (Inr blob, p)" "s' = s\<lparr>plat := p\<rparr>"
    using assms(2) by (auto simp: dpapi_Encrypt_def pfail_def pcatch_def onPlat_def split: if_splits prod.splits sum.splits)
  from pvalid_Inr [OF c refl p(1)] p(2)
  show "protects S view blob data name" "view (plat s') = view (plat s)" "s' = s\<lparr>plat := plat s'\<rparr>" unfolding protects_def by simp_all
qed

lemma Decrypt_ok:
  assumes "protects S view blob data name" "CHR 0x00 \<notin> set name" "dpapi_Decrypt S blob name s = (r, s')"
  shows "view (plat s') = view (plat s)" "s' = s\<lparr>plat := plat s'\<rparr>"
    "r = Inr data \<or> (\<exists>e. fst (CryptUnprotectData S blob (plat s)) = Inl e \<and> r = Inl (Wrapped ''unable to decrypt DPAPI protected data'' e))"
proof -
  obtain x p where x: "CryptUnprotectData S blob (plat s) = (x, p)" by fastforce
  have u: "pvalid (\<lambda>p. view p = w) (CryptUnprotectData S blob) (\<lambda>x p. x = (data, Some name) \<and> view p = w) (\<lambda>_ p. view p = w)" for w
    using assms(1) by (simp add: protects_def)
  have "view p = view (plat s) \<and> s' = s\<lparr>plat := p\<rparr> \<and> (case x of Inl e \<Rightarrow> r = Inl (Wrapped ''unable to decrypt DPAPI protected data'' e) | Inr _ \<Rightarrow> r = Inr data)"
  proof (cases x)
    case (Inl e)
    then have "view p = view (plat s)" using pvalid_Inl [OF u refl] x by blast
    with Inl x assms(2,3) show ?thesis by (auto simp: dpapi_Decrypt_def pbind_def plift_def UTF16PtrFromString_def pcatch_def onPlat_def)
  next
    case (Inr y)
    then have "y = (data, Some name)" "view p = view (plat s)" using pvalid_Inr [OF u refl] x by blast+
    with Inr x assms(2,3) differs_same [OF assms(2)] show ?thesis
      by (auto simp: dpapi_Decrypt_def pbind_def plift_def UTF16PtrFromString_def pcatch_def onPlat_def preturn_def)
  qed
  with x show "view (plat s') = view (plat s)" "s' = s\<lparr>plat := plat s'\<rparr>"
    "r = Inr data \<or> (\<exists>e. fst (CryptUnprotectData S blob (plat s)) = Inl e \<and> r = Inl (Wrapped ''unable to decrypt DPAPI protected data'' e))"
    by (auto split: sum.splits)
qed

text \<open>Saving writes one file of the store, under the name of the tunnel.\<close>

lemma Save_ok:
  assumes "store_laws S view" "dirs_ok s" "Save S c overwrite s = (Inr (), s')"
  obtains d blob x where "local_dir d" "cachedConfigFileDir s' = d" "TunnelNameIsValid (Name c)" "protects S view blob (ToWgQuick c) (Name c)"
    "overwrite \<or> v_files (view (plat s)) (d @ sep # Name c @ configFileSuffix) = None"
    "v_files (view (plat s')) = (v_files (view (plat s)))(d @ sep # x @ ''.tmp'' := None, d @ sep # Name c @ configFileSuffix \<mapsto> blob)"
proof -
  have v: "TunnelNameIsValid (Name c)" using assms(3) by (auto simp: Save_def pfail_def split: if_splits)
  obtain d s1 where d: "tunnelConfigurationsDirectory S s = (Inr d, s1)"
    using assms(3) v by (auto simp: Save_def pbind_def split: prod.splits sum.splits)
  note dir = tunnelConfigurationsDirectory_ok [OF assms(1,2) d]
  have ld: "local_dir d" "cachedConfigFileDir s1 = d" using dir(3) by blast+
  have j: "filepath_Join [d, Name c @ configFileSuffix] = d @ sep # Name c @ configFileSuffix"
    using local_dir_join(1) [OF ld(1) tunnel_file_plain(1) [OF v]] by simp
  obtain blob s2 where e: "dpapi_Encrypt S (ToWgQuick c) (Name c) s1 = (Inr blob, s2)"
    and w: "writeLockedDownFile S (d @ sep # Name c @ configFileSuffix) overwrite blob s2 = (Inr (), s')"
    using assms(3) v d j by (auto simp: Save_def pbind_def Let_def split: prod.splits sum.splits)
  note enc = Encrypt_ok [OF assms(1) e]
  have "handle_laws S view" using assms(1) by (simp add: store_laws_def)
  from write_file [OF this ld(1) tunnel_file_plain(1,2) [OF v] w] obtain x where x: "cachedConfigFileDir s' = cachedConfigFileDir s2"
    "overwrite \<or> v_files (view (plat s2)) (d @ sep # Name c @ configFileSuffix) = None"
    "v_files (view (plat s')) = (v_files (view (plat s2)))(d @ sep # x @ ''.tmp'' := None, d @ sep # Name c @ configFileSuffix \<mapsto> blob)" by auto
  have "cachedConfigFileDir s2 = d" using enc(3) ld(2) by (metis store.surjective store.update_convs(4) store.select_convs(1))
  with that [OF ld(1) _ v enc(1)] x enc(2) dir(1) show thesis by simp
qed

lemma LoadFromName_ok:
  assumes "store_laws S view" "local_dir d" "cachedConfigFileDir s = d" "TunnelNameIsValid name"
    and "v_files (view (plat s)) (d @ sep # name @ configFileSuffix) = Some blob" "protects S view blob data name"
    and "LoadFromName S L name s = (r, s')"
  shows "r = FromWgQuickWithUnknownEncoding L data name \<or>
    (\<exists>e. r = Inl e \<and> fst (os_ReadFile S (d @ sep # name @ configFileSuffix) (plat s)) = Inl e) \<or>
    (\<exists>e p. r = Inl (Wrapped ''unable to decrypt DPAPI protected data'' e) \<and> fst (CryptUnprotectData S blob p) = Inl e)"
proof -
  let ?path = "d @ sep # name @ configFileSuffix"
  have j: "filepath_Join [d, name @ configFileSuffix] = ?path" using local_dir_join(1) [OF assms(2) tunnel_file_plain(1) [OF assms(4)]] by simp
  have dir: "tunnelConfigurationsDirectory S s = (Inr d, s)" using assms(2,3) local_dir_not_Nil by (simp add: tunnelConfigurationsDirectory_def)
  have suf: "strings_HasSuffix ?path configFileSuffix" by (auto simp: strings_HasSuffix_def suffix_def)
  obtain b p where b: "os_ReadFile S ?path (plat s) = (b, p)" by fastforce
  show ?thesis
  proof (cases b)
    case (Inl e)
    with b assms(4,7) dir j NameFromPath_stored [OF assms(4,2)] show ?thesis
      by (auto simp: LoadFromName_def LoadFromPath_def pbind_def plift_def onPlat_def)
  next
    case (Inr bytes)
    have rd: "pvalid (\<lambda>p. view p = v) (os_ReadFile S path) (\<lambda>b p. v_files v path = Some b \<and> view p = v) (\<lambda>_ p. view p = v)" for path v
      using assms(1) by (simp add: store_laws_def)
    have "bytes = blob" using pvalid_Inr [OF rd refl b [unfolded Inr]] assms(5) by simp
    obtain q s2 where q: "dpapi_Decrypt S blob name (s\<lparr>plat := p\<rparr>) = (q, s2)" by fastforce
    have "r = rbind q (\<lambda>bytes. FromWgQuickWithUnknownEncoding L bytes name)"
      using b Inr \<open>bytes = blob\<close> assms(4,7) dir j NameFromPath_stored [OF assms(4,2)] suf q
      by (cases q) (auto simp: LoadFromName_def LoadFromPath_def pbind_def plift_def onPlat_def)
    moreover have "q = Inr data \<or> (\<exists>e p. fst (CryptUnprotectData S blob p) = Inl e \<and> q = Inl (Wrapped ''unable to decrypt DPAPI protected data'' e))"
      using Decrypt_ok(3) [OF assms(6) tunnel_file_plain(3) [OF assms(4)] q] by blast
    ultimately show ?thesis by auto
  qed
qed


lemma sample_store_laws: "store_laws sample_storage id"
  unfolding store_laws_def
proof (intro conjI sample_handle_laws allI)
  fix create v
  show "pvalid (\<lambda>p. id p = v) (initRootDirectory sample_storage create) (\<lambda>d p. local_dir d \<and> id p = v) (\<lambda>_ p. id p = v)"
    using sample_local_dir by (simp add: pvalid_def sample_storage_def sample_dir_def)
next
  fix data name v
  show "pvalid (\<lambda>p. id p = v) (CryptProtectData sample_storage data name)
      (\<lambda>blob p. id p = v \<and> (\<forall>w. pvalid (\<lambda>p. id p = w) (CryptUnprotectData sample_storage blob)
        (\<lambda>x p. x = (data, Some name) \<and> id p = w) (\<lambda>_ p. id p = w))) (\<lambda>_ p. id p = v)"
    by (simp add: pvalid_def sample_storage_def)
qed (simp_all add: pvalid_def sample_storage_def split: option.split)


end
