(* ===== verification/TunnelService.thy ===== *)
theory TunnelService
  imports Conf GoProg
begin

text \<open>
  The tunnel service (\<open>tunnel/service.go\<close>, \<open>services/errors.go\<close>): how \<open>Execute\<close> puts the components together. A run is a
  trace of the calls it makes, each with whether it succeeded; which calls fail is an arbitrary function of what happened
  before, so that a theorem about all runs covers every combination of failures. What the calls do is the subject of the theories of
  their components.
\<close>

section \<open>Error codes\<close>

datatype services_Error = ErrorSuccess | ErrorRingloggerOpen | ErrorLoadConfiguration | ErrorCreateNetworkAdapter | ErrorDNSLookup |
  ErrorFirewall | ErrorDeviceSetConfig | ErrorDeviceBringUp | ErrorBindSocketsToDefaultRoutes | ErrorMonitorMTUChanges | ErrorSetNetConfig |
  ErrorDetermineExecutablePath | ErrorTrackTunnels | ErrorEnumerateSessions | ErrorDropPrivileges | ErrorRunScript | ErrorWin32 | ErrorUAPIListen

fun error_code :: "services_Error \<Rightarrow> nat" where
  "error_code ErrorSuccess = 0"
| "error_code ErrorRingloggerOpen = 1"
| "error_code ErrorLoadConfiguration = 2"
| "error_code ErrorCreateNetworkAdapter = 3"
| "error_code ErrorDNSLookup = 4"
| "error_code ErrorFirewall = 5"
| "error_code ErrorDeviceSetConfig = 6"
| "error_code ErrorDeviceBringUp = 7"
| "error_code ErrorBindSocketsToDefaultRoutes = 8"
| "error_code ErrorMonitorMTUChanges = 9"
| "error_code ErrorSetNetConfig = 10"
| "error_code ErrorDetermineExecutablePath = 11"
| "error_code ErrorTrackTunnels = 12"
| "error_code ErrorEnumerateSessions = 13"
| "error_code ErrorDropPrivileges = 14"
| "error_code ErrorRunScript = 15"
| "error_code ErrorWin32 = 16"
| "error_code ErrorUAPIListen = 17"

fun Error_Error :: "services_Error \<Rightarrow> string" where
  "Error_Error ErrorSuccess = ''No error''"
| "Error_Error ErrorRingloggerOpen = ''Unable to open log file''"
| "Error_Error ErrorDetermineExecutablePath = ''Unable to determine path of running executable''"
| "Error_Error ErrorLoadConfiguration = ''Unable to load configuration from path''"
| "Error_Error ErrorCreateNetworkAdapter = ''Unable to create network adapter''"
| "Error_Error ErrorDNSLookup = ''Unable to resolve one or more DNS hostname endpoints''"
| "Error_Error ErrorFirewall = ''Unable to enable firewall rules''"
| "Error_Error ErrorDeviceSetConfig = ''Unable to set device configuration''"
| "Error_Error ErrorDeviceBringUp = ''Unable to bring up adapter''"
| "Error_Error ErrorBindSocketsToDefaultRoutes = ''Unable to bind sockets to default route''"
| "Error_Error ErrorMonitorMTUChanges = ''Unable to monitor default route MTU for changes''"
| "Error_Error ErrorSetNetConfig = ''Unable to configure adapter network settings''"
| "Error_Error ErrorTrackTunnels = ''Unable to track existing tunnels''"
| "Error_Error ErrorEnumerateSessions = ''Unable to enumerate current sessions''"
| "Error_Error ErrorDropPrivileges = ''Unable to drop privileges''"
| "Error_Error ErrorRunScript = ''An error occurred while running a configuration script command''"
| "Error_Error ErrorWin32 = ''An internal Windows error has occurred''"
| "Error_Error ErrorUAPIListen = ''Unable to listen on named pipe''"

text \<open>\<open>errors.As(err, &syserr)\<close>: the first \<open>Errno\<close> of the chain of wrapped errors.\<close>

fun errors_As_Errno :: "go_error \<Rightarrow> nat option" where
  "errors_As_Errno (Errno n) = Some n"
| "errors_As_Errno (Wrapped _ err) = errors_As_Errno err"
| "errors_As_Errno _ = None"

definition DetermineErrorCode :: "go_error option \<Rightarrow> services_Error \<Rightarrow> bool \<times> nat" where
  "DetermineErrorCode err serviceError =
     (case Option.bind err errors_As_Errno of
        Some n \<Rightarrow> (False, n)
      | None \<Rightarrow> if serviceError \<noteq> ErrorSuccess then (True, error_code serviceError) else (False, 0))"

definition CombineErrors :: "go_error option \<Rightarrow> services_Error \<Rightarrow> go_error option" where
  "CombineErrors err serviceError =
     (if serviceError \<noteq> ErrorSuccess
      then case err of Some e \<Rightarrow> Some (Wrapped (Error_Error serviceError) e) | None \<Rightarrow> Some (ErrorString (Error_Error serviceError))
      else err)"

section \<open>Calls\<close>

datatype svc_State = StartPending | Running | StopPending

datatype call = call_LogFile | InitGlobalLogger | call_LoadFromPath | call_PrepareWSTLSFiles | watchInterface | call_ResolveEndpoints |
  CreateTUN | CreateAdapter | SetLogging | StartProcess string | call_enableFirewall | DropAllPrivileges |
  NewMultiplexBind | NewDevice | UAPIListen | IpcSet | call_newDefaultRouteMonitor | dev_Up | routeMonitor_start | watcher_Configure |
  SetConfiguration | SetAdapterState |
  watcher_Destroy | routeMonitor_Destroy | uapi_Close | dev_Close | nativeTun_Close | adapter_Close | call_removeWSTLSFiles | changes svc_State

type_synonym trace = "(call \<times> bool) list"

record environment =
  fails :: "trace \<Rightarrow> call \<Rightarrow> go_error option"
  loaded :: Config
  StartedAtBoot :: bool
  scmLocked :: bool
  adminKey :: "(string \<Rightarrow> nat option) option"

text \<open>A value of the registry key of the administrator, which may be absent, as may the key.\<close>

definition AdminBool :: "environment \<Rightarrow> string \<Rightarrow> bool" where
  "AdminBool E name = (case Option.bind (adminKey E) (\<lambda>key. key name) of None \<Rightarrow> False | Some val \<Rightarrow> val \<noteq> 0)"

text \<open>The variables of \<open>Execute\<close>.\<close>

record exec =
  tr :: trace
  serviceState :: svc_State
  watcher :: bool
  adapter :: bool
  nativeTun :: bool
  dev :: bool
  uapi :: bool
  routeMonitor :: bool
  removeWSTLSFiles :: bool
  config :: "Config option"
  err :: "go_error option"
  serviceError :: services_Error

definition invoke :: "environment \<Rightarrow> call \<Rightarrow> exec \<Rightarrow> go_error option \<times> exec" where
  "invoke E c x = (let r = fails E (tr x) c in (r, x\<lparr>tr := tr x @ [(c, r = None)]\<rparr>))"

text \<open>A call whose result is not looked at, or which has none.\<close>

definition perform :: "call \<Rightarrow> exec \<Rightarrow> exec" where
  "perform c x = x\<lparr>tr := tr x @ [(c, True)]\<rparr>"

text \<open>\<open>v, err = f(); if err != nil { serviceError = code; return }\<close>: \<open>Inl\<close> is the return, \<open>acquired\<close> the assignment to \<open>v\<close>.\<close>

definition acquire :: "environment \<Rightarrow> call \<Rightarrow> services_Error \<Rightarrow> (exec \<Rightarrow> exec) \<Rightarrow> (exec, unit, unit) eprog" where
  "acquire E c code acquired x =
     (case invoke E c x of
        (None, x) \<Rightarrow> (Inr (), acquired (x\<lparr>err := None\<rparr>))
      | (Some e, x) \<Rightarrow> (Inl (), x\<lparr>err := Some e, serviceError := code\<rparr>))"

definition must :: "environment \<Rightarrow> call \<Rightarrow> services_Error \<Rightarrow> (exec, unit, unit) eprog" where
  "must E c code = acquire E c code (\<lambda>x. x)"

definition act :: "(exec \<Rightarrow> exec) \<Rightarrow> (exec, unit, unit) eprog" where
  "act f x = (Inr (), f x)"

text \<open>An empty command is not run, and none is unless the administrator allows it.\<close>

definition runScriptCommand :: "environment \<Rightarrow> string \<Rightarrow> exec \<Rightarrow> go_error option \<times> exec" where
  "runScriptCommand E command x =
     (if command = [] then (None, x)
      else if \<not> AdminBool E ''DangerousScriptExecution'' then (None, x)
      else invoke E (StartProcess command) x)"

definition script :: "environment \<Rightarrow> string \<Rightarrow> (exec, unit, unit) eprog" where
  "script E command x =
     (case runScriptCommand E command x of
        (None, x) \<Rightarrow> (Inr (), x\<lparr>err := None\<rparr>)
      | (Some e, x) \<Rightarrow> (Inl (), x\<lparr>err := Some e, serviceError := ErrorRunScript\<rparr>))"

section \<open>Execute\<close>

text \<open>Fifteen attempts, more than one only when the system just booted.\<close>

fun createLoop :: "environment \<Rightarrow> call \<Rightarrow> nat \<Rightarrow> exec \<Rightarrow> go_error option \<times> exec" where
  "createLoop E c 0 x = (None, x)"
| "createLoop E c (Suc n) x =
     (let (r, x) = invoke E c x in if r = None \<or> \<not> StartedAtBoot E \<or> n = 0 then (r, x) else createLoop E c n x)"

definition createAdapter :: "environment \<Rightarrow> call \<Rightarrow> (exec \<Rightarrow> exec) \<Rightarrow> (exec, unit, unit) eprog" where
  "createAdapter E c acquired x =
     (case createLoop E c 15 x of
        (None, x) \<Rightarrow> (Inr (), acquired (x\<lparr>err := None\<rparr>))
      | (Some e, x) \<Rightarrow> (Inl (), x\<lparr>err := Some (Wrapped ''Error creating adapter'' e), serviceError := ErrorCreateNetworkAdapter\<rparr>))"

definition setLogging :: "environment \<Rightarrow> (exec, unit, unit) eprog" where
  "setLogging E x =
     (case invoke E SetLogging x of
        (None, x) \<Rightarrow> (Inr (), x\<lparr>err := None\<rparr>)
      | (Some e, x) \<Rightarrow> (Inl (), x\<lparr>err := Some (Wrapped ''Error enabling adapter logging'' e), serviceError := ErrorCreateNetworkAdapter\<rparr>))"

definition loadConfig :: "environment \<Rightarrow> (exec, unit, unit) eprog" where
  "loadConfig E =
     pbind (must E call_LogFile ErrorRingloggerOpen) (\<lambda>_.
     pbind (must E InitGlobalLogger ErrorRingloggerOpen) (\<lambda>_.
     pbind (acquire E call_LoadFromPath ErrorLoadConfiguration (\<lambda>x. x\<lparr>config := Some (DeduplicateNetworkEntries (loaded E))\<rparr>)) (\<lambda>_.
       acquire E call_PrepareWSTLSFiles ErrorLoadConfiguration (\<lambda>x. x\<lparr>removeWSTLSFiles := True\<rparr>))))"

definition announceAtBoot :: "environment \<Rightarrow> exec \<Rightarrow> exec" where
  "announceAtBoot E x = (if StartedAtBoot E \<and> scmLocked E then perform (changes Running) (x\<lparr>serviceState := Running\<rparr>) else x)"

definition createDevice :: "environment \<Rightarrow> Config \<Rightarrow> (exec, unit, unit) eprog" where
  "createDevice E conf =
     (if HasWebSocketPeers conf then createAdapter E CreateTUN (\<lambda>x. x\<lparr>nativeTun := True\<rparr>)
      else pbind (createAdapter E CreateAdapter (\<lambda>x. x\<lparr>adapter := True\<rparr>)) (\<lambda>_. setLogging E))"

definition startUserspace :: "environment \<Rightarrow> (exec, unit, unit) eprog" where
  "startUserspace E =
     pbind (must E NewMultiplexBind ErrorDeviceSetConfig) (\<lambda>_.
     pbind (act (\<lambda>x. perform NewDevice (x\<lparr>dev := True\<rparr>))) (\<lambda>_.
     pbind (acquire E UAPIListen ErrorUAPIListen (\<lambda>x. x\<lparr>uapi := True\<rparr>)) (\<lambda>_.
     pbind (must E IpcSet ErrorDeviceSetConfig) (\<lambda>_.
     pbind (acquire E call_newDefaultRouteMonitor ErrorBindSocketsToDefaultRoutes (\<lambda>x. x\<lparr>routeMonitor := True\<rparr>)) (\<lambda>_.
     pbind (must E dev_Up ErrorDeviceBringUp) (\<lambda>_.
     pbind (must E routeMonitor_start ErrorBindSocketsToDefaultRoutes) (\<lambda>_.
       act (perform watcher_Configure))))))))"

definition startKernel :: "environment \<Rightarrow> (exec, unit, unit) eprog" where
  "startKernel E =
     pbind (must E SetConfiguration ErrorDeviceSetConfig) (\<lambda>_.
     pbind (must E SetAdapterState ErrorDeviceBringUp) (\<lambda>_.
       act (perform watcher_Configure)))"

definition startUp :: "environment \<Rightarrow> (exec, unit, unit) eprog" where
  "startUp E =
     pbind (loadConfig E) (\<lambda>_.
     let conf = DeduplicateNetworkEntries (loaded E) in
     pbind (act (announceAtBoot E)) (\<lambda>_.
     pbind (acquire E watchInterface ErrorSetNetConfig (\<lambda>x. x\<lparr>watcher := True\<rparr>)) (\<lambda>_.
     pbind (must E call_ResolveEndpoints ErrorDNSLookup) (\<lambda>_.
     pbind (createDevice E conf) (\<lambda>_.
     pbind (script E (PreUp (cInterface conf))) (\<lambda>_.
     pbind (must E call_enableFirewall ErrorFirewall) (\<lambda>_.
     pbind (must E DropAllPrivileges ErrorDropPrivileges) (\<lambda>_.
     pbind (\<lambda>x. if nativeTun x then startUserspace E x else startKernel E x) (\<lambda>_.
     pbind (script E (PostUp (cInterface conf))) (\<lambda>_.
       act (\<lambda>x. perform (changes (serviceState x)) x)))))))))))"

text \<open>What the loop at the end of \<open>Execute\<close> receives; it runs until one of them makes it return.\<close>

datatype svc_input = DeviceWait | Stop | Shutdown | Interrogate svc_State | OtherRequest nat | WatcherStarted | WatcherError services_Error go_error

fun serve :: "svc_input list \<Rightarrow> bool \<Rightarrow> exec \<Rightarrow> bool \<times> exec" where
  "serve [] started x = (False, x)"
| "serve (i # is) started x =
     (case i of
        DeviceWait \<Rightarrow> if dev x then (True, x) else serve is started x
      | Stop \<Rightarrow> (True, x)
      | Shutdown \<Rightarrow> (True, x)
      | Interrogate CurrentStatus \<Rightarrow> serve is started (perform (changes CurrentStatus) x)
      | OtherRequest _ \<Rightarrow> serve is started x
      | WatcherStarted \<Rightarrow>
          if started then serve is started x
          else serve is True (perform (changes Running) (x\<lparr>serviceState := Running\<rparr>))
      | WatcherError code e \<Rightarrow> (True, x\<lparr>serviceError := code, err := Some e\<rparr>))"

definition ifSet :: "bool \<Rightarrow> (exec \<Rightarrow> exec) \<Rightarrow> exec \<Rightarrow> exec" where
  "ifSet b f x = (if b then f x else x)"

text \<open>The deferred function.\<close>

definition release :: "exec \<Rightarrow> exec" where
  "release x =
     (let x = ifSet (watcher x) (perform watcher_Destroy) x;
          x = ifSet (routeMonitor x) (perform routeMonitor_Destroy) x;
          x = ifSet (uapi x) (perform uapi_Close) x;
          x = (if dev x then perform dev_Close x else ifSet (nativeTun x) (perform nativeTun_Close) x);
          x = ifSet (adapter x) (perform adapter_Close) x
      in ifSet (removeWSTLSFiles x) (perform call_removeWSTLSFiles) x)"

definition deferred :: "environment \<Rightarrow> exec \<Rightarrow> (bool \<times> nat) \<times> exec" where
  "deferred E x =
     (let code = DetermineErrorCode (err x) (serviceError x);
          logErr = CombineErrors (err x) (serviceError x);
          x = perform (changes StopPending) (x\<lparr>serviceState := StopPending\<rparr>);
          up = (adapter x \<or> nativeTun x) \<and> config x \<noteq> None;
          (logErr, x) = (if logErr = None \<and> up then runScriptCommand E (PreDown (cInterface (the (config x)))) x else (logErr, x));
          x = release x;
          x = (if logErr = None \<and> up then snd (runScriptCommand E (PostDown (cInterface (the (config x)))) x) else x)
      in (code, x))"

definition initial :: exec where
  "initial = \<lparr>tr = [(changes StartPending, True)], serviceState = StartPending, watcher = False, adapter = False, nativeTun = False, dev = False,
     uapi = False, routeMonitor = False, removeWSTLSFiles = False, config = None, err = None, serviceError = ErrorSuccess\<rparr>"

text \<open>The result is None while the service runs.\<close>

definition Execute :: "environment \<Rightarrow> svc_input list \<Rightarrow> (bool \<times> nat) option \<times> exec" where
  "Execute E inputs =
     (case startUp E initial of
        (Inl _, x) \<Rightarrow> (let (code, x) = deferred E x in (Some code, x))
      | (Inr _, x) \<Rightarrow>
          (case serve inputs False x of
             (True, x) \<Rightarrow> (let (code, x) = deferred E x in (Some code, x))
           | (False, x) \<Rightarrow> (None, x)))"

section \<open>The order of the calls\<close>

text \<open>The calls that let traffic flow.\<close>

definition startsTraffic :: "call \<Rightarrow> bool" where
  "startsTraffic c \<longleftrightarrow> c \<in> {IpcSet, call_newDefaultRouteMonitor, dev_Up, routeMonitor_start, watcher_Configure, SetConfiguration, SetAdapterState}"

definition shielded :: "trace \<Rightarrow> bool" where
  "shielded t \<longleftrightarrow> (call_enableFirewall, True) \<in> set t \<and> (DropAllPrivileges, True) \<in> set t"

definition guarded :: "trace \<Rightarrow> bool" where
  "guarded t \<longleftrightarrow> (\<forall>i < length t. startsTraffic (fst (t ! i)) \<longrightarrow> shielded (take i t))"

lemma guarded_snoc: "guarded (t @ [(c, ok)]) \<longleftrightarrow> guarded t \<and> (startsTraffic c \<longrightarrow> shielded t)"
  by (auto simp: guarded_def nth_append less_Suc_eq)

lemma shielded_snoc: "shielded t \<Longrightarrow> shielded (t @ [e])"
  by (simp add: shielded_def)

text \<open>Predicates on the trace alone.\<close>

definition on_trace :: "(trace \<Rightarrow> bool) \<Rightarrow> exec \<Rightarrow> bool" where
  "on_trace I x \<longleftrightarrow> I (tr x)"

lemma acquire_trace:
  assumes "\<And>t. I t \<Longrightarrow> J (t @ [(c, True)])" "\<And>t. I t \<Longrightarrow> K (t @ [(c, False)])" "\<And>x. tr (f x) = tr x"
  shows "pvalid (on_trace I) (acquire E c code f) (\<lambda>_. on_trace J) (\<lambda>_. on_trace K)"
  using assms by (auto simp: pvalid_def acquire_def invoke_def Let_def on_trace_def split: option.split)

lemma act_trace: "(\<And>x. I (tr x) \<Longrightarrow> J (tr (f x))) \<Longrightarrow> pvalid (on_trace I) (act f) (\<lambda>_. on_trace J) E"
  by (simp add: pvalid_def act_def on_trace_def)

text \<open>A predicate that survives every call but the ones it is about.\<close>

lemma createLoop_trace:
  assumes "\<And>t ok. I t \<Longrightarrow> I (t @ [(c, ok)])" "I (tr x)" "createLoop E c n x = (r, x')"
  shows "I (tr x')"
  using assms(2,3)
proof (induction n arbitrary: x)
  case (Suc n)
  obtain r1 x1 where i: "invoke E c x = (r1, x1)" by fastforce
  then have "I (tr x1)" using assms(1) [OF Suc.prems(1)] by (auto simp: invoke_def Let_def)
  with Suc i show ?case by (auto split: if_splits)
qed simp

lemma createAdapter_trace:
  assumes "\<And>t ok. I t \<Longrightarrow> I (t @ [(c, ok)])" "\<And>x. tr (f x) = tr x"
  shows "pvalid (on_trace I) (createAdapter E c f) (\<lambda>_. on_trace I) (\<lambda>_. on_trace I)"
proof (rule pvalidI)
  fix x u x'
  assume "on_trace I x" "createAdapter E c f x = (Inr u, x')"
  then show "on_trace I x'" using createLoop_trace [of I c, OF assms(1)] assms(2)
    by (auto simp: createAdapter_def on_trace_def split: prod.splits option.splits)
next
  fix x u x'
  assume "on_trace I x" "createAdapter E c f x = (Inl u, x')"
  then show "on_trace I x'" using createLoop_trace [of I c, OF assms(1)] assms(2)
    by (auto simp: createAdapter_def on_trace_def split: prod.splits option.splits)
qed

abbreviation safe :: "trace \<Rightarrow> bool" where "safe t \<equiv> guarded t \<and> shielded t"

lemma must_guarded: "\<not> startsTraffic c \<Longrightarrow> pvalid (on_trace guarded) (must E c code) (\<lambda>_. on_trace guarded) (\<lambda>_. on_trace guarded)"
  and acquire_guarded: "\<not> startsTraffic c \<Longrightarrow> (\<And>x. tr (f x) = tr x) \<Longrightarrow>
    pvalid (on_trace guarded) (acquire E c code f) (\<lambda>_. on_trace guarded) (\<lambda>_. on_trace guarded)"
  by (unfold must_def, (intro acquire_trace; simp add: guarded_snoc)+)

lemma must_safe: "pvalid (on_trace safe) (must E c code) (\<lambda>_. on_trace safe) (\<lambda>_. on_trace guarded)"
  and acquire_safe: "(\<And>x. tr (f x) = tr x) \<Longrightarrow> pvalid (on_trace safe) (acquire E c code f) (\<lambda>_. on_trace safe) (\<lambda>_. on_trace guarded)"
  by (unfold must_def, (intro acquire_trace; simp add: guarded_snoc shielded_snoc)+)

lemma script_cases:
  "script E command = (if command \<noteq> [] \<and> AdminBool E ''DangerousScriptExecution'' then must E (StartProcess command) ErrorRunScript
     else act (\<lambda>x. x\<lparr>err := None\<rparr>))"
  by (rule ext) (simp add: script_def runScriptCommand_def must_def acquire_def act_def)

lemma script_guarded: "pvalid (on_trace guarded) (script E command) (\<lambda>_. on_trace guarded) (\<lambda>_. on_trace guarded)"
  and script_safe: "pvalid (on_trace safe) (script E command) (\<lambda>_. on_trace safe) (\<lambda>_. on_trace guarded)"
  by (auto simp: script_cases startsTraffic_def intro!: act_trace must_guarded must_safe)

lemma setLogging_guarded: "pvalid (on_trace guarded) (setLogging E) (\<lambda>_. on_trace guarded) (\<lambda>_. on_trace guarded)"
  by (auto simp: pvalid_def setLogging_def invoke_def Let_def on_trace_def guarded_snoc startsTraffic_def split: option.split)

lemma perform_safe: "pvalid (on_trace safe) (act (perform c)) (\<lambda>_. on_trace safe) Q"
  "pvalid (on_trace safe) (act (\<lambda>x. perform c (g x))) (\<lambda>_. on_trace safe) Q" if "\<And>x. tr (g x) = tr x"
  using that by (auto intro!: act_trace simp: perform_def guarded_snoc shielded_snoc)

lemmas bind_guarded = pvalid_bind [where P = "on_trace guarded" and R = "\<lambda>_. on_trace guarded" and E = "\<lambda>_. on_trace guarded"]
lemmas bind_safe = pvalid_bind [where P = "on_trace safe" and R = "\<lambda>_. on_trace safe" and E = "\<lambda>_. on_trace guarded"]

lemma startUp_guarded: "pvalid (on_trace guarded) (startUp E) (\<lambda>_. on_trace guarded) (\<lambda>_. on_trace guarded)"
proof -
  have load: "pvalid (on_trace guarded) (loadConfig E) (\<lambda>_. on_trace guarded) (\<lambda>_. on_trace guarded)"
    unfolding loadConfig_def by (intro bind_guarded must_guarded acquire_guarded) (simp_all add: startsTraffic_def)
  have boot: "pvalid (on_trace guarded) (act (announceAtBoot E)) (\<lambda>_. on_trace guarded) (\<lambda>_. on_trace guarded)"
    by (rule act_trace) (auto simp: announceAtBoot_def perform_def guarded_snoc startsTraffic_def)
  have create: "pvalid (on_trace guarded) (createDevice E conf) (\<lambda>_. on_trace guarded) (\<lambda>_. on_trace guarded)" for conf
    unfolding createDevice_def
    by (auto intro!: bind_guarded createAdapter_trace setLogging_guarded simp: guarded_snoc startsTraffic_def)
  have firewall: "pvalid (on_trace guarded) (must E call_enableFirewall ErrorFirewall)
      (\<lambda>_. on_trace (\<lambda>t. guarded t \<and> (call_enableFirewall, True) \<in> set t)) (\<lambda>_. on_trace guarded)"
    unfolding must_def by (rule acquire_trace) (auto simp: guarded_snoc startsTraffic_def)
  have privileges: "pvalid (on_trace (\<lambda>t. guarded t \<and> (call_enableFirewall, True) \<in> set t)) (must E DropAllPrivileges ErrorDropPrivileges)
      (\<lambda>_. on_trace safe) (\<lambda>_. on_trace guarded)"
    unfolding must_def by (rule acquire_trace) (auto simp: guarded_snoc shielded_def startsTraffic_def)
  have "pvalid (on_trace safe) (startUserspace E) (\<lambda>_. on_trace safe) (\<lambda>_. on_trace guarded)"
    "pvalid (on_trace safe) (startKernel E) (\<lambda>_. on_trace safe) (\<lambda>_. on_trace guarded)"
    unfolding startUserspace_def startKernel_def by (auto intro!: bind_safe must_safe acquire_safe perform_safe)
  then have start: "pvalid (on_trace safe) (\<lambda>x. if nativeTun x then startUserspace E x else startKernel E x) (\<lambda>_. on_trace safe) (\<lambda>_. on_trace guarded)"
    by (simp add: pvalid_def)
  have announce: "pvalid (on_trace safe) (act (\<lambda>x. perform (changes (serviceState x)) x)) (\<lambda>_. on_trace guarded) (\<lambda>_. on_trace guarded)"
    by (rule act_trace) (simp add: perform_def guarded_snoc)
  show ?thesis unfolding startUp_def Let_def
    by (intro bind_guarded [OF load] bind_guarded [OF boot] bind_guarded [OF acquire_guarded] bind_guarded [OF must_guarded] bind_guarded [OF create]
        bind_guarded [OF script_guarded] pvalid_bind [OF firewall] pvalid_bind [OF privileges] bind_safe [OF start] bind_safe [OF script_safe] announce)
      (simp_all add: startsTraffic_def)
qed

lemma serve_trace:
  assumes "\<And>t st. I t \<Longrightarrow> I (t @ [(changes st, True)])"
  shows "I (tr x) \<Longrightarrow> serve is started x = (stopped, x') \<Longrightarrow> I (tr x')"
proof (induction "is" started x rule: serve.induct)
  case (2 i "is" started x)
  then show ?case using assms by (cases i) (auto simp: perform_def split: if_splits)
qed simp

lemma serve_guarded: "guarded (tr x) \<Longrightarrow> serve is started x = (stopped, x') \<Longrightarrow> guarded (tr x')"
  by (rule serve_trace [of guarded]) (simp_all add: guarded_snoc startsTraffic_def)

lemma perform_guarded: "\<not> startsTraffic c \<Longrightarrow> guarded (tr (perform c x)) = guarded (tr x)"
  by (simp add: perform_def guarded_snoc)

lemma runScriptCommand_guarded: "guarded (tr x) \<Longrightarrow> guarded (tr (snd (runScriptCommand E command x)))"
  by (auto simp: runScriptCommand_def invoke_def Let_def guarded_snoc startsTraffic_def)

lemma release_guarded: "guarded (tr x) \<Longrightarrow> guarded (tr (release x))"
  by (simp add: release_def ifSet_def Let_def perform_guarded startsTraffic_def)

lemma deferred_guarded:
  assumes "guarded (tr x)"
  shows "guarded (tr (snd (deferred E x)))"
proof -
  define y where "y = perform (changes StopPending) (x\<lparr>serviceState := StopPending\<rparr>)"
  have y: "guarded (tr y)" using assms by (simp add: y_def perform_def guarded_snoc startsTraffic_def)
  have r: "guarded (tr (release (snd (runScriptCommand E command y))))" "guarded (tr (release y))" for command
    using runScriptCommand_guarded [OF y] y by (simp_all add: release_guarded)
  show ?thesis
    unfolding deferred_def Let_def y_def [symmetric] using r runScriptCommand_guarded
    by (auto split: prod.split) (metis snd_conv)+
qed

text \<open>C1. No traffic flows outside the protection: in every run of the service, whichever calls fail and whatever requests arrive, the
  device is configured, brought up, given routes or handed to the interface watcher only after the firewall has been enabled and the privileges
  have been dropped, both with success.\<close>

theorem Execute_guarded: "guarded (tr (snd (Execute E inputs)))"
proof -
  obtain r x where x: "startUp E initial = (r, x)" by fastforce
  have i: "on_trace guarded initial" by (simp add: on_trace_def guarded_def initial_def startsTraffic_def)
  have "guarded (tr x)"
  proof (cases r)
    case (Inl u)
    from pvalid_Inl [OF startUp_guarded i x [unfolded Inl]] show ?thesis by (simp add: on_trace_def)
  next
    case (Inr u)
    from pvalid_Inr [OF startUp_guarded i x [unfolded Inr]] show ?thesis by (simp add: on_trace_def)
  qed
  moreover obtain stopped x' where s: "serve inputs False x = (stopped, x')" by fastforce
  ultimately have g: "guarded (tr x)" "guarded (tr x')" using serve_guarded by blast+
  have "snd (Execute E inputs) \<in> {x', snd (deferred E x), snd (deferred E x')}"
    by (cases r; cases stopped) (simp_all add: Execute_def x s Let_def split: prod.split)
  with g deferred_guarded show ?thesis by auto
qed

section \<open>Resources\<close>

definition isRelease :: "call \<Rightarrow> bool" where
  "isRelease c \<longleftrightarrow> c \<in> {watcher_Destroy, routeMonitor_Destroy, uapi_Close, dev_Close, nativeTun_Close, adapter_Close, call_removeWSTLSFiles}"

definition isAcquire :: "call \<Rightarrow> bool" where
  "isAcquire c \<longleftrightarrow> c \<in> {watchInterface, call_newDefaultRouteMonitor, UAPIListen, NewDevice, CreateTUN, CreateAdapter, call_PrepareWSTLSFiles}"

text \<open>The variables of \<open>Execute\<close> tell what has been acquired, and nothing has been released yet; \<open>b\<close> says that there is a tun device.\<close>

definition books :: "bool \<Rightarrow> exec \<Rightarrow> bool" where
  "books b x \<longleftrightarrow> (b \<longrightarrow> nativeTun x) \<and> (dev x \<longrightarrow> nativeTun x) \<and> (\<forall>c ok. isRelease c \<longrightarrow> (c, ok) \<notin> set (tr x)) \<and>
     (watcher x \<longleftrightarrow> (watchInterface, True) \<in> set (tr x)) \<and> (routeMonitor x \<longleftrightarrow> (call_newDefaultRouteMonitor, True) \<in> set (tr x)) \<and>
     (uapi x \<longleftrightarrow> (UAPIListen, True) \<in> set (tr x)) \<and> (dev x \<longleftrightarrow> (NewDevice, True) \<in> set (tr x)) \<and>
     (nativeTun x \<longleftrightarrow> (CreateTUN, True) \<in> set (tr x)) \<and> (adapter x \<longleftrightarrow> (CreateAdapter, True) \<in> set (tr x)) \<and>
     (removeWSTLSFiles x \<longleftrightarrow> (call_PrepareWSTLSFiles, True) \<in> set (tr x))"

lemma books_tr:
  assumes "books b x" "\<not> isRelease c" "ok \<longrightarrow> \<not> isAcquire c"
  shows "books b (x\<lparr>tr := tr x @ [(c, ok)]\<rparr>)"
  using assms by (auto simp: books_def isAcquire_def)

lemma books_vars [simp]:
  "books b (x\<lparr>err := e\<rparr>) = books b x" "books b (x\<lparr>serviceError := c\<rparr>) = books b x" "books b (x\<lparr>config := k\<rparr>) = books b x"
  "books b (x\<lparr>serviceState := st\<rparr>) = books b x"
  by (simp_all add: books_def)

lemma acquire_books:
  assumes "\<not> isRelease c" "\<And>x. books b x \<Longrightarrow> books b' (f (x\<lparr>tr := tr x @ [(c, True)]\<rparr>\<lparr>err := None\<rparr>))"
  shows "pvalid (books b) (acquire E c code f) (\<lambda>_. books b') (\<lambda>_. books b)"
proof (rule pvalidI)
  fix x u x'
  assume "books b x" "acquire E c code f x = (Inr u, x')"
  then show "books b' x'" using assms(2) [of x] by (auto simp: acquire_def invoke_def Let_def split: option.splits)
next
  fix x u x'
  assume *: "books b x" "acquire E c code f x = (Inl u, x')"
  then have "\<exists>e. x' = x\<lparr>tr := tr x @ [(c, False)]\<rparr>\<lparr>err := Some e\<rparr>\<lparr>serviceError := code\<rparr>"
    by (auto simp: acquire_def invoke_def Let_def split: option.splits)
  with books_tr [OF *(1) assms(1), of False] show "books b x'" by (auto simp del: exec.update_convs)
qed

lemma must_books: "\<not> isRelease c \<Longrightarrow> \<not> isAcquire c \<Longrightarrow> pvalid (books b) (must E c code) (\<lambda>_. books b) (\<lambda>_. books b)"
  unfolding must_def by (rule acquire_books) (simp_all add: books_tr)

lemma acquired_books:
  assumes "books b x"
  shows "books b (x\<lparr>tr := tr x @ [(watchInterface, True)]\<rparr>\<lparr>watcher := True\<rparr>)"
    "books b (x\<lparr>tr := tr x @ [(call_newDefaultRouteMonitor, True)]\<rparr>\<lparr>routeMonitor := True\<rparr>)"
    "books b (x\<lparr>tr := tr x @ [(UAPIListen, True)]\<rparr>\<lparr>uapi := True\<rparr>)"
    "books b (x\<lparr>tr := tr x @ [(CreateAdapter, True)]\<rparr>\<lparr>adapter := True\<rparr>)"
    "books True (x\<lparr>tr := tr x @ [(CreateTUN, True)]\<rparr>\<lparr>nativeTun := True\<rparr>)"
    "books b (x\<lparr>tr := tr x @ [(call_PrepareWSTLSFiles, True)]\<rparr>\<lparr>removeWSTLSFiles := True\<rparr>)"
    "b \<Longrightarrow> books b (x\<lparr>dev := True\<rparr>\<lparr>tr := tr x @ [(NewDevice, True)]\<rparr>)"
  using assms by (auto simp: books_def isRelease_def)

lemma createLoop_books:
  assumes "books b x" "createLoop E c n x = (r, x')" "\<not> isRelease c" "0 < n"
  shows "\<exists>y. books b y \<and> x' = y\<lparr>tr := tr y @ [(c, r = None)]\<rparr>"
  using assms(1,2,4)
proof (induction n arbitrary: x)
  case (Suc n)
  show ?case
  proof (cases "fails E (tr x) c = None \<or> \<not> StartedAtBoot E \<or> n = 0")
    case True
    with Suc.prems show ?thesis by (intro exI [of _ x]) (auto simp: invoke_def Let_def)
  next
    case False
    with Suc.prems have "createLoop E c n (x\<lparr>tr := tr x @ [(c, False)]\<rparr>) = (r, x')" by (auto simp: invoke_def Let_def split: if_splits)
    from Suc.IH [OF books_tr [OF Suc.prems(1) assms(3)] this] False show ?thesis by simp
  qed
qed simp

lemma createAdapter_books:
  assumes "\<not> isRelease c" "\<And>x. books b x \<Longrightarrow> books b' (f (x\<lparr>tr := tr x @ [(c, True)]\<rparr>\<lparr>err := None\<rparr>))"
  shows "pvalid (books b) (createAdapter E c f) (\<lambda>_. books b') (\<lambda>_. books b)"
proof (rule pvalidI)
  fix x u x'
  assume b: "books b x" and "createAdapter E c f x = (Inr u, x')"
  then obtain z where z: "createLoop E c 15 x = (None, z)" "x' = f (z\<lparr>err := None\<rparr>)"
    by (auto simp: createAdapter_def split: prod.splits option.splits)
  from createLoop_books [OF b z(1) assms(1)] obtain y where "books b y" "z = y\<lparr>tr := tr y @ [(c, True)]\<rparr>" by auto
  with z(2) assms(2) show "books b' x'" by simp
next
  fix x u x'
  assume b: "books b x" and "createAdapter E c f x = (Inl u, x')"
  then obtain z e where z: "createLoop E c 15 x = (Some e, z)"
    "x' = z\<lparr>err := Some (Wrapped ''Error creating adapter'' e)\<rparr>\<lparr>serviceError := ErrorCreateNetworkAdapter\<rparr>"
    by (auto simp: createAdapter_def split: prod.splits option.splits)
  from createLoop_books [OF b z(1) assms(1)] obtain y where "books b y" "z = y\<lparr>tr := tr y @ [(c, False)]\<rparr>" by auto
  then have "books b z" using books_tr assms(1) by blast
  then show "books b x'" unfolding z(2) by (simp only: books_vars)
qed

lemma perform_books: "books b x \<Longrightarrow> \<not> isRelease c \<Longrightarrow> \<not> isAcquire c \<Longrightarrow> books b (perform c x)"
  by (simp add: perform_def books_tr)

lemma act_books: "(\<And>x. books b x \<Longrightarrow> books b (f x)) \<Longrightarrow> pvalid (books b) (act f) (\<lambda>_. books b) (\<lambda>_. books b)"
  by (simp add: pvalid_def act_def)

lemma script_books: "pvalid (books b) (script E command) (\<lambda>_. books b) (\<lambda>_. books b)"
  by (auto simp: script_cases isRelease_def isAcquire_def intro!: act_books must_books)

lemma setLogging_books: "pvalid (books b) (setLogging E) (\<lambda>_. books b) (\<lambda>_. books b)"
proof -
  have s: "\<not> isRelease SetLogging" "ok \<longrightarrow> \<not> isAcquire SetLogging" for ok by (simp_all add: isRelease_def isAcquire_def)
  show ?thesis
  proof (rule pvalidI)
    fix x u x'
    assume "books b x" "setLogging E x = (Inr u, x')"
    then show "books b x'" using books_tr [OF _ s, of b x True] by (auto simp: setLogging_def invoke_def Let_def split: option.splits)
  next
    fix x u x'
    assume *: "books b x" "setLogging E x = (Inl u, x')"
    then have "\<exists>e. x' = x\<lparr>tr := tr x @ [(SetLogging, False)]\<rparr>\<lparr>err := Some e\<rparr>\<lparr>serviceError := ErrorCreateNetworkAdapter\<rparr>"
      by (auto simp: setLogging_def invoke_def Let_def split: option.splits)
    with books_tr [OF *(1) s, of False] show "books b x'" by (auto simp del: exec.update_convs)
  qed
qed

lemmas bind_books = pvalid_bind [where P = "books False" and R = "\<lambda>_. books False" and E = "\<lambda>_. books False"]
lemmas bind_tun_books = pvalid_bind [where P = "books True" and R = "\<lambda>_. books True" and E = "\<lambda>_. books True"]

lemma startUserspace_books: "pvalid (books True) (startUserspace E) (\<lambda>_. books True) (\<lambda>_. books True)"
proof -
  have uapi: "pvalid (books True) (acquire E UAPIListen code (\<lambda>x. x\<lparr>uapi := True\<rparr>)) (\<lambda>_. books True) (\<lambda>_. books True)" for code
    by (rule acquire_books) (use acquired_books(3) in \<open>auto simp: isRelease_def books_def\<close>)
  have monitor: "pvalid (books True) (acquire E call_newDefaultRouteMonitor code (\<lambda>x. x\<lparr>routeMonitor := True\<rparr>)) (\<lambda>_. books True) (\<lambda>_. books True)" for code
    by (rule acquire_books) (use acquired_books(2) in \<open>auto simp: isRelease_def books_def\<close>)
  have device: "pvalid (books True) (act (\<lambda>x. perform NewDevice (x\<lparr>dev := True\<rparr>))) (\<lambda>_. books True) (\<lambda>_. books True)"
    by (rule act_books) (use acquired_books(7) in \<open>simp add: perform_def\<close>)
  have configure: "pvalid (books True) (act (perform watcher_Configure)) (\<lambda>_. books True) (\<lambda>_. books True)"
    by (rule act_books) (simp add: perform_books isRelease_def isAcquire_def)
  show ?thesis unfolding startUserspace_def
    by (intro bind_tun_books must_books uapi monitor device configure) (simp_all add: isRelease_def isAcquire_def)
qed

lemma startKernel_books: "pvalid (books False) (startKernel E) (\<lambda>_. books False) (\<lambda>_. books False)"
  unfolding startKernel_def
  by (intro bind_books must_books act_books perform_books) (simp_all add: isRelease_def isAcquire_def)

lemma pvalid_cond:
  "pvalid (\<lambda>s. P s \<and> b s) m Q F \<Longrightarrow> pvalid (\<lambda>s. P s \<and> \<not> b s) n Q F \<Longrightarrow> pvalid P (\<lambda>s. if b s then m s else n s) Q F"
  by (simp add: pvalid_def)

lemma startDevice_books:
  "pvalid (books False) (\<lambda>x. if nativeTun x then startUserspace E x else startKernel E x) (\<lambda>_. books False) (\<lambda>_. books False)"
proof (rule pvalid_cond)
  show "pvalid (\<lambda>x. books False x \<and> nativeTun x) (startUserspace E) (\<lambda>_. books False) (\<lambda>_. books False)"
    by (rule pvalid_weaken [OF startUserspace_books]) (auto simp: books_def)
  show "pvalid (\<lambda>x. books False x \<and> \<not> nativeTun x) (startKernel E) (\<lambda>_. books False) (\<lambda>_. books False)"
    by (rule pvalid_pre [OF startKernel_books]) simp
qed

lemma loadConfig_books: "pvalid (books False) (loadConfig E) (\<lambda>_. books False) (\<lambda>_. books False)"
proof -
  have files: "pvalid (books False) (acquire E call_PrepareWSTLSFiles code (\<lambda>x. x\<lparr>removeWSTLSFiles := True\<rparr>)) (\<lambda>_. books False) (\<lambda>_. books False)" for code
    by (rule acquire_books) (auto simp: isRelease_def books_def)
  have load: "pvalid (books False) (acquire E call_LoadFromPath code (\<lambda>x. x\<lparr>config := k\<rparr>)) (\<lambda>_. books False) (\<lambda>_. books False)" for code k
    by (rule acquire_books) (simp_all add: books_tr isRelease_def isAcquire_def)
  show ?thesis unfolding loadConfig_def
    by (intro bind_books must_books files load) (simp_all add: isRelease_def isAcquire_def)
qed

lemma createDevice_books: "pvalid (books False) (createDevice E conf) (\<lambda>_. books False) (\<lambda>_. books False)"
proof -
  have tun: "pvalid (books False) (createAdapter E CreateTUN (\<lambda>x. x\<lparr>nativeTun := True\<rparr>)) (\<lambda>_. books False) (\<lambda>_. books False)"
    by (rule createAdapter_books) (auto simp: isRelease_def books_def)
  have adapter: "pvalid (books False) (createAdapter E CreateAdapter (\<lambda>x. x\<lparr>adapter := True\<rparr>)) (\<lambda>_. books False) (\<lambda>_. books False)"
    by (rule createAdapter_books) (auto simp: isRelease_def books_def)
  show ?thesis unfolding createDevice_def using tun adapter setLogging_books by (auto intro!: bind_books)
qed

lemma startUp_books: "pvalid (books False) (startUp E) (\<lambda>_. books False) (\<lambda>_. books False)"
proof -
  have boot: "pvalid (books False) (act (announceAtBoot E)) (\<lambda>_. books False) (\<lambda>_. books False)"
    by (rule act_books) (simp add: announceAtBoot_def perform_books isRelease_def isAcquire_def)
  have watch: "pvalid (books False) (acquire E watchInterface code (\<lambda>x. x\<lparr>watcher := True\<rparr>)) (\<lambda>_. books False) (\<lambda>_. books False)" for code
    by (rule acquire_books) (auto simp: isRelease_def books_def)
  have announce: "pvalid (books False) (act (\<lambda>x. perform (changes (serviceState x)) x)) (\<lambda>_. books False) (\<lambda>_. books False)"
    by (rule act_books) (simp add: perform_books isRelease_def isAcquire_def)
  show ?thesis unfolding startUp_def Let_def
    by (intro bind_books loadConfig_books boot watch must_books createDevice_books script_books startDevice_books announce)
      (simp_all add: isRelease_def isAcquire_def)
qed

lemma serve_books: "books b x \<Longrightarrow> serve is started x = (stopped, x') \<Longrightarrow> books b x'"
proof (induction "is" started x rule: serve.induct)
  case (2 i "is" started x)
  have c: "books b y \<Longrightarrow> books b (perform (changes st) y)" for y st by (simp add: perform_books isRelease_def isAcquire_def)
  show ?case using 2 c by (cases i) (auto split: if_splits)
qed simp

text \<open>What the deferred function adds to the trace.\<close>

definition closing :: "exec \<Rightarrow> trace" where
  "closing x = map (\<lambda>c. (c, True))
     ((if watcher x then [watcher_Destroy] else []) @ (if routeMonitor x then [routeMonitor_Destroy] else []) @
      (if uapi x then [uapi_Close] else []) @ (if dev x then [dev_Close] else if nativeTun x then [nativeTun_Close] else []) @
      (if adapter x then [adapter_Close] else []) @ (if removeWSTLSFiles x then [call_removeWSTLSFiles] else []))"

definition onlyScripts :: "trace \<Rightarrow> bool" where
  "onlyScripts t \<longleftrightarrow> (\<forall>e \<in> set t. \<exists>command. fst e = StartProcess command)"

lemma release_tr: "tr (release x) = tr x @ closing x"
  by (simp add: release_def closing_def ifSet_def perform_def Let_def)

lemma runScriptCommand_shape: "\<exists>l. snd (runScriptCommand E command x) = x\<lparr>tr := tr x @ l\<rparr> \<and> onlyScripts l"
proof (cases "command \<noteq> [] \<and> AdminBool E ''DangerousScriptExecution''")
  case True
  then have "snd (runScriptCommand E command x) = x\<lparr>tr := tr x @ [(StartProcess command, fails E (tr x) (StartProcess command) = None)]\<rparr>"
    by (simp add: runScriptCommand_def invoke_def Let_def)
  moreover have "onlyScripts [(StartProcess command, ok)]" for ok by (simp add: onlyScripts_def)
  ultimately show ?thesis by blast
next
  case False
  then show ?thesis by (intro exI [of _ "[]"]) (auto simp: runScriptCommand_def onlyScripts_def)
qed

lemma closing_tr [simp]: "closing (x\<lparr>tr := t\<rparr>) = closing x" "closing (x\<lparr>serviceState := st\<rparr>) = closing x"
  by (simp_all add: closing_def)

lemma deferred_cases:
  assumes y: "y = perform (changes StopPending) (x\<lparr>serviceState := StopPending\<rparr>)"
  shows "\<exists>z command'. (z = y \<or> (\<exists>command. z = snd (runScriptCommand E command y))) \<and>
      (snd (deferred E x) = release z \<or> snd (deferred E x) = snd (runScriptCommand E command' (release z)))"
proof (cases "CombineErrors (err x) (serviceError x) = None \<and> (adapter y \<or> nativeTun y) \<and> config y \<noteq> None")
  case True
  obtain r z where z: "runScriptCommand E (PreDown (cInterface (the (config y)))) y = (r, z)" by fastforce
  have "snd (deferred E x) = (if r = None then snd (runScriptCommand E (PostDown (cInterface (the (config (release z))))) (release z)) else release z)"
    unfolding deferred_def Let_def y [symmetric] using True z by simp
  moreover have "z = snd (runScriptCommand E (PreDown (cInterface (the (config y)))) y)" using z by simp
  ultimately show ?thesis by (cases "r = None") auto
next
  case False
  then have "snd (deferred E x) = release y" unfolding deferred_def Let_def y [symmetric] by auto
  then show ?thesis by blast
qed

lemma deferred_shape:
  "\<exists>l l'. tr (snd (deferred E x)) = tr x @ (changes StopPending, True) # l @ closing x @ l' \<and> onlyScripts l \<and> onlyScripts l'"
proof -
  define y where "y = perform (changes StopPending) (x\<lparr>serviceState := StopPending\<rparr>)"
  have y: "tr y = tr x @ [(changes StopPending, True)]" "closing y = closing x" by (simp_all add: y_def perform_def)
  have n: "onlyScripts []" by (simp add: onlyScripts_def)
  have after: "\<exists>l'. tr (snd (runScriptCommand E command z)) = tr z @ l' \<and> onlyScripts l'" for command z
    using runScriptCommand_shape [of E command z] by auto
  have before: "\<exists>l. snd (runScriptCommand E command y) = y\<lparr>tr := tr y @ l\<rparr> \<and> onlyScripts l" for command
    by (rule runScriptCommand_shape)
  from deferred_cases [OF y_def] obtain z command' where z: "z = y \<or> (\<exists>command. z = snd (runScriptCommand E command y))"
    "snd (deferred E x) = release z \<or> snd (deferred E x) = snd (runScriptCommand E command' (release z))" by blast
  have "\<exists>l. z = y\<lparr>tr := tr y @ l\<rparr> \<and> onlyScripts l"
  proof (cases "z = y")
    case True
    with n show ?thesis by (intro exI [of _ "[]"]) simp
  next
    case False
    with z(1) obtain command where "z = snd (runScriptCommand E command y)" by blast
    with before [of command] show ?thesis by simp
  qed
  then obtain l where l: "z = y\<lparr>tr := tr y @ l\<rparr>" "onlyScripts l" by blast
  have "\<exists>l'. tr (snd (deferred E x)) = tr (release z) @ l' \<and> onlyScripts l'"
    using z(2)
  proof
    assume "snd (deferred E x) = release z"
    with n show ?thesis by (intro exI [of _ "[]"]) simp
  qed (use after [of command' "release z"] in simp)
  then obtain l' where l': "tr (snd (deferred E x)) = tr (release z) @ l'" "onlyScripts l'" by blast
  have "tr (snd (deferred E x)) = tr x @ (changes StopPending, True) # l @ closing x @ l'"
    using l' l y by (simp add: release_tr)
  with l(2) l'(2) show ?thesis by blast
qed

text \<open>Every resource that \<open>start\<close> acquired with \<open>a\<close> is released with one of \<open>rs\<close> in \<open>stop\<close>, exactly once.\<close>

definition releasedOnce :: "trace \<Rightarrow> trace \<Rightarrow> call \<Rightarrow> call list \<Rightarrow> bool" where
  "releasedOnce start stop a rs \<longleftrightarrow> length (filter (\<lambda>e. fst e \<in> set rs) stop) = of_bool ((a, True) \<in> set start)"

lemma onlyScripts_filter: "onlyScripts t \<Longrightarrow> list_all isRelease rs \<Longrightarrow> filter (\<lambda>e. fst e \<in> set rs) t = []"
proof -
  assume t: "onlyScripts t" "list_all isRelease rs"
  have "\<not> isRelease (StartProcess command)" for command by (simp add: isRelease_def)
  with t show ?thesis unfolding onlyScripts_def filter_empty_conv list_all_iff by metis
qed

lemma books_closing:
  assumes "books False x" "stop = (changes StopPending, True) # l @ closing x @ l'" "onlyScripts l" "onlyScripts l'"
  shows "releasedOnce (tr x) stop watchInterface [watcher_Destroy]" "releasedOnce (tr x) stop call_newDefaultRouteMonitor [routeMonitor_Destroy]"
    "releasedOnce (tr x) stop UAPIListen [uapi_Close]" "releasedOnce (tr x) stop NewDevice [dev_Close]"
    "releasedOnce (tr x) stop CreateTUN [dev_Close, nativeTun_Close]" "releasedOnce (tr x) stop CreateAdapter [adapter_Close]"
    "releasedOnce (tr x) stop call_PrepareWSTLSFiles [call_removeWSTLSFiles]"
proof -
  have f: "filter (\<lambda>e. fst e \<in> set rs) stop = filter (\<lambda>e. fst e \<in> set rs) (closing x)" if "list_all isRelease rs" for rs
    using that assms(2) onlyScripts_filter [OF assms(3) that] onlyScripts_filter [OF assms(4) that] by (auto simp: list_all_iff isRelease_def)
  have b: "releasedOnce (tr x) stop a rs \<longleftrightarrow> length (filter (\<lambda>e. fst e \<in> set rs) (closing x)) = of_bool ((a, True) \<in> set (tr x))"
    if "list_all isRelease rs" for a rs
    using f [OF that] by (simp add: releasedOnce_def)
  have v: "dev x \<longrightarrow> nativeTun x" "watcher x \<longleftrightarrow> (watchInterface, True) \<in> set (tr x)"
    "routeMonitor x \<longleftrightarrow> (call_newDefaultRouteMonitor, True) \<in> set (tr x)" "uapi x \<longleftrightarrow> (UAPIListen, True) \<in> set (tr x)"
    "dev x \<longleftrightarrow> (NewDevice, True) \<in> set (tr x)" "nativeTun x \<longleftrightarrow> (CreateTUN, True) \<in> set (tr x)"
    "adapter x \<longleftrightarrow> (CreateAdapter, True) \<in> set (tr x)" "removeWSTLSFiles x \<longleftrightarrow> (call_PrepareWSTLSFiles, True) \<in> set (tr x)"
    using assms(1) unfolding books_def by blast+
  show "releasedOnce (tr x) stop watchInterface [watcher_Destroy]" "releasedOnce (tr x) stop call_newDefaultRouteMonitor [routeMonitor_Destroy]"
    "releasedOnce (tr x) stop UAPIListen [uapi_Close]" "releasedOnce (tr x) stop NewDevice [dev_Close]"
    "releasedOnce (tr x) stop CreateTUN [dev_Close, nativeTun_Close]" "releasedOnce (tr x) stop CreateAdapter [adapter_Close]"
    "releasedOnce (tr x) stop call_PrepareWSTLSFiles [call_removeWSTLSFiles]"
    using v(1) by (auto simp: b closing_def isRelease_def v(2-8) [symmetric])
qed

lemma Execute_books:
  assumes "Execute E inputs = (Some code, x')"
  shows "\<exists>x. books False x \<and> x' = snd (deferred E x)"
proof -
  obtain r x where x: "startUp E initial = (r, x)" by fastforce
  have i: "books False initial" by (simp add: books_def initial_def isRelease_def)
  show ?thesis
  proof (cases r)
    case (Inl u)
    from pvalid_Inl [OF startUp_books i x [unfolded Inl]] assms x Inl show ?thesis
      by (intro exI [of _ x]) (auto simp: Execute_def Let_def split: prod.splits)
  next
    case (Inr u)
    obtain stopped y where s: "serve inputs False x = (stopped, y)" by fastforce
    have "books False x" using pvalid_Inr [OF startUp_books i x [unfolded Inr]] .
    from serve_books [OF this s] assms x Inr s show ?thesis
      by (intro exI [of _ y]) (auto simp: Execute_def Let_def split: prod.splits bool.splits)
  qed
qed

lemma closing_releases: "e \<in> set (closing x) \<Longrightarrow> isRelease (fst e)"
  by (auto simp: closing_def isRelease_def split: if_splits)

lemma onlyScripts_neutral: "onlyScripts l \<Longrightarrow> e \<in> set l \<Longrightarrow> \<not> isAcquire (fst e) \<and> \<not> isRelease (fst e)"
  by (auto simp: onlyScripts_def isAcquire_def isRelease_def)

lemma release_not_acquire: "isRelease c \<Longrightarrow> \<not> isAcquire c"
  by (auto simp: isAcquire_def isRelease_def)

text \<open>C6. The service leaves nothing behind: when \<open>Execute\<close> returns, wherever it failed, its run is a start in which nothing is released and a
  stop in which nothing is acquired, and the stop releases what the start acquired, exactly once, and nothing else: the interface watcher, the
  default route monitor, the named pipe, the device with its tun adapter or the tun adapter alone, the driver's adapter and the TLS files.\<close>

theorem Execute_releases:
  assumes "Execute E inputs = (Some code, x)"
  shows "\<exists>start stop. tr x = start @ stop \<and>
    (\<forall>e \<in> set start. \<not> isRelease (fst e)) \<and> (\<forall>e \<in> set stop. \<not> isAcquire (fst e)) \<and>
    releasedOnce start stop watchInterface [watcher_Destroy] \<and>
    releasedOnce start stop call_newDefaultRouteMonitor [routeMonitor_Destroy] \<and>
    releasedOnce start stop UAPIListen [uapi_Close] \<and>
    releasedOnce start stop NewDevice [dev_Close] \<and>
    releasedOnce start stop CreateTUN [dev_Close, nativeTun_Close] \<and>
    releasedOnce start stop CreateAdapter [adapter_Close] \<and>
    releasedOnce start stop call_PrepareWSTLSFiles [call_removeWSTLSFiles]"
proof -
  from Execute_books [OF assms] obtain y where y: "books False y" "x = snd (deferred E y)" by blast
  from deferred_shape [of E y] obtain l l' where
    l: "tr x = tr y @ (changes StopPending, True) # l @ closing y @ l'" "onlyScripts l" "onlyScripts l'" unfolding y(2) by blast
  define stop where "stop = (changes StopPending, True) # l @ closing y @ l'"
  have "\<forall>e \<in> set (tr y). \<not> isRelease (fst e)"
    using y(1) unfolding books_def by (metis prod.collapse)
  moreover have "\<not> isAcquire (fst e)" if e: "e \<in> set stop" for e
  proof -
    from e consider "e = (changes StopPending, True)" | "e \<in> set l" | "e \<in> set (closing y)" | "e \<in> set l'" by (auto simp: stop_def)
    then show ?thesis
      using onlyScripts_neutral [OF l(2)] onlyScripts_neutral [OF l(3)] closing_releases release_not_acquire
      by cases (simp_all add: isAcquire_def [of "changes StopPending"])
  qed
  moreover note books_closing [OF y(1) stop_def l(2,3)] l(1) [folded stop_def]
  ultimately show ?thesis by blast
qed

text \<open>A tunnel over WebSocket with a script, whose device does not come up.\<close>

definition sample_service :: environment where
  "sample_service = \<lparr>fails = (\<lambda>t c. if c = dev_Up then Some (Errno 5) else None),
     loaded = zeroConfig\<lparr>cInterface := zeroInterface\<lparr>PreUp := ''run''\<rparr>, Peers := [zeroPeer\<lparr>WSMode := WSModeWebSocket\<rparr>]\<rparr>,
     StartedAtBoot = False, scmLocked = False, adminKey = None\<rparr>"

lemma Execute_releases_witness:
  "fst (Execute sample_service [Stop]) = Some (False, 5) \<and>
   (CreateTUN, True) \<in> set (tr (snd (Execute sample_service [Stop]))) \<and>
   (\<exists>start stop. tr (snd (Execute sample_service [Stop])) = start @ stop \<and> releasedOnce start stop CreateTUN [dev_Close, nativeTun_Close])"
proof -
  have c: "fst (Execute sample_service [Stop]) = Some (False, 5)" by code_simp
  have t: "(CreateTUN, True) \<in> set (tr (snd (Execute sample_service [Stop])))" by code_simp
  have "Execute sample_service [Stop] = (Some (False, 5), snd (Execute sample_service [Stop]))" using c by (metis prod.collapse)
  from Execute_releases [OF this] c t show ?thesis by blast
qed

section \<open>Scripts\<close>

definition noScripts :: "trace \<Rightarrow> bool" where
  "noScripts t \<longleftrightarrow> (\<forall>command ok. (StartProcess command, ok) \<notin> set t)"

lemma noScripts_snoc: "noScripts (t @ [(c, ok)]) \<longleftrightarrow> noScripts t \<and> (\<forall>command. c \<noteq> StartProcess command)"
  by (auto simp: noScripts_def)

lemma must_noScripts:
  "\<forall>command. c \<noteq> StartProcess command \<Longrightarrow> pvalid (on_trace noScripts) (must E c code) (\<lambda>_. on_trace noScripts) (\<lambda>_. on_trace noScripts)"
  and acquire_noScripts: "\<forall>command. c \<noteq> StartProcess command \<Longrightarrow> (\<And>x. tr (f x) = tr x) \<Longrightarrow>
    pvalid (on_trace noScripts) (acquire E c code f) (\<lambda>_. on_trace noScripts) (\<lambda>_. on_trace noScripts)"
  by (unfold must_def, (intro acquire_trace; simp add: noScripts_snoc)+)

lemma perform_noScripts:
  "\<forall>command. c \<noteq> StartProcess command \<Longrightarrow> noScripts (tr (perform c x)) = noScripts (tr x)"
  by (simp add: perform_def noScripts_snoc)

lemmas bind_noScripts = pvalid_bind [where P = "on_trace noScripts" and R = "\<lambda>_. on_trace noScripts" and E = "\<lambda>_. on_trace noScripts"]

lemma startUp_noScripts:
  assumes "\<not> AdminBool E ''DangerousScriptExecution''"
  shows "pvalid (on_trace noScripts) (startUp E) (\<lambda>_. on_trace noScripts) (\<lambda>_. on_trace noScripts)"
proof -
  have load: "pvalid (on_trace noScripts) (loadConfig E) (\<lambda>_. on_trace noScripts) (\<lambda>_. on_trace noScripts)"
    unfolding loadConfig_def by (intro bind_noScripts must_noScripts acquire_noScripts) simp_all
  have boot: "pvalid (on_trace noScripts) (act (announceAtBoot E)) (\<lambda>_. on_trace noScripts) (\<lambda>_. on_trace noScripts)"
    by (rule act_trace) (simp add: announceAtBoot_def perform_noScripts)
  have logging: "pvalid (on_trace noScripts) (setLogging E) (\<lambda>_. on_trace noScripts) (\<lambda>_. on_trace noScripts)"
    by (auto simp: pvalid_def setLogging_def invoke_def Let_def on_trace_def noScripts_snoc split: option.split)
  have create: "pvalid (on_trace noScripts) (createDevice E conf) (\<lambda>_. on_trace noScripts) (\<lambda>_. on_trace noScripts)" for conf
    unfolding createDevice_def by (auto intro!: bind_noScripts createAdapter_trace logging simp: noScripts_snoc)
  have "pvalid (on_trace noScripts) (startUserspace E) (\<lambda>_. on_trace noScripts) (\<lambda>_. on_trace noScripts)"
    unfolding startUserspace_def by (intro bind_noScripts must_noScripts acquire_noScripts act_trace) (simp_all add: perform_noScripts)
  moreover have "pvalid (on_trace noScripts) (startKernel E) (\<lambda>_. on_trace noScripts) (\<lambda>_. on_trace noScripts)"
    unfolding startKernel_def by (intro bind_noScripts must_noScripts act_trace) (simp_all add: perform_noScripts)
  ultimately have start: "pvalid (on_trace noScripts) (\<lambda>x. if nativeTun x then startUserspace E x else startKernel E x)
      (\<lambda>_. on_trace noScripts) (\<lambda>_. on_trace noScripts)" by (simp add: pvalid_def)
  have script: "pvalid (on_trace noScripts) (script E command) (\<lambda>_. on_trace noScripts) (\<lambda>_. on_trace noScripts)" for command
    using assms by (auto simp: script_cases intro!: act_trace)
  have announce: "pvalid (on_trace noScripts) (act (\<lambda>x. perform (changes (serviceState x)) x)) (\<lambda>_. on_trace noScripts) (\<lambda>_. on_trace noScripts)"
    by (rule act_trace) (simp add: perform_noScripts)
  show ?thesis unfolding startUp_def Let_def
    by (intro bind_noScripts load boot must_noScripts acquire_noScripts create script start announce) simp_all
qed

lemma serve_noScripts: "noScripts (tr x) \<Longrightarrow> serve is started x = (stopped, x') \<Longrightarrow> noScripts (tr x')"
  by (rule serve_trace [of noScripts]) (simp_all add: noScripts_snoc)

lemma deferred_noScripts:
  assumes "\<not> AdminBool E ''DangerousScriptExecution''" "noScripts (tr x)"
  shows "noScripts (tr (snd (deferred E x)))"
proof -
  define y where "y = perform (changes StopPending) (x\<lparr>serviceState := StopPending\<rparr>)"
  have s: "snd (runScriptCommand E command z) = z" for command z using assms(1) by (simp add: runScriptCommand_def)
  have "noScripts (tr y)" using assms(2) by (simp add: y_def perform_def noScripts_snoc)
  then have "noScripts (tr (release y))"
    using closing_releases [of "(StartProcess command, ok)" y for command ok]
    by (auto simp: release_tr noScripts_def isRelease_def)
  moreover have "snd (deferred E x) = release y" using deferred_cases [OF y_def, of E] by (auto simp: s)
  ultimately show ?thesis by simp
qed

text \<open>C14. A configuration cannot run commands on its own: unless the administrator has set \<open>DangerousScriptExecution\<close> in the registry, no run of
  the service starts a script, neither on the way up nor in the deferred function.\<close>

theorem Execute_no_scripts:
  assumes "\<not> AdminBool E ''DangerousScriptExecution''"
  shows "(StartProcess command, ok) \<notin> set (tr (snd (Execute E inputs)))"
proof -
  obtain r x where x: "startUp E initial = (r, x)" by fastforce
  have i: "on_trace noScripts initial" by (simp add: on_trace_def noScripts_def initial_def)
  have n: "noScripts (tr x)"
  proof (cases r)
    case (Inl u)
    from pvalid_Inl [OF startUp_noScripts [OF assms] i x [unfolded Inl]] show ?thesis by (simp add: on_trace_def)
  next
    case (Inr u)
    from pvalid_Inr [OF startUp_noScripts [OF assms] i x [unfolded Inr]] show ?thesis by (simp add: on_trace_def)
  qed
  obtain stopped x' where s: "serve inputs False x = (stopped, x')" by fastforce
  have n': "noScripts (tr x')" by (rule serve_noScripts [OF n s])
  have "snd (Execute E inputs) \<in> {x', snd (deferred E x), snd (deferred E x')}"
    by (cases r; cases stopped) (simp_all add: Execute_def x s Let_def split: prod.split)
  then have "noScripts (tr (snd (Execute E inputs)))"
    using n' deferred_noScripts [OF assms n] deferred_noScripts [OF assms n'] by auto
  then show ?thesis by (simp add: noScripts_def)
qed

lemma Execute_no_scripts_witness:
  "PreUp (cInterface (loaded sample_service)) = ''run'' \<and>
   (StartProcess ''run'', True) \<notin> set (tr (snd (Execute sample_service [Stop]))) \<and>
   (StartProcess ''run'', True) \<in> set (tr (snd (Execute (sample_service\<lparr>adminKey := Some (\<lambda>_. Some 1)\<rparr>) [Stop])))"
proof -
  have "\<not> AdminBool sample_service ''DangerousScriptExecution''" by (simp add: AdminBool_def sample_service_def)
  from Execute_no_scripts [OF this] have "(StartProcess ''run'', True) \<notin> set (tr (snd (Execute sample_service [Stop])))" .
  moreover have "(StartProcess ''run'', True) \<in> set (tr (snd (Execute (sample_service\<lparr>adminKey := Some (\<lambda>_. Some 1)\<rparr>) [Stop])))" by code_simp
  moreover have "PreUp (cInterface (loaded sample_service)) = ''run''" by (simp add: sample_service_def)
  ultimately show ?thesis by simp
qed

end
