(* ===== verification/Spec2Isabelle.thy ===== *)
theory Spec2Isabelle
  imports ConfUAPI DriverConf MTUMonitor AddressConfig Ringlogger WSTLSReader Store TunnelService
begin

text \<open>
  A verification development for WireGuard for Windows with WebSocket transports.

  \<^bold>\<open>The program.\<close> A tunnel is a configuration file in a protected directory. The tunnel service loads it, creates a network adapter,
  enables a firewall, hands the configuration to a device (the kernel driver, or the userspace device when a peer is reached over
  WebSocket) and keeps addresses, routes, MTU and host routes of the servers up to date while the network
  changes. All processes log into one shared ring. The manager and the user interface start and show tunnels.

  \<^bold>\<open>Conventions.\<close> A Go string or byte slice is a \<open>char list\<close>, an integer of fixed width a word, a struct a record with the fields of the
  source, a result with an error the sum \<open>go_error + 'a\<close> and a panic the error \<open>Panic\<close>. Code that calls the platform is a program over the
  platform's state (\<open>GoProg\<close>), reasoned about with Hoare triples that have a postcondition for the error too. The platform and third-party code are
  records of functions passed as arguments; what the code relies on is a named predicate of laws, and every theorem with such a
  hypothesis is applied to a concrete platform by its witness. Log output, sleeping and translation of messages are left out throughout.

  \<^bold>\<open>Foundations.\<close> \<open>Prelude\<close> (results, loops, number systems), \<open>GoStrings\<close>, \<open>GoNumbers\<close>, \<open>GoCodec\<close>, \<open>NetIP\<close>, \<open>GoPath\<close> (what the
  program uses of Go's library) and \<open>GoProg\<close> (programs and triples).

  \<^bold>\<open>Configuration files\<close> (\<open>conf/config.go\<close>, \<open>name.go\<close>, \<open>parser.go\<close>, \<open>writer.go\<close>).
  \<^item> \<open>Conf\<close>, \<open>ConfName\<close>: the data, deduplication, redaction, conflicts, tunnel names and their order.
  \<^item> \<open>ConfParser\<close>, \<open>ConfWf\<close>, \<open>ConfSound\<close>: the parser as a fold of a step over the lines; it never dereferences a nil peer and establishes the
    invariant \<open>wf_config\<close>.
  \<^item> \<open>ConfWriter\<close>, \<open>ConfRoundtrip\<close>, \<open>ConfPeers\<close>, \<open>ConfReload\<close>: what is written for a well-formed configuration parses back to it, comments included.

  \<^bold>\<open>Devices.\<close> \<open>ConfUAPI\<close> (\<open>conf/uapi.go\<close>): the text for the userspace device carries no injected line, and its reply is read as the stored
  configuration. \<open>DriverConf\<close>, \<open>WinSockaddr\<close> (\<open>driver/configuration_windows.go\<close>, the driver halves of \<open>parser.go\<close> and \<open>writer.go\<close>): the memory block
  byte by byte, with offsets for pointers; it reads back without leaving the block, and the loop that fetches it ends once the
  size is stable.

  \<^bold>\<open>Firewall\<close> (\<open>tunnel/firewall\<close>). \<open>FirewallRules\<close> has every rule as the filters it adds, \<open>Firewall\<close> the transaction around them, \<open>FirewallVerdict\<close>
  the decision the filters give for a packet: all rules are installed or none, and with the restricting rules only the
  permitted traffic passes.

  \<^bold>\<open>Network setup.\<close> \<open>WinIPCfg\<close> (\<open>winipcfg/luid.go\<close>) and \<open>AddressConfig\<close> (\<open>tunnel/addressconfig.go\<close>): a successful setup leaves exactly the configured
  addresses, routes, metric, MTU and DNS, and no setup touches another interface. \<open>ChangeHandler\<close> (the three change handlers of
  \<open>winipcfg\<close>): the locale \<open>registry\<close> states the contract of a set of callbacks, interpreted for each of the three; a registered callback is called exactly once per
  change.

  \<^bold>\<open>Monitors.\<close> \<open>RouteMonitor\<close>, \<open>RouteMonitorRuns\<close> (\<open>tunnel/defaultroutemonitor.go\<close>): runs as a step relation with other programs adding and deleting
  routes; the monitor removes only its own routes, keeps the servers routed and reacts within a bounded time. \<open>MTUMonitor\<close> (\<open>tunnel/mtumonitor.go\<close>): the
  same interface is found, and the MTU is within its bounds without wrap-around.

  \<^bold>\<open>Log\<close> (\<open>ringlogger/ringlogger.go\<close>). \<open>Ringlogger\<close>: the ring refines a list that keeps the last 2048 entries, and a reader that keeps up gets each entry exactly
  once.

  \<^bold>\<open>Store.\<close> \<open>WSTLSNames\<close>, \<open>WSTLS\<close>, \<open>WSTLSReader\<close> (\<open>conf/wstls.go\<close>): names of TLS files, collecting, validating and reading them, only from local drives.
  \<open>Storage\<close> (\<open>filewriter_windows.go\<close>, \<open>dpapi_windows.go\<close>, parts of \<open>path_windows.go\<close>) and \<open>Store\<close> (\<open>store.go\<close>, \<open>wstls_store.go\<close>): files are written completely or not at all,
  and a saved tunnel loads again.

  \<^bold>\<open>Service\<close> (\<open>tunnel/service.go\<close>, \<open>scriptrunner.go\<close>, \<open>services/errors.go\<close>, \<open>conf/admin_windows.go\<close>). \<open>TunnelService\<close> composes the components: a run of \<open>Execute\<close> is the trace of
  its calls, any of which may fail. In every run traffic starts only behind the firewall and without
  privileges, everything acquired is released exactly once, and no script runs unless the administrator allows it.

  \<^bold>\<open>Loops.\<close> Nothing uses fuel. Recursion is structural or proved to terminate: the search for a free TLS file name ends because a candidate number of more than 64
  digits no longer fits a name, and \<open>uniqueWSTLSFileName_terminates\<close> bounds it by the number of names taken. The loop that fetches the driver's configuration depends on the
  driver; it is a partial function, None when it does not return, and \<open>Configuration_returns\<close> shows that it returns. \<open>serve\<close> runs over the finite list of events received so far
  and gives False while the service still runs.

  \<^bold>\<open>Not modelled.\<close>
  \<^item> Concurrency inside one operation: methods that hold a mutex are one step, and the races between writers of the ring, which
    the source accepts, are outside the model, as are the watchdog and the accept loop of the service.
  \<^item> \<open>conf\<close>: \<open>Key.Public\<close> (curve arithmetic of the library), \<open>WSTLSZipFileReader\<close>, \<open>PrepareWSTLSFiles\<close>, the access control lists of the root directory, migration, the
    store watcher, and the retries of \<open>dnsresolver_windows.go\<close>, whose calls the service treats as calls that may fail.
  \<^item> \<open>tunnel\<close>: the goroutines of \<open>interfacewatcher.go\<close>, the hash of \<open>deterministicguid.go\<close> and the warnings of \<open>pitfalls.go\<close>.
  \<^item> \<open>manager\<close>, \<open>ui\<close>, \<open>updater\<close>, \<open>elevate\<close>, \<open>driver/memmod\<close>, \<open>wintun\<close>, \<open>version\<close>, \<open>main.go\<close>: calls of Windows, of a toolkit or of native libraries
    with little state of their own; \<open>zgotext.go\<close> is generated, and \<open>installer\<close> is not part of the Go program.
\<close>

end
